(* ===== verification/Exa_Prelude.thy ===== *)
theory Exa_Prelude
  imports Complex_Main "HOL-Library.AList" "HOL-Library.Multiset"
    "HOL-Library.List_Lexorder" "HOL-Library.Char_ord"
begin

text \<open>
  Shared vocabulary of the ExaServe development.

  \<^item> Python values that arrive untyped (decoded JSON, keyword arguments the code inspects with
    \<^verbatim>\<open>isinstance\<close>) are values of \<open>pyval\<close>; a Python float is a real number or one of the
    three non-finite values. Rounding of floats is not modelled.
  \<^item> A Python \<^verbatim>\<open>dict\<close> is an association list in insertion order: \<open>AList.update\<close> replaces in
    place or appends, as \<^verbatim>\<open>d[k] = v\<close> does, and \<open>AList.delete\<close> is \<^verbatim>\<open>del d[k]\<close>.
  \<^item> A chain of \<^verbatim>\<open>if bad: raise E\<close> statements is \<open>first_failure\<close> on the list of its
    (condition, error) pairs: the first condition that holds decides the error.
  \<^item> Text is a list of ASCII characters. Decimal rendering of integers is \<open>show_int\<close>.
\<close>

section \<open>Collections of rewrite rules\<close>

named_theorems py_simps \<open>readings of the Python value predicates\<close>
named_theorems check_simps \<open>characterisations of validation chains\<close>

section \<open>Python values\<close>

datatype pyfloat = Finite real | PosInf | NegInf | NotANumber

datatype pyval =
    PNone
  | PBool bool
  | PInt int
  | PFloat pyfloat
  | PStr string
  | PList "pyval list"
  | PTuple "pyval list"
  | PDict "(pyval \<times> pyval) list"
  | PObj string

text \<open>\<^verbatim>\<open>isinstance(v, int) and not isinstance(v, bool)\<close>, with the integer read off.\<close>

fun as_int :: "pyval \<Rightarrow> int option" where
  "as_int (PInt i) = Some i"
| "as_int _ = None"

fun as_str :: "pyval \<Rightarrow> string option" where
  "as_str (PStr s) = Some s"
| "as_str _ = None"

fun as_bool :: "pyval \<Rightarrow> bool option" where
  "as_bool (PBool b) = Some b"
| "as_bool _ = None"

text \<open>
  \<^verbatim>\<open>float(v)\<close> raises \<^verbatim>\<open>OverflowError\<close>: an integer that rounds beyond the largest double, \<open>2\<^sup>1\<^sup>0\<^sup>2\<^sup>4 - 2\<^sup>9\<^sup>7\<^sup>1\<close>.
  The integers from half a unit above it on do.
\<close>

definition float_limit :: int where
  "float_limit = 2 ^ 1024 - 2 ^ 970"

definition float_overflows :: "pyval \<Rightarrow> bool" where
  "float_overflows v = (case v of PInt i \<Rightarrow> float_limit \<le> \<bar>i\<bar> | _ \<Rightarrow> False)"

lemma float_overflows_simps [simp]:
  "\<not> float_overflows (PFloat x)" "\<not> float_overflows PNone" "\<not> float_overflows (PStr s)"
  by (simp_all add: float_overflows_def)

text \<open>
  A finite number that is not a \<^verbatim>\<open>bool\<close>: the test \<^verbatim>\<open>not isinstance(v, bool) and isinstance(v,
  (int, float)) and math.isfinite(float(v))\<close>, with the value read off. An integer is read exactly. Where
  \<^verbatim>\<open>float(v)\<close> raises there is no value; the clients test \<^const>\<open>float_overflows\<close> at that point and fail with the
  exception the code lets escape.
\<close>

fun as_number :: "pyval \<Rightarrow> real option" where
  "as_number (PInt i) = (if float_overflows (PInt i) then None else Some (of_int i))"
| "as_number (PFloat (Finite r)) = Some r"
| "as_number _ = None"

text \<open>\<^verbatim>\<open>isinstance(v, int) and not bool and v >= lo\<close>.\<close>

definition int_at_least :: "int \<Rightarrow> pyval \<Rightarrow> bool" where
  "int_at_least lo v = (case as_int v of None \<Rightarrow> False | Some i \<Rightarrow> lo \<le> i)"

text \<open>\<^verbatim>\<open>isinstance(v, str) and v\<close>.\<close>

definition nonempty_str :: "pyval \<Rightarrow> bool" where
  "nonempty_str v = (case as_str v of None \<Rightarrow> False | Some s \<Rightarrow> s \<noteq> [])"

definition none_or_str :: "pyval \<Rightarrow> bool" where
  "none_or_str v = (v = PNone \<or> as_str v \<noteq> None)"

definition nonneg_number :: "pyval \<Rightarrow> bool" where
  "nonneg_number v = (case as_number v of None \<Rightarrow> False | Some r \<Rightarrow> 0 \<le> r)"

lemma as_int_Some [simp]: "as_int v = Some i \<longleftrightarrow> v = PInt i"
  by (cases v) auto

lemma as_str_Some [simp]: "as_str v = Some s \<longleftrightarrow> v = PStr s"
  by (cases v) auto

lemma as_bool_Some [simp]: "as_bool v = Some b \<longleftrightarrow> v = PBool b"
  by (cases v) auto

lemma int_at_least_iff [py_simps]: "int_at_least lo v \<longleftrightarrow> (\<exists>i. v = PInt i \<and> lo \<le> i)"
  by (cases v) (auto simp: int_at_least_def)

lemma nonempty_str_iff [py_simps]: "nonempty_str v \<longleftrightarrow> (\<exists>s. v = PStr s \<and> s \<noteq> [])"
  by (cases v) (auto simp: nonempty_str_def)

lemma none_or_str_iff [py_simps]: "none_or_str v \<longleftrightarrow> v = PNone \<or> (\<exists>s. v = PStr s)"
  by (cases v) (auto simp: none_or_str_def)

lemma nonneg_number_iff [py_simps]:
  "nonneg_number v \<longleftrightarrow> (\<exists>i. v = PInt i \<and> 0 \<le> i \<and> i < float_limit) \<or> (\<exists>r. v = PFloat (Finite r) \<and> 0 \<le> r)"
proof (cases v)
  case (PFloat x)
  then show ?thesis by (cases x) (auto simp: nonneg_number_def)
qed (auto simp: nonneg_number_def float_overflows_def)

lemma nonneg_number_no_overflow: "nonneg_number v \<Longrightarrow> \<not> float_overflows v"
  by (auto simp: nonneg_number_iff float_overflows_def)

section \<open>Validation chains\<close>

fun first_failure :: "(bool \<times> 'e) list \<Rightarrow> 'e option" where
  "first_failure [] = None"
| "first_failure ((bad, e) # cs) = (if bad then Some e else first_failure cs)"

lemma first_failure_None [check_simps]:
  "first_failure cs = None \<longleftrightarrow> (\<forall>(bad, e) \<in> set cs. \<not> bad)"
  by (induction cs rule: first_failure.induct) auto

lemma first_failure_append:
  "first_failure (cs @ ds) =
     (case first_failure cs of None \<Rightarrow> first_failure ds | Some e \<Rightarrow> Some e)"
  by (induction cs rule: first_failure.induct) auto

lemma first_failure_append_None [simp]:
  "first_failure (cs @ ds) = None \<longleftrightarrow> first_failure cs = None \<and> first_failure ds = None"
  by (simp add: first_failure_append split: option.splits)

lemma first_failure_Some_in: "first_failure cs = Some e \<Longrightarrow> (True, e) \<in> set cs"
  by (induction cs rule: first_failure.induct) (auto split: if_splits)

text \<open>Run a validation chain, then return the value it guards.\<close>

definition checked :: "(bool \<times> 'e) list \<Rightarrow> 'a \<Rightarrow> 'e + 'a" where
  "checked cs x = (case first_failure cs of Some e \<Rightarrow> Inl e | None \<Rightarrow> Inr x)"

lemma checked_Inr [check_simps]:
  "checked cs x = Inr y \<longleftrightarrow> y = x \<and> (\<forall>(bad, e) \<in> set cs. \<not> bad)"
  by (auto simp: checked_def first_failure_None [symmetric] split: option.splits)

text \<open>Sequencing of steps that may raise.\<close>

definition and_then :: "'e + 'a \<Rightarrow> ('a \<Rightarrow> 'e + 'b) \<Rightarrow> 'e + 'b" where
  "and_then r f = (case r of Inl e \<Rightarrow> Inl e | Inr x \<Rightarrow> f x)"

lemma and_then_simps [simp]: "and_then (Inl e) f = Inl e" "and_then (Inr x) f = f x"
  by (simp_all add: and_then_def)

lemma and_then_Inr [check_simps]: "and_then r f = Inr y \<longleftrightarrow> (\<exists>x. r = Inr x \<and> f x = Inr y)"
  by (cases r) auto

section \<open>Dictionaries\<close>

text \<open>Apply a function to the value stored under a key, in place.\<close>

fun adjust :: "'k \<Rightarrow> ('v \<Rightarrow> 'v) \<Rightarrow> ('k \<times> 'v) list \<Rightarrow> ('k \<times> 'v) list" where
  "adjust k f [] = []"
| "adjust k f ((k', v) # d) = (if k' = k then (k', f v) # d else (k', v) # adjust k f d)"

lemma adjust_keys [simp]: "map fst (adjust k f d) = map fst d"
  by (induction k f d rule: adjust.induct) auto

lemma adjust_length [simp]: "length (adjust k f d) = length d"
  by (induction k f d rule: adjust.induct) auto

lemma map_of_adjust: "map_of (adjust k f d) = (map_of d)(k := map_option f (map_of d k))"
  by (induction k f d rule: adjust.induct) (auto simp: fun_eq_iff)

lemma map_of_adjust_same [simp]: "map_of (adjust k f d) k = map_option f (map_of d k)"
  by (simp add: map_of_adjust)

lemma map_of_adjust_other [simp]: "k' \<noteq> k \<Longrightarrow> map_of (adjust k f d) k' = map_of d k'"
  by (simp add: map_of_adjust)

lemma adjust_adjust: "adjust k f (adjust k g d) = adjust k (\<lambda>x. f (g x)) d"
  by (induction k g d rule: adjust.induct) auto

lemma adjust_ball:
  assumes "\<forall>p \<in> set d. P p" and "\<And>v. map_of d k = Some v \<Longrightarrow> P (k, f v)"
  shows "\<forall>p \<in> set (adjust k f d). P p"
  using assms by (induction k f d rule: adjust.induct) (auto split: if_splits)

lemma in_set_adjust:
  "p \<in> set (adjust k f d) \<Longrightarrow> p \<in> set d \<or> (\<exists>v. map_of d k = Some v \<and> p = (k, f v))"
  by (induction k f d rule: adjust.induct) (auto split: if_splits)

lemma update_ball:
  "\<forall>p \<in> set d. P p \<Longrightarrow> P (k, v) \<Longrightarrow> \<forall>p \<in> set (AList.update k v d). P p"
  by (induction d) auto

lemma in_set_update: "p \<in> set (AList.update k v d) \<Longrightarrow> p \<in> set d \<or> p = (k, v)"
  by (induction d) (auto split: if_splits)

lemma in_set_delete: "p \<in> set (AList.delete k d) \<Longrightarrow> p \<in> set d"
  by (auto simp: AList.delete_eq)

lemma delete_ball: "\<forall>p \<in> set d. P p \<Longrightarrow> \<forall>p \<in> set (AList.delete k d). P p"
  by (auto simp: AList.delete_eq)

lemma map_of_map_snd: "map_of (map (\<lambda>(k, v). (k, f v)) d) k = map_option f (map_of d k)"
  by (induction d) auto

lemma map_fst_map_snd [simp]: "map fst (map (\<lambda>(k, v). (k, f v)) d) = map fst d"
  by (induction d) auto

lemma map_of_Some_distinct:
  "distinct (map fst d) \<Longrightarrow> map_of d k = Some v \<longleftrightarrow> (k, v) \<in> set d"
  by (auto dest: map_of_SomeD)

lemma map_of_eq_None_keys: "map_of d k = None \<longleftrightarrow> k \<notin> set (map fst d)"
  by (simp add: map_of_eq_None_iff)

section \<open>Lists grouped by a key\<close>

lemma distinct_concat_by_key:
  assumes "distinct (map k xs)"
    and "\<And>x. x \<in> set xs \<Longrightarrow> distinct (f x)"
    and "\<And>x y. x \<in> set xs \<Longrightarrow> y \<in> set (f x) \<Longrightarrow> g y = k x"
  shows "distinct (concat (map f xs))"
  using assms
proof (induction xs)
  case (Cons x xs)
  have "y \<notin> set (f x')" if "y \<in> set (f x)" "x' \<in> set xs" for y x'
    using Cons.prems(1) Cons.prems(3) [of x y] Cons.prems(3) [of x' y] that by (auto simp: rev_image_eqI)
  with Cons show ?case by auto
qed simp

lemma mset_split_by_owner:
  assumes "finite S" and "\<And>x. x \<in> set xs \<Longrightarrow> own x = None \<or> (\<exists>r \<in> S. own x = Some r)"
  shows "mset xs = mset (filter (\<lambda>x. own x = None) xs) +
    (\<Sum>r\<in>S. mset (filter (\<lambda>x. own x = Some r) xs))"
  using assms(2)
proof (induction xs)
  case (Cons x xs)
  show ?case
  proof (cases "own x")
    case None
    with Cons show ?thesis by simp
  next
    case (Some r)
    with Cons.prems have r: "r \<in> S" by fastforce
    have "(\<Sum>q\<in>S. mset (filter (\<lambda>x. own x = Some q) (x # xs)))
        = (\<Sum>q\<in>S. (if q = r then {#x#} else {#}) + mset (filter (\<lambda>x. own x = Some q) xs))"
      using Some by (intro sum.cong) auto
    also have "\<dots> = {#x#} + (\<Sum>q\<in>S. mset (filter (\<lambda>x. own x = Some q) xs))"
      unfolding sum.distrib using assms(1) r by simp
    finally have sum: "(\<Sum>q\<in>S. mset (filter (\<lambda>x. own x = Some q) (x # xs)))
        = {#x#} + (\<Sum>q\<in>S. mset (filter (\<lambda>x. own x = Some q) xs))" .
    have "mset xs = mset (filter (\<lambda>x. own x = None) xs) +
        (\<Sum>q\<in>S. mset (filter (\<lambda>x. own x = Some q) xs))"
      using Cons by simp
    with Some show ?thesis unfolding sum by simp
  qed
qed simp

section \<open>Substrings\<close>

text \<open>\<^verbatim>\<open>s.split(c)\<close>, \<^verbatim>\<open>s.startswith(p)\<close>, \<^verbatim>\<open>s.endswith(p)\<close> and \<^verbatim>\<open>p in s\<close>.\<close>

fun split_on :: "char \<Rightarrow> string \<Rightarrow> string list" where
  "split_on c [] = [[]]"
| "split_on c (x # xs) =
     (if x = c then [] # split_on c xs
      else case split_on c xs of [] \<Rightarrow> [[x]] | s # ss \<Rightarrow> (x # s) # ss)"

definition starts_with :: "string \<Rightarrow> string \<Rightarrow> bool" where
  "starts_with s p = (take (length p) s = p)"

fun has_sub :: "string \<Rightarrow> string \<Rightarrow> bool" where
  "has_sub [] p = (p = [])"
| "has_sub (x # xs) p = (starts_with (x # xs) p \<or> has_sub xs p)"

definition ends_with :: "string \<Rightarrow> string \<Rightarrow> bool" where
  "ends_with s p = starts_with (rev s) (rev p)"

lemma split_on_nonempty [simp]: "split_on c s \<noteq> []"
  by (induction s) (auto split: list.splits)

lemma starts_with_append: "starts_with s p \<longleftrightarrow> (\<exists>t. s = p @ t)"
  by (auto simp: starts_with_def) (metis append_take_drop_id)

section \<open>Decimal text\<close>

definition digit_char :: "nat \<Rightarrow> char" where
  "digit_char d = char_of (48 + d)"

fun show_nat :: "nat \<Rightarrow> string" where
  "show_nat n = (if n < 10 then [digit_char n] else show_nat (n div 10) @ [digit_char (n mod 10)])"

declare show_nat.simps [simp del]

definition show_int :: "int \<Rightarrow> string" where
  "show_int i = (if i < 0 then CHR ''-'' # show_nat (nat (- i)) else show_nat (nat i))"

text \<open>Reading the digits back: the text of a number determines the number.\<close>

definition read_nat :: "string \<Rightarrow> nat" where
  "read_nat s = foldl (\<lambda>a c. 10 * a + (of_char c - 48)) 0 s"

lemma of_char_digit_char: "d < 10 \<Longrightarrow> (of_char (digit_char d) :: nat) = 48 + d"
  by (simp add: digit_char_def)

lemma read_nat_show_nat [simp]: "read_nat (show_nat n) = n"
proof (induction n rule: show_nat.induct)
  case (1 n)
  show ?case
  proof (cases "n < 10")
    case True
    then show ?thesis by (subst show_nat.simps) (simp add: read_nat_def of_char_digit_char)
  next
    case False
    with "1.IH" have IH: "read_nat (show_nat (n div 10)) = n div 10" by simp
    have "read_nat (show_nat n) = 10 * (n div 10) + n mod 10"
      using False IH by (subst show_nat.simps) (simp add: read_nat_def of_char_digit_char)
    then show ?thesis by simp
  qed
qed

lemma show_nat_inject [simp]: "show_nat m = show_nat n \<longleftrightarrow> m = n"
  by (metis read_nat_show_nat)

definition is_digit_char :: "char \<Rightarrow> bool" where
  "is_digit_char c = (let n = (of_char c :: nat) in 48 \<le> n \<and> n < 58)"

lemma show_nat_digits: "c \<in> set (show_nat n) \<Longrightarrow> is_digit_char c"
proof (induction n rule: show_nat.induct)
  case (1 n)
  show ?case
  proof (cases "n < 10")
    case True
    with "1.prems" show ?thesis
      by (subst (asm) show_nat.simps) (simp add: is_digit_char_def of_char_digit_char)
  next
    case False
    with "1.prems" have "c \<in> set (show_nat (n div 10)) \<or> c = digit_char (n mod 10)"
      by (subst (asm) show_nat.simps) auto
    with "1.IH" False show ?thesis
      by (auto simp: is_digit_char_def of_char_digit_char)
  qed
qed

lemma show_nat_nonempty [simp]: "show_nat n \<noteq> []"
  by (subst show_nat.simps) simp

lemma not_digit_in_show_nat: "\<not> is_digit_char c \<Longrightarrow> c \<notin> set (show_nat n)"
  using show_nat_digits by blast

lemma minus_not_digit [simp]: "\<not> is_digit_char (CHR ''-'')"
  by (simp add: is_digit_char_def)

lemma show_int_inject [simp]: "show_int i = show_int j \<longleftrightarrow> i = j"
proof -
  have "CHR ''-'' \<notin> set (show_nat n)" for n
    by (rule not_digit_in_show_nat) simp
  then have "CHR ''-'' # s \<noteq> show_nat n" for s n
    by (metis list.set_intros(1))
  then show ?thesis
    by (auto simp: show_int_def dest: sym)
qed

lemma show_int_chars: "c \<in> set (show_int i) \<Longrightarrow> is_digit_char c \<or> c = CHR ''-''"
  by (auto simp: show_int_def dest: show_nat_digits split: if_splits)

text \<open>Text up to a separator that the prefix does not contain is determined by the whole.\<close>

lemma append_sep_inject:
  assumes "c \<notin> set a" "c \<notin> set b"
  shows "a @ c # x = b @ c # y \<longleftrightarrow> a = b \<and> x = y"
  using assms
proof (induction a arbitrary: b)
  case Nil
  then show ?case by (cases b) auto
next
  case (Cons h t)
  then show ?case by (cases b) auto
qed

text \<open>The same for a tail that is empty or starts with the separator.\<close>

lemma append_tail_inject:
  assumes "c \<notin> set a" "c \<notin> set b" and "x = [] \<or> hd x = c" "y = [] \<or> hd y = c"
  shows "a @ x = b @ y \<longleftrightarrow> a = b \<and> x = y"
proof
  assume eq: "a @ x = b @ y"
  have "takeWhile (\<lambda>d. d \<noteq> c) (a @ x) = a" "takeWhile (\<lambda>d. d \<noteq> c) (b @ y) = b"
    using assms by (cases x; cases y; force simp: takeWhile_append)+
  with eq have "a = b" by simp
  with eq show "a = b \<and> x = y" by simp
qed simp

text \<open>
  \<^verbatim>\<open>int(ds)\<close> and \<^verbatim>\<open>str(i)\<close> refuse more decimal digits than the interpreter's limit.
\<close>

definition max_str_digits :: nat where
  "max_str_digits = 4300"

text \<open>Evaluation compares with such limits as integers in binary.\<close>

lemma max_str_digits_unfold [code_unfold]: "max_str_digits < n \<longleftrightarrow> 4300 < int n"
  by (auto simp: max_str_digits_def)

definition int_of_digits :: "string \<Rightarrow> int option" where
  "int_of_digits ds = (if max_str_digits < length ds then None else Some (int (read_nat ds)))"

lemma slash_not_in_show [simp]: "CHR ''/'' \<notin> set (show_int i)" "CHR ''/'' \<notin> set (show_nat n)"
proof -
  have "\<not> is_digit_char (CHR ''/'')" by (simp add: is_digit_char_def)
  then show "CHR ''/'' \<notin> set (show_int i)" "CHR ''/'' \<notin> set (show_nat n)"
    using show_int_chars not_digit_in_show_nat by fastforce+
qed

section \<open>The first cause wins\<close>

text \<open>
  Three components keep the cause of a failure and must never let a later one overwrite it: the
  session coordinator, the runtime supervisor and the readiness coordinator. The contract is the
  same, so its consequence for any sequence of reports is proved once.
\<close>

locale first_cause =
  fixes ok :: "'s \<Rightarrow> bool"
    and cause :: "'s \<Rightarrow> 'c option"
    and report :: "'r \<Rightarrow> 's \<Rightarrow> 's"
    and reported :: "'r \<Rightarrow> 'c"
  assumes report_ok: "ok s \<Longrightarrow> ok (report r s)"
    and report_first: "ok s \<Longrightarrow> cause s = None \<Longrightarrow> cause (report r s) = Some (reported r)"
    and report_later: "ok s \<Longrightarrow> cause s = Some c \<Longrightarrow> cause (report r s) = Some c"
begin

lemma reports_keep: "ok s \<Longrightarrow> cause s = Some c \<Longrightarrow> cause (fold report rs s) = Some c"
  by (induction rs arbitrary: s) (auto simp: report_later report_ok)

lemma reports_first:
  "ok s \<Longrightarrow> cause s = None \<Longrightarrow>
     cause (fold report rs s) = (case rs of [] \<Rightarrow> None | r # _ \<Rightarrow> Some (reported r))"
  by (cases rs) (auto simp: report_first reports_keep report_ok)

end

end
