(* ===== verification/Json.thy ===== *)
theory Json
  imports Exa_Prelude
begin

text \<open>
  JSON text as the control plane uses it: \<^verbatim>\<open>json.dumps(v, sort_keys=True, separators=(",", ":"),
  allow_nan=False)\<close> and \<^verbatim>\<open>json.loads\<close> with the two hooks of \<^verbatim>\<open>src/exaserve/control/contracts.py\<close>, which refuse the
  non-finite constants and repeated keys.

  Values are \<open>pyval\<close> and text is a list of ASCII characters, which is all that \<^verbatim>\<open>dumps\<close> writes.
  The texts of floats are two arguments: \<open>fl\<close> for \<^verbatim>\<open>float.__repr__\<close> and \<open>rf\<close> for the reading of a number
  with a fraction or an exponent. Escapes of characters beyond code 255 are refused by this reader. The
  reader descends with fuel; twice the length of the text, plus two, is enough for every text.
\<close>

section \<open>Writing\<close>

definition hex_char :: "nat \<Rightarrow> char" where
  "hex_char d = (if d < 10 then char_of (48 + d) else char_of (87 + d))"

text \<open>\<^verbatim>\<open>py_encode_basestring_ascii\<close>\<close>

definition esc_char :: "char \<Rightarrow> string" where
  "esc_char c =
     (let n = of_char c :: nat in
      if c = CHR 0x22 then [CHR 0x5C, CHR 0x22]
      else if c = CHR 0x5C then [CHR 0x5C, CHR 0x5C]
      else if n = 10 then [CHR 0x5C, CHR ''n'']
      else if n = 13 then [CHR 0x5C, CHR ''r'']
      else if n = 9 then [CHR 0x5C, CHR ''t'']
      else if n = 8 then [CHR 0x5C, CHR ''b'']
      else if n = 12 then [CHR 0x5C, CHR ''f'']
      else if n < 32 \<or> 126 < n then [CHR 0x5C, CHR ''u'', CHR ''0'', CHR ''0'', hex_char (n div 16), hex_char (n mod 16)]
      else [c])"

lemma esc_char_code [code]:
  "esc_char c =
     (let n = of_char c :: int in
      if c = CHR 0x22 then [CHR 0x5C, CHR 0x22]
      else if c = CHR 0x5C then [CHR 0x5C, CHR 0x5C]
      else if n = 10 then [CHR 0x5C, CHR ''n'']
      else if n = 13 then [CHR 0x5C, CHR ''r'']
      else if n = 9 then [CHR 0x5C, CHR ''t'']
      else if n = 8 then [CHR 0x5C, CHR ''b'']
      else if n = 12 then [CHR 0x5C, CHR ''f'']
      else if n < 32 \<or> 126 < n
      then [CHR 0x5C, CHR ''u'', CHR ''0'', CHR ''0'', hex_char (of_char c div 16), hex_char (of_char c mod 16)]
      else [c])"
proof -
  have eq: "(of_char c :: int) = int (of_char c)" by (rule of_nat_of_char [symmetric])
  have "(of_char c :: int) = numeral k \<longleftrightarrow> (of_char c :: nat) = numeral k" "(of_char c :: int) < numeral k \<longleftrightarrow> (of_char c :: nat) < numeral k"
      "numeral k < (of_char c :: int) \<longleftrightarrow> numeral k < (of_char c :: nat)" for k
    unfolding eq by simp_all
  then show ?thesis by (simp only: esc_char_def Let_def)
qed

definition json_string :: "string \<Rightarrow> string" where
  "json_string s = CHR 0x22 # concat (map esc_char s) @ [CHR 0x22]"

text \<open>\<^verbatim>\<open>sort_keys=True\<close>, at every level.\<close>

definition json_key :: "pyval \<Rightarrow> string" where
  "json_key k = (case k of PStr s \<Rightarrow> s | _ \<Rightarrow> [])"

fun canon :: "pyval \<Rightarrow> pyval" where
  "canon (PList vs) = PList (map canon vs)"
| "canon (PTuple vs) = PList (map canon vs)"
| "canon (PDict kvs) = PDict (sort_key (\<lambda>kv. json_key (fst kv)) (map (\<lambda>(k, v). (k, canon v)) kvs))"
| "canon v = v"

definition sep_by :: "char \<Rightarrow> string list \<Rightarrow> string" where
  "sep_by c ts = (case ts of [] \<Rightarrow> [] | t # us \<Rightarrow> t @ concat (map ((#) c) us))"

fun all_some :: "'a option list \<Rightarrow> 'a list option" where
  "all_some [] = Some []"
| "all_some (None # xs) = None"
| "all_some (Some x # xs) = map_option ((#) x) (all_some xs)"

text \<open>\<open>None\<close>: \<^verbatim>\<open>dumps\<close> raises.\<close>

fun dump :: "(real \<Rightarrow> string) \<Rightarrow> pyval \<Rightarrow> string option" where
  "dump fl PNone = Some ''null''"
| "dump fl (PBool b) = Some (if b then ''true'' else ''false'')"
| "dump fl (PInt i) = (if max_str_digits < length (show_nat (nat \<bar>i\<bar>)) then None else Some (show_int i))"
| "dump fl (PFloat (Finite r)) = Some (fl r)"
| "dump fl (PFloat _) = None"
| "dump fl (PStr s) = Some (json_string s)"
| "dump fl (PList vs) = map_option (\<lambda>ts. CHR ''['' # sep_by (CHR '','') ts @ '']'') (all_some (map (dump fl) vs))"
| "dump fl (PTuple vs) = map_option (\<lambda>ts. CHR ''['' # sep_by (CHR '','') ts @ '']'') (all_some (map (dump fl) vs))"
| "dump fl (PDict kvs) =
     map_option (\<lambda>ts. CHR ''{'' # sep_by (CHR '','') ts @ ''}'')
       (all_some (map (\<lambda>(k, v). case k of
          PStr s \<Rightarrow> map_option (\<lambda>t. json_string s @ CHR '':'' # t) (dump fl v) | _ \<Rightarrow> None) kvs))"
| "dump fl (PObj x) = None"

definition dumps :: "(real \<Rightarrow> string) \<Rightarrow> pyval \<Rightarrow> string option" where
  "dumps fl v = dump fl (canon v)"

section \<open>Reading\<close>

definition json_space :: "char \<Rightarrow> bool" where
  "json_space c = (c \<in> {CHR '' '', CHR 0x09, CHR 0x0A, CHR 0x0D})"

definition skip_ws :: "string \<Rightarrow> string" where
  "skip_ws s = dropWhile json_space s"

definition hex_value :: "char \<Rightarrow> nat option" where
  "hex_value c =
     (let n = of_char c :: nat in
      if 48 \<le> n \<and> n \<le> 57 then Some (n - 48) else if 97 \<le> n \<and> n \<le> 102 then Some (n - 87)
      else if 65 \<le> n \<and> n \<le> 70 then Some (n - 55) else None)"

text \<open>The character of four hexadecimal digits, if it is one of this model.\<close>

definition hex4 :: "char \<Rightarrow> char \<Rightarrow> char \<Rightarrow> char \<Rightarrow> char option" where
  "hex4 a b c d =
     (case (hex_value a, hex_value b, hex_value c, hex_value d) of
        (Some 0, Some 0, Some x, Some y) \<Rightarrow> Some (char_of (16 * x + y))
      | _ \<Rightarrow> None)"

definition plain_escape :: "char \<Rightarrow> char option" where
  "plain_escape c =
     map_of [(CHR 0x22, CHR 0x22), (CHR 0x5C, CHR 0x5C), (CHR ''/'', CHR ''/''), (CHR ''n'', CHR 0x0A),
             (CHR ''r'', CHR 0x0D), (CHR ''t'', CHR 0x09), (CHR ''b'', CHR 0x08), (CHR ''f'', CHR 0x0C)] c"

text \<open>The rest of a string after its opening quote.\<close>

fun scan_string :: "string \<Rightarrow> (string \<times> string) option" where
  "scan_string [] = None"
| "scan_string (c # cs) =
     (if c = CHR 0x22 then Some ([], cs)
      else if c = CHR 0x5C
      then (case cs of
              [] \<Rightarrow> None
            | e # es \<Rightarrow>
                if e = CHR ''u''
                then (case es of
                        x # y # z # w # rest \<Rightarrow>
                          (case hex4 x y z w of
                             None \<Rightarrow> None
                           | Some h \<Rightarrow> map_option (map_prod ((#) h) id) (scan_string rest))
                      | _ \<Rightarrow> None)
                else (case plain_escape e of
                        None \<Rightarrow> None
                      | Some h \<Rightarrow> map_option (map_prod ((#) h) id) (scan_string es)))
      else if (of_char c :: nat) < 32 then None
      else map_option (map_prod ((#) c) id) (scan_string cs))"

text \<open>\<^verbatim>\<open>NUMBER_RE\<close>: the integer part, and the fraction and exponent when they are complete.\<close>

definition digits_of :: "string \<Rightarrow> string \<times> string" where
  "digits_of s = (takeWhile is_digit_char s, dropWhile is_digit_char s)"

definition scan_int :: "string \<Rightarrow> (string \<times> string) option" where
  "scan_int s =
     (case digits_of s of (ds, rest) \<Rightarrow>
        if ds = [] then None
        else if hd ds = CHR ''0'' then Some ([CHR ''0''], tl ds @ rest) else Some (ds, rest))"

definition scan_frac :: "string \<Rightarrow> string \<times> string" where
  "scan_frac s =
     (case s of [] \<Rightarrow> ([], s)
      | c # r \<Rightarrow> (case digits_of r of (ds, rest) \<Rightarrow>
           if c = CHR ''.'' \<and> ds \<noteq> [] then (c # ds, rest) else ([], s)))"

definition scan_exp :: "string \<Rightarrow> string \<times> string" where
  "scan_exp s =
     (case s of [] \<Rightarrow> ([], s)
      | c # r \<Rightarrow>
          (let (sg, r') = (case r of x # r' \<Rightarrow> if x \<in> {CHR ''+'', CHR ''-''} then ([x], r') else ([], r) | [] \<Rightarrow> ([], r))
           in case digits_of r' of (ds, rest) \<Rightarrow>
                if c \<in> {CHR ''e'', CHR ''E''} \<and> ds \<noteq> [] then (c # sg @ ds, rest) else ([], s)))"

definition scan_number :: "(string \<Rightarrow> pyfloat) \<Rightarrow> string \<Rightarrow> (pyval \<times> string) option" where
  "scan_number rf s =
     (let (sg, s') = (case s of c # r \<Rightarrow> if c = CHR ''-'' then ([c], r) else ([], s) | [] \<Rightarrow> ([], s))
      in case scan_int s' of
           None \<Rightarrow> None
         | Some (ds, r1) \<Rightarrow>
             (case scan_frac r1 of (fr, r2) \<Rightarrow> case scan_exp r2 of (ex, r3) \<Rightarrow>
                if fr = [] \<and> ex = []
                then map_option (\<lambda>i. (PInt (if sg = [] then i else - i), r3)) (int_of_digits ds)
                else Some (PFloat (rf (sg @ ds @ fr @ ex)), r3)))"

definition strip_word :: "string \<Rightarrow> string \<Rightarrow> string option" where
  "strip_word w s = (if starts_with s w then Some (drop (length w) s) else None)"

text \<open>\<^verbatim>\<open>_unique_json_object\<close>\<close>

definition unique_object :: "(string \<times> pyval) list \<Rightarrow> pyval option" where
  "unique_object kvs =
     (if distinct (map fst kvs) then Some (PDict (map (\<lambda>(k, v). (PStr k, v)) kvs)) else None)"

text \<open>
  A value, the items of a list after its bracket, and the members of an object after its brace, each
  with the text that follows.
\<close>

fun parse_value :: "(string \<Rightarrow> pyfloat) \<Rightarrow> nat \<Rightarrow> string \<Rightarrow> (pyval \<times> string) option"
  and parse_items :: "(string \<Rightarrow> pyfloat) \<Rightarrow> nat \<Rightarrow> string \<Rightarrow> (pyval list \<times> string) option"
  and parse_members :: "(string \<Rightarrow> pyfloat) \<Rightarrow> nat \<Rightarrow> string \<Rightarrow> ((string \<times> pyval) list \<times> string) option"
where
  "parse_value rf 0 s = None"
| "parse_value rf (Suc n) s =
     (case s of
        [] \<Rightarrow> None
      | c # r \<Rightarrow>
          if c = CHR 0x22 then map_option (map_prod PStr id) (scan_string r)
          else if c = CHR ''[''
          then (case strip_word '']'' (skip_ws r) of
                  Some r' \<Rightarrow> Some (PList [], r')
                | None \<Rightarrow> map_option (map_prod PList id) (parse_items rf n (skip_ws r)))
          else if c = CHR ''{''
          then (case strip_word ''}'' (skip_ws r) of
                  Some r' \<Rightarrow> Some (PDict [], r')
                | None \<Rightarrow>
                    Option.bind (parse_members rf n (skip_ws r)) (\<lambda>(kvs, r'). map_option (\<lambda>d. (d, r')) (unique_object kvs)))
          else case strip_word ''null'' s of Some r' \<Rightarrow> Some (PNone, r')
          | None \<Rightarrow> (case strip_word ''true'' s of Some r' \<Rightarrow> Some (PBool True, r')
          | None \<Rightarrow> (case strip_word ''false'' s of Some r' \<Rightarrow> Some (PBool False, r')
          | None \<Rightarrow> scan_number rf s)))"
| "parse_items rf 0 s = None"
| "parse_items rf (Suc n) s =
     Option.bind (parse_value rf n s) (\<lambda>(v, r).
       case skip_ws r of
         [] \<Rightarrow> None
       | c # r' \<Rightarrow>
           if c = CHR '']'' then Some ([v], r')
           else if c = CHR '','' then map_option (map_prod ((#) v) id) (parse_items rf n (skip_ws r'))
           else None)"
| "parse_members rf 0 s = None"
| "parse_members rf (Suc n) s =
     Option.bind (strip_word [CHR 0x22] s) (\<lambda>s1.
     Option.bind (scan_string s1) (\<lambda>(k, s2).
     Option.bind (strip_word '':'' (skip_ws s2)) (\<lambda>s3.
     Option.bind (parse_value rf n (skip_ws s3)) (\<lambda>(v, r).
       case skip_ws r of
         [] \<Rightarrow> None
       | c # r' \<Rightarrow>
           if c = CHR ''}'' then Some ([(k, v)], r')
           else if c = CHR '','' then map_option (map_prod ((#) (k, v)) id) (parse_members rf n (skip_ws r'))
           else None))))"

definition loads :: "(string \<Rightarrow> pyfloat) \<Rightarrow> string \<Rightarrow> pyval option" where
  "loads rf s =
     (case parse_value rf (2 * length s + 2) (skip_ws s) of
        None \<Rightarrow> None
      | Some (v, r) \<Rightarrow> if skip_ws r = [] then Some v else None)"

section \<open>Strings\<close>

lemma hex_value_char: "d < 16 \<Longrightarrow> hex_value (hex_char d) = Some d"
  by (auto simp: hex_value_def hex_char_def Let_def)

lemma hex4_char: "hex4 (CHR ''0'') (CHR ''0'') (hex_char (of_char c div 16)) (hex_char (of_char c mod 16)) = Some c"
proof -
  have "of_char c < (16 * 16 :: nat)" using nat_of_char_less_256 [of c] by simp
  then have "of_char c div 16 < (16 :: nat)" by (rule less_mult_imp_div_less)
  moreover have "hex_value (CHR ''0'') = Some 0" by code_simp
  ultimately show ?thesis by (simp add: hex4_def hex_value_char)
qed

lemma control_chars:
  "char_of (8 :: nat) = CHR 0x08" "char_of (9 :: nat) = CHR 0x09" "char_of (10 :: nat) = CHR 0x0A"
  "char_of (12 :: nat) = CHR 0x0C" "char_of (13 :: nat) = CHR 0x0D"
  by code_simp+

lemma scan_string_esc: "scan_string (esc_char c @ rest) = map_option (map_prod ((#) c) id) (scan_string rest)"
proof -
  have ctl: "c = char_of n" if "of_char c = n" for n :: nat using that by (metis char_of_char)
  show ?thesis
    by (auto simp: esc_char_def Let_def plain_escape_def hex4_char control_chars dest!: ctl)
qed

lemma scan_json_string: "scan_string (concat (map esc_char s) @ CHR 0x22 # rest) = Some (s, rest)"
  by (induction s) (simp_all add: scan_string_esc)

section \<open>Numbers\<close>

text \<open>What may follow a number.\<close>

definition follow_ok :: "string \<Rightarrow> bool" where
  "follow_ok s = (case s of [] \<Rightarrow> True | c # r \<Rightarrow> \<not> is_digit_char c \<and> c \<notin> {CHR ''.'', CHR ''e'', CHR ''E''})"

definition int_part :: "string \<Rightarrow> bool" where
  "int_part ds = (ds \<noteq> [] \<and> list_all is_digit_char ds \<and> (hd ds = CHR ''0'' \<longrightarrow> ds = ''0''))"

definition frac_part :: "string \<Rightarrow> bool" where
  "frac_part fr = (fr = [] \<or> (\<exists>ds. fr = CHR ''.'' # ds \<and> ds \<noteq> [] \<and> list_all is_digit_char ds))"

definition exp_part :: "string \<Rightarrow> bool" where
  "exp_part ex = (ex = [] \<or> (\<exists>c sg ds. ex = c # sg @ ds \<and> c \<in> {CHR ''e'', CHR ''E''} \<and> sg \<in> {[], ''+'', ''-''} \<and>
     ds \<noteq> [] \<and> list_all is_digit_char ds))"

lemma digits_of_append:
  "list_all is_digit_char ds \<Longrightarrow> (rest = [] \<or> \<not> is_digit_char (hd rest)) \<Longrightarrow> digits_of (ds @ rest) = (ds, rest)"
  by (cases rest) (auto simp: digits_of_def list_all_iff takeWhile_append2 dropWhile_append2)

lemma digits_of_all: "list_all is_digit_char ds \<Longrightarrow> digits_of ds = (ds, [])"
  using digits_of_append [of ds "[]"] by simp

lemma scan_int_append:
  "int_part ds \<Longrightarrow> (rest = [] \<or> \<not> is_digit_char (hd rest)) \<Longrightarrow> scan_int (ds @ rest) = Some (ds, rest)"
  by (auto simp: scan_int_def int_part_def digits_of_append)

lemma scan_frac_append:
  assumes "frac_part fr" "rest = [] \<or> \<not> is_digit_char (hd rest)" "rest = [] \<or> hd rest \<noteq> CHR ''.''"
  shows "scan_frac (fr @ rest) = (fr, rest)"
  using assms by (cases rest) (auto simp: scan_frac_def frac_part_def digits_of_append digits_of_all split: list.splits prod.splits)

lemma not_digit [simp]:
  "\<not> is_digit_char (CHR ''+'')" "\<not> is_digit_char (CHR ''.'')" "\<not> is_digit_char (CHR ''e'')" "\<not> is_digit_char (CHR ''E'')"
  "\<not> is_digit_char (CHR '','')" "\<not> is_digit_char (CHR '']'')" "\<not> is_digit_char (CHR ''}'')"
  by code_simp+

lemma scan_exp_append:
  assumes "exp_part ex" "follow_ok rest"
  shows "scan_exp (ex @ rest) = (ex, rest)"
proof (cases "ex = []")
  case True
  then show ?thesis using assms(2) by (auto simp: scan_exp_def follow_ok_def split: list.splits prod.splits)
next
  case False
  then obtain c sg ds where ex: "ex = c # sg @ ds" "c \<in> {CHR ''e'', CHR ''E''}" "sg \<in> {[], ''+'', ''-''}" "ds \<noteq> []"
      "list_all is_digit_char ds"
    using assms(1) by (auto simp: exp_part_def)
  have "digits_of (ds @ rest) = (ds, rest)"
    using ex(5) assms(2) by (intro digits_of_append) (auto simp: follow_ok_def split: list.splits)
  moreover have "hd ds \<notin> {CHR ''+'', CHR ''-''}" using ex(4,5) by (cases ds) auto
  ultimately show ?thesis using ex by (cases ds) (auto simp: scan_exp_def)
qed

lemma scan_number_parts:
  assumes "sg \<in> {[], ''-''}" "int_part ds" "frac_part fr" "exp_part ex" "follow_ok rest"
  shows "scan_number rf (sg @ ds @ fr @ ex @ rest) =
    (if fr = [] \<and> ex = [] then map_option (\<lambda>i. (PInt (if sg = [] then i else - i), rest)) (int_of_digits ds)
     else Some (PFloat (rf (sg @ ds @ fr @ ex)), rest))"
proof -
  have ex: "scan_exp (ex @ rest) = (ex, rest)" using assms(4,5) by (rule scan_exp_append)
  have start: "ex @ rest = [] \<or> \<not> is_digit_char (hd (ex @ rest))" "ex @ rest = [] \<or> hd (ex @ rest) \<noteq> CHR ''.''"
    using assms(4,5) by (auto simp: exp_part_def follow_ok_def split: list.splits)
  have fr: "scan_frac (fr @ ex @ rest) = (fr, ex @ rest)" using assms(3) start by (rule scan_frac_append)
  have "fr @ ex @ rest = [] \<or> \<not> is_digit_char (hd (fr @ ex @ rest))" using assms(3) start(1) by (auto simp: frac_part_def)
  then have int: "scan_int (ds @ fr @ ex @ rest) = Some (ds, fr @ ex @ rest)" using assms(2) by (intro scan_int_append)
  have "hd ds \<noteq> CHR ''-''" "ds \<noteq> []" using assms(2) by (auto simp: int_part_def) (cases ds; auto)+
  then show ?thesis using assms(1) int fr ex by (cases ds) (auto simp: scan_number_def)
qed

lemma show_nat_leading: "0 < n \<Longrightarrow> hd (show_nat n) \<noteq> CHR ''0''"
proof (induction n rule: show_nat.induct)
  case (1 n)
  have "digit_char n \<noteq> CHR ''0''" if "n < 10"
  proof
    assume "digit_char n = CHR ''0''"
    then have "48 + n = (of_char (CHR ''0'') :: nat)" using of_char_digit_char [OF that] by simp
    then show False using 1(2) by simp
  qed
  then show ?case using 1 by (subst show_nat.simps) auto
qed

lemma show_nat_int_part: "int_part (show_nat n)"
proof -
  have "show_nat 0 = ''0''" "is_digit_char (CHR ''0'')" by code_simp+
  then show ?thesis
    using show_nat_leading [of n] show_nat_digits by (cases "n = 0") (auto simp: int_part_def list_all_iff)
qed

lemma scan_number_int:
  assumes "\<not> max_str_digits < length (show_nat (nat \<bar>i\<bar>))" "follow_ok rest"
  shows "scan_number rf (show_int i @ rest) = Some (PInt i, rest)"
proof -
  have "show_int i = (if i < 0 then ''-'' else []) @ show_nat (nat \<bar>i\<bar>)" by (simp add: show_int_def)
  then show ?thesis
    using scan_number_parts [of "if i < 0 then ''-'' else []" "show_nat (nat \<bar>i\<bar>)" "[]" "[]" rest rf] assms
    by (auto simp: show_nat_int_part frac_part_def exp_part_def int_of_digits_def)
qed

text \<open>
  What the texts of floats have to be, for the numbers in \<open>F\<close>: a JSON number with a fraction or an
  exponent that reads back as the same number.
\<close>

definition float_text_ok :: "(real \<Rightarrow> string) \<Rightarrow> (string \<Rightarrow> pyfloat) \<Rightarrow> real set \<Rightarrow> bool" where
  "float_text_ok fl rf F =
     (\<forall>r \<in> F. rf (fl r) = Finite r \<and>
        (\<exists>sg ds fr ex. fl r = sg @ ds @ fr @ ex \<and> sg \<in> {[], ''-''} \<and> int_part ds \<and> frac_part fr \<and> exp_part ex \<and>
           (fr \<noteq> [] \<or> ex \<noteq> [])))"

lemma scan_number_float:
  assumes "float_text_ok fl rf F" "r \<in> F" "follow_ok rest"
  shows "scan_number rf (fl r @ rest) = Some (PFloat (Finite r), rest)"
proof -
  obtain sg ds fr ex where t: "fl r = sg @ ds @ fr @ ex" "sg \<in> {[], ''-''}" "int_part ds" "frac_part fr" "exp_part ex"
      "fr \<noteq> [] \<or> ex \<noteq> []" and "rf (fl r) = Finite r"
    using assms(1,2) unfolding float_text_ok_def by blast
  then show ?thesis using scan_number_parts [OF t(2-5) assms(3), of rf] by auto
qed

section \<open>Values read back as they were written\<close>

text \<open>
  A value of the wire: no tuples or foreign objects, every object has distinct text keys, and every
  float is finite and in \<open>F\<close>.
\<close>

fun wire_value :: "real set \<Rightarrow> pyval \<Rightarrow> bool" where
  "wire_value F (PFloat x) = (\<exists>r \<in> F. x = Finite r)"
| "wire_value F (PList vs) = (\<forall>v \<in> set vs. wire_value F v)"
| "wire_value F (PDict kvs) =
     (distinct (map fst kvs) \<and> (\<forall>kv \<in> set kvs. (\<exists>s. fst kv = PStr s) \<and> wire_value F (snd kv)))"
| "wire_value F (PTuple vs) = False"
| "wire_value F (PObj x) = False"
| "wire_value F v = True"

lemma skip_ws_start: "s = [] \<or> \<not> json_space (hd s) \<Longrightarrow> skip_ws s = s"
  by (cases s) (auto simp: skip_ws_def)

lemma strip_word_append [simp]: "strip_word w (w @ s) = Some s"
  by (simp add: strip_word_def starts_with_def)

lemma strip_word_other: "w \<noteq> [] \<Longrightarrow> s \<noteq> [] \<Longrightarrow> hd s \<noteq> hd w \<Longrightarrow> strip_word w s = None"
  by (cases w; cases s) (auto simp: strip_word_def starts_with_def)

definition number_start :: "char \<Rightarrow> bool" where
  "number_start c = (is_digit_char c \<or> c = CHR ''-'')"

lemma number_start_other:
  "number_start c \<Longrightarrow> c \<notin> {CHR 0x22, CHR ''['', CHR ''{'', CHR '']'', CHR ''}'', CHR ''n'', CHR ''t'', CHR ''f''} \<and> \<not> json_space c"
proof -
  have "list_all (\<lambda>c. \<not> number_start c) [CHR 0x22, CHR ''['', CHR ''{'', CHR '']'', CHR ''}'', CHR ''n'', CHR ''t'', CHR ''f'',
      CHR '' '', CHR 0x09, CHR 0x0A, CHR 0x0D]" by code_simp
  then show "number_start c \<Longrightarrow> ?thesis" by (auto simp: json_space_def)
qed

lemma show_int_start: "number_start (hd (show_int i)) \<and> show_int i \<noteq> []"
proof -
  have "is_digit_char (hd (show_nat n))" for n by (rule show_nat_digits [of _ n]) simp
  then show ?thesis by (auto simp: show_int_def number_start_def)
qed

lemma float_text_start:
  "float_text_ok fl rf F \<Longrightarrow> r \<in> F \<Longrightarrow> number_start (hd (fl r)) \<and> fl r \<noteq> []"
proof -
  assume "float_text_ok fl rf F" "r \<in> F"
  then obtain sg ds fr ex where "fl r = sg @ ds @ fr @ ex" "sg \<in> {[], ''-''}" "int_part ds"
    unfolding float_text_ok_def by blast
  then show ?thesis by (cases ds) (auto simp: number_start_def int_part_def)
qed

lemma parse_number:
  assumes "number_start (hd s)" "s \<noteq> []"
  shows "parse_value rf (Suc n) s = scan_number rf s"
  using number_start_other [OF assms(1)] assms(2) by (cases s) (auto simp: strip_word_def starts_with_def)

text \<open>How the text of a value begins.\<close>

lemma dump_start:
  assumes "dump fl v = Some t" "wire_value F v" "float_text_ok fl rf F"
  shows "t \<noteq> [] \<and> \<not> json_space (hd t) \<and> hd t \<noteq> CHR '']'' \<and> hd t \<noteq> CHR ''}''"
proof (cases v)
  case (PInt i)
  then show ?thesis using assms(1) show_int_start [of i] number_start_other by (auto split: if_splits)
next
  case (PFloat x)
  then show ?thesis using assms float_text_start number_start_other by fastforce
qed (use assms in \<open>auto simp: json_string_def json_space_def split: if_splits\<close>)

lemma sep_by_Cons: "sep_by c (t # u # us) = t @ c # sep_by c (u # us)"
  by (simp add: sep_by_def)

lemma follow_ok_simps [simp]: "follow_ok (CHR '','' # r)" "follow_ok (CHR '']'' # r)" "follow_ok (CHR ''}'' # r)"
  by (simp_all add: follow_ok_def)

lemma skip_ws_simps [simp]:
  "skip_ws (CHR '','' # r) = CHR '','' # r" "skip_ws (CHR '']'' # r) = CHR '']'' # r"
  "skip_ws (CHR ''}'' # r) = CHR ''}'' # r" "skip_ws (CHR '':'' # r) = CHR '':'' # r" "skip_ws (CHR 0x22 # r) = CHR 0x22 # r"
  by (simp_all add: skip_ws_def json_space_def)

definition reads_back :: "(real \<Rightarrow> string) \<Rightarrow> (string \<Rightarrow> pyfloat) \<Rightarrow> pyval \<Rightarrow> bool" where
  "reads_back fl rf v =
     (\<forall>t n rest. dump fl v = Some t \<longrightarrow> follow_ok rest \<longrightarrow> 2 * length t < n \<longrightarrow> parse_value rf n (t @ rest) = Some (v, rest))"

lemma parse_items_back:
  assumes "all_some (map (dump fl) vs) = Some ts" "vs \<noteq> []" "\<forall>v \<in> set vs. reads_back fl rf v \<and> wire_value F v"
    and "float_text_ok fl rf F" "2 * length (sep_by (CHR '','') ts) + 1 < n"
  shows "parse_items rf n (sep_by (CHR '','') ts @ CHR '']'' # rest) = Some (vs, rest)"
  using assms(1-3,5)
proof (induction vs arbitrary: ts n)
  case (Cons v vs)
  then obtain t us where t: "dump fl v = Some t" and us: "all_some (map (dump fl) vs) = Some us" "ts = t # us"
    by (cases "dump fl v") auto
  obtain m where n: "n = Suc m" using Cons.prems(4) by (cases n) auto
  show ?case
  proof (cases vs)
    case Nil
    then have "2 * length t < m" using Cons.prems(4) us n by (auto simp: sep_by_def)
    then show ?thesis using Cons.prems(3) t us Nil by (auto simp: n reads_back_def sep_by_def)
  next
    case (Cons w ws)
    then obtain u us' where u: "us = u # us'" using us(1) by (cases "dump fl w") auto
    have len: "2 * length t < m" "2 * length (sep_by (CHR '','') us) + 1 < m"
      using Cons.prems(4) us(2) n u by (auto simp: sep_by_Cons)
    have "dump fl w = Some u" using us(1) u Cons by (cases "dump fl w") auto
    then have "skip_ws (sep_by (CHR '','') us @ x) = sep_by (CHR '','') us @ x" for x
      using dump_start [of fl w u F rf] Cons.prems(3) assms(4) Cons u by (intro skip_ws_start) (auto simp: sep_by_def)
    then show ?thesis
      using Cons.IH [OF us(1) _ _ len(2)] Cons.prems(3) t us(2) u len(1) Cons
      by (auto simp: n reads_back_def sep_by_Cons)
  qed
qed simp

definition member_text :: "(real \<Rightarrow> string) \<Rightarrow> pyval \<times> pyval \<Rightarrow> string option" where
  "member_text fl kv =
     (case fst kv of PStr s \<Rightarrow> map_option (\<lambda>t. json_string s @ CHR '':'' # t) (dump fl (snd kv)) | _ \<Rightarrow> None)"

lemma dump_dict:
  "dump fl (PDict kvs) = map_option (\<lambda>ts. CHR ''{'' # sep_by (CHR '','') ts @ ''}'') (all_some (map (member_text fl) kvs))"
proof -
  have "member_text fl = (\<lambda>(k, v). case k of
      PStr s \<Rightarrow> map_option (\<lambda>t. json_string s @ CHR '':'' # t) (dump fl v) | _ \<Rightarrow> None)"
    by (auto simp: member_text_def fun_eq_iff split: pyval.splits)
  then show ?thesis by simp
qed

definition text_key :: "string \<times> pyval \<Rightarrow> pyval \<times> pyval" where
  "text_key kv = (PStr (fst kv), snd kv)"

lemma text_key_simps [simp]: "fst (text_key kv) = PStr (fst kv)" "snd (text_key kv) = snd kv"
  by (simp_all add: text_key_def)

lemma member_text_key:
  "member_text fl (text_key kv) = map_option (\<lambda>t. json_string (fst kv) @ CHR '':'' # t) (dump fl (snd kv))"
  by (simp add: member_text_def)

lemma members_Cons:
  assumes "all_some (map (member_text fl) (map text_key ((k, v) # kvs))) = Some ts"
  obtains t us where "dump fl v = Some t" "all_some (map (member_text fl) (map text_key kvs)) = Some us"
    "ts = (json_string k @ CHR '':'' # t) # us"
  using assms by (cases "dump fl v"; cases "all_some (map (member_text fl) (map text_key kvs))")
    (simp_all add: member_text_key)

lemma parse_members_back:
  assumes "all_some (map (member_text fl) (map text_key kvs)) = Some ts" "kvs \<noteq> []"
    and "\<forall>kv \<in> set kvs. reads_back fl rf (snd kv) \<and> wire_value F (snd kv)"
    and "float_text_ok fl rf F" "2 * length (sep_by (CHR '','') ts) < n"
  shows "parse_members rf n (sep_by (CHR '','') ts @ CHR ''}'' # rest) = Some (kvs, rest)"
  using assms(1-3,5)
proof (induction kvs arbitrary: ts n)
  case (Cons kv kvs)
  obtain k v where kv: "kv = (k, v)" by (cases kv)
  then obtain t us where t: "dump fl v = Some t" and us: "all_some (map (member_text fl) (map text_key kvs)) = Some us"
      "ts = (json_string k @ CHR '':'' # t) # us"
    using Cons.prems(1) members_Cons by blast
  obtain m where n: "n = Suc m" using Cons.prems(4) by (cases n) auto
  have val_back: "parse_value rf m (t @ x) = Some (v, x)" if "follow_ok x" "2 * length t < m" for x
    using Cons.prems(3) t that kv by (auto simp: reads_back_def)
  have ws: "skip_ws (t @ x) = t @ x" for x
    using dump_start [OF t _ assms(4)] Cons.prems(3) kv by (intro skip_ws_start) auto
  show ?case
  proof (cases kvs)
    case Nil
    then have "2 * length t < m" using Cons.prems(4) us n by (auto simp: sep_by_def json_string_def)
    then show ?thesis
      using us Nil val_back ws by (simp add: n kv sep_by_def json_string_def scan_json_string strip_word_def starts_with_def)
  next
    case (Cons kv' kvs')
    then obtain k' v' where kv': "kv' = (k', v')" by (cases kv')
    then obtain u us' where u: "us = (json_string k' @ CHR '':'' # u) # us'"
      using us(1) Cons members_Cons by blast
    have len: "2 * length t < m" "2 * length (sep_by (CHR '','') us) < m"
      using Cons.prems(4) us(2) n u by (auto simp: sep_by_Cons json_string_def)
    have "skip_ws (sep_by (CHR '','') us @ x) = sep_by (CHR '','') us @ x" for x
      by (simp add: u sep_by_def json_string_def)
    then show ?thesis
      using Cons.IH [OF us(1) _ _ len(2)] Cons.prems(3) us(2) u len(1) Cons val_back ws
      by (simp add: n kv sep_by_Cons json_string_def scan_json_string strip_word_def starts_with_def)
  qed
qed simp

lemma json_keys_text:
  assumes "\<forall>kv \<in> set kvs. \<exists>s. fst kv = PStr s"
  shows "\<exists>ms. kvs = map text_key ms"
  using assms
proof (induction kvs)
  case (Cons kv kvs)
  obtain ms where "kvs = map text_key ms" using Cons by auto
  moreover obtain s where "fst kv = PStr s" using Cons.prems by auto
  ultimately have "kv # kvs = map text_key ((s, snd kv) # ms)" by (cases kv) (simp add: text_key_def)
  then show ?case by (rule exI)
qed simp

lemma parse_word:
  "0 < n \<Longrightarrow> parse_value rf n (''null'' @ rest) = Some (PNone, rest)"
  "0 < n \<Longrightarrow> parse_value rf n (''true'' @ rest) = Some (PBool True, rest)"
  "0 < n \<Longrightarrow> parse_value rf n (''false'' @ rest) = Some (PBool False, rest)"
  by (cases n; simp add: strip_word_def starts_with_def)+

lemma reads_back_int: "reads_back fl rf (PInt i)"
  unfolding reads_back_def
proof (intro allI impI)
  fix t n rest assume "dump fl (PInt i) = Some t" "follow_ok rest" "2 * length t < n"
  then show "parse_value rf n (t @ rest) = Some (PInt i, rest)"
    using show_int_start [of i] scan_number_int [of i rest rf] parse_number [of "show_int i @ rest" rf "n - 1"]
    by (auto split: if_splits)
qed

lemma reads_back_float:
  assumes "float_text_ok fl rf F" "r \<in> F"
  shows "reads_back fl rf (PFloat (Finite r))"
  unfolding reads_back_def
proof (intro allI impI)
  fix t n rest assume "dump fl (PFloat (Finite r)) = Some t" "follow_ok rest" "2 * length t < n"
  then show "parse_value rf n (t @ rest) = Some (PFloat (Finite r), rest)"
    using float_text_start [OF assms] scan_number_float [OF assms, of rest]
      parse_number [of "fl r @ rest" rf "n - 1"] by auto
qed

lemma reads_back_list:
  assumes "float_text_ok fl rf F" "\<forall>v \<in> set vs. reads_back fl rf v \<and> wire_value F v"
  shows "reads_back fl rf (PList vs)"
  unfolding reads_back_def
proof (intro allI impI)
  fix t n rest assume t: "dump fl (PList vs) = Some t" "follow_ok rest" "2 * length t < n"
  then obtain ts where ts: "all_some (map (dump fl) vs) = Some ts" "t = CHR ''['' # sep_by (CHR '','') ts @ '']''" by auto
  obtain m where n: "n = Suc m" using t(3) by (cases n) auto
  show "parse_value rf n (t @ rest) = Some (PList vs, rest)"
  proof (cases vs)
    case Nil
    then show ?thesis using ts by (simp add: n sep_by_def strip_word_def starts_with_def)
  next
    case (Cons v vs')
    then obtain u us where u: "ts = u # us" "dump fl v = Some u" using ts(1) by (cases "dump fl v") auto
    have start: "u \<noteq> []" "\<not> json_space (hd u)" "hd u \<noteq> CHR '']''"
      using dump_start [OF u(2) _ assms(1)] assms(2) Cons by auto
    have "parse_items rf m (sep_by (CHR '','') ts @ CHR '']'' # rest) = Some (vs, rest)"
      using assms(2) Cons t(3) ts(2) n by (intro parse_items_back [OF ts(1) _ _ assms(1)]) auto
    moreover have "skip_ws (sep_by (CHR '','') ts @ CHR '']'' # rest) = sep_by (CHR '','') ts @ CHR '']'' # rest"
      using start u(1) by (intro skip_ws_start) (auto simp: sep_by_def)
    moreover have "strip_word '']'' (sep_by (CHR '','') ts @ CHR '']'' # rest) = None"
      using start u(1) by (intro strip_word_other) (auto simp: sep_by_def)
    ultimately show ?thesis by (simp add: n ts(2))
  qed
qed

lemma unique_object_members:
  "distinct (map fst (map text_key ms)) \<Longrightarrow> unique_object ms = Some (PDict (map text_key ms))"
  by (auto simp: unique_object_def distinct_map inj_on_def text_key_def)

lemma reads_back_dict:
  assumes "float_text_ok fl rf F" "wire_value F (PDict kvs)" "\<forall>kv \<in> set kvs. reads_back fl rf (snd kv)"
  shows "reads_back fl rf (PDict kvs)"
  unfolding reads_back_def
proof (intro allI impI)
  obtain ms where ms: "kvs = map text_key ms" using assms(2) json_keys_text [of kvs] by auto
  fix t n rest assume t: "dump fl (PDict kvs) = Some t" "follow_ok rest" "2 * length t < n"
  then obtain ts where ts: "all_some (map (member_text fl) kvs) = Some ts" "t = CHR ''{'' # sep_by (CHR '','') ts @ ''}''"
    unfolding dump_dict by blast
  obtain m where n: "n = Suc m" using t(3) by (cases n) auto
  show "parse_value rf n (t @ rest) = Some (PDict kvs, rest)"
  proof (cases ms)
    case Nil
    then show ?thesis using ts ms by (simp add: n sep_by_def strip_word_def starts_with_def)
  next
    case (Cons kv ms')
    then have "all_some (map (member_text fl) (map text_key ((fst kv, snd kv) # ms'))) = Some ts"
      using ts(1) ms by simp
    then obtain u us where u: "ts = (json_string (fst kv) @ CHR '':'' # u) # us" using members_Cons by blast
    have "parse_members rf m (sep_by (CHR '','') ts @ CHR ''}'' # rest) = Some (ms, rest)"
      using assms(2,3) Cons t(3) ts n ms by (intro parse_members_back [OF _ _ _ assms(1)]) auto
    moreover have "unique_object ms = Some (PDict kvs)" using assms(2) ms by (simp add: unique_object_members)
    moreover have "skip_ws (sep_by (CHR '','') ts @ CHR ''}'' # rest) = sep_by (CHR '','') ts @ CHR ''}'' # rest"
      by (simp add: u sep_by_def json_string_def)
    moreover have "strip_word ''}'' (sep_by (CHR '','') ts @ CHR ''}'' # rest) = None"
      by (intro strip_word_other) (auto simp: u sep_by_def json_string_def)
    ultimately show ?thesis by (simp add: n ts(2))
  qed
qed

lemma dump_reads_back:
  assumes "float_text_ok fl rf F"
  shows "wire_value F v \<Longrightarrow> reads_back fl rf v"
proof (induction v)
  case (PFloat x)
  then show ?case using reads_back_float [OF assms] by auto
next
  case (PList vs)
  then show ?case using reads_back_list [OF assms] by simp
next
  case (PDict kvs)
  have "reads_back fl rf (snd kv)" if "kv \<in> set kvs" for kv
    using PDict.IH [of kv "snd kv"] PDict.prems that by (cases kv) fastforce
  then show ?case using reads_back_dict [OF assms PDict.prems] by blast
next
  case (PStr s)
  show ?case
    unfolding reads_back_def by (auto simp: json_string_def scan_json_string gr0_conv_Suc dest!: less_imp_Suc_add)
next
  case PNone
  show ?case using parse_word(1) [of _ rf] by (simp add: reads_back_def del: parse_value.simps)
next
  case (PBool b)
  show ?case
    using parse_word(2,3) [of _ rf] by (cases b) (simp_all add: reads_back_def del: parse_value.simps)
qed (auto simp: reads_back_int)

text \<open>Sorting the keys keeps a wire value one.\<close>

lemma canon_ok: "wire_value F v \<Longrightarrow> wire_value F (canon v)"
proof (induction v)
  case (PDict kvs)
  let ?kvs = "map (\<lambda>(k, v). (k, canon v)) kvs"
  have "mset (map fst (sort_key (\<lambda>kv. json_key (fst kv)) ?kvs)) = mset (map fst ?kvs)"
    by (simp only: mset_map mset_sort)
  then have "distinct (map fst (sort_key (\<lambda>kv. json_key (fst kv)) ?kvs))"
    using PDict.prems by (metis wire_value.simps(3) map_fst_map_snd mset_eq_imp_distinct_iff)
  moreover have "(\<exists>s. fst kv = PStr s) \<and> wire_value F (snd kv)" if "kv \<in> set ?kvs" for kv
    using that PDict by (force simp: snds.simps)
  ultimately show ?case by simp
qed auto

lemma loads_dumps:
  assumes "float_text_ok fl rf F" "wire_value F v" "dumps fl v = Some t"
  shows "loads rf t = Some (canon v)"
proof -
  have ok: "wire_value F (canon v)" using assms(2) by (rule canon_ok)
  have t: "dump fl (canon v) = Some t" using assms(3) by (simp add: dumps_def)
  have "parse_value rf (2 * length t + 2) (t @ []) = Some (canon v, [])"
    using dump_reads_back [OF assms(1) ok, unfolded reads_back_def, rule_format, OF t, of "[]" "2 * length t + 2"]
    by (simp add: follow_ok_def del: parse_value.simps)
  moreover have "skip_ws t = t" using dump_start [OF t ok assms(1)] by (intro skip_ws_start) simp
  ultimately show ?thesis by (simp add: loads_def skip_ws_def del: parse_value.simps)
qed

section \<open>The reader uses up its text, so its fuel is enough\<close>

lemma scan_string_shrinks: "scan_string s = Some (t, r) \<Longrightarrow> length r < length s"
proof (induction s arbitrary: t rule: length_induct)
  case (1 s)
  have less: "length r < length s" if "scan_string u = Some (t', r)" "length u < length s" for u t'
    using 1(1) that less_trans by blast
  show ?case
  proof (cases s)
    case (Cons c cs)
    then show ?thesis
      using 1(2) less by (auto split: if_splits option.splits list.splits)
  qed (use 1(2) in simp)
qed

lemma skip_ws_length: "length (skip_ws s) \<le> length s"
  by (simp add: skip_ws_def length_dropWhile_le)

lemma strip_word_length: "strip_word w s = Some r \<Longrightarrow> length r + length w = length s"
  by (auto simp: strip_word_def starts_with_append split: if_splits)

lemma digits_of_length: "digits_of s = (ds, r) \<Longrightarrow> length s = length ds + length r"
  by (auto simp: digits_of_def) (metis length_append takeWhile_dropWhile_id)

lemma scan_number_shrinks: "scan_number rf s = Some (v, r) \<Longrightarrow> length r < length s"
proof -
  have int: "length r1 < length s1" if "scan_int s1 = Some (ds, r1)" for s1 ds r1
    using that by (auto simp: scan_int_def neq_Nil_conv split: prod.splits if_splits dest!: digits_of_length)
  have frac: "length r2 \<le> length r1" if "scan_frac r1 = (fr, r2)" for r1 fr r2
    using that by (auto simp: scan_frac_def split: list.splits prod.splits if_splits dest!: digits_of_length)
  have ex: "length r3 \<le> length r2" if "scan_exp r2 = (e, r3)" for r2 e r3
    using that by (auto simp: scan_exp_def Let_def split: list.splits prod.splits if_splits dest!: digits_of_length)
  show "scan_number rf s = Some (v, r) \<Longrightarrow> ?thesis"
    by (auto simp: scan_number_def Let_def split: list.splits if_splits option.splits prod.splits
        dest!: int frac ex)
qed

lemma parse_items_SucE:
  assumes "parse_items rf (Suc n) s = Some (vs, r)"
  obtains v r0 c r1 where "parse_value rf n s = Some (v, r0)" "skip_ws r0 = c # r1"
    "vs = [v] \<and> r = r1 \<or> (\<exists>us. parse_items rf n (skip_ws r1) = Some (us, r) \<and> vs = v # us)"
  using assms
  by (cases "parse_value rf n s"; cases "skip_ws (snd (the (parse_value rf n s)))") (auto split: if_splits)

lemma parse_members_SucE:
  assumes "parse_members rf (Suc n) s = Some (kvs, r)"
  obtains s1 k s2 s3 v r0 c r1 where "strip_word [CHR 0x22] s = Some s1" "scan_string s1 = Some (k, s2)"
    "strip_word '':'' (skip_ws s2) = Some s3" "parse_value rf n (skip_ws s3) = Some (v, r0)" "skip_ws r0 = c # r1"
    "kvs = [(k, v)] \<and> r = r1 \<or> (\<exists>us. parse_members rf n (skip_ws r1) = Some (us, r) \<and> kvs = (k, v) # us)"
proof -
  obtain s1 where s1: "strip_word [CHR 0x22] s = Some s1" using assms by (cases "strip_word [CHR 0x22] s") auto
  obtain k s2 where s2: "scan_string s1 = Some (k, s2)" using assms s1 by (cases "scan_string s1") auto
  obtain s3 where s3: "strip_word '':'' (skip_ws s2) = Some s3"
    using assms s1 s2 by (cases "strip_word '':'' (skip_ws s2)") auto
  obtain v r0 where r0: "parse_value rf n (skip_ws s3) = Some (v, r0)"
    using assms s1 s2 s3 by (cases "parse_value rf n (skip_ws s3)") auto
  obtain c r1 where "skip_ws r0 = c # r1"
      "kvs = [(k, v)] \<and> r = r1 \<or> (\<exists>us. parse_members rf n (skip_ws r1) = Some (us, r) \<and> kvs = (k, v) # us)"
    using assms s1 s2 s3 r0 by (cases "skip_ws r0") (auto split: if_splits)
  with s1 s2 s3 r0 show thesis by (rule that)
qed

lemma parse_shrinks:
  "(\<forall>s v r. parse_value rf n s = Some (v, r) \<longrightarrow> length r < length s) \<and>
   (\<forall>s vs r. parse_items rf n s = Some (vs, r) \<longrightarrow> length r < length s) \<and>
   (\<forall>s kvs r. parse_members rf n s = Some (kvs, r) \<longrightarrow> length r < length s)"
proof (induction n)
  case (Suc n)
  have ws: "length r < length s" if "length r < length (skip_ws s)" for r s :: string
    using that skip_ws_length [of s] by linarith
  have val: "length r < length s" if "parse_value rf n s = Some (v, r)" for s v r using Suc that by blast
  have items: "length r < length s" if "parse_items rf n s = Some (vs, r)" for s vs r using Suc that by blast
  have members: "length r < length s" if "parse_members rf n s = Some (kvs, r)" for s kvs r using Suc that by blast
  have "length r < length s" if "parse_value rf (Suc n) s = Some (v, r)" for s v r
  proof (cases s)
    case (Cons c cs)
    then show ?thesis
      using that skip_ws_length [of cs]
      by (auto simp: bind_eq_Some_conv split: if_splits option.splits
          dest!: scan_string_shrinks strip_word_length scan_number_shrinks items members)
  qed (use that in simp)
  moreover have "length r < length s" if "parse_items rf (Suc n) s = Some (vs, r)" for s vs r
    using that
  proof (rule parse_items_SucE)
    fix v r0 c r1
    assume "parse_value rf n s = Some (v, r0)" "skip_ws r0 = c # r1"
      "vs = [v] \<and> r = r1 \<or> (\<exists>us. parse_items rf n (skip_ws r1) = Some (us, r) \<and> vs = v # us)"
    then show ?thesis
      using val [of s v r0] skip_ws_length [of r0] skip_ws_length [of r1] by (auto dest!: items)
  qed
  moreover have "length r < length s" if "parse_members rf (Suc n) s = Some (kvs, r)" for s kvs r
    using that
  proof (rule parse_members_SucE)
    fix s1 k s2 s3 v r0 c r1
    assume "strip_word [CHR 0x22] s = Some s1" "scan_string s1 = Some (k, s2)"
      "strip_word '':'' (skip_ws s2) = Some s3" "parse_value rf n (skip_ws s3) = Some (v, r0)" "skip_ws r0 = c # r1"
      "kvs = [(k, v)] \<and> r = r1 \<or> (\<exists>us. parse_members rf n (skip_ws r1) = Some (us, r) \<and> kvs = (k, v) # us)"
    then show ?thesis
      using skip_ws_length [of s2] skip_ws_length [of s3] skip_ws_length [of r0] skip_ws_length [of r1]
      by (auto dest!: members val scan_string_shrinks strip_word_length)
  qed
  ultimately show ?case by blast
qed simp

text \<open>More fuel than twice the length of the text changes nothing.\<close>

definition same_within :: "nat \<Rightarrow> nat \<Rightarrow> (string \<Rightarrow> pyfloat) \<Rightarrow> bool" where
  "same_within n m rf =
     ((\<forall>s. 2 * length s < n \<longrightarrow> 2 * length s < m \<longrightarrow> parse_value rf n s = parse_value rf m s) \<and>
      (\<forall>s. 2 * length s + 1 < n \<longrightarrow> 2 * length s + 1 < m \<longrightarrow> parse_items rf n s = parse_items rf m s) \<and>
      (\<forall>s. 2 * length s < n \<longrightarrow> 2 * length s < m \<longrightarrow> parse_members rf n s = parse_members rf m s))"

lemma same_withinD:
  assumes "same_within n m rf"
  shows "2 * length s < n \<Longrightarrow> 2 * length s < m \<Longrightarrow> parse_value rf n s = parse_value rf m s"
    "2 * length s + 1 < n \<Longrightarrow> 2 * length s + 1 < m \<Longrightarrow> parse_items rf n s = parse_items rf m s"
    "2 * length s < n \<Longrightarrow> 2 * length s < m \<Longrightarrow> parse_members rf n s = parse_members rf m s"
  using assms unfolding same_within_def by blast+

lemma parse_value_fuel:
  assumes "same_within n m rf" "2 * length s < Suc n" "2 * length s < Suc m"
  shows "parse_value rf (Suc n) s = parse_value rf (Suc m) s"
proof (cases s)
  case (Cons c cs)
  have "parse_items rf n (skip_ws cs) = parse_items rf m (skip_ws cs)"
    using Cons assms(2,3) skip_ws_length [of cs] by (intro same_withinD [OF assms(1)]) auto
  moreover have "parse_members rf n (skip_ws cs) = parse_members rf m (skip_ws cs)"
    using Cons assms(2,3) skip_ws_length [of cs] by (intro same_withinD [OF assms(1)]) auto
  ultimately show ?thesis using Cons by (simp cong: option.case_cong)
qed simp

lemma parse_items_fuel:
  assumes "same_within n m rf" "2 * length s + 1 < Suc n" "2 * length s + 1 < Suc m"
  shows "parse_items rf (Suc n) s = parse_items rf (Suc m) s"
proof -
  have same: "parse_value rf n s = parse_value rf m s" using assms by (intro same_withinD) auto
  show ?thesis
  proof (cases "parse_value rf m s")
    case (Some vr)
    obtain v r where vr: "vr = (v, r)" by (cases vr)
    have "length r < length s" using parse_shrinks Some vr by blast
    then have "parse_items rf n (skip_ws r') = parse_items rf m (skip_ws r')" if "skip_ws r = c # r'" for c r'
      using assms(2,3) that skip_ws_length [of r] skip_ws_length [of r'] by (intro same_withinD [OF assms(1)]) auto
    then show ?thesis using Some same vr by (simp split: list.splits)
  qed (simp add: same)
qed

lemma parse_members_fuel:
  assumes "same_within n m rf" "2 * length s < Suc n" "2 * length s < Suc m"
  shows "parse_members rf (Suc n) s = parse_members rf (Suc m) s"
proof (cases "\<exists>s1 k s2 s3. strip_word [CHR 0x22] s = Some s1 \<and> scan_string s1 = Some (k, s2) \<and>
    strip_word '':'' (skip_ws s2) = Some s3")
  case True
  then obtain s1 k s2 s3 where s3: "strip_word [CHR 0x22] s = Some s1" "scan_string s1 = Some (k, s2)"
      "strip_word '':'' (skip_ws s2) = Some s3" by blast
  have len: "length s3 + 2 < length s"
    using s3 skip_ws_length [of s2] by (auto dest!: strip_word_length scan_string_shrinks)
  have same: "parse_value rf n (skip_ws s3) = parse_value rf m (skip_ws s3)"
    using assms(2,3) len skip_ws_length [of s3] by (intro same_withinD [OF assms(1)]) auto
  show ?thesis
  proof (cases "parse_value rf m (skip_ws s3)")
    case (Some vr)
    obtain v r where vr: "vr = (v, r)" by (cases vr)
    have "length r < length (skip_ws s3)" using parse_shrinks Some vr by blast
    then have "parse_members rf n (skip_ws r') = parse_members rf m (skip_ws r')" if "skip_ws r = c # r'" for c r'
      using assms(2,3) that len skip_ws_length [of s3] skip_ws_length [of r] skip_ws_length [of r']
      by (intro same_withinD [OF assms(1)]) auto
    then show ?thesis using Some same vr s3 by (simp split: list.splits)
  qed (simp add: same s3)
next
  case False
  then have "parse_members rf (Suc l) s = None" for l
    by (cases "strip_word [CHR 0x22] s"; cases "scan_string (the (strip_word [CHR 0x22] s))") auto
  then show ?thesis by simp
qed

lemma parse_fuel: "same_within n m rf"
proof (induction n arbitrary: m)
  case 0
  then show ?case by (simp add: same_within_def)
next
  case (Suc n)
  then show ?case
    by (cases m) (auto simp: same_within_def simp del: parse_value.simps parse_items.simps parse_members.simps
        intro: parse_value_fuel parse_items_fuel parse_members_fuel)
qed

section \<open>What is read is a value of the wire\<close>

fun json_shape :: "pyval \<Rightarrow> bool" where
  "json_shape (PList vs) = (\<forall>v \<in> set vs. json_shape v)"
| "json_shape (PDict kvs) =
     (distinct (map fst kvs) \<and> (\<forall>kv \<in> set kvs. (\<exists>s. fst kv = PStr s) \<and> json_shape (snd kv)))"
| "json_shape (PTuple vs) = False"
| "json_shape (PObj x) = False"
| "json_shape v = True"

lemma scan_number_shape: "scan_number rf s = Some (v, r) \<Longrightarrow> json_shape v"
  by (auto simp: scan_number_def Let_def split: option.splits prod.splits if_splits list.splits)

lemma unique_object_shape:
  "unique_object kvs = Some v \<Longrightarrow> \<forall>kv \<in> set kvs. json_shape (snd kv) \<Longrightarrow> json_shape v"
proof -
  assume v: "unique_object kvs = Some v" "\<forall>kv \<in> set kvs. json_shape (snd kv)"
  have "map fst (map (\<lambda>(k, v). (PStr k, v)) kvs) = map PStr (map fst kvs)" by auto
  then have "distinct (map fst (map (\<lambda>(k, v). (PStr k, v)) kvs))"
    using v(1) by (simp add: unique_object_def distinct_map inj_on_def split: if_splits)
  then show "json_shape v" using v by (fastforce simp: unique_object_def split: if_splits)
qed

lemma parse_shape:
  "(\<forall>s v r. parse_value rf n s = Some (v, r) \<longrightarrow> json_shape v) \<and>
   (\<forall>s vs r. parse_items rf n s = Some (vs, r) \<longrightarrow> (\<forall>v \<in> set vs. json_shape v)) \<and>
   (\<forall>s kvs r. parse_members rf n s = Some (kvs, r) \<longrightarrow> (\<forall>kv \<in> set kvs. json_shape (snd kv)))"
proof (induction n)
  case (Suc n)
  have ih: "\<And>s v r. parse_value rf n s = Some (v, r) \<Longrightarrow> json_shape v"
      "\<And>s vs r. parse_items rf n s = Some (vs, r) \<Longrightarrow> \<forall>v \<in> set vs. json_shape v"
      "\<And>s kvs r. parse_members rf n s = Some (kvs, r) \<Longrightarrow> \<forall>kv \<in> set kvs. json_shape (snd kv)"
    using Suc by blast+
  have "json_shape v" if "parse_value rf (Suc n) s = Some (v, r)" for s v r
    using that
    by (auto simp: bind_eq_Some_conv split: list.splits if_splits option.splits
        dest!: scan_number_shape ih(2,3) intro: unique_object_shape)
  moreover have "\<forall>v \<in> set vs. json_shape v" if "parse_items rf (Suc n) s = Some (vs, r)" for s vs r
    by (rule parse_items_SucE [OF that]) (use ih(1,2) in fastforce)
  moreover have "\<forall>kv \<in> set kvs. json_shape (snd kv)" if "parse_members rf (Suc n) s = Some (kvs, r)" for s kvs r
    by (rule parse_members_SucE [OF that]) (use ih(1,3) in fastforce)
  ultimately show ?case by blast
qed simp

lemma loads_shape: "loads rf s = Some v \<Longrightarrow> json_shape v"
  using parse_shape [of rf "2 * length s + 2"]
  by (auto simp: loads_def simp del: parse_value.simps parse_items.simps parse_members.simps
      split: option.splits if_splits prod.splits)

section \<open>Written text is ASCII\<close>

definition ascii :: "string \<Rightarrow> bool" where
  "ascii s = list_all (\<lambda>c. (of_char c :: nat) < 128) s"

lemma ascii_simps [simp]:
  "ascii []" "ascii (c # s) \<longleftrightarrow> (of_char c :: nat) < 128 \<and> ascii s" "ascii (s @ t) \<longleftrightarrow> ascii s \<and> ascii t"
  by (simp_all add: ascii_def)

lemma ascii_digits: "list_all is_digit_char s \<Longrightarrow> ascii s"
  by (auto simp: ascii_def list_all_iff is_digit_char_def Let_def dest!: bspec)

lemma ascii_esc: "ascii (esc_char c)"
proof -
  have "of_char c < (16 * 16 :: nat)" using nat_of_char_less_256 [of c] by simp
  then have "of_char c div 16 < (16 :: nat)" by (rule less_mult_imp_div_less)
  moreover have "(of_char (hex_char d) :: nat) < 128" if "d < 16" for d using that by (simp add: hex_char_def)
  ultimately have "(of_char (hex_char (of_char c div 16)) :: nat) < 128" "(of_char (hex_char (of_char c mod 16)) :: nat) < 128"
    by simp_all
  then show ?thesis by (simp add: esc_char_def Let_def)
qed

lemma ascii_json_string: "ascii (json_string s)"
proof -
  have "ascii (concat (map esc_char s))" by (induction s) (simp_all add: ascii_esc)
  then show ?thesis by (simp add: json_string_def)
qed

lemma ascii_float:
  assumes "float_text_ok fl rf F" "r \<in> F"
  shows "ascii (fl r)"
proof -
  obtain sg ds fr ex where "fl r = sg @ ds @ fr @ ex" "sg \<in> {[], ''-''}" "int_part ds" "frac_part fr" "exp_part ex"
    using assms unfolding float_text_ok_def by blast
  then show ?thesis by (auto simp: int_part_def frac_part_def exp_part_def ascii_digits)
qed

lemma ascii_sep_by: "\<forall>t \<in> set ts. ascii t \<Longrightarrow> (of_char c :: nat) < 128 \<Longrightarrow> ascii (sep_by c ts)"
proof -
  assume ts: "\<forall>t \<in> set ts. ascii t" "(of_char c :: nat) < 128"
  have "\<forall>t \<in> set us. ascii t \<Longrightarrow> ascii (concat (map ((#) c) us))" for us
    using ts(2) by (induction us) simp_all
  then show ?thesis using ts(1) by (cases ts) (simp_all add: sep_by_def)
qed

lemma all_some_map: "all_some (map f xs) = Some ys \<Longrightarrow> y \<in> set ys \<Longrightarrow> \<exists>x \<in> set xs. f x = Some y"
proof (induction xs arbitrary: ys)
  case (Cons x xs)
  then show ?case by (cases "f x") fastforce+
qed simp

lemma dump_ascii:
  assumes "float_text_ok fl rf F"
  shows "wire_value F v \<Longrightarrow> dump fl v = Some t \<Longrightarrow> ascii t"
proof (induction v arbitrary: t)
  case (PInt i)
  have "is_digit_char c \<Longrightarrow> ascii [c]" for c using ascii_digits [of "[c]"] by simp
  then have "(of_char c :: nat) < 128" if "c \<in> set (show_int i)" for c using show_int_chars [OF that] by auto
  then show ?case using PInt by (auto simp: ascii_def list_all_iff split: if_splits)
next
  case (PFloat x)
  then show ?case using ascii_float [OF assms] by auto
next
  case (PList vs)
  then obtain ts where ts: "all_some (map (dump fl) vs) = Some ts" "t = CHR ''['' # sep_by (CHR '','') ts @ '']''" by auto
  have "ascii u" if "u \<in> set ts" for u using all_some_map [OF ts(1) that] PList by auto
  then have "ascii (sep_by (CHR '','') ts)" by (intro ascii_sep_by) simp_all
  then show ?case using ts(2) by simp
next
  case (PDict kvs)
  then obtain ts where ts: "all_some (map (member_text fl) kvs) = Some ts" "t = CHR ''{'' # sep_by (CHR '','') ts @ ''}''"
    unfolding dump_dict by blast
  have "ascii u" if "u \<in> set ts" for u
  proof -
    obtain kv where kv: "kv \<in> set kvs" "member_text fl kv = Some u" using all_some_map [OF ts(1) \<open>u \<in> set ts\<close>] by blast
    then obtain s w where "dump fl (snd kv) = Some w" "u = json_string s @ CHR '':'' # w"
      by (auto simp: member_text_def split: pyval.splits)
    moreover have "ascii w" if "dump fl (snd kv) = Some w" for w
      using PDict.IH [of kv "snd kv" w] PDict.prems(1) kv(1) that by (cases kv) fastforce
    ultimately show ?thesis by (simp add: ascii_json_string)
  qed
  then have "ascii (sep_by (CHR '','') ts)" by (intro ascii_sep_by) simp_all
  then show ?case using ts(2) by simp
qed (auto simp: ascii_json_string split: if_splits)

lemma dumps_ascii: "float_text_ok fl rf F \<Longrightarrow> wire_value F v \<Longrightarrow> dumps fl v = Some t \<Longrightarrow> ascii t"
  unfolding dumps_def using dump_ascii canon_ok by blast

section \<open>Sorting the keys\<close>

lemma canon_canon: "canon (canon v) = canon v"
proof (induction v)
  case (PDict kvs)
  let ?cs = "map (\<lambda>(k, v). (k, canon v)) kvs" and ?f = "\<lambda>kv. json_key (fst kv) :: string"
  have id: "map (\<lambda>(k, v). (k, canon v)) xs = xs" if "\<forall>kv \<in> set xs. canon (snd kv) = snd kv" for xs
    using that by (induction xs) auto
  have "\<forall>kv \<in> set (sort_key ?f ?cs). canon (snd kv) = snd kv" using PDict by (force simp: snds.simps)
  then have "canon (canon (PDict kvs)) = PDict (sort_key ?f (sort_key ?f ?cs))" by (simp only: canon.simps id)
  also have "sort_key ?f (sort_key ?f ?cs) = sort_key ?f ?cs" by (rule sort_key_id_if_sorted) simp
  finally show ?case by simp
qed auto

lemma canon_scalar [simp]: "canon v = PInt i \<longleftrightarrow> v = PInt i" "canon v = PStr s \<longleftrightarrow> v = PStr s" "canon v = PNone \<longleftrightarrow> v = PNone"
  by (cases v; simp)+

lemma map_of_canon:
  assumes "canon (PDict d) = PDict d'" "distinct (map fst d)"
  shows "map_of d' k = map_option canon (map_of d k)"
proof -
  let ?cs = "map (\<lambda>(k, v). (k, canon v)) d"
  have d': "d' = sort_key (\<lambda>kv. json_key (fst kv)) ?cs" using assms(1) by simp
  have dist: "distinct (map fst ?cs)" unfolding map_fst_map_snd by (rule assms(2))
  have "mset (map fst d') = mset (map fst ?cs)" by (simp only: d' mset_map mset_sort)
  then have "distinct (map fst d')" using dist mset_eq_imp_distinct_iff by blast
  moreover have "set d' = set ?cs" by (simp add: d')
  ultimately have "map_of d' = map_of ?cs" using dist by (simp add: map_of_inject_set)
  then show ?thesis by (simp add: map_of_map_snd)
qed

lemma canon_keys: "canon (PDict d) = PDict d' \<Longrightarrow> set (map fst d') = set (map fst d)"
  by force

end
