(* ===== verification/Plan_Binding.thy ===== *)
theory Plan_Binding
  imports Exa_Prelude
begin

text \<open>
  Part of \<^verbatim>\<open>src/exaserve/plan/contracts.py\<close>: node identity, the allocation binding (the
  generation-scoped map from planned ranks to nodes) and the compiled control limits. Fields that
  the source checks with \<^verbatim>\<open>isinstance\<close> have the checked type here, so only the conditions on values
  remain in the validation chains.
\<close>

section \<open>Plan errors and digests\<close>

text \<open>A \<^verbatim>\<open>PlanError\<close> with the path it names, or the \<^verbatim>\<open>OverflowError\<close> of reading the number there.\<close>

datatype plan_error = PlanError string | PlanOverflow string

definition plan_schema_version :: int where
  "plan_schema_version = 3"

definition require_schema_version :: "int \<Rightarrow> string \<Rightarrow> (bool \<times> plan_error) list" where
  "require_schema_version v path = [(v \<noteq> plan_schema_version, PlanError path)]"

definition lower_hex :: "char \<Rightarrow> bool" where
  "lower_hex c = (is_digit_char c \<or> (let n = (of_char c :: nat) in 97 \<le> n \<and> n \<le> 102))"

definition is_sha256 :: "string \<Rightarrow> bool" where
  "is_sha256 s = (length s = 64 \<and> list_all lower_hex s)"

definition require_sha256 :: "bool \<Rightarrow> string \<Rightarrow> string \<Rightarrow> (bool \<times> plan_error) list" where
  "require_sha256 allow_empty v path =
     [(\<not> (allow_empty \<and> v = []) \<and> \<not> is_sha256 v, PlanError path)]"

section \<open>Node identity\<close>

definition py_space :: "char \<Rightarrow> bool" where
  "py_space c = (let n = (of_char c :: nat) in (9 \<le> n \<and> n \<le> 13) \<or> (28 \<le> n \<and> n \<le> 32))"

definition strip :: "string \<Rightarrow> string" where
  "strip s = rev (dropWhile py_space (rev (dropWhile py_space s)))"

definition lower_char :: "char \<Rightarrow> char" where
  "lower_char c = (let n = (of_char c :: nat) in if 65 \<le> n \<and> n \<le> 90 then char_of (n + 32) else c)"

definition canonical_node_id :: "string \<Rightarrow> string" where
  "canonical_node_id s = takeWhile (\<lambda>c. c \<noteq> CHR ''.'') (map lower_char (strip s))"

definition same_node :: "string \<Rightarrow> string \<Rightarrow> bool" where
  "same_node l r = (canonical_node_id l \<noteq> [] \<and> canonical_node_id l = canonical_node_id r)"

lemma same_node_sym: "same_node a b \<Longrightarrow> same_node b a"
  by (auto simp: same_node_def)

lemma same_node_trans: "same_node a b \<Longrightarrow> same_node b c \<Longrightarrow> same_node a c"
  by (auto simp: same_node_def)

section \<open>Control limits\<close>

record control_limits =
  registration_deadline_s :: real
  reconnect_grace_s :: real
  heartbeat_interval_s :: real
  lease_timeout_s :: real
  snapshot_assembly_deadline_s :: real
  watchdog_cleanup_deadline_s :: real
  max_frame_bytes :: int
  max_snapshot_chunks :: int
  max_snapshot_bytes :: int
  max_snapshot_items :: int
  evidence_backed :: bool

definition default_control_limits :: control_limits where
  "default_control_limits =
     \<lparr>registration_deadline_s = 300, reconnect_grace_s = 60, heartbeat_interval_s = 5,
      lease_timeout_s = 30, snapshot_assembly_deadline_s = 60, watchdog_cleanup_deadline_s = 300,
      max_frame_bytes = 1048576, max_snapshot_chunks = 256, max_snapshot_bytes = 67108864,
      max_snapshot_items = 65536, evidence_backed = False\<rparr>"

definition control_limits_checks :: "control_limits \<Rightarrow> (bool \<times> plan_error) list" where
  "control_limits_checks c =
     [(registration_deadline_s c \<le> 0, PlanError ''control.registration_deadline_s''),
      (reconnect_grace_s c \<le> 0, PlanError ''control.reconnect_grace_s''),
      (heartbeat_interval_s c \<le> 0, PlanError ''control.heartbeat_interval_s''),
      (lease_timeout_s c \<le> 0, PlanError ''control.lease_timeout_s''),
      (snapshot_assembly_deadline_s c \<le> 0, PlanError ''control.snapshot_assembly_deadline_s''),
      (watchdog_cleanup_deadline_s c \<le> 0, PlanError ''control.watchdog_cleanup_deadline_s''),
      (max_frame_bytes c \<le> 0, PlanError ''control.max_frame_bytes''),
      (max_snapshot_chunks c \<le> 0, PlanError ''control.max_snapshot_chunks''),
      (max_snapshot_bytes c \<le> 0, PlanError ''control.max_snapshot_bytes''),
      (max_snapshot_items c \<le> 0, PlanError ''control.max_snapshot_items''),
      (lease_timeout_s c < 3 * heartbeat_interval_s c, PlanError ''control.lease_timeout_s'')]"

definition control_limits_ok :: "control_limits \<Rightarrow> bool" where
  "control_limits_ok c = (first_failure (control_limits_checks c) = None)"

lemma default_control_limits_ok: "control_limits_ok default_control_limits"
  by (simp add: control_limits_ok_def control_limits_checks_def default_control_limits_def)

section \<open>Allocation binding\<close>

record allocation_binding =
  ab_schema_version :: int
  ab_deployment_id :: string
  ab_generation :: int
  ab_deployment_plan_hash :: string
  ab_site_profile_hash :: string
  ab_scheduler_allocation_id :: string
  ab_rank_to_node :: "(int \<times> string) list"
  ab_allocation_binding_hash :: string

definition int_range :: "nat \<Rightarrow> int list" where
  "int_range n = map int [0..<n]"

definition allocation_binding_checks :: "allocation_binding \<Rightarrow> (bool \<times> plan_error) list" where
  "allocation_binding_checks b =
     require_schema_version (ab_schema_version b) ''binding.schema_version'' @
     [(ab_deployment_id b = [], PlanError ''binding.deployment_id''),
      (ab_generation b < 0, PlanError ''binding.generation''),
      (ab_scheduler_allocation_id b = [], PlanError ''binding.scheduler_allocation_id'')] @
     require_sha256 False (ab_deployment_plan_hash b) ''binding.deployment_plan_hash'' @
     require_sha256 False (ab_site_profile_hash b) ''binding.site_profile_hash'' @
     require_sha256 True (ab_allocation_binding_hash b) ''binding.allocation_binding_hash'' @
     [(list_ex (\<lambda>(r, n). r < 0) (ab_rank_to_node b), PlanError ''binding ranks non-negative''),
      (map fst (ab_rank_to_node b) \<noteq> int_range (length (ab_rank_to_node b)),
        PlanError ''binding ranks contiguous''),
      (list_ex (\<lambda>(r, n). canonical_node_id n = []) (ab_rank_to_node b),
        PlanError ''binding node names''),
      (\<not> distinct (map (\<lambda>(r, n). canonical_node_id n) (ab_rank_to_node b)),
        PlanError ''binding duplicate canonical node names'')]"

definition allocation_binding_ok :: "allocation_binding \<Rightarrow> bool" where
  "allocation_binding_ok b = (first_failure (allocation_binding_checks b) = None)"

definition node_for :: "allocation_binding \<Rightarrow> int \<Rightarrow> string option" where
  "node_for b r = map_of (ab_rank_to_node b) r"

definition is_bound_node :: "allocation_binding \<Rightarrow> int \<Rightarrow> string \<Rightarrow> bool" where
  "is_bound_node b r n = (case node_for b r of None \<Rightarrow> False | Some bound \<Rightarrow> same_node bound n)"

definition ab_ranks :: "allocation_binding \<Rightarrow> int list" where
  "ab_ranks b = sort (map fst (ab_rank_to_node b))"

text \<open>
  \<^verbatim>\<open>build_allocation_binding\<close>: node-file order, duplicates and empty lines dropped, then the
  validating constructor and \<^verbatim>\<open>finalize\<close>, which fills the hash field; \<open>H\<close> is the hash of the
  canonical form (without the hash field) and is any function here.
\<close>

fun unique_nodes :: "string list \<Rightarrow> string list \<Rightarrow> string list" where
  "unique_nodes acc [] = acc"
| "unique_nodes acc (n # ns) =
     (if n \<noteq> [] \<and> n \<notin> set acc then unique_nodes (acc @ [n]) ns else unique_nodes acc ns)"

definition finalize_binding ::
    "(allocation_binding \<Rightarrow> string) \<Rightarrow> allocation_binding \<Rightarrow> allocation_binding" where
  "finalize_binding H b =
     b\<lparr>ab_allocation_binding_hash := H (b\<lparr>ab_allocation_binding_hash := []\<rparr>)\<rparr>"

definition build_allocation_binding ::
    "(allocation_binding \<Rightarrow> string) \<Rightarrow> int \<Rightarrow> string \<Rightarrow> string \<Rightarrow> string \<Rightarrow> int \<Rightarrow> string \<Rightarrow> string list
      \<Rightarrow> plan_error + allocation_binding" where
  "build_allocation_binding H num_nodes deployment_id plan_hash site_hash generation alloc_id nodes =
     (let unique = unique_nodes [] nodes in
      if int (length unique) \<noteq> num_nodes then Inl (PlanError ''allocation node count'')
      else
        let b = \<lparr>ab_schema_version = plan_schema_version, ab_deployment_id = deployment_id,
                 ab_generation = generation, ab_deployment_plan_hash = plan_hash,
                 ab_site_profile_hash = site_hash, ab_scheduler_allocation_id = alloc_id,
                 ab_rank_to_node = zip (int_range (length unique)) unique,
                 ab_allocation_binding_hash = []\<rparr>
        in case first_failure (allocation_binding_checks b) of
             Some e \<Rightarrow> Inl e
           | None \<Rightarrow> checked (allocation_binding_checks (finalize_binding H b))
                        (finalize_binding H b))"

subsection \<open>Lemmas\<close>

lemma int_range_length [simp]: "length (int_range n) = n"
  by (simp add: int_range_def)

lemma int_range_set: "set (int_range n) = {0..<int n}"
proof -
  have "set (int_range n) = int ` {0..<n}" by (simp add: int_range_def)
  also have "\<dots> = {0..<int n}" by (simp add: image_int_atLeastLessThan)
  finally show ?thesis .
qed

lemma int_range_distinct [simp]: "distinct (int_range n)"
  by (simp add: int_range_def distinct_map)

lemma int_range_sorted [simp]: "sorted (int_range n)"
  by (simp add: int_range_def sorted_iff_nth_mono)

lemma allocation_binding_okD:
  assumes "allocation_binding_ok b"
  shows "map fst (ab_rank_to_node b) = int_range (length (ab_rank_to_node b))"
    and "distinct (map (\<lambda>(r, n). canonical_node_id n) (ab_rank_to_node b))"
    and "\<forall>(r, n) \<in> set (ab_rank_to_node b). canonical_node_id n \<noteq> []"
  using assms
  by (auto simp: allocation_binding_ok_def allocation_binding_checks_def check_simps list_ex_iff)

lemma ab_ranks_ok: "allocation_binding_ok b \<Longrightarrow> ab_ranks b = int_range (length (ab_rank_to_node b))"
  by (simp add: ab_ranks_def allocation_binding_okD(1) sorted_sort_id)

lemma node_for_ab_ranks: "node_for b r \<noteq> None \<longleftrightarrow> r \<in> set (ab_ranks b)"
  by (simp add: node_for_def ab_ranks_def map_of_eq_None_keys)

lemma is_bound_node_rank: "is_bound_node b r n \<Longrightarrow> r \<in> set (ab_ranks b)"
  by (auto simp: is_bound_node_def node_for_ab_ranks [symmetric] split: option.splits)

text \<open>A node name can be bound to one rank only, whichever spelling a process reports.\<close>

lemma is_bound_node_unique:
  assumes ok: "allocation_binding_ok b"
    and r: "is_bound_node b r n" and r': "is_bound_node b r' n"
  shows "r = r'"
proof -
  from r obtain m where m: "(r, m) \<in> set (ab_rank_to_node b)" "canonical_node_id m = canonical_node_id n"
    by (auto simp: is_bound_node_def node_for_def same_node_def dest: map_of_SomeD split: option.splits)
  from r' obtain m' where m': "(r', m') \<in> set (ab_rank_to_node b)" "canonical_node_id m' = canonical_node_id n"
    by (auto simp: is_bound_node_def node_for_def same_node_def dest: map_of_SomeD split: option.splits)
  have "inj_on (\<lambda>(r, n). canonical_node_id n) (set (ab_rank_to_node b))"
    using allocation_binding_okD(2) [OF ok] by (simp add: distinct_map)
  then have "(r, m) = (r', m')"
    by (rule inj_onD) (use m m' in auto)
  then show ?thesis by simp
qed

lemma unique_nodes_distinct: "distinct acc \<Longrightarrow> distinct (unique_nodes acc ns)"
  by (induction acc ns rule: unique_nodes.induct) auto

lemma unique_nodes_set: "set (unique_nodes acc ns) = set acc \<union> (set ns - {[]})"
  by (induction acc ns rule: unique_nodes.induct) auto

lemma build_allocation_binding_Inr:
  assumes "build_allocation_binding H k did ph sh g aid nodes = Inr b"
  shows "allocation_binding_ok b" "int (length (ab_rank_to_node b)) = k"
    "map snd (ab_rank_to_node b) = unique_nodes [] nodes"
    "ab_deployment_id b = did" "ab_generation b = g" "ab_deployment_plan_hash b = ph"
    "ab_site_profile_hash b = sh"
  using assms
  by (auto simp: build_allocation_binding_def Let_def allocation_binding_ok_def finalize_binding_def
      check_simps first_failure_None split: if_splits option.splits)

end
