(* ===== verification/Wire.thy ===== *)
theory Wire
  imports Json Plan_Binding
begin

text \<open>
  The wire contracts of the control plane, \<^verbatim>\<open>src/exaserve/control/contracts.py\<close>, and the frames of
  \<^verbatim>\<open>src/exaserve/control/transport.py\<close>: component observations and their validation, envelopes with their
  canonical JSON encoding, and authenticated frames on a byte stream.

  Received data is a \<open>pyval\<close> until it has passed validation; a validated observation or
  envelope is a record. A byte is a \<open>char\<close>. The keyed digest \<^verbatim>\<open>HMAC-SHA256\<close> is an arbitrary function
  \<open>mac\<close> of the secret and the body; what is used of it is the length of its value. Bodies with bytes
  beyond ASCII, which \<^verbatim>\<open>encode_envelope\<close> never writes, are refused here.
\<close>

section \<open>Reasons\<close>

datatype reject_reason =
    BAD_MAC | OVERSIZED | UNKNOWN_SCHEMA | UNKNOWN_KIND | WRONG_DEPLOYMENT | WRONG_PLAN_HASH | STALE_GENERATION
  | STALE_INSTANCE | SEQUENCE_REGRESSION | RANK_MISMATCH | NODE_MISMATCH | DUPLICATE_RANK | NOT_REGISTERED
  | MALFORMED

text \<open>
  A reason with the field or the detail that the message names. The two other exceptions are not
  \<^verbatim>\<open>ContractError\<close>s: JSON encoding refuses a value, and \<^verbatim>\<open>float()\<close> raises \<^verbatim>\<open>OverflowError\<close> on an integer
  beyond the largest double.
\<close>

datatype contract_error = ContractError reject_reason string | EncodeFailed | NumberOverflow

definition schema_version :: int where
  "schema_version = 1"

definition max_message_bytes :: nat where
  "max_message_bytes = 2 ^ 20"

section \<open>Observations\<close>

record component_observation =
  ob_schema_version :: int
  ob_deployment_id :: string
  ob_plan_hash :: string
  ob_generation :: int
  ob_component_id :: string
  ob_instance_id :: string
  ob_sequence :: int
  ob_owner_scope :: string
  ob_role :: string
  ob_node_id :: string
  ob_state :: string
  ob_observed_at :: pyval
  ob_owner_rank :: "int option"
  ob_model_id :: "string option"
  ob_replica_id :: "string option"
  ob_reason_code :: "string option"
  ob_detail :: "string option"
  ob_receipt_hash :: "string option"

definition dedup_key :: "component_observation \<Rightarrow> string \<times> int \<times> string \<times> string \<times> int" where
  "dedup_key obs = (ob_deployment_id obs, ob_generation obs, ob_component_id obs, ob_instance_id obs, ob_sequence obs)"

definition str_or_none :: "string option \<Rightarrow> pyval" where
  "str_or_none s = (case s of None \<Rightarrow> PNone | Some t \<Rightarrow> PStr t)"

definition opt_int :: "int option \<Rightarrow> pyval" where
  "opt_int i = (case i of None \<Rightarrow> PNone | Some n \<Rightarrow> PInt n)"

definition obs_to_dict :: "component_observation \<Rightarrow> pyval" where
  "obs_to_dict obs = PDict
     [(PStr ''schema_version'', PInt (ob_schema_version obs)), (PStr ''deployment_id'', PStr (ob_deployment_id obs)),
      (PStr ''plan_hash'', PStr (ob_plan_hash obs)), (PStr ''generation'', PInt (ob_generation obs)),
      (PStr ''component_id'', PStr (ob_component_id obs)), (PStr ''instance_id'', PStr (ob_instance_id obs)),
      (PStr ''sequence'', PInt (ob_sequence obs)), (PStr ''owner_scope'', PStr (ob_owner_scope obs)),
      (PStr ''role'', PStr (ob_role obs)), (PStr ''node_id'', PStr (ob_node_id obs)),
      (PStr ''state'', PStr (ob_state obs)), (PStr ''observed_at'', ob_observed_at obs),
      (PStr ''owner_rank'', opt_int (ob_owner_rank obs)), (PStr ''model_id'', str_or_none (ob_model_id obs)),
      (PStr ''replica_id'', str_or_none (ob_replica_id obs)), (PStr ''reason_code'', str_or_none (ob_reason_code obs)),
      (PStr ''detail'', str_or_none (ob_detail obs)),
      (PStr ''compatibility_receipt_hash'', str_or_none (ob_receipt_hash obs))]"

definition required_fields :: "string list" where
  "required_fields = [''schema_version'', ''deployment_id'', ''plan_hash'', ''generation'', ''component_id'', ''instance_id'',
     ''sequence'', ''owner_scope'', ''role'', ''node_id'', ''state'', ''observed_at'']"

definition optional_fields :: "string list" where
  "optional_fields = [''owner_rank'', ''model_id'', ''replica_id'', ''reason_code'', ''detail'', ''compatibility_receipt_hash'']"

definition component_states :: "string list" where
  "component_states = [''NEW'', ''STARTING'', ''RUNNING'', ''READY'', ''STOPPING'', ''STOPPED'', ''FAILED'', ''UNKNOWN'']"

text \<open>\<^verbatim>\<open>d.get(k)\<close>; a field with a default of \<^verbatim>\<open>None\<close> reads the same when it is absent.\<close>

definition field :: "(pyval \<times> pyval) list \<Rightarrow> string \<Rightarrow> pyval" where
  "field d k = (case map_of d (PStr k) of None \<Rightarrow> PNone | Some v \<Rightarrow> v)"

definition field_in :: "string list \<Rightarrow> pyval \<Rightarrow> bool" where
  "field_in names v = (case v of PStr s \<Rightarrow> s \<in> set names | _ \<Rightarrow> False)"

text \<open>The call of a dataclass with keyword arguments: no unknown field and every required one.\<close>

definition kwargs_ok :: "string list \<Rightarrow> string list \<Rightarrow> (pyval \<times> pyval) list \<Rightarrow> bool" where
  "kwargs_ok required optional d =
     (set (map fst d) \<subseteq> PStr ` set (required @ optional) \<and> PStr ` set required \<subseteq> set (map fst d))"

definition obs_checks :: "(pyval \<times> pyval) list \<Rightarrow> (bool \<times> contract_error) list" where
  "obs_checks d =
     (let bad = (\<lambda>name. ContractError MALFORMED name) in
      [(field d ''schema_version'' \<noteq> PInt schema_version, ContractError UNKNOWN_SCHEMA []),
       (\<not> kwargs_ok required_fields optional_fields d, bad ''fields''),
       (\<not> field_in [''GLOBAL'', ''RANK''] (field d ''owner_scope''), bad ''owner_scope''),
       (\<not> field_in component_states (field d ''state''), bad ''state''),
       (field d ''owner_scope'' = PStr ''GLOBAL'' \<and> field d ''owner_rank'' \<noteq> PNone, bad ''GLOBAL owner_rank''),
       (field d ''owner_scope'' = PStr ''RANK'' \<and> \<not> int_at_least 0 (field d ''owner_rank''), bad ''RANK owner_rank'')] @
      map (\<lambda>name. (\<not> nonempty_str (field d name), bad name))
        [''deployment_id'', ''plan_hash'', ''component_id'', ''instance_id'', ''role'', ''node_id''] @
      map (\<lambda>name. (\<not> int_at_least 0 (field d name), bad name)) [''sequence'', ''generation''] @
      [(float_overflows (field d ''observed_at''), NumberOverflow),
       (\<not> nonneg_number (field d ''observed_at''), bad ''observed_at'')] @
      map (\<lambda>name. (\<not> none_or_str (field d name), bad name)) [''model_id'', ''replica_id'', ''reason_code'', ''detail''] @
      [(case field d ''compatibility_receipt_hash'' of PNone \<Rightarrow> False | PStr s \<Rightarrow> \<not> is_sha256 s | _ \<Rightarrow> True,
        bad ''compatibility_receipt_hash'')])"

definition the_str :: "pyval \<Rightarrow> string" where
  "the_str v = (case v of PStr s \<Rightarrow> s | _ \<Rightarrow> [])"

definition the_int :: "pyval \<Rightarrow> int" where
  "the_int v = (case v of PInt i \<Rightarrow> i | _ \<Rightarrow> 0)"

definition read_observation :: "(pyval \<times> pyval) list \<Rightarrow> component_observation" where
  "read_observation d =
     \<lparr>ob_schema_version = the_int (field d ''schema_version''), ob_deployment_id = the_str (field d ''deployment_id''),
      ob_plan_hash = the_str (field d ''plan_hash''), ob_generation = the_int (field d ''generation''),
      ob_component_id = the_str (field d ''component_id''), ob_instance_id = the_str (field d ''instance_id''),
      ob_sequence = the_int (field d ''sequence''), ob_owner_scope = the_str (field d ''owner_scope''),
      ob_role = the_str (field d ''role''), ob_node_id = the_str (field d ''node_id''), ob_state = the_str (field d ''state''),
      ob_observed_at = field d ''observed_at'', ob_owner_rank = as_int (field d ''owner_rank''),
      ob_model_id = as_str (field d ''model_id''), ob_replica_id = as_str (field d ''replica_id''),
      ob_reason_code = as_str (field d ''reason_code''), ob_detail = as_str (field d ''detail''),
      ob_receipt_hash = as_str (field d ''compatibility_receipt_hash'')\<rparr>"

definition validate_observation :: "pyval \<Rightarrow> contract_error + component_observation" where
  "validate_observation data =
     (case data of PDict d \<Rightarrow> checked (obs_checks d) (read_observation d)
      | _ \<Rightarrow> Inl (ContractError MALFORMED []))"

section \<open>Envelopes\<close>

datatype envelope_kind =
    REGISTER | OBSERVATION | COMMAND | COMMAND_RESULT | SNAPSHOT | RECEIPT | HEARTBEAT | GOODBYE

definition kind_names :: "(envelope_kind \<times> string) list" where
  "kind_names =
     [(REGISTER, ''REGISTER''), (OBSERVATION, ''OBSERVATION''), (COMMAND, ''COMMAND''),
      (COMMAND_RESULT, ''COMMAND_RESULT''), (SNAPSHOT, ''SNAPSHOT''), (RECEIPT, ''RECEIPT''),
      (HEARTBEAT, ''HEARTBEAT''), (GOODBYE, ''GOODBYE'')]"

definition kind_text :: "envelope_kind \<Rightarrow> string" where
  "kind_text k = the (map_of kind_names k)"

definition kind_of :: "string \<Rightarrow> envelope_kind option" where
  "kind_of s = map_of (map (\<lambda>(k, t). (t, k)) kind_names) s"

record envelope =
  en_v :: int
  en_kind :: envelope_kind
  en_deployment_id :: string
  en_plan_hash :: string
  en_generation :: int
  en_sender_rank :: int
  en_sender_node :: string
  en_seq :: int
  en_payload :: "(pyval \<times> pyval) list"

definition env_to_dict :: "envelope \<Rightarrow> pyval" where
  "env_to_dict e = PDict
     [(PStr ''v'', PInt (en_v e)), (PStr ''kind'', PStr (kind_text (en_kind e))),
      (PStr ''deployment_id'', PStr (en_deployment_id e)), (PStr ''plan_hash'', PStr (en_plan_hash e)),
      (PStr ''generation'', PInt (en_generation e)), (PStr ''sender_rank'', PInt (en_sender_rank e)),
      (PStr ''sender_node'', PStr (en_sender_node e)), (PStr ''seq'', PInt (en_seq e)),
      (PStr ''payload'', PDict (en_payload e))]"

text \<open>\<^verbatim>\<open>_validate_json_value\<close>\<close>

fun json_value_ok :: "pyval \<Rightarrow> bool" where
  "json_value_ok (PFloat x) = (case x of Finite r \<Rightarrow> True | _ \<Rightarrow> False)"
| "json_value_ok (PList vs) = list_all json_value_ok vs"
| "json_value_ok (PDict kvs) = list_all (\<lambda>(k, v). (case k of PStr s \<Rightarrow> True | _ \<Rightarrow> False) \<and> json_value_ok v) kvs"
| "json_value_ok (PTuple vs) = False"
| "json_value_ok (PObj x) = False"
| "json_value_ok v = True"

text \<open>\<^verbatim>\<open>_validate_envelope\<close>, on the fields of the decoded object or of the record.\<close>

definition envelope_checks :: "(pyval \<times> pyval) list \<Rightarrow> (bool \<times> contract_error) list" where
  "envelope_checks d =
     (let bad = (\<lambda>name. ContractError MALFORMED name) in
      [(field d ''v'' \<noteq> PInt schema_version, ContractError UNKNOWN_SCHEMA []),
       (\<not> field_in (map snd kind_names) (field d ''kind''), ContractError UNKNOWN_KIND [])] @
      map (\<lambda>name. (\<not> nonempty_str (field d name), bad name)) [''deployment_id'', ''plan_hash'', ''sender_node''] @
      map (\<lambda>(name, minimum). (\<not> int_at_least minimum (field d name), bad name))
        [(''generation'', 0), (''sender_rank'', - 1), (''seq'', 0)] @
      [(case field d ''payload'' of PDict p \<Rightarrow> \<not> json_value_ok (PDict p) | _ \<Rightarrow> True, bad ''payload'')])"

definition read_envelope :: "(pyval \<times> pyval) list \<Rightarrow> envelope" where
  "read_envelope d =
     \<lparr>en_v = the_int (field d ''v''), en_kind = the (kind_of (the_str (field d ''kind''))),
      en_deployment_id = the_str (field d ''deployment_id''), en_plan_hash = the_str (field d ''plan_hash''),
      en_generation = the_int (field d ''generation''), en_sender_rank = the_int (field d ''sender_rank''),
      en_sender_node = the_str (field d ''sender_node''), en_seq = the_int (field d ''seq''),
      en_payload = (case field d ''payload'' of PDict p \<Rightarrow> p | _ \<Rightarrow> [])\<rparr>"

text \<open>\<^verbatim>\<open>Envelope(**data)\<close>: a missing payload is the empty object.\<close>

definition with_payload :: "(pyval \<times> pyval) list \<Rightarrow> (pyval \<times> pyval) list" where
  "with_payload d = (if PStr ''payload'' \<in> set (map fst d) then d else d @ [(PStr ''payload'', PDict [])])"

definition envelope_fields :: "string list" where
  "envelope_fields =
     [''v'', ''kind'', ''deployment_id'', ''plan_hash'', ''generation'', ''sender_rank'', ''sender_node'', ''seq'']"

definition encode_envelope :: "(real \<Rightarrow> string) \<Rightarrow> envelope \<Rightarrow> contract_error + string" where
  "encode_envelope fl e =
     (case env_to_dict e of
        PDict d \<Rightarrow>
          and_then (checked (envelope_checks d) ()) (\<lambda>_.
            case dumps fl (env_to_dict e) of
              None \<Rightarrow> Inl EncodeFailed
            | Some body \<Rightarrow> if max_message_bytes < length body then Inl (ContractError OVERSIZED []) else Inr body)
      | _ \<Rightarrow> Inl EncodeFailed)"

definition decode_envelope :: "(string \<Rightarrow> pyfloat) \<Rightarrow> string \<Rightarrow> contract_error + envelope" where
  "decode_envelope rf body =
     (if max_message_bytes < length body then Inl (ContractError OVERSIZED [])
      else if \<not> ascii body then Inl (ContractError MALFORMED [])
      else case loads rf body of
        Some (PDict d) \<Rightarrow>
          if \<not> kwargs_ok envelope_fields [''payload''] d then Inl (ContractError MALFORMED ''fields'')
          else checked (envelope_checks (with_payload d)) (read_envelope (with_payload d))
      | _ \<Rightarrow> Inl (ContractError MALFORMED []))"

section \<open>Frames\<close>

definition mac_bytes :: nat where
  "mac_bytes = 32"

text \<open>\<^verbatim>\<open>struct.Struct(">I")\<close>\<close>

definition be32 :: "nat \<Rightarrow> string" where
  "be32 n = [char_of (n div 2 ^ 24), char_of (n div 2 ^ 16), char_of (n div 2 ^ 8), char_of n]"

fun un_be32 :: "string \<Rightarrow> nat" where
  "un_be32 [a, b, c, d] = ((of_char a * 256 + of_char b) * 256 + of_char c) * 256 + of_char d"
| "un_be32 _ = 0"

definition write_frame ::
    "(real \<Rightarrow> string) \<Rightarrow> (string \<Rightarrow> string \<Rightarrow> string) \<Rightarrow> string \<Rightarrow> nat \<Rightarrow> envelope \<Rightarrow> contract_error + string" where
  "write_frame fl mac secret max_frame e =
     and_then (encode_envelope fl e) (\<lambda>body.
       if max_frame < length body then Inl (ContractError OVERSIZED [])
       else let frame = mac secret body @ body in Inr (be32 (length frame) @ frame))"

text \<open>Reading one frame from the bytes that have arrived; \<open>EndOfStream\<close> if the peer sends no more.\<close>

datatype frame_result = Frame envelope string | FrameRejected contract_error | EndOfStream

definition read_frame ::
    "(string \<Rightarrow> pyfloat) \<Rightarrow> (string \<Rightarrow> string \<Rightarrow> string) \<Rightarrow> string \<Rightarrow> nat \<Rightarrow> string \<Rightarrow> frame_result" where
  "read_frame rf mac secret max_frame stream =
     (if length stream < 4 then EndOfStream
      else
        let n = un_be32 (take 4 stream); rest = drop 4 stream in
        if max_frame + mac_bytes < n \<or> n < mac_bytes then FrameRejected (ContractError OVERSIZED [])
        else if length rest < n then EndOfStream
        else
          let frame = take n rest; tag = take mac_bytes frame; body = drop mac_bytes frame in
          if tag \<noteq> mac secret body then FrameRejected (ContractError BAD_MAC [])
          else case decode_envelope rf body of
                 Inl err \<Rightarrow> FrameRejected err
               | Inr e \<Rightarrow> Frame e (drop n rest))"

text \<open>The frames a connection delivers before it ends or is rejected, and how it ended.\<close>

function read_frames ::
    "(string \<Rightarrow> pyfloat) \<Rightarrow> (string \<Rightarrow> string \<Rightarrow> string) \<Rightarrow> string \<Rightarrow> nat \<Rightarrow> string \<Rightarrow> envelope list \<times> frame_result" where
  "read_frames rf mac secret max_frame stream =
     (case read_frame rf mac secret max_frame stream of
        Frame e rest \<Rightarrow> (case read_frames rf mac secret max_frame rest of (es, r) \<Rightarrow> (e # es, r))
      | r \<Rightarrow> ([], r))"
  by pat_completeness auto
termination
  by (relation "measure (\<lambda>(rf, mac, secret, max_frame, stream). length stream)")
    (auto simp: read_frame_def Let_def mac_bytes_def split: if_splits sum.splits)

declare read_frames.simps [simp del]

section \<open>Envelopes that pass validation\<close>

lemma field_canon:
  "canon (PDict d) = PDict d' \<Longrightarrow> distinct (map fst d) \<Longrightarrow> field d' k = canon (field d k)"
  by (simp add: field_def map_of_canon split: option.splits)

text \<open>What every accepted or sent envelope satisfies.\<close>

definition envelope_ok :: "envelope \<Rightarrow> bool" where
  "envelope_ok e =
     (en_v e = schema_version \<and> en_deployment_id e \<noteq> [] \<and> en_plan_hash e \<noteq> [] \<and> en_sender_node e \<noteq> [] \<and>
      0 \<le> en_generation e \<and> - 1 \<le> en_sender_rank e \<and> 0 \<le> en_seq e \<and> json_value_ok (PDict (en_payload e)))"

definition envelope_dict :: "envelope \<Rightarrow> (pyval \<times> pyval) list" where
  "envelope_dict e = (case env_to_dict e of PDict d \<Rightarrow> d | _ \<Rightarrow> [])"

lemma env_to_dict_eq: "env_to_dict e = PDict (envelope_dict e)"
  by (simp add: envelope_dict_def env_to_dict_def)

lemma envelope_dict_keys: "map fst (envelope_dict e) = map PStr (envelope_fields @ [''payload''])"
  by (simp add: envelope_dict_def env_to_dict_def envelope_fields_def)

lemma envelope_dict_distinct: "distinct (map fst (envelope_dict e))"
  by (simp add: envelope_dict_def env_to_dict_def)

lemma field_envelope_dict:
  "field (envelope_dict e) ''v'' = PInt (en_v e)" "field (envelope_dict e) ''kind'' = PStr (kind_text (en_kind e))"
  "field (envelope_dict e) ''deployment_id'' = PStr (en_deployment_id e)"
  "field (envelope_dict e) ''plan_hash'' = PStr (en_plan_hash e)" "field (envelope_dict e) ''generation'' = PInt (en_generation e)"
  "field (envelope_dict e) ''sender_rank'' = PInt (en_sender_rank e)"
  "field (envelope_dict e) ''sender_node'' = PStr (en_sender_node e)" "field (envelope_dict e) ''seq'' = PInt (en_seq e)"
  "field (envelope_dict e) ''payload'' = PDict (en_payload e)"
  by (simp_all add: envelope_dict_def env_to_dict_def field_def)

lemma kind_text_member: "kind_text k \<in> set (map snd kind_names)"
  by (cases k) (simp_all add: kind_text_def kind_names_def)

lemma kind_of_text [simp]: "kind_of (kind_text k) = Some k"
  by (cases k) (simp_all add: kind_text_def kind_names_def kind_of_def)

lemma kind_of_member: "s \<in> set (map snd kind_names) \<Longrightarrow> \<exists>k. kind_of s = Some k \<and> kind_text k = s"
  by (auto simp: kind_names_def kind_of_def kind_text_def)

text \<open>The validation chain on the fields: what it asks of them, and what the record read from them is.\<close>

lemma envelope_checks_iff:
  "checked (envelope_checks d) x = Inr y \<longleftrightarrow> y = x \<and> field d ''v'' = PInt schema_version \<and>
     field_in (map snd kind_names) (field d ''kind'') \<and>
     nonempty_str (field d ''deployment_id'') \<and> nonempty_str (field d ''plan_hash'') \<and> nonempty_str (field d ''sender_node'') \<and>
     int_at_least 0 (field d ''generation'') \<and> int_at_least (- 1) (field d ''sender_rank'') \<and> int_at_least 0 (field d ''seq'') \<and>
     (\<exists>p. field d ''payload'' = PDict p \<and> json_value_ok (PDict p))"
  unfolding envelope_checks_def Let_def checked_Inr by (cases "field d ''payload''") auto

lemma envelope_ok_checked: "checked (envelope_checks (envelope_dict e)) () = Inr u \<longleftrightarrow> envelope_ok e"
  unfolding envelope_checks_iff field_envelope_dict envelope_ok_def
  using kind_text_member by (auto simp: py_simps field_in_def simp del: json_value_ok.simps)

lemma read_envelope_ok:
  assumes "checked (envelope_checks d) x = Inr y"
  shows "envelope_ok (read_envelope d)"
proof -
  obtain k where "field d ''kind'' = PStr k" "k \<in> set (map snd kind_names)"
    using assms unfolding envelope_checks_iff by (auto simp: field_in_def split: pyval.splits)
  then show ?thesis
    using assms unfolding envelope_checks_iff
    by (auto simp: py_simps envelope_ok_def read_envelope_def the_int_def the_str_def simp del: json_value_ok.simps)
qed

lemma decode_envelope_ok: "decode_envelope rf body = Inr e \<Longrightarrow> envelope_ok e \<and> json_shape (PDict (en_payload e))"
proof -
  assume dec: "decode_envelope rf body = Inr e"
  then obtain d where d: "loads rf body = Some (PDict d)" "checked (envelope_checks (with_payload d)) (read_envelope (with_payload d)) = Inr e"
    by (auto simp: decode_envelope_def split: if_splits option.splits pyval.splits)
  have e: "e = read_envelope (with_payload d)" using d(2) unfolding envelope_checks_iff by simp
  have "json_shape (field (with_payload d) k)" for k
    using loads_shape [OF d(1)]
    by (auto simp: field_def with_payload_def map_of_append map_add_def split: option.splits if_splits dest!: map_of_SomeD)
  then have "json_shape (PDict (en_payload e))"
    using d(2) [unfolded envelope_checks_iff] by (metis e envelope.select_convs(9) pyval.simps(88) read_envelope_def)
  then show ?thesis using read_envelope_ok [OF d(2)] e by simp
qed

section \<open>What is sent is what is received\<close>

text \<open>The envelope with the keys of its payload in the order of the wire; to Python the same envelope.\<close>

definition canon_envelope :: "envelope \<Rightarrow> envelope" where
  "canon_envelope e = e\<lparr>en_payload := (case canon (PDict (en_payload e)) of PDict p \<Rightarrow> p | _ \<Rightarrow> [])\<rparr>"

lemma canon_payload: "canon (PDict (en_payload e)) = PDict (en_payload (canon_envelope e))"
  by (simp add: canon_envelope_def)

lemma read_canon_envelope:
  assumes "canon (PDict (envelope_dict e)) = PDict d'"
  shows "read_envelope d' = canon_envelope e"
proof -
  note field = field_canon [OF assms envelope_dict_distinct]
  have "field d' ''payload'' = PDict (en_payload (canon_envelope e))"
    unfolding field field_envelope_dict by (rule canon_payload)
  then show ?thesis
    by (simp add: read_envelope_def field field_envelope_dict the_int_def the_str_def) (simp add: canon_envelope_def)
qed

lemma json_value_ok_canon: "json_value_ok v \<Longrightarrow> json_value_ok (canon v)"
proof (induction v)
  case (PDict kvs)
  have "json_value_ok (canon v)" if "(k, v) \<in> set kvs" for k v
    using PDict.IH [of "(k, v)" v] PDict.prems that by (auto simp: list_all_iff)
  then show ?case using PDict.prems by (auto simp: list_all_iff)
qed (auto simp: list_all_iff)

lemma decode_encode:
  assumes "float_text_ok fl rf F" "wire_value F (PDict (en_payload e))" "encode_envelope fl e = Inr body"
  shows "decode_envelope rf body = Inr (canon_envelope e)"
proof -
  have ok: "envelope_ok e" and body: "dumps fl (PDict (envelope_dict e)) = Some body" "length body \<le> max_message_bytes"
    using assms(3) envelope_ok_checked [of e]
    by (auto simp: encode_envelope_def env_to_dict_eq and_then_Inr split: option.splits if_splits)
  have json: "wire_value F (PDict (envelope_dict e))"
    using assms(2) by (simp add: envelope_dict_def env_to_dict_def)
  obtain d' where d': "canon (PDict (envelope_dict e)) = PDict d'" by simp
  note field = field_canon [OF d' envelope_dict_distinct, unfolded field_envelope_dict]
  have keys: "set (map fst d') = PStr ` set (envelope_fields @ [''payload''])"
    unfolding canon_keys [OF d'] envelope_dict_keys by simp
  then have payload: "with_payload d' = d'" by (auto simp: with_payload_def)
  have "checked (envelope_checks d') (read_envelope d') = Inr (canon_envelope e)"
    using ok kind_text_member [of "en_kind e"] json_value_ok_canon [of "PDict (en_payload e)"]
    unfolding envelope_checks_iff field field_envelope_dict read_canon_envelope [OF d'] canon_payload
    by (auto simp: envelope_ok_def py_simps field_in_def simp del: json_value_ok.simps)
  moreover have "kwargs_ok envelope_fields [''payload''] d'" using keys by (auto simp: kwargs_ok_def)
  ultimately show ?thesis
    using loads_dumps [OF assms(1) json body(1)] dumps_ascii [OF assms(1) json body(1)] body(2) d'
    by (simp add: decode_envelope_def payload)
qed

section \<open>Frames on a stream\<close>

lemma be32_length [simp]: "length (be32 n) = 4"
  by (simp add: be32_def)

lemma be32_bytes: "be32 n = [char_of (n div 256 div 256 div 256), char_of (n div 256 div 256), char_of (n div 256), char_of n]"
  by (simp add: be32_def div_mult2_eq [symmetric])

lemma un_be32_be32: "n < 2 ^ 32 \<Longrightarrow> un_be32 (be32 n) = n"
proof -
  assume "n < 2 ^ 32"
  then have "n div 256 div 256 div 256 < 256" by (simp add: div_mult2_eq [symmetric] less_mult_imp_div_less)
  then have "n div 256 div 256 div 256 mod 256 = n div 256 div 256 div 256" by (rule mod_less)
  moreover have "m div 256 * 256 + m mod 256 = m" for m :: nat by simp
  ultimately show ?thesis by (simp only: be32_bytes un_be32.simps of_char_of)
qed

lemma be32_un_be32: "length s = 4 \<Longrightarrow> be32 (un_be32 s) = s"
proof -
  assume "length s = 4"
  then obtain a b c d where s: "s = [a, b, c, d]" by (auto simp: numeral_eq_Suc length_Suc_conv)
  have byte: "of_char x < (256 :: nat)" for x by (rule nat_of_char_less_256)
  have low: "char_of (n * 256 + of_char x :: nat) = x" for n x
    using byte [of x] by (metis char_of_char char_of_mod_256 mod_less mod_mult_self3)
  have high: "(n * 256 + of_char x) div 256 = n" for n :: nat and x using byte [of x] by simp
  show ?thesis by (simp only: s un_be32.simps be32_bytes low high char_of_char)
qed

text \<open>The bytes of an authenticated body.\<close>

definition frame_bytes :: "(string \<Rightarrow> string \<Rightarrow> string) \<Rightarrow> string \<Rightarrow> string \<Rightarrow> string" where
  "frame_bytes mac secret body = be32 (mac_bytes + length body) @ mac secret body @ body"

definition mac_sized :: "(string \<Rightarrow> string \<Rightarrow> string) \<Rightarrow> bool" where
  "mac_sized mac = (\<forall>secret body. length (mac secret body) = mac_bytes)"

lemma write_frame_bytes:
  assumes "mac_sized mac" "write_frame fl mac secret max_frame e = Inr frame"
  obtains body where "encode_envelope fl e = Inr body" "frame = frame_bytes mac secret body" "length body \<le> max_frame"
    "length body \<le> max_message_bytes"
proof -
  obtain body where "encode_envelope fl e = Inr body" using assms(2) by (auto simp: write_frame_def and_then_Inr)
  then show thesis
    using that assms
    by (auto simp: write_frame_def frame_bytes_def mac_sized_def Let_def encode_envelope_def and_then_Inr
        split: if_splits pyval.splits option.splits)
qed

lemma read_frame_bytes:
  assumes "mac_sized mac" "length body \<le> max_frame" "length body \<le> max_message_bytes"
  shows "read_frame rf mac secret max_frame (frame_bytes mac secret body @ rest) =
    (case decode_envelope rf body of Inl err \<Rightarrow> FrameRejected err | Inr e \<Rightarrow> Frame e rest)"
proof -
  have "un_be32 (be32 (mac_bytes + length body)) = mac_bytes + length body"
    using assms(3) by (intro un_be32_be32) (simp add: mac_bytes_def max_message_bytes_def)
  moreover have "length (mac secret body) = mac_bytes" using assms(1) by (simp add: mac_sized_def)
  ultimately show ?thesis using assms(2) by (simp add: read_frame_def frame_bytes_def Let_def split: sum.splits)
qed

lemma read_frame_FrameD:
  assumes "read_frame rf mac secret max_frame stream = Frame e rest"
  obtains body where "stream = frame_bytes mac secret body @ rest" "decode_envelope rf body = Inr e" "length body \<le> max_frame"
proof -
  let ?n = "un_be32 (take 4 stream)" and ?r = "drop 4 stream"
  let ?body = "drop mac_bytes (take ?n ?r)"
  have r: "4 \<le> length stream" "mac_bytes \<le> ?n" "?n \<le> max_frame + mac_bytes" "?n \<le> length ?r"
      "take mac_bytes (take ?n ?r) = mac secret ?body" "decode_envelope rf ?body = Inr e" "rest = drop ?n ?r"
    using assms by (auto simp: read_frame_def Let_def not_less split: if_splits sum.splits)
  have "take ?n ?r = mac secret ?body @ ?body" using r(5) by (metis append_take_drop_id)
  moreover have "take 4 stream = be32 (mac_bytes + length ?body)" using r(1,2,4) by (simp add: be32_un_be32)
  ultimately have "stream = frame_bytes mac secret ?body @ rest"
    unfolding frame_bytes_def r(7) by (metis append.assoc append_take_drop_id)
  moreover have "length ?body \<le> max_frame" using r(2,3,4) by simp
  ultimately show thesis using that r(6) by blast
qed

lemma read_frames_append:
  assumes "mac_sized mac" "float_text_ok fl rf F"
    and "list_all2 (\<lambda>e frame. wire_value F (PDict (en_payload e)) \<and> write_frame fl mac secret max_frame e = Inr frame) es frames"
  shows "read_frames rf mac secret max_frame (concat frames @ rest) =
    map_prod ((@) (map canon_envelope es)) id (read_frames rf mac secret max_frame rest)"
  using assms(3)
proof (induction es frames rule: list_all2_induct)
  case (Cons e es frame frames)
  obtain body where body: "encode_envelope fl e = Inr body" "frame = frame_bytes mac secret body" "length body \<le> max_frame"
      "length body \<le> max_message_bytes"
    using write_frame_bytes [OF assms(1)] Cons(1) by blast
  have "decode_envelope rf body = Inr (canon_envelope e)" using decode_encode [OF assms(2) _ body(1)] Cons(1) by blast
  then have "read_frame rf mac secret max_frame (frame @ x) = Frame (canon_envelope e) x" for x
    using read_frame_bytes [OF assms(1) body(3,4)] body(2) by simp
  then show ?case
    using Cons(3)
    by (cases "read_frames rf mac secret max_frame rest")
      (simp add: read_frames.simps [of _ _ _ _ "frame @ concat frames @ rest"])
qed (simp add: map_prod_def split_beta)

lemma dumps_canon_envelope: "dumps fl (env_to_dict (canon_envelope e)) = dumps fl (env_to_dict e)"
proof -
  have "canon (PDict (en_payload (canon_envelope e))) = canon (PDict (en_payload e))"
    unfolding canon_payload [symmetric] by (rule canon_canon)
  then have "map (\<lambda>(k, v). (k, canon v)) (envelope_dict (canon_envelope e)) = map (\<lambda>(k, v). (k, canon v)) (envelope_dict e)"
    by (simp add: envelope_dict_def env_to_dict_def del: canon.simps(3)) (simp add: canon_envelope_def)
  then show ?thesis by (simp add: dumps_def env_to_dict_eq)
qed

lemma encode_canon:
  assumes "float_text_ok fl rf F" "wire_value F (PDict (en_payload e))" "encode_envelope fl e = Inr body"
  shows "encode_envelope fl (canon_envelope e) = Inr body"
proof -
  have "checked (envelope_checks (envelope_dict (canon_envelope e))) () = Inr ()"
    using decode_envelope_ok [OF decode_encode [OF assms]] envelope_ok_checked by blast
  then show ?thesis
    using assms(3) dumps_canon_envelope [of fl e]
    by (auto simp: encode_envelope_def env_to_dict_eq and_then_Inr split: option.splits if_splits)
qed

section \<open>Observations that pass validation\<close>

definition observation_ok :: "component_observation \<Rightarrow> bool" where
  "observation_ok obs =
     (ob_schema_version obs = schema_version \<and> ob_state obs \<in> set component_states \<and>
      (ob_owner_scope obs = ''GLOBAL'' \<and> ob_owner_rank obs = None \<or>
       ob_owner_scope obs = ''RANK'' \<and> (\<exists>r \<ge> 0. ob_owner_rank obs = Some r)) \<and>
      ob_deployment_id obs \<noteq> [] \<and> ob_plan_hash obs \<noteq> [] \<and> ob_component_id obs \<noteq> [] \<and> ob_instance_id obs \<noteq> [] \<and>
      ob_role obs \<noteq> [] \<and> ob_node_id obs \<noteq> [] \<and> 0 \<le> ob_sequence obs \<and> 0 \<le> ob_generation obs \<and>
      nonneg_number (ob_observed_at obs) \<and> (case ob_receipt_hash obs of None \<Rightarrow> True | Some h \<Rightarrow> is_sha256 h))"

definition observation_dict :: "component_observation \<Rightarrow> (pyval \<times> pyval) list" where
  "observation_dict obs = (case obs_to_dict obs of PDict d \<Rightarrow> d | _ \<Rightarrow> [])"

lemma obs_to_dict_eq: "obs_to_dict obs = PDict (observation_dict obs)"
  by (simp add: observation_dict_def obs_to_dict_def)

lemma field_observation_dict:
  "field (observation_dict obs) ''schema_version'' = PInt (ob_schema_version obs)"
  "field (observation_dict obs) ''deployment_id'' = PStr (ob_deployment_id obs)"
  "field (observation_dict obs) ''plan_hash'' = PStr (ob_plan_hash obs)"
  "field (observation_dict obs) ''generation'' = PInt (ob_generation obs)"
  "field (observation_dict obs) ''component_id'' = PStr (ob_component_id obs)"
  "field (observation_dict obs) ''instance_id'' = PStr (ob_instance_id obs)"
  "field (observation_dict obs) ''sequence'' = PInt (ob_sequence obs)"
  "field (observation_dict obs) ''owner_scope'' = PStr (ob_owner_scope obs)"
  "field (observation_dict obs) ''role'' = PStr (ob_role obs)"
  "field (observation_dict obs) ''node_id'' = PStr (ob_node_id obs)"
  "field (observation_dict obs) ''state'' = PStr (ob_state obs)"
  "field (observation_dict obs) ''observed_at'' = ob_observed_at obs"
  "field (observation_dict obs) ''owner_rank'' = opt_int (ob_owner_rank obs)"
  "field (observation_dict obs) ''model_id'' = str_or_none (ob_model_id obs)"
  "field (observation_dict obs) ''replica_id'' = str_or_none (ob_replica_id obs)"
  "field (observation_dict obs) ''reason_code'' = str_or_none (ob_reason_code obs)"
  "field (observation_dict obs) ''detail'' = str_or_none (ob_detail obs)"
  "field (observation_dict obs) ''compatibility_receipt_hash'' = str_or_none (ob_receipt_hash obs)"
  by (simp_all add: observation_dict_def obs_to_dict_def field_def)

lemma observation_dict_kwargs: "kwargs_ok required_fields optional_fields (observation_dict obs)"
  by (simp add: kwargs_ok_def observation_dict_def obs_to_dict_def required_fields_def optional_fields_def)

lemma opt_inverse [simp]:
  "as_str (str_or_none s) = s" "as_int (opt_int i) = i" "none_or_str (str_or_none s)" "opt_int i = PNone \<longleftrightarrow> i = None"
  "str_or_none s = PNone \<longleftrightarrow> s = None"
  by (auto simp: str_or_none_def opt_int_def none_or_str_def split: option.splits)

lemma opt_of_as: "none_or_str v \<Longrightarrow> str_or_none (as_str v) = v"
  by (auto simp: none_or_str_iff str_or_none_def)

lemma read_observation_dict: "(\<And>k. field d k = field (observation_dict obs) k) \<Longrightarrow> read_observation d = obs"
  by (simp add: read_observation_def field_observation_dict the_int_def the_str_def)

lemma obs_checks_iff:
  "checked (obs_checks d) x = Inr y \<longleftrightarrow> y = x \<and> kwargs_ok required_fields optional_fields d \<and>
     field d ''schema_version'' = PInt schema_version \<and> field_in component_states (field d ''state'') \<and>
     (field d ''owner_scope'' = PStr ''GLOBAL'' \<and> field d ''owner_rank'' = PNone \<or>
      field d ''owner_scope'' = PStr ''RANK'' \<and> int_at_least 0 (field d ''owner_rank'')) \<and>
     nonempty_str (field d ''deployment_id'') \<and> nonempty_str (field d ''plan_hash'') \<and>
     nonempty_str (field d ''component_id'') \<and> nonempty_str (field d ''instance_id'') \<and>
     nonempty_str (field d ''role'') \<and> nonempty_str (field d ''node_id'') \<and>
     int_at_least 0 (field d ''sequence'') \<and> int_at_least 0 (field d ''generation'') \<and> nonneg_number (field d ''observed_at'') \<and>
     none_or_str (field d ''model_id'') \<and> none_or_str (field d ''replica_id'') \<and> none_or_str (field d ''reason_code'') \<and>
     none_or_str (field d ''detail'') \<and>
     (field d ''compatibility_receipt_hash'' = PNone \<or> (\<exists>h. field d ''compatibility_receipt_hash'' = PStr h \<and> is_sha256 h))"
proof -
  have scope: "field_in [''GLOBAL'', ''RANK''] v \<longleftrightarrow> v = PStr ''GLOBAL'' \<or> v = PStr ''RANK''" for v
    by (auto simp: field_in_def split: pyval.splits)
  show ?thesis
    unfolding obs_checks_def Let_def checked_Inr scope
    by (cases "field d ''compatibility_receipt_hash''") (auto dest: nonneg_number_no_overflow)
qed

lemma read_observation_fields:
  assumes "checked (obs_checks d) x = Inr y"
  shows "field d k = field (observation_dict (read_observation d)) k"
proof (cases "k \<in> set (required_fields @ optional_fields)")
  case True
  note ok = assms [unfolded obs_checks_iff]
  have str: "nonempty_str v \<Longrightarrow> PStr (the_str v) = v" "field_in names v \<Longrightarrow> PStr (the_str v) = v" for v names
    by (cases v; simp add: nonempty_str_def field_in_def the_str_def)+
  have int: "int_at_least i v \<Longrightarrow> PInt (the_int v) = v" for i v by (cases v) (simp_all add: int_at_least_def the_int_def)
  have rank: "opt_int (as_int (field d ''owner_rank'')) = field d ''owner_rank''"
    using ok by (auto simp: opt_int_def int_at_least_iff)
  have scope: "PStr (the_str (field d ''owner_scope'')) = field d ''owner_scope''" using ok by (auto simp: the_str_def)
  have hash: "str_or_none (as_str (field d ''compatibility_receipt_hash'')) = field d ''compatibility_receipt_hash''"
    using ok by (auto simp: str_or_none_def)
  have "list_all (\<lambda>k. field d k = field (observation_dict (read_observation d)) k) (required_fields @ optional_fields)"
    unfolding required_fields_def optional_fields_def append.simps list.pred_inject field_observation_dict
    unfolding read_observation_def component_observation.simps
    using ok int [of 0 "field d ''generation''"] int [of 0 "field d ''sequence''"] str(2) [of component_states "field d ''state''"]
    by (simp add: str(1) rank scope hash the_int_def opt_of_as)
  then show ?thesis using True by (simp only: list_all_iff)
next
  case False
  have "field d' k = PNone" if "kwargs_ok required_fields optional_fields d'" for d'
  proof -
    have "PStr k \<notin> set (map fst d')" using that False by (auto simp: kwargs_ok_def)
    then show ?thesis by (simp add: field_def map_of_eq_None_keys [THEN iffD2])
  qed
  then show ?thesis using assms observation_dict_kwargs unfolding obs_checks_iff by metis
qed

lemma read_observation_ok: "checked (obs_checks d) x = Inr y \<Longrightarrow> observation_ok (read_observation d)"
proof -
  assume ok: "checked (obs_checks d) x = Inr y"
  note ok' = ok [unfolded obs_checks_iff]
  let ?obs = "read_observation d"
  have str: "nonempty_str (PStr v) \<longleftrightarrow> v \<noteq> []" for v by (simp add: nonempty_str_def)
  have field: "field d k = field (observation_dict ?obs) k" for k by (rule read_observation_fields [OF ok])
  show ?thesis
    using ok' unfolding field field_observation_dict str observation_ok_def
    by (simp add: field_in_def int_at_least_def str_or_none_def split: option.splits)
qed

lemma observation_ok_checked:
  assumes "observation_ok obs" "kwargs_ok required_fields optional_fields d" "\<And>k. field d k = field (observation_dict obs) k"
  shows "checked (obs_checks d) obs = Inr obs"
  using assms(1,2) unfolding obs_checks_iff assms(3) field_observation_dict observation_ok_def
  by (auto simp: py_simps field_in_def opt_int_def str_or_none_def split: option.splits)

lemma validate_observation_ok: "validate_observation data = Inr obs \<Longrightarrow> observation_ok obs"
proof -
  assume "validate_observation data = Inr obs"
  then obtain d where d: "checked (obs_checks d) (read_observation d) = Inr obs"
    by (cases data) (auto simp: validate_observation_def)
  moreover have "obs = read_observation d" using d unfolding obs_checks_iff by simp
  ultimately show ?thesis using read_observation_ok [OF d] by simp
qed

text \<open>
  An observation that only its time spoils: with an integer beyond the largest double the validation does not
  refuse it, the exception of the conversion escapes.
\<close>

lemma huge_time_escapes:
  assumes "validate_observation (PDict d) = Inr obs" "float_limit \<le> \<bar>i\<bar>"
  shows "validate_observation (PDict (AList.update (PStr ''observed_at'') (PInt i) d)) = Inl NumberOverflow"
proof -
  let ?d = "AList.update (PStr ''observed_at'') (PInt i) d"
  have ok: "checked (obs_checks d) (read_observation d) = Inr obs" using assms(1) by (simp add: validate_observation_def)
  have old: "field ?d k = field d k" if "k \<noteq> ''observed_at''" for k
    using that by (simp add: field_def update_conv')
  have new: "field ?d ''observed_at'' = PInt i" by (simp add: field_def update_conv')
  have "kwargs_ok required_fields optional_fields ?d"
    using ok unfolding obs_checks_iff by (auto simp: kwargs_ok_def required_fields_def dom_update)
  then show ?thesis
    using ok assms(2) unfolding obs_checks_iff
    by (auto simp: validate_observation_def obs_checks_def checked_def Let_def old new float_overflows_def field_in_def)
qed

text \<open>
  Observations on the wire (C21). Validation accepts exactly the dictionaries that have the fields of the
  contract and describe a well-formed observation, and returns that observation: the schema version is
  supported, the state is one of the closed set, the owner rank is absent for global owners and
  non-negative for rank owners, identities are not empty, counters are not negative, the time is a
  finite number no integer of which exceeds the range of a double, and the receipt hash, if present, a digest. Nothing is coerced, dropped or filled in.
\<close>

theorem validate_observation_exact:
  "validate_observation data = Inr obs \<longleftrightarrow>
     observation_ok obs \<and>
     (\<exists>d. data = PDict d \<and> kwargs_ok required_fields optional_fields d \<and>
        (\<forall>k. field d k = field (observation_dict obs) k))"
proof
  assume "validate_observation data = Inr obs"
  then obtain d where d: "data = PDict d" "checked (obs_checks d) (read_observation d) = Inr obs"
    by (cases data) (auto simp: validate_observation_def)
  moreover have "obs = read_observation d" "kwargs_ok required_fields optional_fields d"
    using d(2) unfolding obs_checks_iff by simp_all
  ultimately show "observation_ok obs \<and> (\<exists>d. data = PDict d \<and> kwargs_ok required_fields optional_fields d \<and>
      (\<forall>k. field d k = field (observation_dict obs) k))"
    using read_observation_fields [OF d(2)] read_observation_ok [OF d(2)] by blast
next
  assume "observation_ok obs \<and> (\<exists>d. data = PDict d \<and> kwargs_ok required_fields optional_fields d \<and>
      (\<forall>k. field d k = field (observation_dict obs) k))"
  then obtain d where "data = PDict d" "checked (obs_checks d) obs = Inr obs" "read_observation d = obs"
    using observation_ok_checked read_observation_dict by blast
  then show "validate_observation data = Inr obs" by (simp add: validate_observation_def)
qed

section \<open>A sample frame\<close>

definition heartbeat_envelope :: envelope where
  "heartbeat_envelope =
     \<lparr>en_v = 1, en_kind = HEARTBEAT, en_deployment_id = ''dep'', en_plan_hash = ''hash'', en_generation = 3,
      en_sender_rank = 1, en_sender_node = ''node1'', en_seq = 7,
      en_payload = [(PStr ''payload_version'', PInt 1), (PStr ''heartbeat_id'', PStr ''1:4''), (PStr ''load'', PFloat (Finite (1 / 2)))]\<rparr>"

definition sample_fl :: "real \<Rightarrow> string" where
  "sample_fl r = ''0.5''"

definition sample_rf :: "string \<Rightarrow> pyfloat" where
  "sample_rf s = Finite (1 / 2)"

definition sample_mac :: "string \<Rightarrow> string \<Rightarrow> string" where
  "sample_mac secret body = take mac_bytes (body @ secret @ replicate mac_bytes (CHR ''0''))"

definition sample_frame :: string where
  "sample_frame = (case write_frame sample_fl sample_mac ''key'' 1000 heartbeat_envelope of Inl err \<Rightarrow> [] | Inr frame \<Rightarrow> frame)"

lemma sample_float: "float_text_ok sample_fl sample_rf {1 / 2}"
proof -
  have "''0.5'' = [] @ ''0'' @ ''.5'' @ []" "int_part ''0''" "frac_part ''.5''" "exp_part []"
    by (simp_all add: int_part_def frac_part_def exp_part_def is_digit_char_def)
  then show ?thesis unfolding float_text_ok_def sample_fl_def sample_rf_def by blast
qed

lemma sample_mac_sized: "mac_sized sample_mac"
  unfolding mac_sized_def sample_mac_def length_take length_append length_replicate by simp

lemma sample_dumps: "map_option length (dumps sample_fl (env_to_dict heartbeat_envelope)) = Some 192"
  by code_simp

lemma sample_payload: "wire_value {1 / 2} (PDict (en_payload heartbeat_envelope))"
  by (simp add: heartbeat_envelope_def) (rule exI [of _ "1 / 2"], simp)

lemma sample_write: "write_frame sample_fl sample_mac ''key'' 1000 heartbeat_envelope = Inr sample_frame"
proof -
  obtain body where "dumps sample_fl (env_to_dict heartbeat_envelope) = Some body" "length body = 192"
    using sample_dumps by blast
  moreover have "envelope_ok heartbeat_envelope" by (simp add: envelope_ok_def heartbeat_envelope_def schema_version_def)
  ultimately show ?thesis
    using envelope_ok_checked [of heartbeat_envelope]
    by (simp add: sample_frame_def write_frame_def encode_envelope_def env_to_dict_eq max_message_bytes_def)
qed

lemma sample_read:
  "read_frames sample_rf sample_mac ''key'' 1000 sample_frame = ([canon_envelope heartbeat_envelope], EndOfStream)"
  using read_frames_append [OF sample_mac_sized sample_float, of "''key''" 1000 "[heartbeat_envelope]" "[sample_frame]" "[]"]
  by (simp add: sample_write sample_payload del: wire_value.simps) (simp add: read_frames.simps [of _ _ _ _ "[]"] read_frame_def)
section \<open>The stream\<close>

text \<open>
  Frames round trip (C19). Frames written one after another on a connection are read back as the same
  envelopes in the same order, whatever bytes follow, with the keys of the payload in wire order; and a received envelope
  encodes to the bytes it was read from, so that a digest over the encoding is stable. The numbers in \<open>F\<close>
  are those whose text reads back as the same number.
\<close>

theorem frames_roundtrip:
  assumes "mac_sized mac" "float_text_ok fl rf F"
    and "list_all2 (\<lambda>e frame. wire_value F (PDict (en_payload e)) \<and> write_frame fl mac secret max_frame e = Inr frame) es frames"
  shows "read_frames rf mac secret max_frame (concat frames @ rest) =
      map_prod ((@) (map canon_envelope es)) id (read_frames rf mac secret max_frame rest) \<and>
    list_all2 (\<lambda>e frame. write_frame fl mac secret max_frame e = Inr frame) (map canon_envelope es) frames"
proof
  show "read_frames rf mac secret max_frame (concat frames @ rest) =
      map_prod ((@) (map canon_envelope es)) id (read_frames rf mac secret max_frame rest)"
    using assms by (rule read_frames_append)
  have "write_frame fl mac secret max_frame (canon_envelope e) = Inr frame"
    if e: "wire_value F (PDict (en_payload e))" "write_frame fl mac secret max_frame e = Inr frame" for e frame
  proof -
    obtain body where body: "encode_envelope fl e = Inr body" using e(2) by (auto simp: write_frame_def and_then_Inr)
    then show ?thesis using encode_canon [OF assms(2) e(1) body] e(2) by (simp add: write_frame_def)
  qed
  then show "list_all2 (\<lambda>e frame. write_frame fl mac secret max_frame e = Inr frame) (map canon_envelope es) frames"
    using assms(3) by (auto simp: list_all2_map1 elim: list_all2_mono)
qed

theorem frames_roundtrip_witness:
  "write_frame sample_fl sample_mac ''key'' 1000 heartbeat_envelope = Inr sample_frame \<and>
   read_frames sample_rf sample_mac ''key'' 1000 (concat [sample_frame, sample_frame] @ ''junk'') =
     map_prod ((@) (map canon_envelope [heartbeat_envelope, heartbeat_envelope])) id (read_frames sample_rf sample_mac ''key'' 1000 ''junk'')"
  using frames_roundtrip [OF sample_mac_sized sample_float, of "''key''" 1000 "[heartbeat_envelope, heartbeat_envelope]"
      "[sample_frame, sample_frame]" "''junk''"] sample_payload sample_write
  by (simp only: list_all2_Cons list_all2_Nil simp_thms)

text \<open>
  Only authenticated bytes are accepted (C18). Whatever arrives on a connection, the envelopes it
  delivers are decodings of bodies that stand on the stream one after another, each behind its length
  and its digest under the shared secret and no longer than the frame limit; and every one of them
  satisfies the envelope contract.
\<close>

theorem frames_authentic:
  assumes "read_frames rf mac secret max_frame stream = (es, ending)"
  shows "\<exists>bodies rest. stream = concat (map (frame_bytes mac secret) bodies) @ rest \<and>
      list_all (\<lambda>body. length body \<le> max_frame) bodies \<and> map (decode_envelope rf) bodies = map Inr es \<and>
      list_all envelope_ok es"
  using assms
proof (induction rf mac secret max_frame stream arbitrary: es ending rule: read_frames.induct)
  case (1 rf mac secret max_frame stream)
  show ?case
  proof (cases "read_frame rf mac secret max_frame stream")
    case (Frame e rest)
    then obtain body where body: "stream = frame_bytes mac secret body @ rest" "decode_envelope rf body = Inr e"
        "length body \<le> max_frame" by (rule read_frame_FrameD)
    obtain es' where es': "es = e # es'" "read_frames rf mac secret max_frame rest = (es', ending)"
      using 1(2) Frame by (subst (asm) read_frames.simps) (auto split: prod.splits)
    obtain bodies tail where tail: "rest = concat (map (frame_bytes mac secret) bodies) @ tail"
        "list_all (\<lambda>body. length body \<le> max_frame) bodies" "map (decode_envelope rf) bodies = map Inr es'" "list_all envelope_ok es'"
      using 1(1) [OF Frame es'(2)] by blast
    have "stream = concat (map (frame_bytes mac secret) (body # bodies)) @ tail" using body(1) tail(1) by simp
    moreover have "map (decode_envelope rf) (body # bodies) = map Inr es" using body(2) tail(3) es'(1) by simp
    moreover have "list_all envelope_ok es" using decode_envelope_ok [OF body(2)] tail(4) es'(1) by simp
    moreover have "list_all (\<lambda>body. length body \<le> max_frame) (body # bodies)" using body(3) tail(2) by simp
    ultimately show ?thesis by blast
  qed (use 1(2) in \<open>subst (asm) read_frames.simps, auto intro: exI [of _ "[]"]\<close>)+
qed

theorem frames_authentic_witness:
  "read_frames sample_rf sample_mac ''key'' 1000 sample_frame = ([canon_envelope heartbeat_envelope], EndOfStream) \<and>
   (\<exists>bodies rest. sample_frame = concat (map (frame_bytes sample_mac ''key'') bodies) @ rest \<and>
      list_all (\<lambda>body. length body \<le> 1000) bodies \<and>
      map (decode_envelope sample_rf) bodies = map Inr [canon_envelope heartbeat_envelope] \<and>
      list_all envelope_ok [canon_envelope heartbeat_envelope])"
  using frames_authentic [OF sample_read] sample_read by blast

end
