(* ===== verification/Transport.thy ===== *)
theory Transport
  imports Wire
begin

text \<open>
  The control transport, \<^verbatim>\<open>src/exaserve/control/transport.py\<close>: payload contracts, canonical snapshots, the
  listener of the allocation head (\<^verbatim>\<open>ControlListener\<close>) with one handler per connection, and the command memory of
  a rank (\<^verbatim>\<open>NodeChannel\<close>).

  The listener is a record; a handler turn, from one received frame to the next read, is one function on
  it. What happens outside is an argument of the turn: the clock, the outcome of writing a frame, the
  answers of the decision callbacks and whether a notification callback raises. Calls of the sinks are
  events, in order. The \<^verbatim>\<open>SessionInfo\<close> object of a connection is the entry of its rank in \<^verbatim>\<open>sessions\<close>: a rank cannot
  register again while that entry is registered. The asyncio events that wake waiting coroutines are
  not modelled, the two flags they carry are.
\<close>

section \<open>Payload contracts\<close>

type_synonym dict = "(pyval \<times> pyval) list"

definition payload_v1 :: "dict \<Rightarrow> bool" where
  "payload_v1 p = (field p ''payload_version'' = PInt 1)"

definition has_keys :: "dict \<Rightarrow> string list \<Rightarrow> bool" where
  "has_keys p names = (set (map fst p) = PStr ` set names)"

text \<open>A value that \<^verbatim>\<open>v in {...}\<close> can look up; a list or an object raises \<^verbatim>\<open>TypeError\<close> there.\<close>

fun hashable :: "pyval \<Rightarrow> bool" where
  "hashable (PList vs) = False"
| "hashable (PDict d) = False"
| "hashable (PTuple vs) = list_all hashable vs"
| "hashable v = True"

datatype payload_error = PayloadError string | Unhashable

definition is_hash :: "pyval \<Rightarrow> bool" where
  "is_hash v = (case v of PStr s \<Rightarrow> is_sha256 s | _ \<Rightarrow> False)"

definition result_operations :: "string list" where
  "result_operations = [''START'', ''START_HEAD'', ''START_WORKER'', ''DRAIN'', ''STOP'', ''SNAPSHOT_ACCEPTED'']"

definition result_fields :: "string list" where
  "result_fields = [''payload_version'', ''command_id'', ''operation'', ''ok'', ''detail'', ''status'']"

definition snapshot_fields :: "string list" where
  "snapshot_fields = [''snapshot_id'', ''complete_set_hash'']"

definition for_snapshot :: "dict \<Rightarrow> bool" where
  "for_snapshot p = (field p ''operation'' = PStr ''SNAPSHOT_ACCEPTED'')"

definition command_result_checks :: "dict \<Rightarrow> (bool \<times> payload_error) list" where
  "command_result_checks p =
     [(\<not> payload_v1 p, PayloadError ''payload/version''),
      (\<not> has_keys p (result_fields @ (if for_snapshot p then snapshot_fields else [])), PayloadError ''fields''),
      (\<not> nonempty_str (field p ''command_id''), PayloadError ''command_id''),
      (\<not> hashable (field p ''operation''), Unhashable),
      (\<not> field_in result_operations (field p ''operation''), PayloadError ''operation''),
      (as_bool (field p ''ok'') = None, PayloadError ''ok''),
      (as_str (field p ''detail'') = None, PayloadError ''detail''),
      (\<not> hashable (field p ''status''), Unhashable),
      (\<not> field_in [''SUCCEEDED'', ''FAILED''] (field p ''status''), PayloadError ''status''),
      ((field p ''status'' = PStr ''SUCCEEDED'') \<noteq> (field p ''ok'' = PBool True), PayloadError ''status and ok''),
      (for_snapshot p \<and> \<not> nonempty_str (field p ''snapshot_id''), PayloadError ''snapshot_id''),
      (for_snapshot p \<and> \<not> is_hash (field p ''complete_set_hash''), PayloadError ''complete_set_hash'')]"

definition validate_command_result_payload :: "dict \<Rightarrow> payload_error + dict" where
  "validate_command_result_payload p = checked (command_result_checks p) p"

definition command_fields :: "string list" where
  "command_fields = [''payload_version'', ''command_id'', ''operation'']"

definition validate_command_payload :: "dict \<Rightarrow> contract_error + dict" where
  "validate_command_payload p =
     checked
       [(\<not> payload_v1 p, ContractError MALFORMED ''payload_version''),
        (\<not> nonempty_str (field p ''command_id''), ContractError MALFORMED ''command_id''),
        (\<not> nonempty_str (field p ''operation''), ContractError MALFORMED ''operation''),
        (\<not> has_keys p (command_fields @ (if for_snapshot p then snapshot_fields else [])), ContractError MALFORMED ''fields''),
        (for_snapshot p \<and> \<not> nonempty_str (field p ''snapshot_id''), ContractError MALFORMED ''snapshot_id''),
        (for_snapshot p \<and> \<not> is_hash (field p ''complete_set_hash''), ContractError MALFORMED ''complete_set_hash'')] p"

text \<open>
  \<^verbatim>\<open>==\<close> of JSON values: booleans and integers compare as numbers, dictionaries without regard to order.
\<close>

fun py_norm :: "pyval \<Rightarrow> pyval" where
  "py_norm (PBool b) = PFloat (Finite (if b then 1 else 0))"
| "py_norm (PInt i) = PFloat (Finite (of_int i))"
| "py_norm (PList vs) = PList (map py_norm vs)"
| "py_norm (PTuple vs) = PTuple (map py_norm vs)"
| "py_norm (PDict kvs) = PDict (sort_key (\<lambda>kv. json_key (fst kv)) (map (\<lambda>(k, v). (k, py_norm v)) kvs))"
| "py_norm v = v"

definition py_eq :: "pyval \<Rightarrow> pyval \<Rightarrow> bool" where
  "py_eq v w = (py_norm v = py_norm w)"

section \<open>Snapshots\<close>

text \<open>
  An item is built by the code as \<^verbatim>\<open>{"kind": kind, "body": body}\<close>; it is the pair of the two here.
\<close>

type_synonym snapshot_item = "string \<times> pyval"

definition item_value :: "snapshot_item \<Rightarrow> pyval" where
  "item_value it = PDict [(PStr ''kind'', PStr (fst it)), (PStr ''body'', snd it)]"

definition key_fields :: "string \<Rightarrow> string list" where
  "key_fields kind =
     (if kind = ''observation'' then [''component_id'', ''instance_id'']
      else [''receipt_requirement_id'', ''component_id'', ''instance_id''])"

definition item_key :: "snapshot_item \<Rightarrow> contract_error + string list" where
  "item_key it =
     (case it of (kind, body) \<Rightarrow>
        if kind \<notin> {''observation'', ''receipt''} then Inl (ContractError MALFORMED ''snapshot item kind/body'')
        else case body of
          PDict d \<Rightarrow>
            if list_all (\<lambda>k. nonempty_str (field d k)) (key_fields kind)
            then Inr (kind # map (\<lambda>k. the_str (field d k)) (key_fields kind))
            else Inl (ContractError MALFORMED ''snapshot key is incomplete'')
        | _ \<Rightarrow> Inl (ContractError MALFORMED ''snapshot item kind/body''))"

fun collect_items ::
    "(real \<Rightarrow> string) \<Rightarrow> (string list \<times> string \<times> snapshot_item) list \<Rightarrow> snapshot_item list
      \<Rightarrow> contract_error + (string list \<times> string \<times> snapshot_item) list" where
  "collect_items fl unique [] = Inr unique"
| "collect_items fl unique (it # items) =
     and_then (item_key it) (\<lambda>key.
       case dumps fl (item_value it) of
         None \<Rightarrow> Inl (ContractError MALFORMED ''snapshot item is not canonical JSON'')
       | Some encoded \<Rightarrow>
           (case map_of unique key of
              None \<Rightarrow> collect_items fl (AList.update key (encoded, it) unique) items
            | Some (previous, _) \<Rightarrow>
                if previous \<noteq> encoded then Inl (ContractError MALFORMED ''conflicting duplicate snapshot key'')
                else collect_items fl (AList.update key (encoded, it) unique) items))"

definition canonical_snapshot_items :: "(real \<Rightarrow> string) \<Rightarrow> snapshot_item list \<Rightarrow> contract_error + snapshot_item list" where
  "canonical_snapshot_items fl items =
     and_then (collect_items fl [] items) (\<lambda>unique. Inr (map (\<lambda>(_, _, it). it) (sort_key fst unique)))"

definition items_value :: "snapshot_item list \<Rightarrow> pyval" where
  "items_value items = PList (map item_value items)"

definition snapshot_set_hash :: "(real \<Rightarrow> string) \<Rightarrow> (string \<Rightarrow> string) \<Rightarrow> snapshot_item list \<Rightarrow> contract_error + string" where
  "snapshot_set_hash fl sha items =
     and_then (canonical_snapshot_items fl items) (\<lambda>canonical.
       case dumps fl (items_value canonical) of None \<Rightarrow> Inl EncodeFailed | Some blob \<Rightarrow> Inr (sha blob))"

section \<open>State of the listener\<close>

definition max_dedup_keys :: nat where "max_dedup_keys = 4096"
definition max_audit_records :: nat where "max_audit_records = 1000"
definition max_command_records :: nat where "max_command_records = 4096"
definition max_pending_head_commands :: nat where "max_pending_head_commands = 256"
definition max_components_per_rank :: nat where "max_components_per_rank = 64"
definition supervisor_rank :: int where "supervisor_rank = - 1"

type_synonym obs_key = "string \<times> int \<times> string \<times> string \<times> int"

record session_info =
  si_rank :: int
  si_node_id :: string
  si_registered :: bool
  si_established :: bool
  si_instance_id :: string
  si_pending_snapshot_id :: string
  si_pending_snapshot_hash :: string
  si_pending_snapshot_command_id :: string
  si_expected_goodbye :: bool
  si_last_seq :: int
  si_seen_obs :: "(obs_key \<times> string) list"
  si_last_component_seq :: "((string \<times> string) \<times> int) list"
  si_component_instances :: "(string \<times> string) list"
  si_last_seen_at :: real

text \<open>The newest \<open>n\<close> entries.\<close>

definition keep_last :: "nat \<Rightarrow> 'a list \<Rightarrow> 'a list" where
  "keep_last n xs = drop (length xs - n) xs"

lemma limits_unfold [code_unfold]:
  "keep_last max_dedup_keys xs = (if int (length xs) \<le> 4096 then xs else drop (length xs - max_dedup_keys) xs)"
  "keep_last max_audit_records xs = (if int (length xs) \<le> 1000 then xs else drop (length xs - max_audit_records) xs)"
  "max_command_records \<le> n \<longleftrightarrow> 4096 \<le> int n" "max_pending_head_commands \<le> n \<longleftrightarrow> 256 \<le> int n"
  "max_components_per_rank \<le> n \<longleftrightarrow> 64 \<le> int n" "max_components_per_rank < n \<longleftrightarrow> 64 < int n"
  by (auto simp: keep_last_def max_dedup_keys_def max_audit_records_def max_command_records_def max_pending_head_commands_def
      max_components_per_rank_def)

definition remember :: "obs_key \<Rightarrow> string \<Rightarrow> session_info \<Rightarrow> contract_error + bool \<times> session_info" where
  "remember key fingerprint si =
     (case map_of (si_seen_obs si) key of
        Some existing \<Rightarrow>
          if existing \<noteq> fingerprint then Inl (ContractError MALFORMED ''conflicting duplicate observation payload'')
          else Inr (False, si)
      | None \<Rightarrow> Inr (True, si\<lparr>si_seen_obs := keep_last max_dedup_keys (si_seen_obs si @ [(key, fingerprint)])\<rparr>))"

record audit_record =
  au_reason :: contract_error
  au_rank :: "int option"
  au_node_id :: "string option"

record snapshot_assembly =
  sa_snapshot_id :: string
  sa_total :: int
  sa_hash :: string
  sa_chunks :: "(int \<times> snapshot_item list) list"
  sa_bytes :: int
  sa_started_at :: real

record control_listener =
  li_sessions :: "(int \<times> session_info) list"
  li_writers :: "(int \<times> nat) list"
  li_command_results :: "(string \<times> dict) list"
  li_issued_commands :: "(string \<times> int \<times> dict) list"
  li_snapshots :: "(int \<times> snapshot_assembly) list"
  li_nodes_by_rank :: "(int \<times> string) list"
  li_audit :: "audit_record list"
  li_all_authenticated :: bool
  li_all_established :: bool
  li_out_seq :: "(int \<times> int) list"
  li_received_goodbyes :: "int list"
  li_handler_failures :: "string list"

definition new_listener :: control_listener where
  "new_listener =
     \<lparr>li_sessions = [], li_writers = [], li_command_results = [], li_issued_commands = [], li_snapshots = [],
      li_nodes_by_rank = [], li_audit = [], li_all_authenticated = False, li_all_established = False,
      li_out_seq = [], li_received_goodbyes = [], li_handler_failures = []\<rparr>"

text \<open>The arguments of the constructor; \<open>lc_sha\<close> is SHA-256 in hexadecimal and \<open>lc_float\<close> the text of a float.\<close>

record listener_config =
  lc_deployment_id :: string
  lc_plan_hash :: string
  lc_generation :: int
  lc_expected_ranks :: int
  lc_expected_nodes :: "(int \<times> string) list"
  lc_limits :: control_limits
  lc_sha :: "string \<Rightarrow> string"
  lc_float :: "real \<Rightarrow> string"

definition listener_config_ok :: "listener_config \<Rightarrow> bool" where
  "listener_config_ok cfg =
     (lc_deployment_id cfg \<noteq> [] \<and> lc_plan_hash cfg \<noteq> [] \<and> 0 \<le> lc_generation cfg \<and> 1 \<le> lc_expected_ranks cfg \<and>
      list_all (\<lambda>(r, n). 0 \<le> r \<and> r < lc_expected_ranks cfg \<and> n \<noteq> []) (lc_expected_nodes cfg))"

text \<open>What a handler does that its caller can see.\<close>

datatype event =
    Wrote int envelope
  | Delivered int component_observation
  | ReceiptIn int dict
  | SessionChange int bool
  | Violation int contract_error
  | HeartbeatIn int
  | SnapshotIn int string string "snapshot_item list"
  | SnapshotAck int dict

datatype write_outcome = Written | ConnectionLost | WriteRefused

text \<open>
  The answer of a sink: it takes the observation, refuses it with a \<^verbatim>\<open>ContractError\<close>, or raises otherwise.
\<close>

datatype sink_answer = Taken | Refused string | Raised

text \<open>
  The world during one turn. A decision callback is absent (\<open>None\<close>), raises (\<open>Some None\<close>) or returns a value.
\<close>

record turn =
  tn_now :: real
  tn_write :: "envelope \<Rightarrow> write_outcome"
  tn_register :: "pyval option option"
  tn_snapshot :: "pyval option option"
  tn_snapshot_ack :: "pyval option option"
  tn_observation :: "component_observation \<Rightarrow> sink_answer"
  tn_raises :: "event \<Rightarrow> bool"

datatype turn_outcome = Continue | Close | Crash

type_synonym handled = "control_listener \<times> event list \<times> turn_outcome"

section \<open>Small operations\<close>

definition add_audit :: "contract_error \<Rightarrow> int option \<Rightarrow> string option \<Rightarrow> control_listener \<Rightarrow> control_listener" where
  "add_audit reason rank node ls =
     ls\<lparr>li_audit := keep_last max_audit_records (li_audit ls @ [\<lparr>au_reason = reason, au_rank = rank, au_node_id = node\<rparr>])\<rparr>"

definition put_session :: "session_info \<Rightarrow> control_listener \<Rightarrow> control_listener" where
  "put_session si ls = ls\<lparr>li_sessions := AList.update (si_rank si) si (li_sessions ls)\<rparr>"

definition is_established :: "control_listener \<Rightarrow> int \<Rightarrow> bool" where
  "is_established ls rank =
     (case map_of (li_sessions ls) rank of None \<Rightarrow> False | Some si \<Rightarrow> si_registered si \<and> si_established si)"

definition is_registered :: "control_listener \<Rightarrow> int \<Rightarrow> bool" where
  "is_registered ls rank = (case map_of (li_sessions ls) rank of None \<Rightarrow> False | Some si \<Rightarrow> si_registered si)"

definition planned_ranks :: "listener_config \<Rightarrow> int list" where
  "planned_ranks cfg = int_range (nat (lc_expected_ranks cfg))"

definition refresh_established :: "listener_config \<Rightarrow> control_listener \<Rightarrow> control_listener" where
  "refresh_established cfg ls = ls\<lparr>li_all_established := list_all (is_established ls) (planned_ranks cfg)\<rparr>"

text \<open>\<^verbatim>\<open>_call_decision\<close>; \<open>None\<close> when it raises.\<close>

definition call_decision :: "pyval option option \<Rightarrow> (bool \<times> string) option" where
  "call_decision callback =
     (case callback of
        None \<Rightarrow> Some (True, ''accepted'')
      | Some None \<Rightarrow> None
      | Some (Some (PTuple [PBool accepted, PStr detail])) \<Rightarrow> Some (accepted, detail)
      | Some (Some (PBool accepted)) \<Rightarrow> Some (accepted, if accepted then ''accepted'' else ''rejected'')
      | Some (Some PNone) \<Rightarrow> Some (True, ''accepted'')
      | Some (Some _) \<Rightarrow> None)"

text \<open>\<^verbatim>\<open>_protocol_violation\<close>, after which every caller leaves the loop.\<close>

definition protocol_violation :: "turn \<Rightarrow> session_info \<Rightarrow> contract_error \<Rightarrow> control_listener \<Rightarrow> handled" where
  "protocol_violation tn si err ls =
     (let ls' = add_audit err (Some (si_rank si)) (Some (si_node_id si)) ls; ev = Violation (si_rank si) err in
      if \<not> si_registered si then (ls', [], Close) else (ls', [ev], if tn_raises tn ev then Crash else Close))"

definition next_out_seq :: "int \<Rightarrow> control_listener \<Rightarrow> int \<times> control_listener" where
  "next_out_seq rank ls =
     (let seq = (case map_of (li_out_seq ls) rank of None \<Rightarrow> 0 | Some n \<Rightarrow> n) + 1
      in (seq, ls\<lparr>li_out_seq := AList.update rank seq (li_out_seq ls)\<rparr>))"

definition head_envelope :: "listener_config \<Rightarrow> envelope_kind \<Rightarrow> int \<Rightarrow> dict \<Rightarrow> envelope" where
  "head_envelope cfg kind seq payload =
     \<lparr>en_v = schema_version, en_kind = kind, en_deployment_id = lc_deployment_id cfg, en_plan_hash = lc_plan_hash cfg,
      en_generation = lc_generation cfg, en_sender_rank = supervisor_rank, en_sender_node = ''head'', en_seq = seq,
      en_payload = payload\<rparr>"

definition check_scope :: "listener_config \<Rightarrow> envelope \<Rightarrow> reject_reason option" where
  "check_scope cfg env =
     first_failure
       [(en_deployment_id env \<noteq> lc_deployment_id cfg, WRONG_DEPLOYMENT), (en_plan_hash env \<noteq> lc_plan_hash cfg, WRONG_PLAN_HASH),
        (en_generation env \<noteq> lc_generation cfg, STALE_GENERATION)]"

text \<open>A notification sink: the call is an event, and the rest of the turn happens if it returns.\<close>

definition notify :: "turn \<Rightarrow> event \<Rightarrow> control_listener \<Rightarrow> (control_listener \<Rightarrow> handled) \<Rightarrow> handled" where
  "notify tn ev ls rest =
     (if tn_raises tn ev then (ls, [ev], Crash) else case rest ls of (ls', evs, v) \<Rightarrow> (ls', ev # evs, v))"

section \<open>Registration\<close>

definition register_checks :: "listener_config \<Rightarrow> envelope \<Rightarrow> control_listener \<Rightarrow> (bool \<times> reject_reason) list" where
  "register_checks cfg env ls =
     (let rank = en_sender_rank env; node = en_sender_node env; p = en_payload env in
      [(\<not> has_keys p [''payload_version'', ''instance_id''] \<or> \<not> payload_v1 p \<or> \<not> nonempty_str (field p ''instance_id''), MALFORMED),
       (\<not> (0 \<le> rank \<and> rank < lc_expected_ranks cfg), RANK_MISMATCH),
       (en_seq env < 0, SEQUENCE_REGRESSION),
       (case map_of (lc_expected_nodes cfg) rank of None \<Rightarrow> False | Some planned \<Rightarrow> \<not> same_node planned node, NODE_MISMATCH),
       (is_registered ls rank, DUPLICATE_RANK),
       (map_of (li_sessions ls) rank \<noteq> None \<and>
          (case map_of (li_nodes_by_rank ls) rank of None \<Rightarrow> False | Some expected \<Rightarrow> \<not> same_node expected node), NODE_MISMATCH),
       (list_ex (\<lambda>(r, n). r \<noteq> rank \<and> same_node n node) (li_nodes_by_rank ls), DUPLICATE_RANK)])"

definition new_session :: "real \<Rightarrow> envelope \<Rightarrow> session_info" where
  "new_session now env =
     \<lparr>si_rank = en_sender_rank env, si_node_id = en_sender_node env, si_registered = True, si_established = False,
      si_instance_id = the_str (field (en_payload env) ''instance_id''), si_pending_snapshot_id = [],
      si_pending_snapshot_hash = [], si_pending_snapshot_command_id = [], si_expected_goodbye = False,
      si_last_seq = en_seq env, si_seen_obs = [], si_last_component_seq = [], si_component_instances = [],
      si_last_seen_at = now\<rparr>"

definition register :: "listener_config \<Rightarrow> real \<Rightarrow> envelope \<Rightarrow> control_listener \<Rightarrow> reject_reason + session_info \<times> control_listener" where
  "register cfg now env ls =
     and_then (checked (register_checks cfg env ls) ()) (\<lambda>_.
       let si = new_session now env;
           ls1 = (put_session si ls)\<lparr>li_nodes_by_rank := AList.update (si_rank si) (si_node_id si) (li_nodes_by_rank ls)\<rparr>
       in Inr (si, if list_all (is_registered ls1) (planned_ranks cfg) then ls1\<lparr>li_all_authenticated := True\<rparr> else ls1))"

definition limits_payload :: "control_limits \<Rightarrow> dict" where
  "limits_payload c =
     [(PStr ''registration_deadline_s'', PFloat (Finite (registration_deadline_s c))),
      (PStr ''heartbeat_interval_s'', PFloat (Finite (heartbeat_interval_s c))),
      (PStr ''lease_timeout_s'', PFloat (Finite (lease_timeout_s c))),
      (PStr ''reconnect_grace_s'', PFloat (Finite (reconnect_grace_s c))),
      (PStr ''snapshot_assembly_deadline_s'', PFloat (Finite (snapshot_assembly_deadline_s c))),
      (PStr ''watchdog_cleanup_deadline_s'', PFloat (Finite (watchdog_cleanup_deadline_s c))),
      (PStr ''max_frame_bytes'', PInt (max_frame_bytes c)), (PStr ''max_snapshot_chunks'', PInt (max_snapshot_chunks c)),
      (PStr ''max_snapshot_bytes'', PInt (max_snapshot_bytes c)), (PStr ''max_snapshot_items'', PInt (max_snapshot_items c))]"

definition register_ack :: "listener_config \<Rightarrow> dict" where
  "register_ack cfg =
     [(PStr ''payload_version'', PInt 1), (PStr ''command_id'', PStr ''register''), (PStr ''operation'', PStr ''REGISTER''),
      (PStr ''ok'', PBool True), (PStr ''control_limits'', PDict (limits_payload (lc_limits cfg)))]"

text \<open>The frame, if the transport takes it; then the rest of the turn.\<close>

definition write_session_frame :: "turn \<Rightarrow> int \<Rightarrow> envelope \<Rightarrow> control_listener \<Rightarrow> (control_listener \<Rightarrow> handled) \<Rightarrow> handled" where
  "write_session_frame tn rank env ls rest =
     (case tn_write tn env of
        Written \<Rightarrow> (case rest ls of (ls', evs, v) \<Rightarrow> (ls', Wrote rank env # evs, v))
      | ConnectionLost \<Rightarrow> (ls, [], Close)
      | WriteRefused \<Rightarrow> (ls, [], Crash))"

text \<open>A REGISTER frame; the rank is returned when the connection has one from then on.\<close>

definition handle_register ::
    "listener_config \<Rightarrow> turn \<Rightarrow> nat \<Rightarrow> int option \<Rightarrow> envelope \<Rightarrow> control_listener \<Rightarrow> int option \<times> handled" where
  "handle_register cfg tn conn owner env ls =
     (case Option.bind owner (\<lambda>r. Option.bind (map_of (li_sessions ls) r) (\<lambda>si. if si_registered si then Some si else None)) of
        Some si \<Rightarrow> (owner, protocol_violation tn si (ContractError DUPLICATE_RANK ''REGISTER repeated'') ls)
      | None \<Rightarrow>
          (case register cfg (tn_now tn) env ls of
             Inl err \<Rightarrow>
               (owner, (add_audit (ContractError err ''registration rejected'') (Some (en_sender_rank env)) (Some (en_sender_node env)) ls,
                 [], Close))
           | Inr (si, ls1) \<Rightarrow>
               (Some (si_rank si),
                 case call_decision (tn_register tn) of
                   None \<Rightarrow> (ls1, [], Crash)
                 | Some (ok, detail) \<Rightarrow>
                     if \<not> ok
                     then (put_session (si\<lparr>si_registered := False\<rparr>)
                             (add_audit (ContractError NODE_MISMATCH detail) (Some (si_rank si)) (Some (si_node_id si)) ls1), [], Close)
                     else case next_out_seq (si_rank si) ls1 of (seq, ls2) \<Rightarrow>
                       write_session_frame tn (si_rank si) (head_envelope cfg COMMAND_RESULT seq (register_ack cfg)) ls2 (\<lambda>ls3.
                         let ls4 = ls3\<lparr>li_writers := AList.update (si_rank si) conn (li_writers ls3)\<rparr>
                         in notify tn (SessionChange (si_rank si) True) ls4 (\<lambda>ls5. (ls5, [], Continue))))))"

section \<open>Commands\<close>

definition command_body :: "string \<Rightarrow> string \<Rightarrow> dict \<Rightarrow> dict" where
  "command_body command_id operation payload =
     [(PStr ''payload_version'', PInt 1), (PStr ''command_id'', PStr command_id), (PStr ''operation'', PStr operation)] @ payload"

definition remember_issued_command ::
    "string \<Rightarrow> int \<times> dict \<Rightarrow> control_listener \<Rightarrow> contract_error + control_listener" where
  "remember_issued_command command_id request ls =
     (case map_of (li_issued_commands ls) command_id of
        Some issued \<Rightarrow>
          if fst issued = fst request \<and> py_eq (PDict (snd issued)) (PDict (snd request)) then Inr ls
          else Inl (ContractError MALFORMED ''command_id was already issued differently'')
      | None \<Rightarrow>
          if max_command_records \<le> length (li_issued_commands ls)
          then Inl (ContractError MALFORMED ''control command identity capacity exhausted'')
          else Inr (ls\<lparr>li_issued_commands := AList.update command_id request (li_issued_commands ls)\<rparr>))"

definition push_command ::
    "listener_config \<Rightarrow> turn \<Rightarrow> int \<Rightarrow> string \<Rightarrow> string \<Rightarrow> dict \<Rightarrow> control_listener
      \<Rightarrow> contract_error + bool \<times> event list \<times> control_listener" where
  "push_command cfg tn rank command_id operation payload ls =
     and_then
       (checked
          [(command_id = [], ContractError MALFORMED ''command_id''), (operation = [], ContractError MALFORMED ''operation''),
           (list_ex (\<lambda>k. PStr k \<in> set (map fst payload)) command_fields, ContractError MALFORMED ''reserved fields'')] ())
       (\<lambda>_.
          if map_of (li_writers ls) rank = None then Inr (False, [], ls)
          else
            and_then (remember_issued_command command_id (rank, command_body command_id operation payload) ls) (\<lambda>ls1.
              case next_out_seq rank ls1 of (seq, ls2) \<Rightarrow>
                let env = head_envelope cfg COMMAND seq (command_body command_id operation payload)
                in Inr (if tn_write tn env = Written then (True, [Wrote rank env], ls2) else (False, [], ls2))))"

definition send_command ::
    "listener_config \<Rightarrow> turn \<Rightarrow> int \<Rightarrow> string \<Rightarrow> string \<Rightarrow> dict \<Rightarrow> control_listener
      \<Rightarrow> contract_error + bool \<times> event list \<times> control_listener" where
  "send_command cfg tn rank command_id operation payload ls =
     (if \<not> (0 \<le> rank \<and> rank < lc_expected_ranks cfg) then Inl (ContractError MALFORMED ''command rank is not planned'')
      else if \<not> is_established ls rank then Inr (False, [], ls)
      else push_command cfg tn rank command_id operation payload ls)"

text \<open>
  \<^verbatim>\<open>broadcast_command_targets\<close>: the ranks the command was delivered to, in order; a command that is refused ends the
  loop with its error, and what was sent before stays sent.
\<close>

fun broadcast_to ::
    "listener_config \<Rightarrow> turn \<Rightarrow> string \<Rightarrow> string \<Rightarrow> dict \<Rightarrow> int list \<Rightarrow> control_listener
      \<Rightarrow> event list \<times> control_listener \<times> (contract_error + int list)" where
  "broadcast_to cfg tn command_id operation payload [] ls = ([], ls, Inr [])"
| "broadcast_to cfg tn command_id operation payload (rank # ranks) ls =
     (if \<not> is_established ls rank then broadcast_to cfg tn command_id operation payload ranks ls
      else
        case push_command cfg tn rank (command_id @ '':'' @ show_int rank) operation payload ls of
          Inl err \<Rightarrow> ([], ls, Inl err)
        | Inr (sent, evs, ls1) \<Rightarrow>
            (case broadcast_to cfg tn command_id operation payload ranks ls1 of
               (evs', ls2, targets) \<Rightarrow>
                 (evs @ evs', ls2, and_then targets (\<lambda>ts. Inr (if sent then rank # ts else ts)))))"

definition broadcast_command_targets ::
    "listener_config \<Rightarrow> turn \<Rightarrow> string \<Rightarrow> string \<Rightarrow> dict \<Rightarrow> control_listener
      \<Rightarrow> event list \<times> control_listener \<times> (contract_error + int list)" where
  "broadcast_command_targets cfg tn command_id operation payload ls =
     broadcast_to cfg tn command_id operation payload (planned_ranks cfg) ls"

definition expect_goodbye :: "int \<Rightarrow> control_listener \<Rightarrow> contract_error + control_listener" where
  "expect_goodbye rank ls =
     (case map_of (li_sessions ls) rank of
        None \<Rightarrow> Inl (ContractError NOT_REGISTERED ''rank is not established'')
      | Some si \<Rightarrow>
          if si_expected_goodbye si then Inr ls
          else if \<not> si_established si then Inl (ContractError NOT_REGISTERED ''rank is not established'')
          else Inr ((put_session (si\<lparr>si_expected_goodbye := True\<rparr>) ls)\<lparr>li_received_goodbyes := removeAll rank (li_received_goodbyes ls)\<rparr>))"

section \<open>Observations and receipts\<close>

text \<open>An observation of a rank session is about that rank, on its node, in this deployment.\<close>

definition bound_checks ::
    "listener_config \<Rightarrow> session_info \<Rightarrow> component_observation \<Rightarrow> 'e \<Rightarrow> 'e \<Rightarrow> 'e \<Rightarrow> 'e \<Rightarrow> (bool \<times> 'e) list" where
  "bound_checks cfg si obs stale scope owner node =
     [(ob_deployment_id obs \<noteq> lc_deployment_id cfg \<or> ob_plan_hash obs \<noteq> lc_plan_hash cfg \<or>
         ob_generation obs \<noteq> lc_generation cfg, stale),
      (ob_owner_scope obs \<noteq> ''RANK'', scope),
      (ob_owner_rank obs \<noteq> Some (si_rank si), owner),
      (\<not> same_node (ob_node_id obs) (si_node_id si), node)]"

definition observation_fingerprint :: "listener_config \<Rightarrow> component_observation \<Rightarrow> string option" where
  "observation_fingerprint cfg obs = map_option (lc_sha cfg) (dumps (lc_float cfg) (obs_to_dict obs))"

definition last_seq_of :: "session_info \<Rightarrow> component_observation \<Rightarrow> int" where
  "last_seq_of si obs =
     (case map_of (si_last_component_seq si) (ob_component_id obs, ob_instance_id obs) of None \<Rightarrow> - 1 | Some n \<Rightarrow> n)"

text \<open>The loop body for an incremental observation, after it has been validated.\<close>

definition track_instance :: "component_observation \<Rightarrow> session_info \<Rightarrow> contract_error + session_info" where
  "track_instance obs si =
     (case map_of (si_component_instances si) (ob_component_id obs) of
        None \<Rightarrow>
          if max_components_per_rank \<le> length (si_component_instances si)
          then Inl (ContractError MALFORMED ''rank component identity capacity exhausted'')
          else Inr (si\<lparr>si_component_instances := AList.update (ob_component_id obs) (ob_instance_id obs) (si_component_instances si)\<rparr>)
      | Some active \<Rightarrow>
          if active \<noteq> ob_instance_id obs then Inl (ContractError STALE_INSTANCE (ob_component_id obs)) else Inr si)"

definition take_observation :: "listener_config \<Rightarrow> turn \<Rightarrow> session_info \<Rightarrow> component_observation \<Rightarrow> control_listener \<Rightarrow> handled" where
  "take_observation cfg tn si obs ls =
     (case and_then (checked (bound_checks cfg si obs
             (ContractError STALE_GENERATION (ob_component_id obs)) (ContractError RANK_MISMATCH ''owner_scope'')
             (ContractError RANK_MISMATCH ''owner_rank'') (ContractError NODE_MISMATCH ''node_id'')) si)
           (track_instance obs) of
        Inl err \<Rightarrow> protocol_violation tn si err ls
      | Inr si1 \<Rightarrow>
          (let ls1 = put_session si1 ls in
           if ob_sequence obs < last_seq_of si1 obs
           then protocol_violation tn si1 (ContractError SEQUENCE_REGRESSION (ob_component_id obs)) ls1
           else case observation_fingerprint cfg obs of
             None \<Rightarrow> (ls1, [], Crash)
           | Some fingerprint \<Rightarrow>
               (case remember (dedup_key obs) fingerprint si1 of
                  Inl err \<Rightarrow> protocol_violation tn si1 err ls1
                | Inr (novel, si2) \<Rightarrow>
                    (let ls2 = put_session si2 ls1 in
                     if \<not> novel then (ls2, [], Continue)
                     else if ob_sequence obs = last_seq_of si2 obs
                     then protocol_violation tn si2 (ContractError SEQUENCE_REGRESSION (ob_component_id obs)) ls2
                     else
                       let si3 = si2\<lparr>si_last_component_seq :=
                               AList.update (ob_component_id obs, ob_instance_id obs) (ob_sequence obs) (si_last_component_seq si2)\<rparr>;
                           ls3 = put_session si3 ls2
                       in case tn_observation tn obs of
                            Refused detail \<Rightarrow> protocol_violation tn si3 (ContractError MALFORMED detail) ls3
                          | Raised \<Rightarrow> (ls3, [Delivered (si_rank si) obs], Crash)
                          | Taken \<Rightarrow> (ls3, [Delivered (si_rank si) obs], Continue)))))"

definition validate_rank_receipt :: "session_info \<Rightarrow> pyval \<Rightarrow> contract_error + dict" where
  "validate_rank_receipt si payload =
     (case payload of
        PDict r \<Rightarrow>
          checked
            [(field r ''owner_scope'' \<noteq> PStr ''RANK'', ContractError MALFORMED ''rank session may submit only RANK receipts''),
             (field r ''owner_rank'' \<noteq> PInt (si_rank si), ContractError MALFORMED ''receipt owner_rank''),
             (field r ''node_id'' \<noteq> PNone \<and> \<not> nonempty_str (field r ''node_id''), ContractError MALFORMED ''receipt node_id''),
             (field r ''node_id'' \<noteq> PNone \<and> \<not> same_node (the_str (field r ''node_id'')) (si_node_id si),
               ContractError MALFORMED ''receipt node_id does not match session'')] r
      | _ \<Rightarrow> Inl (ContractError MALFORMED ''rank receipt must be an object''))"

definition handle_observation :: "listener_config \<Rightarrow> turn \<Rightarrow> session_info \<Rightarrow> dict \<Rightarrow> control_listener \<Rightarrow> handled" where
  "handle_observation cfg tn si p ls =
     (let observe = (\<lambda>ls.
            case validate_observation (field p ''observation'') of
              Inl NumberOverflow \<Rightarrow> (ls, [], Crash)
            | Inl err \<Rightarrow> protocol_violation tn si err ls
            | Inr obs \<Rightarrow> take_observation cfg tn si obs ls)
      in if \<not> si_established si
         then protocol_violation tn si (ContractError NOT_REGISTERED ''incremental observation before snapshot ACK barrier'') ls
         else if \<not> payload_v1 p \<or> PStr ''observation'' \<notin> set (map fst p) \<or>
           \<not> set (map fst p) \<subseteq> PStr ` {''payload_version'', ''observation'', ''compatibility_receipt''}
         then protocol_violation tn si (ContractError MALFORMED ''invalid OBSERVATION payload/version'') ls
         else if field p ''compatibility_receipt'' = PNone then observe ls
         else case validate_rank_receipt si (field p ''compatibility_receipt'') of
                Inl err \<Rightarrow> protocol_violation tn si (ContractError MALFORMED ''attached receipt rejected'') ls
              | Inr receipt \<Rightarrow> notify tn (ReceiptIn (si_rank si) receipt) ls observe)"

definition handle_receipt :: "listener_config \<Rightarrow> turn \<Rightarrow> session_info \<Rightarrow> dict \<Rightarrow> control_listener \<Rightarrow> handled" where
  "handle_receipt cfg tn si p ls =
     (if \<not> si_established si
      then protocol_violation tn si (ContractError NOT_REGISTERED ''incremental receipt before snapshot ACK barrier'') ls
      else if \<not> payload_v1 p \<or> \<not> has_keys p [''payload_version'', ''receipt'']
      then protocol_violation tn si (ContractError MALFORMED ''invalid RECEIPT payload/version'') ls
      else case validate_rank_receipt si (field p ''receipt'') of
             Inl err \<Rightarrow> protocol_violation tn si (ContractError MALFORMED ''receipt rejected'') ls
           | Inr receipt \<Rightarrow> notify tn (ReceiptIn (si_rank si) receipt) ls (\<lambda>ls. (ls, [], Continue)))"

definition handle_heartbeat :: "listener_config \<Rightarrow> turn \<Rightarrow> session_info \<Rightarrow> dict \<Rightarrow> control_listener \<Rightarrow> handled" where
  "handle_heartbeat cfg tn si p ls =
     (if \<not> si_established si
      then protocol_violation tn si (ContractError NOT_REGISTERED ''HEARTBEAT before snapshot ACK barrier'') ls
      else if \<not> has_keys p [''payload_version'', ''heartbeat_id''] \<or> \<not> payload_v1 p \<or> \<not> nonempty_str (field p ''heartbeat_id'')
      then protocol_violation tn si (ContractError MALFORMED ''invalid HEARTBEAT payload/version'') ls
      else
        let ls1 = put_session (si\<lparr>si_last_seen_at := tn_now tn\<rparr>) ls
        in notify tn (HeartbeatIn (si_rank si)) ls1 (\<lambda>ls1.
             case next_out_seq (si_rank si) ls1 of (seq, ls2) \<Rightarrow>
               write_session_frame tn (si_rank si)
                 (head_envelope cfg HEARTBEAT seq [(PStr ''payload_version'', PInt 1), (PStr ''heartbeat_id'', field p ''heartbeat_id'')])
                 ls2 (\<lambda>ls. (ls, [], Continue))))"

section \<open>Snapshots arriving in chunks\<close>

definition chunk_fields :: "string list" where
  "chunk_fields = [''payload_version'', ''snapshot_id'', ''chunk_index'', ''chunk_count'', ''complete_set_hash'',
     ''observations'', ''compatibility_receipts'']"

definition chunk_checks :: "listener_config \<Rightarrow> dict \<Rightarrow> (bool \<times> string) list" where
  "chunk_checks cfg p =
     (let total = the_int (field p ''chunk_count''); index = the_int (field p ''chunk_index'') in
      [(\<not> payload_v1 p, ''unknown snapshot payload_version''),
       (\<not> has_keys p chunk_fields, ''snapshot fields''),
       (as_int (field p ''chunk_count'') = None \<or> as_int (field p ''chunk_index'') = None, ''snapshot chunk_count/chunk_index''),
       (\<not> nonempty_str (field p ''snapshot_id''), ''snapshot id''),
       (\<not> is_hash (field p ''complete_set_hash''), ''snapshot id/hash''),
       (total < 1 \<or> index < 0 \<or> total \<le> index, ''chunk out of range''),
       (max_snapshot_chunks (lc_limits cfg) < total, ''chunks exceeds the cap'')])"

definition chunk_items :: "dict \<Rightarrow> snapshot_item list option" where
  "chunk_items p =
     (case (field p ''observations'', field p ''compatibility_receipts'') of
        (PList os, PList rs) \<Rightarrow> Some (map (Pair ''observation'') os @ map (Pair ''receipt'') rs)
      | _ \<Rightarrow> None)"

definition same_items :: "snapshot_item list \<Rightarrow> snapshot_item list \<Rightarrow> bool" where
  "same_items xs ys = py_eq (items_value xs) (items_value ys)"

datatype assembled = Pending | Bad string | Assembled "snapshot_item list"

definition put_assembly :: "int \<Rightarrow> snapshot_assembly \<Rightarrow> control_listener \<Rightarrow> control_listener" where
  "put_assembly rank st ls = ls\<lparr>li_snapshots := AList.update rank st (li_snapshots ls)\<rparr>"

definition forget_assembly :: "int \<Rightarrow> control_listener \<Rightarrow> control_listener" where
  "forget_assembly rank ls = ls\<lparr>li_snapshots := AList.delete rank (li_snapshots ls)\<rparr>"

text \<open>The last part of \<^verbatim>\<open>_assemble_snapshot\<close>, when every chunk is there.\<close>

definition finish_assembly :: "listener_config \<Rightarrow> int \<Rightarrow> snapshot_assembly \<Rightarrow> control_listener \<Rightarrow> control_listener \<times> assembled" where
  "finish_assembly cfg rank st ls =
     (forget_assembly rank ls,
      case and_then (canonical_snapshot_items (lc_float cfg) (concat (map snd (sort_key fst (sa_chunks st))))) (\<lambda>items.
             and_then (snapshot_set_hash (lc_float cfg) (lc_sha cfg) items) (\<lambda>actual. Inr (items, actual))) of
        Inl err \<Rightarrow> Bad ''snapshot items''
      | Inr (items, actual) \<Rightarrow> if actual \<noteq> sa_hash st then Bad ''snapshot content hash mismatch'' else Assembled items)"

definition add_chunk ::
    "listener_config \<Rightarrow> int \<Rightarrow> int \<Rightarrow> snapshot_item list \<Rightarrow> snapshot_assembly \<Rightarrow> control_listener \<Rightarrow> control_listener \<times> assembled" where
  "add_chunk cfg rank index items st ls =
     (case dumps (lc_float cfg) (items_value items) of
        None \<Rightarrow> (ls, Bad ''snapshot chunk is not canonical JSON'')
      | Some encoded \<Rightarrow>
          let existing = map_of (sa_chunks st) index;
              st1 = (if existing = None then st\<lparr>sa_bytes := sa_bytes st + int (length encoded)\<rparr> else st);
              st2 = st1\<lparr>sa_chunks := AList.update index items (sa_chunks st1)\<rparr>
          in if (case existing of None \<Rightarrow> False | Some old \<Rightarrow> \<not> same_items old items) then (ls, Bad ''conflicting duplicate for chunk'')
             else if existing = None \<and> max_snapshot_bytes (lc_limits cfg) < sa_bytes st1
             then (put_assembly rank st1 ls, Bad ''snapshot exceeds max_snapshot_bytes'')
             else if max_snapshot_items (lc_limits cfg) < int (sum_list (map (length \<circ> snd) (sa_chunks st2)))
             then (put_assembly rank st2 ls, Bad ''snapshot exceeds max_snapshot_items'')
             else if int (length (sa_chunks st2)) < sa_total st2 then (put_assembly rank st2 ls, Pending)
             else finish_assembly cfg rank st2 ls)"

definition assemble_snapshot :: "listener_config \<Rightarrow> real \<Rightarrow> int \<Rightarrow> dict \<Rightarrow> control_listener \<Rightarrow> control_listener \<times> assembled" where
  "assemble_snapshot cfg now rank p ls =
     (case first_failure (chunk_checks cfg p) of
        Some reason \<Rightarrow> (ls, Bad reason)
      | None \<Rightarrow>
          let fresh = \<lparr>sa_snapshot_id = the_str (field p ''snapshot_id''), sa_total = the_int (field p ''chunk_count''),
                       sa_hash = the_str (field p ''complete_set_hash''), sa_chunks = [], sa_bytes = 0, sa_started_at = now\<rparr>;
              st = (case map_of (li_snapshots ls) rank of None \<Rightarrow> fresh | Some st \<Rightarrow> st);
              ls1 = put_assembly rank st ls
          in if (sa_snapshot_id st, sa_total st, sa_hash st) \<noteq> (sa_snapshot_id fresh, sa_total fresh, sa_hash fresh)
             then (ls1, Bad ''snapshot id/count/hash changed while one is in flight'')
             else if snapshot_assembly_deadline_s (lc_limits cfg) < now - sa_started_at st
             then (forget_assembly rank ls1, Bad ''snapshot assembly deadline expired'')
             else case chunk_items p of
                    None \<Rightarrow> (ls1, Bad ''snapshot observations/compatibility_receipts must be lists'')
                  | Some items \<Rightarrow> add_chunk cfg rank (the_int (field p ''chunk_index'')) items st ls1)"

fun split_items ::
    "listener_config \<Rightarrow> session_info \<Rightarrow> snapshot_item list \<Rightarrow> contract_error + component_observation list \<times> dict list" where
  "split_items cfg si [] = Inr ([], [])"
| "split_items cfg si ((kind, body) # items) =
     (if kind = ''receipt''
      then and_then (validate_rank_receipt si body) (\<lambda>receipt.
             and_then (split_items cfg si items) (\<lambda>(os, rs). Inr (os, receipt # rs)))
      else and_then (validate_observation body) (\<lambda>obs.
             and_then (checked (bound_checks cfg si obs
                 (ContractError MALFORMED ''snapshot observation identity is stale'')
                 (ContractError MALFORMED ''rank snapshot contains a GLOBAL observation'')
                 (ContractError MALFORMED ''snapshot observation owner_rank mismatch'')
                 (ContractError MALFORMED ''snapshot observation node_id mismatch'')) ())
               (\<lambda>_. and_then (split_items cfg si items) (\<lambda>(os, rs). Inr (obs # os, rs)))))"

definition validate_snapshot_items ::
    "listener_config \<Rightarrow> session_info \<Rightarrow> snapshot_item list \<Rightarrow> contract_error + component_observation list \<times> dict list" where
  "validate_snapshot_items cfg si items =
     and_then (split_items cfg si items) (\<lambda>(os, rs).
       checked
         [(\<not> distinct (map ob_component_id os), ContractError MALFORMED ''snapshot repeats component_id''),
          (max_components_per_rank < length os, ContractError MALFORMED ''snapshot component identity capacity exceeded'')] (os, rs))"

fun remember_all :: "listener_config \<Rightarrow> component_observation list \<Rightarrow> session_info \<Rightarrow> session_info option" where
  "remember_all cfg [] si = Some si"
| "remember_all cfg (obs # os) si =
     Option.bind (observation_fingerprint cfg obs) (\<lambda>fingerprint.
       case remember (dedup_key obs) fingerprint si of
         Inl err \<Rightarrow> None
       | Inr (novel, si') \<Rightarrow> remember_all cfg os si')"

text \<open>
  The sinks of a snapshot: \<^verbatim>\<open>on_snapshot\<close> if there is one, else the receipts and the observations one by one
  up to the first call that raises, and whether one does.
\<close>

definition snapshot_events ::
    "turn \<Rightarrow> int \<Rightarrow> string \<Rightarrow> string \<Rightarrow> snapshot_item list \<Rightarrow> component_observation list \<Rightarrow> dict list \<Rightarrow> event list \<times> bool" where
  "snapshot_events tn rank snapshot_id complete_hash items os rs =
     (let calls = map (ReceiptIn rank) rs @ map (Delivered rank) os in
      if tn_snapshot tn = None
      then (takeWhile (\<lambda>ev. \<not> tn_raises tn ev) calls @ take 1 (dropWhile (\<lambda>ev. \<not> tn_raises tn ev) calls), list_ex (tn_raises tn) calls)
      else ([SnapshotIn rank snapshot_id complete_hash items], False))"

definition ack_command_id :: "int \<Rightarrow> string \<Rightarrow> string" where
  "ack_command_id rank snapshot_id = ''SNAPSHOT_ACCEPTED:'' @ show_int rank @ '':'' @ snapshot_id"

definition snapshot_command_payload :: "string \<Rightarrow> string \<Rightarrow> dict" where
  "snapshot_command_payload snapshot_id complete_hash =
     [(PStr ''snapshot_id'', PStr snapshot_id), (PStr ''complete_set_hash'', PStr complete_hash)]"

text \<open>The session after a snapshot replaced the projection of its rank.\<close>

definition replace_projection :: "component_observation list \<Rightarrow> session_info \<Rightarrow> session_info" where
  "replace_projection os si =
     si\<lparr>si_last_component_seq := foldl (\<lambda>d obs. AList.update (ob_component_id obs, ob_instance_id obs) (ob_sequence obs) d) [] os,
        si_component_instances := foldl (\<lambda>d obs. AList.update (ob_component_id obs) (ob_instance_id obs) d) [] os,
        si_seen_obs := []\<rparr>"

definition await_ack :: "string \<Rightarrow> string \<Rightarrow> session_info \<Rightarrow> session_info" where
  "await_ack snapshot_id complete_hash si =
     si\<lparr>si_pending_snapshot_id := snapshot_id, si_pending_snapshot_hash := complete_hash,
        si_pending_snapshot_command_id := ack_command_id (si_rank si) snapshot_id\<rparr>"

definition accept_snapshot ::
    "listener_config \<Rightarrow> turn \<Rightarrow> session_info \<Rightarrow> string \<Rightarrow> string \<Rightarrow> snapshot_item list \<Rightarrow> component_observation list \<Rightarrow> dict list
      \<Rightarrow> control_listener \<Rightarrow> handled" where
  "accept_snapshot cfg tn si snapshot_id complete_hash items os rs ls =
     (let (evs, raised) = snapshot_events tn (si_rank si) snapshot_id complete_hash items os rs in
      if raised then (ls, evs, Crash)
      else case remember_all cfg os (replace_projection os si) of
        None \<Rightarrow> (put_session (replace_projection os si) ls, evs, Crash)
      | Some si1 \<Rightarrow>
          let si2 = await_ack snapshot_id complete_hash si1; ls1 = put_session si2 ls
          in case push_command cfg tn (si_rank si2) (si_pending_snapshot_command_id si2) ''SNAPSHOT_ACCEPTED''
                    (snapshot_command_payload snapshot_id complete_hash) ls1 of
               Inl err \<Rightarrow> (ls1, evs, Crash)
             | Inr (sent, evs', ls2) \<Rightarrow> (ls2, evs @ evs', if sent then Continue else Close))"

definition handle_snapshot :: "listener_config \<Rightarrow> turn \<Rightarrow> session_info \<Rightarrow> dict \<Rightarrow> control_listener \<Rightarrow> handled" where
  "handle_snapshot cfg tn si p ls =
     (case assemble_snapshot cfg (tn_now tn) (si_rank si) p ls of
        (ls1, Pending) \<Rightarrow> (ls1, [], Continue)
      | (ls1, Bad reason) \<Rightarrow> protocol_violation tn si (ContractError MALFORMED reason) ls1
      | (ls1, Assembled items) \<Rightarrow>
          (case validate_snapshot_items cfg si items of
             Inl NumberOverflow \<Rightarrow> (ls1, [], Crash)
           | Inl err \<Rightarrow> protocol_violation tn si (ContractError MALFORMED ''snapshot item rejected'') ls1
           | Inr (os, rs) \<Rightarrow>
               (case call_decision (tn_snapshot tn) of
                  None \<Rightarrow> (ls1, [], Crash)
                | Some (ok, detail) \<Rightarrow>
                    if \<not> ok then protocol_violation tn si (ContractError MALFORMED detail) ls1
                    else accept_snapshot cfg tn si (the_str (field p ''snapshot_id'')) (the_str (field p ''complete_set_hash''))
                           items os rs ls1)))"

section \<open>Command results and goodbyes\<close>

definition result_record :: "dict \<Rightarrow> int \<Rightarrow> dict" where
  "result_record p rank = AList.update (PStr ''rank'') (PInt rank) p"

definition snapshot_ack_ok :: "session_info \<Rightarrow> dict \<Rightarrow> bool" where
  "snapshot_ack_ok si p =
     (field p ''payload_version'' = PInt 1 \<and> field p ''operation'' = PStr ''SNAPSHOT_ACCEPTED'' \<and>
      field p ''snapshot_id'' = PStr (si_pending_snapshot_id si) \<and>
      field p ''complete_set_hash'' = PStr (si_pending_snapshot_hash si) \<and> field p ''status'' = PStr ''SUCCEEDED'')"

text \<open>Why a result is refused, in the order of the code; \<open>None\<close> if it is recorded.\<close>

definition result_refusal :: "session_info \<Rightarrow> dict \<Rightarrow> int \<Rightarrow> control_listener \<Rightarrow> contract_error option" where
  "result_refusal si p sender ls =
     (let command_id = the_str (field p ''command_id'') in
      case map_of (li_issued_commands ls) command_id of
        None \<Rightarrow> Some (ContractError MALFORMED ''COMMAND_RESULT names unissued command'')
      | Some (issued_rank, issued_payload) \<Rightarrow>
          first_failure
            [(issued_rank \<noteq> si_rank si, ContractError RANK_MISMATCH command_id),
             (\<not> py_eq (field p ''operation'') (field issued_payload ''operation''), ContractError MALFORMED ''COMMAND_RESULT operation''),
             (\<not> si_established si \<and> command_id \<noteq> si_pending_snapshot_command_id si,
               ContractError NOT_REGISTERED ''COMMAND_RESULT before snapshot ACK barrier''),
             (case map_of (li_command_results ls) command_id of
                None \<Rightarrow> False | Some prior \<Rightarrow> \<not> py_eq (PDict prior) (PDict (result_record p sender)),
               ContractError MALFORMED ''conflicting duplicate COMMAND_RESULT'')])"

definition acknowledge :: "listener_config \<Rightarrow> turn \<Rightarrow> session_info \<Rightarrow> dict \<Rightarrow> control_listener \<Rightarrow> handled" where
  "acknowledge cfg tn si p ls =
     (if \<not> snapshot_ack_ok si p then protocol_violation tn si (ContractError MALFORMED ''snapshot COMMAND_RESULT mismatch'') ls
      else case call_decision (tn_snapshot_ack tn) of
        None \<Rightarrow> (ls, [SnapshotAck (si_rank si) p], Crash)
      | Some (ok, detail) \<Rightarrow>
          if \<not> ok then
            (case protocol_violation tn si (ContractError MALFORMED detail) ls of (ls', evs, v) \<Rightarrow> (ls', SnapshotAck (si_rank si) p # evs, v))
          else (refresh_established cfg (put_session (si\<lparr>si_established := True, si_pending_snapshot_command_id := []\<rparr>) ls),
                [SnapshotAck (si_rank si) p], Continue))"

definition handle_command_result :: "listener_config \<Rightarrow> turn \<Rightarrow> session_info \<Rightarrow> envelope \<Rightarrow> control_listener \<Rightarrow> handled" where
  "handle_command_result cfg tn si env ls =
     (let p = en_payload env; command_id = the_str (field p ''command_id'') in
      case validate_command_result_payload p of
        Inl (PayloadError detail) \<Rightarrow> protocol_violation tn si (ContractError MALFORMED detail) ls
      | Inl Unhashable \<Rightarrow> (ls, [], Crash)
      | Inr _ \<Rightarrow>
          (case result_refusal si p (en_sender_rank env) ls of
             Some err \<Rightarrow> protocol_violation tn si err ls
           | None \<Rightarrow>
               let ls1 = ls\<lparr>li_command_results :=
                       AList.update command_id (result_record p (en_sender_rank env)) (li_command_results ls)\<rparr>;
                   shutdown = field p ''operation'' \<in> {PStr ''DRAIN'', PStr ''STOP''} \<and> field p ''ok'' = PBool True
               in case (if shutdown then expect_goodbye (si_rank si) ls1 else Inr ls1) of
                    Inl err \<Rightarrow> (ls1, [], Crash)
                  | Inr ls2 \<Rightarrow>
                      if command_id = si_pending_snapshot_command_id si then acknowledge cfg tn si p ls2 else (ls2, [], Continue)))"

definition handle_goodbye :: "listener_config \<Rightarrow> turn \<Rightarrow> session_info \<Rightarrow> dict \<Rightarrow> control_listener \<Rightarrow> handled" where
  "handle_goodbye cfg tn si p ls =
     (if \<not> has_keys p [''payload_version''] \<or> \<not> payload_v1 p
      then protocol_violation tn si (ContractError MALFORMED ''invalid GOODBYE payload/version'') ls
      else if \<not> si_expected_goodbye si
      then protocol_violation tn si (ContractError MALFORMED ''unsolicited GOODBYE from required rank'') ls
      else (ls\<lparr>li_received_goodbyes := List.insert (si_rank si) (li_received_goodbyes ls)\<rparr>, [], Close))"

section \<open>A handler turn\<close>

definition dispatch :: "listener_config \<Rightarrow> turn \<Rightarrow> session_info \<Rightarrow> envelope \<Rightarrow> control_listener \<Rightarrow> handled" where
  "dispatch cfg tn si env ls =
     (case en_kind env of
        SNAPSHOT \<Rightarrow> handle_snapshot cfg tn si (en_payload env) ls
      | OBSERVATION \<Rightarrow> handle_observation cfg tn si (en_payload env) ls
      | HEARTBEAT \<Rightarrow> handle_heartbeat cfg tn si (en_payload env) ls
      | RECEIPT \<Rightarrow> handle_receipt cfg tn si (en_payload env) ls
      | COMMAND_RESULT \<Rightarrow> handle_command_result cfg tn si env ls
      | GOODBYE \<Rightarrow> handle_goodbye cfg tn si (en_payload env) ls
      | _ \<Rightarrow> (ls, [], Continue))"

definition handle_envelope ::
    "listener_config \<Rightarrow> turn \<Rightarrow> nat \<Rightarrow> int option \<Rightarrow> envelope \<Rightarrow> control_listener \<Rightarrow> int option \<times> handled" where
  "handle_envelope cfg tn conn owner env ls =
     (let rejected = (\<lambda>reason. (owner, (add_audit (ContractError reason (kind_text (en_kind env)))
            (Some (en_sender_rank env)) (Some (en_sender_node env)) ls, [], Close)))
      in case check_scope cfg env of
           Some reason \<Rightarrow> rejected reason
         | None \<Rightarrow>
             if en_kind env = REGISTER then handle_register cfg tn conn owner env ls
             else case Option.bind owner (map_of (li_sessions ls)) of
                    None \<Rightarrow> rejected NOT_REGISTERED
                  | Some si \<Rightarrow>
                      if \<not> si_registered si then rejected NOT_REGISTERED
                      else (owner,
                        if en_sender_rank env \<noteq> si_rank si \<or> en_sender_node env \<noteq> si_node_id si
                        then protocol_violation tn si (ContractError RANK_MISMATCH ''claimed sender'') ls
                        else if en_seq env \<le> si_last_seq si
                        then protocol_violation tn si (ContractError SEQUENCE_REGRESSION ''seq'') ls
                        else let si1 = si\<lparr>si_last_seq := en_seq env\<rparr> in dispatch cfg tn si1 env (put_session si1 ls)))"

text \<open>The end of a handler: the record of a failure, then the \<^verbatim>\<open>finally\<close> block.\<close>

definition record_crash :: "int option \<Rightarrow> control_listener \<Rightarrow> control_listener" where
  "record_crash owner ls =
     add_audit (ContractError MALFORMED ''control handler failed'') owner
       (map_option si_node_id (Option.bind owner (map_of (li_sessions ls))))
       (ls\<lparr>li_handler_failures := keep_last max_audit_records
          (li_handler_failures ls @ [''control handler failed for rank '' @
             (case owner of None \<Rightarrow> ''unauthenticated'' | Some r \<Rightarrow> show_int r)])\<rparr>)"

definition release_connection :: "int option \<Rightarrow> control_listener \<Rightarrow> control_listener" where
  "release_connection owner ls =
     (let rank = (case owner of None \<Rightarrow> - 1 | Some r \<Rightarrow> r)
      in (forget_assembly rank ls)\<lparr>li_writers := AList.delete rank (li_writers ls)\<rparr>)"

definition finalize :: "turn \<Rightarrow> int option \<Rightarrow> control_listener \<Rightarrow> control_listener \<times> event list" where
  "finalize tn owner ls =
     (case Option.bind owner (map_of (li_sessions ls)) of
        Some si \<Rightarrow>
          if si_registered si
          then
            let ls1 = (put_session (si\<lparr>si_registered := False, si_established := False\<rparr>) ls)
                        \<lparr>li_all_authenticated := False, li_all_established := False\<rparr>;
                ev = SessionChange (si_rank si) False
            in (if tn_raises tn ev then ls1 else release_connection owner ls1, [ev])
          else (release_connection owner ls, [])
      | None \<Rightarrow> (release_connection owner ls, []))"

text \<open>
  What the read of a connection gives, and the turn that follows: the new state, the events and the
  connection if it stays open.
\<close>

datatype incoming = FrameIn envelope | FrameBad contract_error | Ended

definition serve ::
    "listener_config \<Rightarrow> turn \<Rightarrow> nat \<Rightarrow> int option \<Rightarrow> incoming \<Rightarrow> control_listener \<Rightarrow> control_listener \<times> event list \<times> int option option" where
  "serve cfg tn conn owner inc ls =
     (let (owner1, ls1, evs, v) =
            (case inc of
               FrameIn env \<Rightarrow> handle_envelope cfg tn conn owner env ls
             | FrameBad err \<Rightarrow> (owner, add_audit err owner None ls, [], Close)
             | Ended \<Rightarrow> (owner, ls, [], Close))
      in case v of
           Continue \<Rightarrow> (ls1, evs, Some owner1)
         | Close \<Rightarrow> (case finalize tn owner1 ls1 of (ls2, evs') \<Rightarrow> (ls2, evs @ evs', None))
         | Crash \<Rightarrow> (case finalize tn owner1 (record_crash owner1 ls1) of (ls2, evs') \<Rightarrow> (ls2, evs @ evs', None)))"

end
