(* ===== verification/Channel.thy ===== *)
theory Channel
  imports Transport
begin

text \<open>
  The control listener with its connections: every handler turn is a sequence of atomic effects, each with the
  guard the code establishes before it, and the safety of the control plane follows from the
  effects by rule induction. A network is the listener, its open connections with the rank each has registered, and the trace of what
  the listener did. As in \<^verbatim>\<open>HeadChannel\<close>, the listener has a snapshot callback.
\<close>

section \<open>Atomic effects\<close>

text \<open>State that no session or command depends on.\<close>

definition quiet :: "control_listener \<Rightarrow> control_listener \<Rightarrow> bool" where
  "quiet ls ls' =
     (li_sessions ls' = li_sessions ls \<and> li_command_results ls' = li_command_results ls \<and>
      li_issued_commands ls' = li_issued_commands ls \<and> li_nodes_by_rank ls' = li_nodes_by_rank ls \<and>
      li_all_established ls' = li_all_established ls \<and>
      (length (li_audit ls') \<le> max_audit_records \<or> li_audit ls' = li_audit ls) \<and>
      (length (li_handler_failures ls') \<le> max_audit_records \<or> li_handler_failures ls' = li_handler_failures ls))"

definition neutral :: "event \<Rightarrow> bool" where
  "neutral ev = (case ev of Wrote r e \<Rightarrow> True | ReceiptIn r d \<Rightarrow> True | Violation r e \<Rightarrow> True | HeartbeatIn r \<Rightarrow> True | _ \<Rightarrow> False)"

text \<open>Changes of a session that keep its identity, its standing and its projection.\<close>

definition bookkeeping :: "session_info \<Rightarrow> session_info \<Rightarrow> bool" where
  "bookkeeping si si' =
     (si_rank si' = si_rank si \<and> si_node_id si' = si_node_id si \<and> si_registered si' = si_registered si \<and>
      si_established si' = si_established si \<and> si_pending_snapshot_id si' = si_pending_snapshot_id si \<and>
      si_pending_snapshot_hash si' = si_pending_snapshot_hash si \<and>
      si_pending_snapshot_command_id si' = si_pending_snapshot_command_id si \<and>
      si_last_component_seq si' = si_last_component_seq si \<and> si_last_seq si \<le> si_last_seq si' \<and>
      (length (si_seen_obs si') \<le> max_dedup_keys \<or> si_seen_obs si' = si_seen_obs si) \<and>
      (length (si_component_instances si') \<le> max_components_per_rank \<or> si_component_instances si' = si_component_instances si))"

text \<open>The observation is about that rank, on that node, in this deployment.\<close>

definition owned_by :: "listener_config \<Rightarrow> int \<Rightarrow> string \<Rightarrow> component_observation \<Rightarrow> bool" where
  "owned_by cfg r n obs =
     (observation_ok obs \<and> ob_deployment_id obs = lc_deployment_id cfg \<and> ob_plan_hash obs = lc_plan_hash cfg \<and>
      ob_generation obs = lc_generation cfg \<and> ob_owner_scope obs = ''RANK'' \<and> ob_owner_rank obs = Some r \<and>
      same_node (ob_node_id obs) n)"

definition bound_to :: "listener_config \<Rightarrow> session_info \<Rightarrow> component_observation \<Rightarrow> bool" where
  "bound_to cfg si obs = owned_by cfg (si_rank si) (si_node_id si) obs"

inductive effect :: "listener_config \<Rightarrow> control_listener \<Rightarrow> event list \<Rightarrow> control_listener \<Rightarrow> bool" for cfg where
  quiet: "quiet ls ls' \<Longrightarrow> list_all neutral evs \<Longrightarrow> effect cfg ls evs ls'"
| touch: "map_of (li_sessions ls) r = Some si \<Longrightarrow> bookkeeping si si' \<Longrightarrow> effect cfg ls [] (put_session si' ls)"
| deliver: "map_of (li_sessions ls) r = Some si \<Longrightarrow> si_registered si \<Longrightarrow> si_established si \<Longrightarrow> bound_to cfg si obs \<Longrightarrow>
    last_seq_of si obs < ob_sequence obs \<Longrightarrow> evs = [] \<or> evs = [Delivered r obs] \<Longrightarrow>
    effect cfg ls evs (put_session (si\<lparr>si_last_component_seq :=
      AList.update (ob_component_id obs, ob_instance_id obs) (ob_sequence obs) (si_last_component_seq si)\<rparr>) ls)"
| snapshot: "map_of (li_sessions ls) r = Some si \<Longrightarrow> si_registered si \<Longrightarrow> validate_snapshot_items cfg si items = Inr (os, rs) \<Longrightarrow>
    snapshot_set_hash (lc_float cfg) (lc_sha cfg) items = Inr h \<Longrightarrow> si_rank si' = r \<Longrightarrow> si_node_id si' = si_node_id si \<Longrightarrow>
    si_registered si' \<Longrightarrow> si_established si' = si_established si \<Longrightarrow>
    si_last_component_seq si' = si_last_component_seq (replace_projection os si) \<Longrightarrow>
    length (si_seen_obs si') \<le> max_dedup_keys \<Longrightarrow> length (si_component_instances si') \<le> max_components_per_rank \<Longrightarrow>
    si_pending_snapshot_command_id si' = si_pending_snapshot_command_id si \<and> si_pending_snapshot_id si' = si_pending_snapshot_id si \<and>
      si_pending_snapshot_hash si' = si_pending_snapshot_hash si \<or>
    si_pending_snapshot_id si' = sid \<and> si_pending_snapshot_hash si' = h \<Longrightarrow>
    effect cfg ls [SnapshotIn r sid h items] (put_session si' ls)"
| issue: "remember_issued_command command_id (r, p) ls = Inr ls' \<Longrightarrow> effect cfg ls [] ls'"
| result: "map_of (li_issued_commands ls) command_id = Some (r, q) \<Longrightarrow> map_of (li_sessions ls) r = Some si \<Longrightarrow> si_registered si \<Longrightarrow>
    validate_command_result_payload p = Inr p \<Longrightarrow> field p ''command_id'' = PStr command_id \<Longrightarrow>
    py_eq (field p ''operation'') (field q ''operation'') \<Longrightarrow>
    (\<And>prior. map_of (li_command_results ls) command_id = Some prior \<Longrightarrow> py_eq (PDict prior) (PDict (result_record p r))) \<Longrightarrow>
    effect cfg ls [] (ls\<lparr>li_command_results := AList.update command_id (result_record p r) (li_command_results ls)\<rparr>)"
| asked: "map_of (li_sessions ls) r = Some si \<Longrightarrow> si_registered si \<Longrightarrow> effect cfg ls [SnapshotAck r p] ls"
| ack: "map_of (li_sessions ls) r = Some si \<Longrightarrow> si_registered si \<Longrightarrow> si_pending_snapshot_command_id si \<noteq> [] \<Longrightarrow> snapshot_ack_ok si p \<Longrightarrow>
    effect cfg ls [SnapshotAck r p]
      (refresh_established cfg (put_session (si\<lparr>si_established := True, si_pending_snapshot_command_id := []\<rparr>) ls))"

text \<open>Effects that keep every registration, and the changes of registration.\<close>

inductive change :: "listener_config \<Rightarrow> control_listener \<Rightarrow> event list \<Rightarrow> control_listener \<Rightarrow> bool" for cfg where
  effect: "effect cfg ls evs ls' \<Longrightarrow> change cfg ls evs ls'"
| enrol: "register cfg now env ls = Inr (si, ls') \<Longrightarrow> change cfg ls [] ls'"
| reject: "map_of (li_sessions ls) r = Some si \<Longrightarrow> \<not> si_established si \<Longrightarrow>
    change cfg ls [] (put_session (si\<lparr>si_registered := False\<rparr>) ls)"
| joined: "map_of (li_sessions ls) r = Some si \<Longrightarrow> si_registered si \<Longrightarrow> \<not> si_established si \<Longrightarrow> si_last_component_seq si = [] \<Longrightarrow>
    si_pending_snapshot_command_id si = [] \<Longrightarrow> change cfg ls [SessionChange r True] ls"
| revoke: "map_of (li_sessions ls) r = Some si \<Longrightarrow> evs = [] \<or> evs = [SessionChange r False] \<Longrightarrow>
    change cfg ls evs ((put_session (si\<lparr>si_registered := False, si_established := False\<rparr>) ls)
      \<lparr>li_all_authenticated := False, li_all_established := False\<rparr>)"

inductive effects :: "listener_config \<Rightarrow> control_listener \<Rightarrow> event list \<Rightarrow> control_listener \<Rightarrow> bool" for cfg where
  none: "effects cfg ls [] ls"
| more: "effect cfg ls evs ls1 \<Longrightarrow> effects cfg ls1 evs' ls' \<Longrightarrow> effects cfg ls (evs @ evs') ls'"

lemma effects_one: "effect cfg ls evs ls' \<Longrightarrow> effects cfg ls evs ls'"
  using effects.more [OF _ effects.none] by fastforce

lemma effects_trans: "effects cfg ls evs ls1 \<Longrightarrow> effects cfg ls1 evs' ls' \<Longrightarrow> effects cfg ls (evs @ evs') ls'"
  by (induction rule: effects.induct) (auto intro: effects.more)

lemma effects_then: "effect cfg ls [] ls1 \<Longrightarrow> effects cfg ls1 evs ls' \<Longrightarrow> effects cfg ls evs ls'"
  using effects.more by fastforce

lemma effects_quiet: "quiet ls ls' \<Longrightarrow> list_all neutral evs \<Longrightarrow> effects cfg ls evs ls'"
  by (intro effects_one effect.quiet)

inductive changes :: "listener_config \<Rightarrow> control_listener \<Rightarrow> event list \<Rightarrow> control_listener \<Rightarrow> bool" for cfg where
  none: "changes cfg ls [] ls"
| more: "change cfg ls evs ls1 \<Longrightarrow> changes cfg ls1 evs' ls' \<Longrightarrow> changes cfg ls (evs @ evs') ls'"

lemma changes_one: "change cfg ls evs ls' \<Longrightarrow> changes cfg ls evs ls'"
  using changes.more [OF _ changes.none] by fastforce

lemma changes_trans: "changes cfg ls evs ls1 \<Longrightarrow> changes cfg ls1 evs' ls' \<Longrightarrow> changes cfg ls (evs @ evs') ls'"
  by (induction rule: changes.induct) (auto intro: changes.more)

lemma effects_changes: "effects cfg ls evs ls' \<Longrightarrow> changes cfg ls evs ls'"
  by (induction rule: effects.induct) (auto intro: changes.none changes.more [OF change.effect])

lemma changes_quiet: "quiet ls ls' \<Longrightarrow> list_all neutral evs \<Longrightarrow> changes cfg ls evs ls'"
  by (intro effects_changes effects_quiet)

section \<open>Handlers are made of effects\<close>

lemma keep_last_length: "length (keep_last n xs) \<le> n"
  by (simp add: keep_last_def)

lemma quiet_refl [simp]: "quiet ls ls"
  by (simp add: quiet_def)

lemma quiet_trans: "quiet ls ls1 \<Longrightarrow> quiet ls1 ls2 \<Longrightarrow> quiet ls ls2"
  by (auto simp: quiet_def)

lemma quiet_audit: "quiet ls (add_audit reason rank node ls)"
  by (simp add: quiet_def add_audit_def keep_last_length)

lemma quiet_out_seq: "next_out_seq r ls = (seq, ls') \<Longrightarrow> quiet ls ls'"
  by (auto simp: next_out_seq_def Let_def quiet_def)

lemma quiet_assembly [simp]: "quiet ls (put_assembly r st ls)" "quiet ls (forget_assembly r ls)"
  by (simp_all add: quiet_def put_assembly_def forget_assembly_def)

lemma violation_effects:
  assumes "protocol_violation tn si err ls = (ls', evs, v)"
  shows "effects cfg ls evs ls'" "v \<noteq> Continue"
proof -
  have "quiet ls ls'" "list_all neutral evs"
    using assms by (auto simp: protocol_violation_def Let_def quiet_audit neutral_def split: if_splits)
  then show "effects cfg ls evs ls'" by (rule effects_quiet)
  show "v \<noteq> Continue" using assms by (auto simp: protocol_violation_def Let_def split: if_splits)
qed

lemma bookkeeping_refl [simp]: "bookkeeping si si"
  by (simp add: bookkeeping_def)

lemma put_session_get [simp]:
  "map_of (li_sessions (put_session si ls)) r = (if r = si_rank si then Some si else map_of (li_sessions ls) r)"
  by (simp add: put_session_def update_conv')

lemma put_session_simps [simp]:
  "li_all_established (put_session si ls) = li_all_established ls" "li_nodes_by_rank (put_session si ls) = li_nodes_by_rank ls"
  "li_issued_commands (put_session si ls) = li_issued_commands ls" "li_command_results (put_session si ls) = li_command_results ls"
  "li_audit (put_session si ls) = li_audit ls" "li_handler_failures (put_session si ls) = li_handler_failures ls"
  by (simp_all add: put_session_def)

lemma remember_bookkeeping:
  "remember key fp si = Inr (novel, si') \<Longrightarrow> bookkeeping si si' \<and> si_rank si' = si_rank si"
  by (auto simp: remember_def bookkeeping_def keep_last_length split: option.splits if_splits)

lemma update_length: "length (AList.update k v d) = (if k \<in> set (map fst d) then length d else Suc (length d))"
  by (induction d) auto

lemma track_bookkeeping: "track_instance obs si = Inr si' \<Longrightarrow> bookkeeping si si' \<and> si_rank si' = si_rank si"
  by (auto simp: track_instance_def bookkeeping_def update_length split: option.splits if_splits)

lemma touch_effects: "map_of (li_sessions ls) r = Some si \<Longrightarrow> bookkeeping si si' \<Longrightarrow> effects cfg ls [] (put_session si' ls)"
  by (intro effects_one effect.touch)

lemma bound_checks_bound:
  "checked (bound_checks cfg si obs a b c d) x = Inr y \<Longrightarrow> observation_ok obs \<Longrightarrow> bound_to cfg si obs \<and> y = x"
  by (auto simp: bound_checks_def bound_to_def owned_by_def check_simps)

lemma bound_to_bookkeeping: "bookkeeping si si' \<Longrightarrow> bound_to cfg si' obs = bound_to cfg si obs"
  by (simp add: bound_to_def bookkeeping_def)

lemma take_observation_effects:
  assumes si: "map_of (li_sessions ls) r = Some si" "si_rank si = r" "si_registered si" "si_established si"
    and ok: "observation_ok obs" and step: "take_observation cfg tn si obs ls = (ls', evs, v)"
  shows "effects cfg ls evs ls'"
proof (cases "and_then (checked (bound_checks cfg si obs (ContractError STALE_GENERATION (ob_component_id obs))
    (ContractError RANK_MISMATCH ''owner_scope'') (ContractError RANK_MISMATCH ''owner_rank'')
    (ContractError NODE_MISMATCH ''node_id'')) si) (track_instance obs)")
  case (Inl err)
  then have "protocol_violation tn si err ls = (ls', evs, v)" using step by (simp add: take_observation_def)
  then show ?thesis by (rule violation_effects)
next
  case (Inr si1)
  then have bound: "bound_to cfg si obs" and track: "track_instance obs si = Inr si1"
    by (auto simp: and_then_Inr dest: bound_checks_bound [OF _ ok])
  note book1 = track_bookkeeping [OF track]
  let ?ls1 = "put_session si1 ls"
  have ls1: "effects cfg ls [] ?ls1" using si(1) book1 by (intro touch_effects) auto
  have get1: "map_of (li_sessions ?ls1) r = Some si1" using book1 si(2) by simp
  note rest = step [unfolded take_observation_def Inr, simplified, unfolded Let_def]
  show ?thesis
  proof (cases "\<exists>fp novel si2. \<not> ob_sequence obs < last_seq_of si1 obs \<and> observation_fingerprint cfg obs = Some fp \<and>
      remember (dedup_key obs) fp si1 = Inr (novel, si2)")
    case False
    then have "(ls', evs) = (?ls1, []) \<or> (\<exists>err. protocol_violation tn si1 err ?ls1 = (ls', evs, v))"
      using rest by (auto split: if_splits option.splits sum.splits)
    then show ?thesis
      using effects_trans [OF ls1] violation_effects(1) by (fastforce intro: ls1)
  next
    case True
    then obtain fp novel si2 where rem: "\<not> ob_sequence obs < last_seq_of si1 obs" "observation_fingerprint cfg obs = Some fp"
        "remember (dedup_key obs) fp si1 = Inr (novel, si2)" by blast
    note book2 = remember_bookkeeping [OF rem(3)]
    let ?ls2 = "put_session si2 ?ls1"
    have ls2: "effects cfg ls [] ?ls2" using effects_trans [OF ls1 touch_effects [OF get1]] book2 by auto
    have get2: "map_of (li_sessions ?ls2) r = Some si2" "si_rank si2 = r" using book1 book2 si(2) by simp_all
    let ?si3 = "si2\<lparr>si_last_component_seq :=
      AList.update (ob_component_id obs, ob_instance_id obs) (ob_sequence obs) (si_last_component_seq si2)\<rparr>"
    have live: "si_registered si2" "si_established si2" "bound_to cfg si2 obs"
      using si(3,4) bound book1 book2 by (simp_all add: bookkeeping_def bound_to_def)
    have deliver: "effects cfg ls evs (put_session ?si3 ?ls2)"
      if "ob_sequence obs \<noteq> last_seq_of si2 obs" "evs = [] \<or> evs = [Delivered r obs]" for evs
    proof -
      have "last_seq_of si2 obs < ob_sequence obs"
        using rem(1) that(1) book2 by (simp add: last_seq_of_def bookkeeping_def)
      then have "effect cfg ?ls2 evs (put_session ?si3 ?ls2)" using get2(1) live that(2) by (intro effect.deliver)
      then show ?thesis using effects_trans [OF ls2 effects_one] by simp
    qed
    consider "(ls', evs) = (?ls2, [])" | err where "protocol_violation tn si2 err ?ls2 = (ls', evs, v)"
      | err where "ob_sequence obs \<noteq> last_seq_of si2 obs" "protocol_violation tn ?si3 err (put_session ?si3 ?ls2) = (ls', evs, v)"
      | "ob_sequence obs \<noteq> last_seq_of si2 obs" "(ls', evs) = (put_session ?si3 ?ls2, [Delivered r obs])"
      using rest rem si(2) by (fastforce split: if_splits sink_answer.splits)
    then show ?thesis
    proof cases
      case 1
      then show ?thesis using ls2 by simp
    next
      case 2
      then show ?thesis using effects_trans [OF ls2 violation_effects(1)] by simp
    next
      case 3
      then show ?thesis using effects_trans [OF deliver [of "[]"] violation_effects(1)] by simp
    next
      case 4
      then show ?thesis using deliver by simp
    qed
  qed
qed

lemma notify_effects:
  assumes "notify tn ev ls rest = (ls', evs, v)" "neutral ev" "\<And>evs' v. rest ls = (ls', evs', v) \<Longrightarrow> effects cfg ls evs' ls'"
  shows "effects cfg ls evs ls'"
proof (cases "tn_raises tn ev")
  case True
  then show ?thesis using assms(1,2) by (auto simp: notify_def intro: effects_quiet)
next
  case False
  then obtain evs' where "rest ls = (ls', evs', v)" "evs = [ev] @ evs'" using assms(1) by (auto simp: notify_def split: prod.splits)
  then show ?thesis using effects_trans [OF effects_quiet [of ls ls "[ev]"]] assms(2,3) by simp
qed

lemma write_session_frame_effects:
  assumes "write_session_frame tn r env ls rest = (ls', evs, v)" "\<And>evs' v. rest ls = (ls', evs', v) \<Longrightarrow> effects cfg ls evs' ls'"
  shows "effects cfg ls evs ls'"
proof (cases "tn_write tn env")
  case Written
  then obtain evs' where "rest ls = (ls', evs', v)" "evs = [Wrote r env] @ evs'"
    using assms(1) by (auto simp: write_session_frame_def split: prod.splits)
  then show ?thesis
    using effects_trans [OF effects_quiet [of ls ls "[Wrote r env]"]] assms(2) by (simp add: neutral_def)
qed (use assms(1) in \<open>auto simp: write_session_frame_def intro: effects.none\<close>)

lemma handle_observation_effects:
  assumes si: "map_of (li_sessions ls) r = Some si" "si_rank si = r" "si_registered si"
    and step: "handle_observation cfg tn si p ls = (ls', evs, v)"
  shows "effects cfg ls evs ls'"
proof -
  let ?observe = "\<lambda>ls. case validate_observation (field p ''observation'') of
      Inl NumberOverflow \<Rightarrow> (ls, [], Crash) | Inl err \<Rightarrow> protocol_violation tn si err ls
    | Inr obs \<Rightarrow> take_observation cfg tn si obs ls"
  have observe: "effects cfg ls evs ls'" if "?observe ls = (ls', evs, v)" "si_established si" for evs v
    using that take_observation_effects [OF si that(2)] validate_observation_ok violation_effects(1)
    by (fastforce split: sum.splits contract_error.splits intro: effects.none)
  consider err where "protocol_violation tn si err ls = (ls', evs, v)" | "si_established si" "?observe ls = (ls', evs, v)"
    | receipt where "si_established si" "notify tn (ReceiptIn (si_rank si) receipt) ls ?observe = (ls', evs, v)"
    using step unfolding handle_observation_def Let_def by (auto split: if_splits sum.splits)
  then show ?thesis
  proof cases
    case 3
    show ?thesis using notify_effects [OF 3(2)] observe 3(1) by (simp add: neutral_def)
  qed (use violation_effects(1) observe in auto)
qed

lemma handle_receipt_effects: "handle_receipt cfg tn si p ls = (ls', evs, v) \<Longrightarrow> effects cfg ls evs ls'"
  unfolding handle_receipt_def
  by (auto split: if_splits sum.splits elim!: notify_effects simp: neutral_def intro: violation_effects(1) effects.none)

lemma handle_heartbeat_effects:
  assumes "map_of (li_sessions ls) r = Some si" "handle_heartbeat cfg tn si p ls = (ls', evs, v)"
  shows "effects cfg ls evs ls'"
proof -
  let ?ls1 = "put_session (si\<lparr>si_last_seen_at := tn_now tn\<rparr>) ls"
  have "bookkeeping si (si\<lparr>si_last_seen_at := tn_now tn\<rparr>)" by (simp add: bookkeeping_def)
  then have ls1: "effects cfg ls [] ?ls1" by (rule touch_effects [OF assms(1)])
  have writing: "effects cfg ?ls1 evs' ls'"
    if w: "(case next_out_seq (si_rank si) ?ls1 of (seq, ls2) \<Rightarrow> write_session_frame tn (si_rank si)
        (head_envelope cfg HEARTBEAT seq [(PStr ''payload_version'', PInt 1), (PStr ''heartbeat_id'', field p ''heartbeat_id'')])
        ls2 (\<lambda>ls. (ls, [], Continue))) = (ls', evs', v')" for evs' v'
  proof -
    obtain seq ls2 where ls2: "next_out_seq (si_rank si) ?ls1 = (seq, ls2)" by (rule prod.exhaust)
    then have "effects cfg ls2 evs' ls'" using w by (auto elim!: write_session_frame_effects intro: effects.none)
    then show ?thesis using effects_trans [OF effects_quiet [OF quiet_out_seq [OF ls2], of "[]"]] by simp
  qed
  consider err where "protocol_violation tn si err ls = (ls', evs, v)"
    | "effects cfg ?ls1 evs ls'"
    using assms(2) notify_effects [OF _ _ writing] unfolding handle_heartbeat_def Let_def
    by (auto split: if_splits simp: neutral_def)
  then show ?thesis using effects_trans [OF ls1] violation_effects(1) by cases auto
qed

lemma push_command_effects:
  assumes "push_command cfg tn r command_id operation payload ls = Inr (sent, evs, ls')"
  shows "effects cfg ls evs ls'"
proof (cases "map_of (li_writers ls) r = None")
  case True
  then show ?thesis using assms by (auto simp: push_command_def and_then_Inr intro: effects.none)
next
  case False
  let ?request = "(r, command_body command_id operation payload)"
  obtain ls1 where ls1: "remember_issued_command command_id ?request ls = Inr ls1"
    using False assms by (auto simp: push_command_def and_then_Inr)
  obtain seq ls2 where ls2: "next_out_seq r ls1 = (seq, ls2)" by (rule prod.exhaust)
  have "ls' = ls2" "list_all neutral evs"
    using assms False ls1 ls2 by (auto simp: push_command_def and_then_Inr Let_def neutral_def split: if_splits)
  then have "effects cfg ls1 evs ls'" using ls2 by (auto intro: effects_quiet quiet_out_seq)
  then show ?thesis using effects_then [OF effect.issue [OF ls1]] by simp
qed

lemma add_chunk_quiet: "add_chunk cfg r index items st ls = (ls', a) \<Longrightarrow> quiet ls ls'"
  by (auto simp: add_chunk_def finish_assembly_def Let_def split: option.splits if_splits)

lemma finish_assembly_hash:
  "finish_assembly cfg r st ls = (ls', Assembled items) \<Longrightarrow> snapshot_set_hash (lc_float cfg) (lc_sha cfg) items = Inr (sa_hash st)"
  by (auto simp: finish_assembly_def and_then_Inr split: sum.splits if_splits)

lemma add_chunk_hash:
  "add_chunk cfg r index its st ls = (ls', Assembled items) \<Longrightarrow> snapshot_set_hash (lc_float cfg) (lc_sha cfg) items = Inr (sa_hash st)"
  by (auto simp: add_chunk_def Let_def split: option.splits if_splits dest!: finish_assembly_hash)

lemma assemble_quiet: "assemble_snapshot cfg now r p ls = (ls', a) \<Longrightarrow> quiet ls ls'"
  unfolding assemble_snapshot_def Let_def
  by (auto split: option.splits if_splits dest!: add_chunk_quiet
      intro: quiet_trans [OF quiet_assembly(1)] quiet_trans [OF quiet_assembly(1) quiet_assembly(2)])

lemma assemble_hash:
  "assemble_snapshot cfg now r p ls = (ls', Assembled items) \<Longrightarrow>
     snapshot_set_hash (lc_float cfg) (lc_sha cfg) items = Inr (the_str (field p ''complete_set_hash''))"
  unfolding assemble_snapshot_def Let_def
  by (auto split: option.splits if_splits dest!: add_chunk_hash)

lemma remember_all_session:
  "remember_all cfg os si = Some si' \<Longrightarrow> length (si_seen_obs si) \<le> max_dedup_keys \<Longrightarrow>
     length (si_seen_obs si') \<le> max_dedup_keys \<and> (\<exists>seen. si' = si\<lparr>si_seen_obs := seen\<rparr>)"
proof (induction os arbitrary: si)
  case Nil
  then show ?case by (auto intro: exI [of _ "si_seen_obs si"])
next
  case (Cons obs os)
  then obtain fp where "(case remember (dedup_key obs) fp si of Inl err \<Rightarrow> None | Inr (novel, si1) \<Rightarrow> remember_all cfg os si1) = Some si'"
    by (auto simp: bind_eq_Some_conv)
  then obtain novel si1 where rem: "remember (dedup_key obs) fp si = Inr (novel, si1)" "remember_all cfg os si1 = Some si'"
    by (cases "remember (dedup_key obs) fp si") auto
  obtain seen where seen: "si1 = si\<lparr>si_seen_obs := seen\<rparr>" "length seen \<le> max_dedup_keys"
  proof (cases "map_of (si_seen_obs si) (dedup_key obs)")
    case None
    then show thesis using that rem(1) by (auto simp: remember_def keep_last_length)
  next
    case (Some old)
    then have "si1 = si" using rem(1) by (auto simp: remember_def split: if_splits)
    then show thesis using that [of "si_seen_obs si"] Cons.prems(2) by simp
  qed
  then show ?case using Cons.IH [OF rem(2)] by auto
qed

lemma foldl_update_length: "length (foldl (\<lambda>d x. AList.update (f x) (g x) d) d xs) \<le> length d + length xs"
proof (induction xs arbitrary: d)
  case (Cons x xs)
  show ?case using Cons.IH [of "AList.update (f x) (g x) d"] by (simp add: update_length split: if_splits)
qed simp

lemma accept_snapshot_effects:
  assumes si: "map_of (li_sessions ls) r = Some si" "si_rank si = r" "si_registered si"
    and items: "validate_snapshot_items cfg si items = Inr (os, rs)" "snapshot_set_hash (lc_float cfg) (lc_sha cfg) items = Inr h"
    and cb: "tn_snapshot tn \<noteq> None"
    and step: "accept_snapshot cfg tn si sid h items os rs ls = (ls', evs, v)"
  shows "effects cfg ls evs ls'"
proof -
  let ?si = "replace_projection os si"
  have "length os \<le> max_components_per_rank"
    using items(1) by (auto simp: validate_snapshot_items_def and_then_Inr check_simps split: prod.splits)
  then have inst: "length (si_component_instances ?si) \<le> max_components_per_rank"
    using foldl_update_length [of ob_component_id ob_instance_id "[]" os] by (simp add: replace_projection_def)
  have snap: "effects cfg ls [SnapshotIn r sid h items] (put_session si' ls)"
    if "si_rank si' = r" "si_node_id si' = si_node_id si" "si_registered si'" "si_established si' = si_established si"
      "si_last_component_seq si' = si_last_component_seq ?si" "length (si_seen_obs si') \<le> max_dedup_keys"
      "si_component_instances si' = si_component_instances ?si"
      "si_pending_snapshot_command_id si' = si_pending_snapshot_command_id si \<and> si_pending_snapshot_id si' = si_pending_snapshot_id si \<and>
        si_pending_snapshot_hash si' = si_pending_snapshot_hash si \<or>
       si_pending_snapshot_id si' = sid \<and> si_pending_snapshot_hash si' = h" for si'
    using that inst by (intro effects_one effect.snapshot [OF si(1,3) items]) simp_all
  have evs: "snapshot_events tn (si_rank si) sid h items os rs = ([SnapshotIn r sid h items], False)"
    using cb si(2) by (auto simp: snapshot_events_def Let_def)
  show ?thesis
  proof (cases "remember_all cfg os ?si")
    case None
    then have "ls' = put_session ?si ls" "evs = [SnapshotIn r sid h items]"
      using step by (auto simp: accept_snapshot_def evs)
    then show ?thesis using snap [of ?si] si by (simp add: replace_projection_def)
  next
    case (Some si1)
    obtain seen where seen: "si1 = ?si\<lparr>si_seen_obs := seen\<rparr>" "length seen \<le> max_dedup_keys"
      using remember_all_session [OF Some] by (auto simp: replace_projection_def)
    let ?si2 = "await_ack sid h si1"
    have ls1: "effects cfg ls [SnapshotIn r sid h items] (put_session ?si2 ls)"
      using seen si by (intro snap) (simp_all add: await_ack_def replace_projection_def)
    show ?thesis
      using step Some ls1 effects_trans [OF ls1 push_command_effects]
      by (auto simp: accept_snapshot_def evs Let_def split: sum.splits prod.splits)
  qed
qed

lemma handle_snapshot_effects:
  assumes si: "map_of (li_sessions ls) r = Some si" "si_rank si = r" "si_registered si" and cb: "tn_snapshot tn \<noteq> None"
    and step: "handle_snapshot cfg tn si p ls = (ls', evs, v)"
  shows "effects cfg ls evs ls'"
proof -
  obtain ls1 a where a: "assemble_snapshot cfg (tn_now tn) (si_rank si) p ls = (ls1, a)" by (rule prod.exhaust)
  have quiet: "quiet ls ls1" using a by (rule assemble_quiet)
  then have get: "map_of (li_sessions ls1) r = Some si" using si(1) by (simp add: quiet_def)
  have "effects cfg ls1 evs ls'"
  proof (cases a)
    case (Assembled items)
    note hash = assemble_hash [OF a [unfolded Assembled]]
    show ?thesis
    proof (cases "validate_snapshot_items cfg si items")
      case (Inl err)
      then show ?thesis using step a Assembled violation_effects(1)
        by (cases err) (auto simp: handle_snapshot_def intro: effects.none)
    next
      case (Inr parts)
      obtain os rs where parts: "parts = (os, rs)" by (rule prod.exhaust)
      consider "evs = []" "ls' = ls1" | err where "protocol_violation tn si err ls1 = (ls', evs, v)"
        | "accept_snapshot cfg tn si (the_str (field p ''snapshot_id'')) (the_str (field p ''complete_set_hash''))
             items os rs ls1 = (ls', evs, v)"
        using step a Assembled Inr parts by (auto simp: handle_snapshot_def split: option.splits if_splits)
      then show ?thesis
        using violation_effects(1) accept_snapshot_effects [OF get si(2,3) Inr [unfolded parts] hash cb]
        by cases (auto intro: effects.none)
    qed
  qed (use step a violation_effects(1) in \<open>auto simp: handle_snapshot_def intro: effects.none\<close>)
  then show ?thesis using effects_trans [OF effects_quiet [OF quiet, of "[]"]] by simp
qed

lemma quiet_fields [simp]:
  "quiet ls (ls\<lparr>li_received_goodbyes := g\<rparr>)" "quiet ls (ls\<lparr>li_writers := w\<rparr>)" "quiet ls (ls\<lparr>li_all_authenticated := b\<rparr>)"
  by (simp_all add: quiet_def)

lemma expect_goodbye_effects: "expect_goodbye r ls = Inr ls' \<Longrightarrow> effects cfg ls [] ls'"
proof (cases "map_of (li_sessions ls) r")
  case (Some si)
  let ?si = "si\<lparr>si_expected_goodbye := True\<rparr>"
  have "effects cfg ls [] (put_session ?si ls)" using Some by (rule touch_effects) (simp add: bookkeeping_def)
  then have "effects cfg ls [] ((put_session ?si ls)\<lparr>li_received_goodbyes := g\<rparr>)" for g
    using effects_trans [OF _ effects_quiet [of _ _ "[]"]] quiet_fields(1) by fastforce
  moreover assume "expect_goodbye r ls = Inr ls'"
  ultimately show ?thesis using Some by (auto simp: expect_goodbye_def intro: effects.none split: if_splits)
qed (simp add: expect_goodbye_def)

lemma acknowledge_effects:
  assumes si: "map_of (li_sessions ls) r = Some si" "si_rank si = r" "si_registered si" "si_pending_snapshot_command_id si \<noteq> []"
    and step: "acknowledge cfg tn si p ls = (ls', evs, v)"
  shows "effects cfg ls evs ls'"
proof (cases "snapshot_ack_ok si p \<and> call_decision (tn_snapshot_ack tn) \<noteq> None")
  case True
  then obtain ok detail where dec: "snapshot_ack_ok si p" "call_decision (tn_snapshot_ack tn) = Some (ok, detail)" by auto
  show ?thesis
  proof (cases ok)
    case True
    then show ?thesis
      using step dec effects_one [OF effect.ack [OF si(1,3,4) dec(1)]] si(2) by (auto simp: acknowledge_def)
  next
    case False
    then obtain evs' where "protocol_violation tn si (ContractError MALFORMED detail) ls = (ls', evs', v)" "evs = [SnapshotAck r p] @ evs'"
      using step dec si(2) by (auto simp: acknowledge_def split: prod.splits)
    then show ?thesis using effects_trans [OF effects_one [OF effect.asked [OF si(1,3)]] violation_effects(1)] by simp
  qed
next
  case False
  then consider "protocol_violation tn si (ContractError MALFORMED ''snapshot COMMAND_RESULT mismatch'') ls = (ls', evs, v)"
    | "(ls', evs) = (ls, [SnapshotAck r p])"
    using step si(2) by (cases "call_decision (tn_snapshot_ack tn)") (auto simp: acknowledge_def split: if_splits)
  then show ?thesis by cases (auto intro: violation_effects(1) effects_one effect.asked [OF si(1,3)])
qed

lemma result_refusal_None:
  assumes "result_refusal si p sender ls = None"
  obtains q where "map_of (li_issued_commands ls) (the_str (field p ''command_id'')) = Some (si_rank si, q)"
    "py_eq (field p ''operation'') (field q ''operation'')"
    "\<And>prior. map_of (li_command_results ls) (the_str (field p ''command_id'')) = Some prior \<Longrightarrow>
       py_eq (PDict prior) (PDict (result_record p sender))"
  using assms by (auto simp: result_refusal_def Let_def split: option.splits if_splits)

lemma validated_result:
  assumes "validate_command_result_payload p = Inr q"
  shows "q = p" "field p ''command_id'' = PStr (the_str (field p ''command_id''))" "the_str (field p ''command_id'') \<noteq> []"
  using assms by (auto simp: validate_command_result_payload_def command_result_checks_def check_simps nonempty_str_iff the_str_def)

lemma handle_command_result_effects:
  assumes si: "map_of (li_sessions ls) r = Some si" "si_rank si = r" "si_registered si" and sender: "en_sender_rank env = r"
    and step: "handle_command_result cfg tn si env ls = (ls', evs, v)"
  shows "effects cfg ls evs ls'"
proof (cases "\<exists>q. validate_command_result_payload (en_payload env) = Inr q \<and> result_refusal si (en_payload env) r ls = None")
  case False
  then have "(ls', evs) = (ls, []) \<or> (\<exists>err. protocol_violation tn si err ls = (ls', evs, v))"
    using step sender by (auto simp: handle_command_result_def Let_def split: sum.splits payload_error.splits option.splits)
  then show ?thesis using violation_effects(1) by (auto intro: effects.none)
next
  case True
  let ?p = "en_payload env"
  let ?id = "the_str (field ?p ''command_id'')"
  let ?ls1 = "ls\<lparr>li_command_results := AList.update ?id (result_record ?p r) (li_command_results ls)\<rparr>"
  let ?shut = "field ?p ''operation'' \<in> {PStr ''DRAIN'', PStr ''STOP''} \<and> field ?p ''ok'' = PBool True"
  obtain q where valid: "validate_command_result_payload ?p = Inr q" and refusal: "result_refusal si ?p r ls = None" using True by blast
  note val = validated_result [OF valid]
  obtain q' where "map_of (li_issued_commands ls) ?id = Some (r, q')" "py_eq (field ?p ''operation'') (field q' ''operation'')"
      "\<And>prior. map_of (li_command_results ls) ?id = Some prior \<Longrightarrow> py_eq (PDict prior) (PDict (result_record ?p r))"
    using result_refusal_None [OF refusal] si(2) by metis
  then have ls1: "effects cfg ls [] ?ls1"
    using valid val si(1,3) by (intro effects_one effect.result [OF _ si(1,3)]) auto
  have get1: "map_of (li_sessions ?ls1) r = Some si" using si(1) by simp
  have step': "(case (if ?shut then expect_goodbye r ?ls1 else Inr ?ls1) of Inl err \<Rightarrow> (?ls1, [], Crash)
      | Inr ls2 \<Rightarrow> if ?id = si_pending_snapshot_command_id si then acknowledge cfg tn si ?p ls2 else (ls2, [], Continue)) = (ls', evs, v)"
    using step by (simp only: handle_command_result_def Let_def valid refusal sender si(2) sum.case option.case)
  have "effects cfg ?ls1 evs ls'"
  proof (cases "(if ?shut then expect_goodbye r ?ls1 else Inr ?ls1)")
    case (Inl err)
    then show ?thesis using step' unfolding Inl by (auto intro: effects.none)
  next
    case (Inr ls2)
    have ls2: "effects cfg ?ls1 [] ls2" using Inr by (auto intro: effects.none expect_goodbye_effects split: if_splits)
    have rest: "(if ?id = si_pending_snapshot_command_id si then acknowledge cfg tn si ?p ls2 else (ls2, [], Continue)) = (ls', evs, v)"
      using step' unfolding Inr by simp
    have "effects cfg ls2 evs ls'"
    proof (cases "snapshot_ack_ok si ?p")
      case True
      then have "ls2 = ?ls1" using Inr by (auto simp: snapshot_ack_ok_def)
      then show ?thesis
        using rest val(3) acknowledge_effects [OF get1 si(2,3)] by (auto intro: effects.none split: if_splits)
    next
      case False
      then show ?thesis
        using rest violation_effects(1) by (auto simp: acknowledge_def intro: effects.none split: if_splits)
    qed
    then show ?thesis using effects_trans [OF ls2] by simp
  qed
  then show ?thesis using effects_trans [OF ls1] by simp
qed

lemma handle_goodbye_effects: "handle_goodbye cfg tn si p ls = (ls', evs, v) \<Longrightarrow> effects cfg ls evs ls'"
  by (auto simp: handle_goodbye_def intro: violation_effects(1) effects_quiet split: if_splits)

definition keyed :: "control_listener \<Rightarrow> bool" where
  "keyed ls = (\<forall>r si. map_of (li_sessions ls) r = Some si \<longrightarrow> si_rank si = r)"

lemma register_session:
  assumes "register cfg now env ls = Inr (si, ls')"
  shows "si = new_session now env" "map_of (li_sessions ls') = (map_of (li_sessions ls))(si_rank si \<mapsto> si)"
    "li_all_established ls' = li_all_established ls" "\<not> is_registered ls (si_rank si)"
  using assms
  by (auto simp: register_def and_then_Inr Let_def check_simps register_checks_def new_session_def put_session_def update_conv
      split: if_splits)

lemma write_session_frame_changes:
  assumes "write_session_frame tn r env ls rest = (ls', evs, v)" "\<And>evs' v. rest ls = (ls', evs', v) \<Longrightarrow> changes cfg ls evs' ls'"
  shows "changes cfg ls evs ls'"
proof (cases "tn_write tn env")
  case Written
  then obtain evs' where "rest ls = (ls', evs', v)" "evs = [Wrote r env] @ evs'"
    using assms(1) by (auto simp: write_session_frame_def split: prod.splits)
  then show ?thesis
    using changes_trans [OF changes_quiet [of ls ls "[Wrote r env]"]] assms(2) by (simp add: neutral_def)
qed (use assms(1) in \<open>auto simp: write_session_frame_def intro: changes.none\<close>)

lemma handle_register_changes:
  assumes "handle_register cfg tn conn owner env ls = (owner', ls', evs, v)"
  shows "changes cfg ls evs ls'"
proof (cases "Option.bind owner (\<lambda>r. Option.bind (map_of (li_sessions ls) r) (\<lambda>si. if si_registered si then Some si else None))")
  case (Some si)
  then show ?thesis using assms by (auto simp: handle_register_def intro: effects_changes violation_effects(1))
next
  case None
  note step = assms [unfolded handle_register_def None option.case]
  show ?thesis
  proof (cases "register cfg (tn_now tn) env ls")
    case (Inl err)
    then show ?thesis using step by (auto intro: changes_quiet quiet_audit)
  next
    case (Inr reg)
    obtain si ls1 where reg: "register cfg (tn_now tn) env ls = Inr (si, ls1)" using Inr by (cases reg) auto
    note new = register_session [OF reg]
    have ls1: "changes cfg ls [] ls1" using change.enrol [OF reg] by (rule changes_one)
    have sess: "map_of (li_sessions ls1) (si_rank si) = Some si" "si_registered si" "\<not> si_established si"
        "si_last_component_seq si = []" "si_pending_snapshot_command_id si = []"
      using new by (simp_all add: new_session_def)
    have "changes cfg ls1 evs ls'"
    proof (cases "call_decision (tn_register tn)")
      case (Some d)
      obtain ok detail where d: "d = (ok, detail)" by (cases d)
      let ?audit = "add_audit (ContractError NODE_MISMATCH detail) (Some (si_rank si)) (Some (si_node_id si)) ls1"
      have audit: "changes cfg ls1 [] ?audit" using quiet_audit by (rule changes_quiet) simp
      have "map_of (li_sessions ?audit) (si_rank si) = Some si" using sess(1) by (simp add: add_audit_def)
      then have "changes cfg ?audit [] (put_session (si\<lparr>si_registered := False\<rparr>) ?audit)"
        using sess(3) by (intro changes_one change.reject)
      then have rejected: "changes cfg ls1 [] (put_session (si\<lparr>si_registered := False\<rparr>) ?audit)"
        using changes_trans [OF audit] by simp
      obtain seq ls2 where ls2: "next_out_seq (si_rank si) ls1 = (seq, ls2)" by (rule prod.exhaust)
      note q2 = quiet_out_seq [OF ls2]
      let ?ls4 = "ls2\<lparr>li_writers := AList.update (si_rank si) conn (li_writers ls2)\<rparr>"
      have "map_of (li_sessions ?ls4) (si_rank si) = Some si" using q2 sess(1) by (simp add: quiet_def)
      then have "change cfg ?ls4 [SessionChange (si_rank si) True] ?ls4" using sess(2-5) by (rule change.joined)
      then have joined: "changes cfg ls2 [SessionChange (si_rank si) True] ?ls4"
        using changes_trans [OF changes_quiet [OF quiet_fields(2), of "[]"] changes_one] by fastforce
      have "changes cfg ls2 evs ls'" if "ok"
        by (rule write_session_frame_changes [of tn "si_rank si" "head_envelope cfg COMMAND_RESULT seq (register_ack cfg)" ls2
              "\<lambda>ls3. let ls4 = ls3\<lparr>li_writers := AList.update (si_rank si) conn (li_writers ls3)\<rparr>
                 in notify tn (SessionChange (si_rank si) True) ls4 (\<lambda>ls5. (ls5, [], Continue))" ls' evs v])
          (use step reg Some d that ls2 joined in \<open>auto simp: notify_def Let_def split: if_splits\<close>)
      then have "changes cfg ls1 evs ls'" if "ok" using changes_trans [OF changes_quiet [OF q2, of "[]"]] that by simp
      then show ?thesis using rejected step reg Some d by (auto split: if_splits)
    qed (use step reg in \<open>auto intro: changes.none\<close>)
    then show ?thesis using changes_trans [OF ls1] by simp
  qed
qed

lemma dispatch_effects:
  assumes "map_of (li_sessions ls) r = Some si" "si_rank si = r" "si_registered si" "tn_snapshot tn \<noteq> None" "en_sender_rank env = r"
    and "dispatch cfg tn si env ls = (ls', evs, v)"
  shows "effects cfg ls evs ls'"
  using assms handle_snapshot_effects [OF assms(1-4)] handle_observation_effects [OF assms(1-3)] handle_heartbeat_effects [OF assms(1)]
    handle_receipt_effects handle_command_result_effects [OF assms(1-3,5)] handle_goodbye_effects
  by (cases "en_kind env") (auto simp: dispatch_def intro: effects.none)

lemma handle_envelope_changes:
  assumes "keyed ls" "tn_snapshot tn \<noteq> None" "handle_envelope cfg tn conn owner env ls = (owner', ls', evs, v)"
  shows "changes cfg ls evs ls'"
proof -
  let ?si1 = "\<lambda>si. si\<lparr>si_last_seq := en_seq env\<rparr>"
  consider "quiet ls ls'" "evs = []" | "handle_register cfg tn conn owner env ls = (owner', ls', evs, v)"
    | si err where "protocol_violation tn si err ls = (ls', evs, v)"
    | r si where "map_of (li_sessions ls) r = Some si" "si_registered si" "en_sender_rank env = si_rank si" "si_last_seq si < en_seq env"
        "dispatch cfg tn (?si1 si) env (put_session (?si1 si) ls) = (ls', evs, v)"
    using assms(3) unfolding handle_envelope_def Let_def
    by (auto simp: quiet_audit bind_eq_Some_conv split: option.splits if_splits)
  then show ?thesis
  proof cases
    case 4
    then have r: "si_rank si = r" using assms(1) by (auto simp: keyed_def)
    have "effects cfg ls [] (put_session (?si1 si) ls)"
      using 4(1) by (rule touch_effects) (use 4(4) in \<open>simp add: bookkeeping_def\<close>)
    moreover have "effects cfg (put_session (?si1 si) ls) evs ls'"
      using 4 r by (intro dispatch_effects [OF _ _ _ assms(2) _ 4(5), of r]) simp_all
    ultimately show ?thesis using effects_changes effects_trans by fastforce
  qed (auto intro: changes_quiet handle_register_changes effects_changes violation_effects(1))
qed

lemma quiet_crash: "quiet ls (record_crash owner ls)"
  by (simp add: quiet_def record_crash_def add_audit_def keep_last_length)

lemma quiet_release: "quiet ls (release_connection owner ls)"
  by (simp add: quiet_def release_connection_def Let_def forget_assembly_def)

lemma finalize_changes:
  assumes "keyed ls" "finalize tn owner ls = (ls', evs)"
  shows "changes cfg ls evs ls'"
proof (cases "\<exists>r si. owner = Some r \<and> map_of (li_sessions ls) r = Some si \<and> si_registered si")
  case True
  then obtain r si where si: "owner = Some r" "map_of (li_sessions ls) r = Some si" "si_registered si" by blast
  then have r: "si_rank si = r" using assms(1) by (simp add: keyed_def)
  let ?ls1 = "(put_session (si\<lparr>si_registered := False, si_established := False\<rparr>) ls)
      \<lparr>li_all_authenticated := False, li_all_established := False\<rparr>"
  have "changes cfg ls [SessionChange r False] ?ls1" using si(2) by (intro changes_one change.revoke) simp_all
  moreover have "changes cfg ?ls1 [] (release_connection owner ?ls1)" by (rule changes_quiet [OF quiet_release]) simp
  ultimately have "changes cfg ls [SessionChange r False] (release_connection owner ?ls1)" using changes_trans by fastforce
  then show ?thesis
    using assms(2) si r \<open>changes cfg ls [SessionChange r False] ?ls1\<close> by (auto simp: finalize_def Let_def split: if_splits)
next
  case False
  then have "ls' = release_connection owner ls" "evs = []"
    using assms(2) by (auto simp: finalize_def bind_eq_None_conv split: option.splits Option.bind_split_asm if_splits)
  then show ?thesis by (auto intro: changes_quiet quiet_release)
qed

lemma effect_keyed: "effect cfg ls evs ls' \<Longrightarrow> keyed ls \<Longrightarrow> keyed ls'"
proof (induction rule: effect.induct)
  case (issue command_id r p ls ls')
  then show ?case by (auto simp: keyed_def remember_issued_command_def split: option.splits if_splits)
qed (auto simp: keyed_def quiet_def bookkeeping_def refresh_established_def split: if_splits)

lemma change_keyed: "change cfg ls evs ls' \<Longrightarrow> keyed ls \<Longrightarrow> keyed ls'"
proof (induction rule: change.induct)
  case (enrol now env ls si ls')
  then show ?case by (auto simp: keyed_def register_session(2))
qed (auto simp: keyed_def dest: effect_keyed split: if_splits)

lemma changes_keyed: "changes cfg ls evs ls' \<Longrightarrow> keyed ls \<Longrightarrow> keyed ls'"
  by (induction rule: changes.induct) (auto dest: change_keyed)

text \<open>A turn of a connection refines the changes.\<close>

lemma serve_changes:
  assumes "keyed ls" "tn_snapshot tn \<noteq> None" "serve cfg tn conn owner inc ls = (ls', evs, res)"
  shows "changes cfg ls evs ls'"
proof -
  obtain owner1 ls1 evs1 v where turn: "(case inc of FrameIn env \<Rightarrow> handle_envelope cfg tn conn owner env ls
      | FrameBad err \<Rightarrow> (owner, add_audit err owner None ls, [], Close) | Ended \<Rightarrow> (owner, ls, [], Close)) = (owner1, ls1, evs1, v)"
    by (rule prod_cases4)
  have ls1: "changes cfg ls evs1 ls1"
    using turn handle_envelope_changes [OF assms(1,2)]
    by (cases inc) (auto intro: changes.none changes_quiet quiet_audit)
  have keyed1: "keyed ls1" "keyed (record_crash owner1 ls1)"
    using changes_keyed [OF ls1 assms(1)] by (simp_all add: keyed_def record_crash_def add_audit_def)
  note step = assms(3) [unfolded serve_def turn, simplified]
  show ?thesis
  proof (cases v)
    case Continue
    then show ?thesis using step ls1 by simp
  next
    case Close
    then obtain evs2 where "finalize tn owner1 ls1 = (ls', evs2)" "evs = evs1 @ evs2" using step by (auto split: prod.splits)
    then show ?thesis using changes_trans [OF ls1 finalize_changes [OF keyed1(1)]] by simp
  next
    case Crash
    then obtain evs2 where fin: "finalize tn owner1 (record_crash owner1 ls1) = (ls', evs2)" "evs = evs1 @ evs2"
      using step by (auto split: prod.splits)
    have "changes cfg ls evs1 (record_crash owner1 ls1)"
      using changes_trans [OF ls1 changes_quiet [OF quiet_crash, of "[]"]] by simp
    then show ?thesis using changes_trans [OF _ finalize_changes [OF keyed1(2) fin(1)]] fin(2) by simp
  qed
qed

end
