(* ===== verification/Network.thy ===== *)
theory Network
  imports Channel
begin

text \<open>
  The control listener with its connections. A network is the listener, the open connections with the rank
  each has registered, and the trace of what the listener did; its steps are the arrival of a connection, a turn of an open connection on
  any input, a command of the head and the expectation of a goodbye. The theorems hold in every
  reachable network, whatever the peers send.
\<close>

section \<open>Networks\<close>

record network =
  nw_listener :: control_listener
  nw_conns :: "(nat \<times> int option) list"
  nw_trace :: "event list"

definition new_network :: network where
  "new_network = \<lparr>nw_listener = new_listener, nw_conns = [], nw_trace = []\<rparr>"

inductive net_step :: "listener_config \<Rightarrow> network \<Rightarrow> network \<Rightarrow> bool" for cfg where
  arrive: "map_of (nw_conns nw) c = None \<Longrightarrow> net_step cfg nw (nw\<lparr>nw_conns := AList.update c None (nw_conns nw)\<rparr>)"
| turn: "map_of (nw_conns nw) c = Some owner \<Longrightarrow> tn_snapshot tn \<noteq> None \<Longrightarrow>
    serve cfg tn c owner inc (nw_listener nw) = (ls', evs, res) \<Longrightarrow>
    net_step cfg nw \<lparr>nw_listener = ls',
      nw_conns = (case res of None \<Rightarrow> AList.delete c (nw_conns nw) | Some owner' \<Rightarrow> AList.update c owner' (nw_conns nw)),
      nw_trace = nw_trace nw @ evs\<rparr>"
| command: "send_command cfg tn r command_id operation payload (nw_listener nw) = Inr (sent, evs, ls') \<Longrightarrow>
    net_step cfg nw (nw\<lparr>nw_listener := ls', nw_trace := nw_trace nw @ evs\<rparr>)"
| broadcast: "broadcast_command_targets cfg tn command_id operation payload (nw_listener nw) = (evs, ls', targets) \<Longrightarrow>
    net_step cfg nw (nw\<lparr>nw_listener := ls', nw_trace := nw_trace nw @ evs\<rparr>)"
| goodbye: "expect_goodbye r (nw_listener nw) = Inr ls' \<Longrightarrow> net_step cfg nw (nw\<lparr>nw_listener := ls'\<rparr>)"

inductive reachable :: "listener_config \<Rightarrow> network \<Rightarrow> bool" for cfg where
  start: "reachable cfg new_network"
| step: "reachable cfg nw \<Longrightarrow> net_step cfg nw nw' \<Longrightarrow> reachable cfg nw'"

lemma broadcast_to_effects: "broadcast_to cfg tn command_id operation payload ranks ls = (evs, ls', targets) \<Longrightarrow> effects cfg ls evs ls'"
proof (induction ranks arbitrary: ls evs ls' targets)
  case (Cons r ranks)
  show ?case
  proof (cases "is_established ls r")
    case False
    then show ?thesis using Cons by simp
  next
    case True
    show ?thesis
    proof (cases "push_command cfg tn r (command_id @ '':'' @ show_int r) operation payload ls")
      case (Inl err)
      then show ?thesis using Cons.prems True by (auto intro: effects.none)
    next
      case (Inr x)
      obtain sent evs1 ls1 where x: "x = (sent, evs1, ls1)" by (rule prod_cases3)
      obtain evs2 ls2 ts where rest: "broadcast_to cfg tn command_id operation payload ranks ls1 = (evs2, ls2, ts)" by (rule prod_cases3)
      have "effects cfg ls evs1 ls1" using Inr x by (auto intro: push_command_effects)
      moreover have "evs = evs1 @ evs2" "ls' = ls2" using Cons.prems True Inr x rest by auto
      ultimately show ?thesis using effects_trans Cons.IH [OF rest] by blast
    qed
  qed
qed (auto intro: effects.none)

lemma net_step_changes:
  assumes "net_step cfg nw nw'" "keyed (nw_listener nw)"
  shows "\<exists>evs. changes cfg (nw_listener nw) evs (nw_listener nw') \<and> nw_trace nw' = nw_trace nw @ evs"
  using assms
proof (induction rule: net_step.induct)
  case (turn nw c owner tn inc ls' evs res)
  then show ?case using serve_changes by fastforce
next
  case (command tn r command_id operation payload nw sent evs ls')
  then have "effects cfg (nw_listener nw) evs ls'"
    by (auto simp: send_command_def intro: effects.none push_command_effects split: if_splits)
  then show ?case using effects_changes by fastforce
next
  case (broadcast tn command_id operation payload nw evs ls' targets)
  then have "effects cfg (nw_listener nw) evs ls'" by (auto simp: broadcast_command_targets_def intro: broadcast_to_effects)
  then show ?case using effects_changes by fastforce
next
  case (goodbye r nw ls')
  then have "changes cfg (nw_listener nw) [] ls'" using expect_goodbye_effects effects_changes by blast
  then show ?case by auto
qed (auto intro: exI [of _ "[]"] changes.none)

text \<open>What every change keeps, every reachable network has.\<close>

lemma changes_induct [consumes 1, case_names change]:
  assumes "changes cfg ls evs ls'" "P tr ls"
    and "\<And>tr ls evs ls'. change cfg ls evs ls' \<Longrightarrow> P tr ls \<Longrightarrow> P (tr @ evs) ls'"
  shows "P (tr @ evs) ls'"
  using assms(1,2)
proof (induction arbitrary: tr rule: changes.induct)
  case (more ls evs ls1 evs' ls')
  then show ?case using assms(3) [OF more(1)] by fastforce
qed simp

lemma reachable_invariant:
  assumes "reachable cfg nw" "P [] new_listener"
    and "\<And>tr ls evs ls'. change cfg ls evs ls' \<Longrightarrow> keyed ls \<Longrightarrow> P tr ls \<Longrightarrow> P (tr @ evs) ls'"
  shows "P (nw_trace nw) (nw_listener nw) \<and> keyed (nw_listener nw)"
  using assms(1)
proof (induction rule: reachable.induct)
  case start
  then show ?case using assms(2) by (simp add: new_network_def new_listener_def keyed_def)
next
  case (step nw nw')
  then obtain evs where evs: "changes cfg (nw_listener nw) evs (nw_listener nw')" "nw_trace nw' = nw_trace nw @ evs"
    using net_step_changes by blast
  have "(P (nw_trace nw @ evs) (nw_listener nw') \<and> keyed (nw_listener nw'))"
    by (rule changes_induct [OF evs(1), where P = "\<lambda>tr ls. P tr ls \<and> keyed ls"])
      (use step.IH assms(3) change_keyed in blast)+
  then show ?case by (simp add: evs(2))
qed

section \<open>Sessions, nodes and bounds\<close>

definition session_ok :: "listener_config \<Rightarrow> control_listener \<Rightarrow> session_info \<Rightarrow> bool" where
  "session_ok cfg ls si =
     (0 \<le> si_rank si \<and> si_rank si < lc_expected_ranks cfg \<and> map_of (li_nodes_by_rank ls) (si_rank si) = Some (si_node_id si) \<and>
      (\<forall>planned. map_of (lc_expected_nodes cfg) (si_rank si) = Some planned \<longrightarrow> same_node planned (si_node_id si)) \<and>
      (si_established si \<longrightarrow> si_registered si) \<and>
      length (si_seen_obs si) \<le> max_dedup_keys \<and> length (si_component_instances si) \<le> max_components_per_rank)"

text \<open>Every session belongs to a planned rank on its node, and two ranks are never on one node.\<close>

definition rank_sessions_ok :: "listener_config \<Rightarrow> control_listener \<Rightarrow> bool" where
  "rank_sessions_ok cfg ls =
     ((\<forall>r si. map_of (li_sessions ls) r = Some si \<longrightarrow> session_ok cfg ls si) \<and>
      (\<forall>r n. map_of (li_nodes_by_rank ls) r = Some n \<longrightarrow> map_of (li_sessions ls) r \<noteq> None) \<and>
      (\<forall>r r' n n'. map_of (li_nodes_by_rank ls) r = Some n \<longrightarrow> map_of (li_nodes_by_rank ls) r' = Some n' \<longrightarrow>
         r \<noteq> r' \<longrightarrow> \<not> same_node n n'))"

lemma session_okD: "rank_sessions_ok cfg ls \<Longrightarrow> map_of (li_sessions ls) r = Some si \<Longrightarrow> session_ok cfg ls si"
  by (simp add: rank_sessions_ok_def)

lemma rank_sessions_ok_put:
  assumes "rank_sessions_ok cfg ls" "map_of (li_sessions ls) (si_rank si') = Some si" "session_ok cfg ls si'"
  shows "rank_sessions_ok cfg (put_session si' ls)"
  using assms by (auto simp: rank_sessions_ok_def session_ok_def put_session_def update_conv')

lemma rank_sessions_ok_same:
  assumes "rank_sessions_ok cfg ls" "li_sessions ls' = li_sessions ls" "li_nodes_by_rank ls' = li_nodes_by_rank ls"
  shows "rank_sessions_ok cfg ls'"
  using assms by (simp add: rank_sessions_ok_def session_ok_def)

lemma remember_issued_same:
  "remember_issued_command command_id request ls = Inr ls' \<Longrightarrow>
     li_sessions ls' = li_sessions ls \<and> li_nodes_by_rank ls' = li_nodes_by_rank ls \<and> li_all_established ls' = li_all_established ls \<and>
     li_audit ls' = li_audit ls \<and> li_handler_failures ls' = li_handler_failures ls \<and> li_command_results ls' = li_command_results ls"
  by (auto simp: remember_issued_command_def split: option.splits if_splits)

lemma bookkeeping_ok: "bookkeeping si si' \<Longrightarrow> session_ok cfg ls si \<Longrightarrow> session_ok cfg ls si'"
  by (auto simp: bookkeeping_def session_ok_def)

lemma effect_sessions_ok: "effect cfg ls evs ls' \<Longrightarrow> keyed ls \<Longrightarrow> rank_sessions_ok cfg ls \<Longrightarrow> rank_sessions_ok cfg ls'"
proof (induction rule: effect.induct)
  case (quiet ls ls' evs)
  then show ?case by (auto simp: quiet_def elim: rank_sessions_ok_same)
next
  case (touch ls r si si')
  have "session_ok cfg ls si'" using bookkeeping_ok [OF touch(2) session_okD [OF touch(4,1)]] .
  moreover have "si_rank si' = r" using touch(1-3) by (simp add: bookkeeping_def keyed_def)
  ultimately show ?case using touch(1,4) by (auto intro: rank_sessions_ok_put)
next
  case (deliver ls r si obs evs)
  then have "session_ok cfg ls si" "si_rank si = r" using session_okD by (auto simp: keyed_def)
  then show ?case using deliver by (auto intro: rank_sessions_ok_put simp: session_ok_def)
next
  case (snapshot ls r si items os rs h si' sid)
  then have "session_ok cfg ls si" "si_rank si = r" using session_okD by (auto simp: keyed_def)
  then have "session_ok cfg ls si'" using snapshot by (auto simp: session_ok_def)
  then show ?case using snapshot by (auto intro: rank_sessions_ok_put)
next
  case (issue command_id r p ls ls')
  then show ?case using remember_issued_same rank_sessions_ok_same by blast
next
  case (ack ls r si p)
  then have si: "session_ok cfg ls si" "si_rank si = r" using session_okD by (auto simp: keyed_def)
  then have "rank_sessions_ok cfg (put_session (si\<lparr>si_established := True, si_pending_snapshot_command_id := []\<rparr>) ls)"
    using ack by (intro rank_sessions_ok_put) (auto simp: session_ok_def)
  then show ?case by (rule rank_sessions_ok_same) (simp_all add: refresh_established_def)
qed (auto elim: rank_sessions_ok_same)

lemma register_guard:
  assumes "register cfg now env ls = Inr (si, ls')"
  shows "0 \<le> si_rank si" "si_rank si < lc_expected_ranks cfg"
    "map_of (lc_expected_nodes cfg) (si_rank si) = Some planned \<Longrightarrow> same_node planned (si_node_id si)"
    "map_of (li_nodes_by_rank ls) r = Some n \<Longrightarrow> r \<noteq> si_rank si \<Longrightarrow> \<not> same_node n (si_node_id si)"
    "map_of (li_sessions ls) (si_rank si) \<noteq> None \<Longrightarrow> map_of (li_nodes_by_rank ls) (si_rank si) = Some n \<Longrightarrow> same_node n (si_node_id si)"
    "map_of (li_nodes_by_rank ls') = (map_of (li_nodes_by_rank ls))(si_rank si \<mapsto> si_node_id si)"
proof -
  have si: "si_rank si = en_sender_rank env" "si_node_id si = en_sender_node env"
    using register_session(1) [OF assms] by (simp_all add: new_session_def)
  have ok: "first_failure (register_checks cfg env ls) = None"
    using assms by (auto simp: register_def and_then_Inr checked_def split: option.splits)
  note ok' = ok [unfolded register_checks_def Let_def, simplified]
  show "0 \<le> si_rank si" "si_rank si < lc_expected_ranks cfg" using ok' si by (auto split: if_splits)
  show "same_node planned (si_node_id si)" if "map_of (lc_expected_nodes cfg) (si_rank si) = Some planned"
    using ok' si that by (auto split: if_splits)
  show "\<not> same_node n (si_node_id si)" if "map_of (li_nodes_by_rank ls) r = Some n" "r \<noteq> si_rank si"
    using ok' si that map_of_SomeD [OF that(1)] by (auto simp: list_ex_iff split: if_splits)
  show "same_node n (si_node_id si)" if "map_of (li_sessions ls) (si_rank si) \<noteq> None" "map_of (li_nodes_by_rank ls) (si_rank si) = Some n"
    using ok' si that by (auto split: if_splits)
  show "map_of (li_nodes_by_rank ls') = (map_of (li_nodes_by_rank ls))(si_rank si \<mapsto> si_node_id si)"
    using assms by (auto simp: register_def and_then_Inr Let_def update_conv split: if_splits)
qed

lemma change_sessions_ok:
  "change cfg ls evs ls' \<Longrightarrow> keyed ls \<Longrightarrow> rank_sessions_ok cfg ls \<Longrightarrow> rank_sessions_ok cfg ls'"
proof (induction rule: change.induct)
  case (effect ls evs ls')
  then show ?case by (rule effect_sessions_ok)
next
  case (enrol now env ls si ls')
  note new = register_session [OF enrol(1)] and guard = register_guard [OF enrol(1)]
  have "session_ok cfg ls' si"
    using guard(1-3,6) new(1) by (simp add: session_ok_def new_session_def)
  moreover have "session_ok cfg ls' si''" if "map_of (li_sessions ls) r = Some si''" "r \<noteq> si_rank si" for r si''
    using session_okD [OF enrol(3) that(1)] that enrol(2) guard(6) by (auto simp: session_ok_def keyed_def)
  ultimately have "session_ok cfg ls' si''" if "map_of (li_sessions ls') r = Some si''" for r si''
    using that by (auto simp: new(2) split: if_splits)
  moreover have "\<not> same_node n n'" if "map_of (li_nodes_by_rank ls') r = Some n" "map_of (li_nodes_by_rank ls') r' = Some n'" "r \<noteq> r'" for r r' n n'
    using that enrol(3) guard(4) same_node_sym unfolding guard(6) rank_sessions_ok_def by (metis (mono_tags, lifting) fun_upd_apply option.inject)
  ultimately show ?case using enrol(3) unfolding rank_sessions_ok_def guard(6) new(2) by (auto split: if_splits)
next
  case (reject ls r si)
  then have "session_ok cfg ls si" "si_rank si = r" using session_okD by (auto simp: keyed_def)
  then show ?case using reject by (intro rank_sessions_ok_put) (auto simp: session_ok_def)
next
  case (revoke ls r si evs)
  then have "session_ok cfg ls si" "si_rank si = r" using session_okD by (auto simp: keyed_def)
  then have "rank_sessions_ok cfg (put_session (si\<lparr>si_registered := False, si_established := False\<rparr>) ls)"
    using revoke by (intro rank_sessions_ok_put) (auto simp: session_ok_def)
  then show ?case by (rule rank_sessions_ok_same) simp_all
qed auto

lemma reachable_rank_sessions_ok: "reachable cfg nw \<Longrightarrow> rank_sessions_ok cfg (nw_listener nw)"
  using reachable_invariant [of cfg nw "\<lambda>tr ls. rank_sessions_ok cfg ls"] change_sessions_ok
  by (auto simp: rank_sessions_ok_def new_listener_def)

lemma reachable_keyed: "reachable cfg nw \<Longrightarrow> keyed (nw_listener nw)"
  using reachable_invariant [of cfg nw "\<lambda>tr ls. True"] by simp

text \<open>The records that a peer could make grow.\<close>

definition records_ok :: "control_listener \<Rightarrow> bool" where
  "records_ok ls =
     (length (li_issued_commands ls) \<le> max_command_records \<and> length (li_audit ls) \<le> max_audit_records \<and>
      length (li_handler_failures ls) \<le> max_audit_records)"

lemma remember_issued_length:
  "remember_issued_command command_id request ls = Inr ls' \<Longrightarrow> length (li_issued_commands ls) \<le> max_command_records \<Longrightarrow>
     length (li_issued_commands ls') \<le> max_command_records"
  by (auto simp: remember_issued_command_def update_length split: option.splits if_splits)

lemma effect_records_ok: "effect cfg ls evs ls' \<Longrightarrow> records_ok ls \<Longrightarrow> records_ok ls'"
proof (induction rule: effect.induct)
  case (issue command_id r p ls ls')
  then show ?case using remember_issued_same [OF issue(1)] remember_issued_length [OF issue(1)] by (simp add: records_ok_def)
qed (auto simp: records_ok_def quiet_def put_session_def refresh_established_def)

lemma change_records_ok: "change cfg ls evs ls' \<Longrightarrow> records_ok ls \<Longrightarrow> records_ok ls'"
proof (induction rule: change.induct)
  case (effect ls evs ls')
  then show ?case by (rule effect_records_ok)
next
  case (enrol now env ls si ls')
  then show ?case by (auto simp: records_ok_def register_def and_then_Inr Let_def put_session_def split: if_splits)
qed (auto simp: records_ok_def put_session_def)

lemma reachable_records_ok: "reachable cfg nw \<Longrightarrow> records_ok (nw_listener nw)"
  using reachable_invariant [of cfg nw "\<lambda>tr ls. records_ok ls"] change_records_ok
  by (auto simp: records_ok_def new_listener_def)

section \<open>Commands and their results\<close>

text \<open>A recorded result is a valid payload of the rank the command was issued to, for the same operation.\<close>

definition results_ok :: "control_listener \<Rightarrow> bool" where
  "results_ok ls =
     (\<forall>command_id res. map_of (li_command_results ls) command_id = Some res \<longrightarrow>
        (\<exists>r q p. map_of (li_issued_commands ls) command_id = Some (r, q) \<and> res = result_record p r \<and>
           validate_command_result_payload p = Inr p \<and> field p ''command_id'' = PStr command_id \<and>
           py_eq (field p ''operation'') (field q ''operation'')))"

lemma remember_issued_keeps:
  "remember_issued_command command_id request ls = Inr ls' \<Longrightarrow> map_of (li_issued_commands ls) i = Some x \<Longrightarrow>
     map_of (li_issued_commands ls') i = Some x"
  by (auto simp: remember_issued_command_def update_conv' split: option.splits if_splits)

lemma effect_results_ok: "effect cfg ls evs ls' \<Longrightarrow> results_ok ls \<Longrightarrow> results_ok ls'"
proof (induction rule: effect.induct)
  case (issue command_id r p ls ls')
  then show ?case using remember_issued_same [OF issue(1)] remember_issued_keeps [OF issue(1)] by (fastforce simp: results_ok_def)
next
  case (result ls command_id r q si p)
  then show ?case by (auto simp: results_ok_def update_conv')
qed (auto simp: results_ok_def quiet_def put_session_def refresh_established_def)

lemma change_results_ok: "change cfg ls evs ls' \<Longrightarrow> results_ok ls \<Longrightarrow> results_ok ls'"
proof (induction rule: change.induct)
  case (effect ls evs ls')
  then show ?case by (rule effect_results_ok)
next
  case (enrol now env ls si ls')
  then show ?case by (auto simp: results_ok_def register_def and_then_Inr Let_def put_session_def split: if_splits)
qed (auto simp: results_ok_def put_session_def)

lemma reachable_results_ok: "reachable cfg nw \<Longrightarrow> results_ok (nw_listener nw)"
  using reachable_invariant [of cfg nw "\<lambda>tr ls. results_ok ls"] change_results_ok
  by (auto simp: results_ok_def new_listener_def)

text \<open>What was issued under an identity stays issued.\<close>

lemma effect_issued: "effect cfg ls evs ls' \<Longrightarrow> map_of (li_issued_commands ls) i = Some x \<Longrightarrow> map_of (li_issued_commands ls') i = Some x"
proof (induction rule: effect.induct)
  case (issue command_id r p ls ls')
  then show ?case by (auto dest: remember_issued_keeps)
qed (auto simp: quiet_def put_session_def refresh_established_def)

lemma change_issued: "change cfg ls evs ls' \<Longrightarrow> map_of (li_issued_commands ls) i = Some x \<Longrightarrow> map_of (li_issued_commands ls') i = Some x"
proof (induction rule: change.induct)
  case (effect ls evs ls')
  then show ?case by (rule effect_issued)
next
  case (enrol now env ls si ls')
  then show ?case by (auto simp: register_def and_then_Inr Let_def put_session_def split: if_splits)
qed (auto simp: put_session_def)

section \<open>The barrier flag\<close>

definition barrier_ok :: "listener_config \<Rightarrow> control_listener \<Rightarrow> bool" where
  "barrier_ok cfg ls = (li_all_established ls \<longrightarrow> (\<forall>r. 0 \<le> r \<and> r < lc_expected_ranks cfg \<longrightarrow> is_established ls r))"

lemma is_established_put:
  "is_established (put_session si ls) r = (if r = si_rank si then si_registered si \<and> si_established si else is_established ls r)"
  by (simp add: is_established_def)

lemma is_established_same: "li_sessions ls' = li_sessions ls \<Longrightarrow> is_established ls' r = is_established ls r"
  by (simp add: is_established_def)

lemma planned_ranks_set: "r \<in> set (planned_ranks cfg) \<longleftrightarrow> 0 \<le> r \<and> r < lc_expected_ranks cfg"
  by (auto simp: planned_ranks_def int_range_set)

lemma effect_barrier_ok: "effect cfg ls evs ls' \<Longrightarrow> keyed ls \<Longrightarrow> barrier_ok cfg ls \<Longrightarrow> barrier_ok cfg ls'"
proof (induction rule: effect.induct)
  case (quiet ls ls' evs)
  then show ?case by (auto simp: quiet_def barrier_ok_def is_established_def)
next
  case (touch ls r si si')
  then have "is_established (put_session si' ls) q = is_established ls q" for q
    by (auto simp: is_established_def bookkeeping_def keyed_def)
  then show ?case using touch by (simp add: barrier_ok_def)
next
  case (deliver ls r si obs evs)
  then show ?case by (auto simp: barrier_ok_def is_established_put keyed_def)
next
  case (snapshot ls r si items os rs h si' sid)
  then have "is_established (put_session si' ls) q = is_established ls q" for q
    by (auto simp: is_established_def keyed_def)
  then show ?case using snapshot by (simp add: barrier_ok_def)
next
  case (issue command_id r p ls ls')
  then show ?case using remember_issued_same [OF issue(1)] by (simp add: barrier_ok_def is_established_def)
next
  case (ack ls r si p)
  let ?ls = "put_session (si\<lparr>si_established := True, si_pending_snapshot_command_id := []\<rparr>) ls"
  have "is_established (refresh_established cfg ?ls) q = is_established ?ls q" for q
    by (rule is_established_same) (simp add: refresh_established_def)
  moreover have "li_all_established (refresh_established cfg ?ls) = list_all (is_established ?ls) (planned_ranks cfg)"
    by (simp add: refresh_established_def)
  ultimately show ?case unfolding barrier_ok_def by (simp add: list_all_iff planned_ranks_set Ball_def)
next
  case (result ls command_id r q si p)
  show ?case using result.prems(2) by (simp add: barrier_ok_def is_established_def)
qed

lemma change_barrier_ok:
  "change cfg ls evs ls' \<Longrightarrow> keyed ls \<Longrightarrow> rank_sessions_ok cfg ls \<Longrightarrow> barrier_ok cfg ls \<Longrightarrow> barrier_ok cfg ls'"
proof (induction rule: change.induct)
  case (effect ls evs ls')
  show ?case by (rule effect_barrier_ok [OF effect(1,2,4)])
next
  case (enrol now env ls si ls')
  have "\<not> is_established ls (si_rank si)"
    using register_session(4) [OF enrol(1)] by (auto simp: is_established_def is_registered_def split: option.splits)
  then show ?case
    using register_guard(1,2) [OF enrol(1)] register_session(3) [OF enrol(1)] enrol(4) by (auto simp: barrier_ok_def)
next
  case (reject ls r si)
  then have "\<not> is_established ls r" "session_ok cfg ls si" "si_rank si = r"
    using session_okD by (auto simp: is_established_def keyed_def)
  then show ?case using reject(5) by (auto simp: barrier_ok_def session_ok_def)
qed (auto simp: barrier_ok_def is_established_def)

lemma reachable_barrier_ok: "reachable cfg nw \<Longrightarrow> barrier_ok cfg (nw_listener nw)"
proof -
  assume "reachable cfg nw"
  then have "rank_sessions_ok cfg (nw_listener nw) \<and> barrier_ok cfg (nw_listener nw)"
    by (rule reachable_invariant [of cfg nw "\<lambda>tr ls. rank_sessions_ok cfg ls \<and> barrier_ok cfg ls", THEN conjunct1])
      (use change_sessions_ok change_barrier_ok in \<open>blast | simp add: rank_sessions_ok_def barrier_ok_def new_listener_def\<close>)+
  then show ?thesis by simp
qed

section \<open>Windows of the trace\<close>

definition since :: "('a \<Rightarrow> bool) \<Rightarrow> 'a list \<Rightarrow> 'a list" where
  "since P tr = rev (takeWhile (\<lambda>e. \<not> P e) (rev tr))"

lemma since_append: "since P (tr @ evs) = (if list_ex P evs then since P evs else since P tr @ evs)"
proof (cases "list_ex P evs")
  case True
  then have "\<exists>e \<in> set (rev evs). P e" by (simp add: list_ex_iff)
  then have "takeWhile (\<lambda>e. \<not> P e) (rev evs @ rev tr) = takeWhile (\<lambda>e. \<not> P e) (rev evs)" by (auto intro: takeWhile_append1)
  then show ?thesis using True by (simp add: since_def)
next
  case False
  then have "\<forall>e \<in> set (rev evs). \<not> P e" by (simp add: list_ex_iff)
  then have "takeWhile (\<lambda>e. \<not> P e) (rev evs @ rev tr) = rev evs @ takeWhile (\<lambda>e. \<not> P e) (rev tr)" by (intro takeWhile_append2) blast
  then show ?thesis using False by (simp add: since_def)
qed

lemma since_none: "\<not> list_ex P evs \<Longrightarrow> since P (tr @ evs) = since P tr @ evs"
  by (simp add: since_append)

text \<open>The rank joined with a new session; its projection was renewed.\<close>

definition joins :: "int \<Rightarrow> event \<Rightarrow> bool" where
  "joins r ev = (ev = SessionChange r True)"

definition renews :: "int \<Rightarrow> event \<Rightarrow> bool" where
  "renews r ev = (case ev of SessionChange q b \<Rightarrow> q = r \<and> b | SnapshotIn q sid h items \<Rightarrow> q = r | _ \<Rightarrow> False)"

definition is_delivered :: "event \<Rightarrow> bool" where
  "is_delivered ev = (case ev of Delivered r obs \<Rightarrow> True | _ \<Rightarrow> False)"

lemma event_simps [simp]:
  "joins r (SessionChange q b) \<longleftrightarrow> q = r \<and> b" "\<not> joins r (Delivered q obs)" "\<not> joins r (SnapshotIn q sid h items)" "\<not> joins r (SnapshotAck q p)"
  "renews r (SessionChange q b) \<longleftrightarrow> q = r \<and> b" "\<not> renews r (Delivered q obs)" "renews r (SnapshotIn q sid h items) \<longleftrightarrow> q = r"
  "\<not> renews r (SnapshotAck q p)" "is_delivered (Delivered q obs)" "\<not> is_delivered (SessionChange q b)"
  "\<not> is_delivered (SnapshotIn q sid h items)" "\<not> is_delivered (SnapshotAck q p)"
  by (auto simp: joins_def renews_def is_delivered_def)

lemma neutral_simps: "neutral ev \<Longrightarrow> \<not> joins r ev \<and> \<not> renews r ev \<and> \<not> is_delivered ev"
  by (cases ev) (simp_all add: neutral_def joins_def renews_def is_delivered_def)

lemma neutral_list:
  "list_all neutral evs \<Longrightarrow> \<not> list_ex (joins r) evs \<and> \<not> list_ex (renews r) evs \<and> (\<forall>e \<in> set evs. \<not> is_delivered e)"
  using neutral_simps by (fastforce simp: list_all_iff list_ex_iff)

section \<open>Deliveries in order\<close>

definition in_order :: "int \<Rightarrow> event \<Rightarrow> event \<Rightarrow> bool" where
  "in_order r e e' =
     (\<forall>obs obs'. e = Delivered r obs \<longrightarrow> e' = Delivered r obs' \<longrightarrow> ob_component_id obs = ob_component_id obs' \<longrightarrow>
        ob_instance_id obs = ob_instance_id obs' \<longrightarrow> ob_sequence obs < ob_sequence obs')"

lemma in_order_other: "\<not> is_delivered e' \<Longrightarrow> in_order r e e'"
  by (auto simp: in_order_def)

lemma in_order_append: "sorted_wrt (in_order r) w \<Longrightarrow> \<forall>e \<in> set evs. \<not> is_delivered e \<Longrightarrow> sorted_wrt (in_order r) (w @ evs)"
  by (induction evs arbitrary: w rule: rev_induct) (auto simp: sorted_wrt_append in_order_other)

text \<open>The session remembers the highest sequence that was delivered for every component since the renewal.\<close>

definition caught_up :: "control_listener \<Rightarrow> event list \<Rightarrow> int \<Rightarrow> bool" where
  "caught_up ls tr r =
     (\<forall>si obs. map_of (li_sessions ls) r = Some si \<longrightarrow> si_established si \<or> si_pending_snapshot_command_id si \<noteq> [] \<longrightarrow>
        Delivered r obs \<in> set (since (renews r) tr) \<longrightarrow> ob_sequence obs \<le> last_seq_of si obs)"

definition ordered :: "control_listener \<Rightarrow> event list \<Rightarrow> bool" where
  "ordered ls tr = (\<forall>r. sorted_wrt (in_order r) (since (renews r) tr) \<and> caught_up ls tr r)"

text \<open>The sessions may have changed, but nothing was delivered or renewed.\<close>

lemma ordered_quiet:
  assumes "ordered ls tr" "\<And>r. \<not> list_ex (renews r) evs" "\<forall>e \<in> set evs. \<not> is_delivered e"
    and "\<And>r si'. map_of (li_sessions ls') r = Some si' \<Longrightarrow> si_established si' \<or> si_pending_snapshot_command_id si' \<noteq> [] \<Longrightarrow>
      \<exists>si. map_of (li_sessions ls) r = Some si \<and> (si_established si \<or> si_pending_snapshot_command_id si \<noteq> []) \<and>
        si_last_component_seq si' = si_last_component_seq si"
  shows "ordered ls' (tr @ evs)"
proof -
  have win: "since (renews r) (tr @ evs) = since (renews r) tr @ evs" for r using assms(2) by (rule since_none)
  have "caught_up ls' (tr @ evs) r" for r
    unfolding caught_up_def
  proof (intro allI impI)
    fix si' obs
    assume si': "map_of (li_sessions ls') r = Some si'" "si_established si' \<or> si_pending_snapshot_command_id si' \<noteq> []"
      and del: "Delivered r obs \<in> set (since (renews r) (tr @ evs))"
    then have "Delivered r obs \<in> set (since (renews r) tr)" using win assms(3) by (auto dest: bspec)
    moreover obtain si where "map_of (li_sessions ls) r = Some si" "si_established si \<or> si_pending_snapshot_command_id si \<noteq> []"
        "si_last_component_seq si' = si_last_component_seq si" using assms(4) si' by blast
    ultimately show "ob_sequence obs \<le> last_seq_of si' obs"
      using assms(1) by (auto simp: ordered_def caught_up_def last_seq_of_def)
  qed
  then show ?thesis using assms(1,3) win in_order_append by (simp add: ordered_def)
qed

lemma ordered_deliver:
  assumes "ordered ls tr" "keyed ls" "map_of (li_sessions ls) r = Some si" "si_established si" "last_seq_of si obs < ob_sequence obs"
    and evs: "evs = [] \<or> evs = [Delivered r obs]"
  shows "ordered (put_session (si\<lparr>si_last_component_seq :=
    AList.update (ob_component_id obs, ob_instance_id obs) (ob_sequence obs) (si_last_component_seq si)\<rparr>) ls) (tr @ evs)"
    (is "ordered (put_session ?si ls) _")
proof -
  have rank: "si_rank si = r" using assms(2,3) by (simp add: keyed_def)
  have win: "since (renews q) (tr @ evs) = since (renews q) tr @ evs" for q using evs by (intro since_none) auto
  have seq: "last_seq_of ?si obs' = (if ob_component_id obs' = ob_component_id obs \<and> ob_instance_id obs' = ob_instance_id obs
      then ob_sequence obs else last_seq_of si obs')" for obs'
    by (simp add: last_seq_of_def update_conv')
  have old: "ob_sequence obs' \<le> last_seq_of si obs'" if "Delivered r obs' \<in> set (since (renews r) tr)" for obs'
    using assms(1,3,4) that by (auto simp: ordered_def caught_up_def)
  have same: "last_seq_of si obs' = last_seq_of si obs"
    if "ob_component_id obs' = ob_component_id obs" "ob_instance_id obs' = ob_instance_id obs" for obs'
    using that by (simp add: last_seq_of_def)
  have "in_order q e (Delivered r obs)" if e: "e \<in> set (since (renews q) tr)" for q e
    unfolding in_order_def
  proof (intro allI impI)
    fix obs1 obs2
    assume eq: "e = Delivered q obs1" "Delivered r obs = Delivered q obs2" "ob_component_id obs1 = ob_component_id obs2"
      "ob_instance_id obs1 = ob_instance_id obs2"
    then have "ob_sequence obs1 \<le> last_seq_of si obs" using old [of obs1] same [of obs1] e by simp
    then show "ob_sequence obs1 < ob_sequence obs2" using assms(5) eq by simp
  qed
  then have "sorted_wrt (in_order q) (since (renews q) (tr @ evs))" for q
    using assms(1) evs unfolding win ordered_def by (auto simp: sorted_wrt_append)
  moreover have "caught_up (put_session ?si ls) (tr @ evs) q" for q
  proof (cases "q = r")
    case True
    have "ob_sequence obs' \<le> last_seq_of ?si obs'" if "Delivered r obs' \<in> set (since (renews r) (tr @ evs))" for obs'
      using that evs old [of obs'] same [of obs'] assms(5) unfolding win seq by auto
    then show ?thesis using True rank by (simp add: caught_up_def)
  next
    case False
    then show ?thesis using assms(1) rank evs unfolding caught_up_def ordered_def win by auto
  qed
  ultimately show ?thesis by (simp add: ordered_def)
qed

lemma ordered_snapshot:
  assumes "ordered ls tr" "si_rank si' = r"
  shows "ordered (put_session si' ls) (tr @ [SnapshotIn r sid h items])"
proof -
  let ?ev = "SnapshotIn r sid h items"
  have win: "since (renews q) (tr @ [?ev]) = (if q = r then [] else since (renews q) tr @ [?ev])" for q
    by (simp add: since_append) (simp add: since_def)
  have "sorted_wrt (in_order q) (since (renews q) (tr @ [?ev]))" for q
    using assms(1) in_order_append [of q "since (renews q) tr" "[?ev]"] unfolding win ordered_def by simp
  moreover have "caught_up (put_session si' ls) (tr @ [?ev]) q" for q
    using assms unfolding caught_up_def win ordered_def by auto
  ultimately show ?thesis by (simp add: ordered_def)
qed

lemma ordered_joined:
  assumes "ordered ls tr" "map_of (li_sessions ls) r = Some si" "\<not> si_established si" "si_pending_snapshot_command_id si = []"
  shows "ordered ls (tr @ [SessionChange r True])"
proof -
  let ?ev = "SessionChange r True"
  have win: "since (renews q) (tr @ [?ev]) = (if q = r then [] else since (renews q) tr @ [?ev])" for q
    by (simp add: since_append) (simp add: since_def)
  have "sorted_wrt (in_order q) (since (renews q) (tr @ [?ev]))" for q
    using assms(1) in_order_append [of q "since (renews q) tr" "[?ev]"] unfolding win ordered_def by simp
  moreover have "caught_up ls (tr @ [?ev]) q" for q
    using assms unfolding caught_up_def win ordered_def by auto
  ultimately show ?thesis by (simp add: ordered_def)
qed

lemma effect_ordered: "effect cfg ls evs ls' \<Longrightarrow> keyed ls \<Longrightarrow> ordered ls tr \<Longrightarrow> ordered ls' (tr @ evs)"
proof (induction rule: effect.induct)
  case (quiet ls ls' evs)
  then show ?case using neutral_list [OF quiet(2)] by (intro ordered_quiet [OF quiet(4)]) (auto simp: quiet_def)
next
  case (touch ls r si si')
  then have "si_rank si = r" by (simp add: keyed_def)
  then show ?case using touch by (intro ordered_quiet [OF touch(4)]) (auto simp: bookkeeping_def split: if_splits)
next
  case (deliver ls r si obs evs)
  show ?case by (rule ordered_deliver [OF deliver(8,7,1,3,5,6)])
next
  case (snapshot ls r si items os rs h si' sid)
  show ?case by (rule ordered_snapshot [OF snapshot(14,5)])
next
  case (issue command_id r p ls ls')
  show ?case using remember_issued_same [OF issue(1)] by (intro ordered_quiet [OF issue(3)]) auto
next
  case (result ls command_id r q si p)
  show ?case by (rule ordered_quiet [OF result.prems(2)]) auto
next
  case (asked ls r si p)
  show ?case by (rule ordered_quiet [OF asked.prems(2)]) auto
next
  case (ack ls r si p)
  then have "si_rank si = r" by (simp add: keyed_def)
  then show ?case
    using ack(1,3) by (intro ordered_quiet [OF ack.prems(2)]) (auto simp: refresh_established_def split: if_splits)
qed

lemma change_ordered: "change cfg ls evs ls' \<Longrightarrow> keyed ls \<Longrightarrow> ordered ls tr \<Longrightarrow> ordered ls' (tr @ evs)"
proof (induction rule: change.induct)
  case (effect ls evs ls')
  then show ?case by (intro effect_ordered)
next
  case (enrol now env ls si ls')
  note new = register_session [OF enrol(1)]
  have "\<not> si_established si" "si_pending_snapshot_command_id si = []" using new(1) by (simp_all add: new_session_def)
  then show ?case using new(2) by (intro ordered_quiet [OF enrol(3)]) (auto split: if_splits)
next
  case (reject ls r si)
  then have "si_rank si = r" by (simp add: keyed_def)
  then show ?case using reject(1) by (intro ordered_quiet [OF reject(4)]) (auto split: if_splits)
next
  case (joined ls r si)
  show ?case by (rule ordered_joined [OF joined(7,1,3,5)])
next
  case (revoke ls r si evs)
  then have "si_rank si = r" by (simp add: keyed_def)
  then show ?case using revoke(1,2) by (intro ordered_quiet [OF revoke(4)]) (auto split: if_splits)
qed

lemma change_events: "change cfg ls evs ls' \<Longrightarrow> length evs \<le> 1 \<or> list_all neutral evs"
  by (induction rule: change.induct) (auto elim: effect.cases)

text \<open>The deliveries of every part of the trace in which the projection is not renewed are in order.\<close>

definition ordered_always :: "event list \<Rightarrow> bool" where
  "ordered_always tr = (\<forall>n r. sorted_wrt (in_order r) (since (renews r) (take n tr)))"

lemma ordered_always_append:
  assumes "ordered_always tr" "ordered ls (tr @ evs)" "length evs \<le> 1 \<or> list_all neutral evs"
  shows "ordered_always (tr @ evs)"
proof -
  have "sorted_wrt (in_order r) (since (renews r) (take n (tr @ evs)))" for n r
  proof (cases "n \<le> length tr \<or> length (tr @ evs) \<le> n")
    case True
    then show ?thesis using assms(1,2) by (auto simp: ordered_always_def ordered_def)
  next
    case False
    then have neutral: "list_all neutral evs" using assms(3) by auto
    let ?evs = "take (n - length tr) evs"
    have "list_all neutral ?evs" using neutral by (auto simp: list_all_iff dest: in_set_takeD)
    then have "\<not> list_ex (renews r) ?evs" "\<forall>e \<in> set ?evs. \<not> is_delivered e" using neutral_list by blast+
    moreover have "sorted_wrt (in_order r) (since (renews r) (take (length tr) tr))" using assms(1) unfolding ordered_always_def by blast
    ultimately show ?thesis using False by (simp add: since_none in_order_append)
  qed
  then show ?thesis by (simp add: ordered_always_def)
qed

lemma reachable_ordered: "reachable cfg nw \<Longrightarrow> ordered_always (nw_trace nw)"
proof -
  assume "reachable cfg nw"
  then have "ordered (nw_listener nw) (nw_trace nw) \<and> ordered_always (nw_trace nw)"
    by (rule reachable_invariant [where P = "\<lambda>tr ls. ordered ls tr \<and> ordered_always tr", THEN conjunct1])
      (use change_ordered change_events ordered_always_append in \<open>blast |
        simp add: ordered_def ordered_always_def caught_up_def since_def new_listener_def\<close>)+
  then show ?thesis by simp
qed

section \<open>Deliveries and acknowledgements\<close>

text \<open>What was delivered belongs to the rank of the session and to its node.\<close>

definition delivered_ok :: "listener_config \<Rightarrow> control_listener \<Rightarrow> event list \<Rightarrow> bool" where
  "delivered_ok cfg ls tr =
     (\<forall>r obs. Delivered r obs \<in> set tr \<longrightarrow> (\<exists>n. map_of (li_nodes_by_rank ls) r = Some n \<and> owned_by cfg r n obs))"

lemma delivered_ok_mono:
  assumes "delivered_ok cfg ls tr" "li_nodes_by_rank ls' = li_nodes_by_rank ls"
    and "\<And>r obs. Delivered r obs \<in> set evs \<Longrightarrow> \<exists>n. map_of (li_nodes_by_rank ls) r = Some n \<and> owned_by cfg r n obs"
  shows "delivered_ok cfg ls' (tr @ evs)"
  using assms by (auto simp: delivered_ok_def)

lemma neutral_not_delivered: "list_all neutral evs \<Longrightarrow> Delivered r obs \<notin> set evs"
  by (auto simp: list_all_iff neutral_def dest: bspec)

lemma change_delivered_ok:
  "change cfg ls evs ls' \<Longrightarrow> keyed ls \<Longrightarrow> rank_sessions_ok cfg ls \<Longrightarrow> delivered_ok cfg ls tr \<Longrightarrow> delivered_ok cfg ls' (tr @ evs)"
proof (induction rule: change.induct)
  case (effect ls evs ls')
  from effect(1) show ?case
  proof cases
    case quiet
    show ?thesis using quiet neutral_not_delivered [OF quiet(2)] by (intro delivered_ok_mono [OF effect(4)]) (auto simp: quiet_def)
  next
    case (deliver r si obs)
    have "session_ok cfg ls si" "si_rank si = r" using deliver(2) session_okD [OF effect(3)] effect(2) by (auto simp: keyed_def)
    then have "map_of (li_nodes_by_rank ls) r = Some (si_node_id si)" by (simp add: session_ok_def)
    then show ?thesis
      using deliver \<open>si_rank si = r\<close> by (intro delivered_ok_mono [OF effect(4)]) (auto simp: bound_to_def)
  next
    case (issue command_id r p)
    show ?thesis using issue remember_issued_same [OF issue(2)] by (intro delivered_ok_mono [OF effect(4)]) auto
  qed (use effect(4) in \<open>simp_all add: delivered_ok_def refresh_established_def\<close>)
next
  case (enrol now env ls si ls')
  note guard = register_guard [OF enrol(1)]
  have "\<exists>n. map_of (li_nodes_by_rank ls') r = Some n \<and> owned_by cfg r n obs" if del: "Delivered r obs \<in> set tr" for r obs
  proof -
    obtain n where n: "map_of (li_nodes_by_rank ls) r = Some n" "owned_by cfg r n obs"
      using enrol(4) del unfolding delivered_ok_def by blast
    show ?thesis
    proof (cases "r = si_rank si")
      case True
      then have "map_of (li_sessions ls) (si_rank si) \<noteq> None" using n(1) enrol(3) by (auto simp: rank_sessions_ok_def)
      then have "same_node n (si_node_id si)" using guard(5) n(1) True by simp
      then show ?thesis using n(2) True same_node_trans by (auto simp: guard(6) owned_by_def)
    qed (use n guard(6) in simp)
  qed
  then show ?case by (simp add: delivered_ok_def)
qed (auto simp: delivered_ok_def)

lemma reachable_delivered_ok: "reachable cfg nw \<Longrightarrow> delivered_ok cfg (nw_listener nw) (nw_trace nw)"
proof -
  assume "reachable cfg nw"
  then have "rank_sessions_ok cfg (nw_listener nw) \<and> delivered_ok cfg (nw_listener nw) (nw_trace nw)"
    by (rule reachable_invariant [where P = "\<lambda>tr ls. rank_sessions_ok cfg ls \<and> delivered_ok cfg ls tr", THEN conjunct1])
      (use change_sessions_ok change_delivered_ok in \<open>blast | simp add: rank_sessions_ok_def delivered_ok_def new_listener_def\<close>)+
  then show ?thesis by simp
qed

text \<open>
  A session waits for the acknowledgement of a snapshot that was accepted since the rank joined, and is
  established only by such an acknowledgement.
\<close>

definition acked :: "int \<Rightarrow> event list \<Rightarrow> bool" where
  "acked r w =
     (\<exists>sid h items p. SnapshotIn r sid h items \<in> set w \<and> SnapshotAck r p \<in> set w \<and> field p ''snapshot_id'' = PStr sid \<and>
        field p ''complete_set_hash'' = PStr h \<and> field p ''status'' = PStr ''SUCCEEDED'')"

definition standing :: "int \<Rightarrow> session_info \<Rightarrow> event list \<Rightarrow> bool" where
  "standing r si w =
     ((si_pending_snapshot_command_id si \<noteq> [] \<longrightarrow>
        (\<exists>items. SnapshotIn r (si_pending_snapshot_id si) (si_pending_snapshot_hash si) items \<in> set w)) \<and>
      (si_established si \<longrightarrow> acked r w))"

definition acked_ok :: "control_listener \<Rightarrow> event list \<Rightarrow> bool" where
  "acked_ok ls tr = (\<forall>r si. map_of (li_sessions ls) r = Some si \<longrightarrow> standing r si (since (joins r) tr))"

lemma acked_append: "acked r w \<Longrightarrow> acked r (w @ evs)"
  unfolding acked_def set_append by blast

lemma standing_append: "standing r si w \<Longrightarrow> standing r si (w @ evs)"
  unfolding standing_def set_append using acked_append by blast

text \<open>The session stands as before or lower.\<close>

definition no_higher :: "session_info \<Rightarrow> session_info \<Rightarrow> bool" where
  "no_higher si si' =
     ((si_established si' \<longrightarrow> si_established si) \<and> si_pending_snapshot_command_id si' = si_pending_snapshot_command_id si \<and>
      si_pending_snapshot_id si' = si_pending_snapshot_id si \<and> si_pending_snapshot_hash si' = si_pending_snapshot_hash si)"

lemma standing_no_higher: "standing r si w \<Longrightarrow> no_higher si si' \<Longrightarrow> standing r si' w"
  by (auto simp: standing_def no_higher_def)

lemma acked_ok_mono:
  assumes "acked_ok ls tr" "\<And>r. \<not> list_ex (joins r) evs"
    and "\<And>r si'. map_of (li_sessions ls') r = Some si' \<Longrightarrow>
      standing r si' [] \<or> (\<exists>si. map_of (li_sessions ls) r = Some si \<and> no_higher si si')"
  shows "acked_ok ls' (tr @ evs)"
  unfolding acked_ok_def
proof (intro allI impI)
  fix r si' assume si': "map_of (li_sessions ls') r = Some si'"
  have win: "since (joins r) (tr @ evs) = since (joins r) tr @ evs" using assms(2) by (rule since_none)
  show "standing r si' (since (joins r) (tr @ evs))"
    using assms(3) [OF si']
  proof
    assume "standing r si' []"
    then show ?thesis using standing_append [of r si' "[]"] by simp
  next
    assume "\<exists>si. map_of (li_sessions ls) r = Some si \<and> no_higher si si'"
    then obtain si where "map_of (li_sessions ls) r = Some si" "no_higher si si'" by blast
    then have "standing r si' (since (joins r) tr)" using assms(1) standing_no_higher unfolding acked_ok_def by blast
    then show ?thesis unfolding win by (rule standing_append)
  qed
qed

lemma no_higher_book: "bookkeeping si si' \<Longrightarrow> no_higher si si'"
  by (simp add: bookkeeping_def no_higher_def)

lemma no_higher_refl [simp]: "no_higher si si"
  by (simp add: no_higher_def)

lemma effect_acked_ok: "effect cfg ls evs ls' \<Longrightarrow> keyed ls \<Longrightarrow> acked_ok ls tr \<Longrightarrow> acked_ok ls' (tr @ evs)"
proof (induction rule: effect.induct)
  case (quiet ls ls' evs)
  then show ?case using neutral_list [OF quiet(2)] by (intro acked_ok_mono [OF quiet(4)]) (auto simp: quiet_def)
next
  case (touch ls r si si')
  then have "si_rank si = r" by (simp add: keyed_def)
  then show ?case
    using touch no_higher_book [OF touch(2)] by (intro acked_ok_mono [OF touch(4)]) (auto simp: bookkeeping_def split: if_splits)
next
  case (deliver ls r si obs evs)
  then have "si_rank si = r" by (simp add: keyed_def)
  then show ?case using deliver(1,6) by (intro acked_ok_mono [OF deliver(8)]) (auto simp: no_higher_def split: if_splits)
next
  case (snapshot ls r si items os rs h si' sid)
  have win: "since (joins q) (tr @ [SnapshotIn r sid h items]) = since (joins q) tr @ [SnapshotIn r sid h items]" for q
    by (simp add: since_append)
  have "standing r si (since (joins r) tr)" using snapshot(1,14) by (simp add: acked_ok_def)
  then have "standing r si' (since (joins r) tr @ [SnapshotIn r sid h items])"
    using snapshot(8,12) acked_append unfolding standing_def by auto
  then show ?case using snapshot(5,14) standing_append unfolding acked_ok_def win by auto
next
  case (issue command_id r p ls ls')
  show ?case using remember_issued_same [OF issue(1)] by (intro acked_ok_mono [OF issue(3)]) auto
next
  case (result ls command_id r q si p)
  show ?case by (rule acked_ok_mono [OF result.prems(2)]) auto
next
  case (asked ls r si p)
  show ?case by (rule acked_ok_mono [OF asked.prems(2)]) auto
next
  case (ack ls r si p)
  then have rank: "si_rank si = r" by (simp add: keyed_def)
  have win: "since (joins q) (tr @ [SnapshotAck r p]) = since (joins q) tr @ [SnapshotAck r p]" for q
    by (simp add: since_append)
  obtain items where "SnapshotIn r (si_pending_snapshot_id si) (si_pending_snapshot_hash si) items \<in> set (since (joins r) tr)"
    using ack(1,3,6) by (auto simp: acked_ok_def standing_def)
  then have "acked r (since (joins r) tr @ [SnapshotAck r p])"
    using ack(4) unfolding acked_def snapshot_ack_ok_def by fastforce
  then have "standing r (si\<lparr>si_established := True, si_pending_snapshot_command_id := []\<rparr>) (since (joins r) tr @ [SnapshotAck r p])"
    by (simp add: standing_def)
  then show ?case
    using ack(6) rank standing_append unfolding acked_ok_def win by (auto simp: refresh_established_def)
qed

lemma change_acked_ok: "change cfg ls evs ls' \<Longrightarrow> keyed ls \<Longrightarrow> acked_ok ls tr \<Longrightarrow> acked_ok ls' (tr @ evs)"
proof (induction rule: change.induct)
  case (effect ls evs ls')
  then show ?case by (intro effect_acked_ok)
next
  case (enrol now env ls si ls')
  note new = register_session [OF enrol(1)]
  have "standing r si []" for r using new(1) by (simp add: new_session_def standing_def)
  then show ?case using new(2) by (intro acked_ok_mono [OF enrol(3)]) (auto split: if_splits)
next
  case (reject ls r si)
  then have "si_rank si = r" by (simp add: keyed_def)
  then show ?case using reject(1) by (intro acked_ok_mono [OF reject(4)]) (auto simp: no_higher_def split: if_splits)
next
  case (joined ls r si)
  have win: "since (joins q) (tr @ [SessionChange r True]) =
      (if q = r then [] else since (joins q) tr @ [SessionChange r True])" for q
    by (simp add: since_append) (simp add: since_def)
  have "standing r si []" using joined(3,5) by (simp add: standing_def)
  then show ?case using joined(1,7) standing_append unfolding acked_ok_def win by auto
next
  case (revoke ls r si evs)
  then have "si_rank si = r" by (simp add: keyed_def)
  then show ?case using revoke(1,2) by (intro acked_ok_mono [OF revoke(4)]) (auto simp: no_higher_def split: if_splits)
qed

lemma reachable_acked_ok: "reachable cfg nw \<Longrightarrow> acked_ok (nw_listener nw) (nw_trace nw)"
  using reachable_invariant [of cfg nw "\<lambda>tr ls. acked_ok ls tr"] change_acked_ok
  by (auto simp: acked_ok_def new_listener_def)

section \<open>One connection per registered rank\<close>

lemma is_registered_put: "is_registered (put_session si ls) q = (if q = si_rank si then si_registered si else is_registered ls q)"
  by (simp add: is_registered_def)

lemma is_registered_same: "li_sessions ls' = li_sessions ls \<Longrightarrow> is_registered ls' = is_registered ls"
  by (simp add: is_registered_def fun_eq_iff)

lemma is_registered_get: "map_of (li_sessions ls) r = Some si \<Longrightarrow> is_registered ls r = si_registered si"
  by (simp add: is_registered_def)

lemma effect_registered: "effect cfg ls evs ls' \<Longrightarrow> keyed ls \<Longrightarrow> is_registered ls' = is_registered ls"
proof (induction rule: effect.induct)
  case (quiet ls ls' evs)
  then show ?case by (intro is_registered_same) (simp add: quiet_def)
next
  case (issue command_id r p ls ls')
  show ?case using remember_issued_same [OF issue(1)] by (intro is_registered_same) simp
next
  case (ack ls r si p)
  let ?ls = "put_session (si\<lparr>si_established := True, si_pending_snapshot_command_id := []\<rparr>) ls"
  have "is_registered (refresh_established cfg ?ls) = is_registered ?ls"
    by (rule is_registered_same) (simp add: refresh_established_def)
  then show ?case using ack(1,2,5) by (simp add: fun_eq_iff is_registered_put keyed_def is_registered_get)
next
  case (result ls command_id r q si p)
  show ?case by (rule is_registered_same) simp
qed (auto simp: fun_eq_iff is_registered_put keyed_def is_registered_get bookkeeping_def)

lemma effects_registered: "effects cfg ls evs ls' \<Longrightarrow> keyed ls \<Longrightarrow> is_registered ls' = is_registered ls"
  by (induction rule: effects.induct) (auto simp: effect_registered dest: effect_keyed)

lemma register_registered:
  assumes "register cfg now env ls = Inr (si, ls')"
  shows "is_registered ls' = (is_registered ls)(si_rank si := True)"
  using register_session(1,2) [OF assms] by (auto simp: is_registered_def new_session_def fun_eq_iff)

lemma is_registered_out_seq: "next_out_seq r ls = (seq, ls') \<Longrightarrow> is_registered ls' = is_registered ls"
  using quiet_out_seq [of r ls seq ls'] by (intro is_registered_same) (simp add: quiet_def)

lemma handle_register_owner:
  assumes "keyed ls" "\<And>r. owner = Some r \<Longrightarrow> is_registered ls r" "handle_register cfg tn conn owner env ls = (owner', ls', evs, v)"
  shows "(owner' = owner \<and> is_registered ls' = is_registered ls) \<or>
    (\<exists>r b. owner = None \<and> owner' = Some r \<and> \<not> is_registered ls r \<and> is_registered ls' = (is_registered ls)(r := b) \<and> (v = Continue \<longrightarrow> b))"
proof (cases owner)
  case (Some r)
  then obtain si where si: "map_of (li_sessions ls) r = Some si" "si_registered si"
    using assms(2) [of r] by (auto simp: is_registered_def split: option.splits)
  then have v: "protocol_violation tn si (ContractError DUPLICATE_RANK ''REGISTER repeated'') ls = (ls', evs, v)" "owner' = owner"
    using assms(3) Some by (auto simp: handle_register_def)
  then show ?thesis using effects_registered [OF violation_effects(1) [OF v(1)] assms(1)] by blast
next
  case None
  show ?thesis
  proof (cases "register cfg (tn_now tn) env ls")
    case (Inl err)
    then show ?thesis using assms(3) None by (auto simp: handle_register_def add_audit_def is_registered_def fun_eq_iff)
  next
    case (Inr reg)
    obtain si ls1 where reg: "register cfg (tn_now tn) env ls = Inr (si, ls1)" using Inr by (cases reg) auto
    note new = register_registered [OF reg] register_session(4) [OF reg]
    obtain seq ls2 where ls2: "next_out_seq (si_rank si) ls1 = (seq, ls2)" by (rule prod.exhaust)
    note seq = is_registered_out_seq [OF ls2]
    have "owner' = Some (si_rank si)" using assms(3) None reg by (auto simp: handle_register_def)
    moreover have "\<exists>b. is_registered ls' = (is_registered ls)(si_rank si := b) \<and> (v = Continue \<longrightarrow> b)"
    proof (cases "\<exists>detail. call_decision (tn_register tn) = Some (False, detail)")
      case True
      then have "is_registered ls' = (is_registered ls)(si_rank si := False) \<and> v = Close"
        using assms(3) None reg new by (auto simp: handle_register_def fun_eq_iff is_registered_put add_audit_def is_registered_def)
      then show ?thesis by auto
    next
      case False
      then have "li_sessions ls' = li_sessions ls1 \<or> li_sessions ls' = li_sessions ls2"
        using assms(3) None reg ls2
        by (auto simp: handle_register_def write_session_frame_def notify_def Let_def
            split: option.splits if_splits write_outcome.splits prod.splits)
      then have "is_registered ls' = (is_registered ls)(si_rank si := True)"
        using new(1) seq is_registered_same by metis
      then show ?thesis by blast
    qed
    ultimately show ?thesis using None new(2) by blast
  qed
qed

lemma handle_envelope_owner:
  assumes "keyed ls" "tn_snapshot tn \<noteq> None" "\<And>r. owner = Some r \<Longrightarrow> is_registered ls r"
    and "handle_envelope cfg tn conn owner env ls = (owner', ls', evs, v)"
  shows "(owner' = owner \<and> is_registered ls' = is_registered ls) \<or>
    (\<exists>r b. owner = None \<and> owner' = Some r \<and> \<not> is_registered ls r \<and> is_registered ls' = (is_registered ls)(r := b) \<and> (v = Continue \<longrightarrow> b))"
proof (cases "check_scope cfg env = None \<and> en_kind env = REGISTER")
  case True
  then have "handle_register cfg tn conn owner env ls = (owner', ls', evs, v)" using assms(4) by (simp add: handle_envelope_def)
  then show ?thesis using handle_register_owner [OF assms(1,3)] by blast
next
  case False
  let ?si1 = "\<lambda>si. si\<lparr>si_last_seq := en_seq env\<rparr>"
  have owner: "owner' = owner"
    using assms(4) False unfolding handle_envelope_def Let_def by (auto split: option.splits if_splits)
  consider "\<exists>reason. ls' = add_audit reason (Some (en_sender_rank env)) (Some (en_sender_node env)) ls"
    | si err where "protocol_violation tn si err ls = (ls', evs, v)"
    | r si where "map_of (li_sessions ls) r = Some si" "si_registered si" "en_sender_rank env = si_rank si" "si_last_seq si < en_seq env"
        "dispatch cfg tn (?si1 si) env (put_session (?si1 si) ls) = (ls', evs, v)"
    using assms(4) False unfolding handle_envelope_def Let_def
    by (auto simp: bind_eq_Some_conv split: option.splits if_splits)
  then have "is_registered ls' = is_registered ls"
  proof cases
    case 1
    then show ?thesis by (intro is_registered_same) (auto simp: add_audit_def)
  next
    case 2
    then show ?thesis using effects_registered [OF violation_effects(1) [OF 2] assms(1)] by simp
  next
    case 3
    then have r: "si_rank si = r" using assms(1) by (auto simp: keyed_def)
    have keyed: "keyed (put_session (?si1 si) ls)" using assms(1) by (simp add: keyed_def)
    have "effects cfg (put_session (?si1 si) ls) evs ls'"
      using 3 r by (intro dispatch_effects [OF _ _ _ assms(2) _ 3(5), of r]) simp_all
    then have "is_registered ls' = is_registered (put_session (?si1 si) ls)" using keyed by (rule effects_registered)
    then show ?thesis using 3(1) r by (simp add: fun_eq_iff is_registered_put is_registered_get)
  qed
  then show ?thesis using owner by blast
qed

lemma finalize_registered:
  assumes "keyed ls" "finalize tn owner ls = (ls', evs)"
  shows "is_registered ls' q \<longleftrightarrow> is_registered ls q \<and> owner \<noteq> Some q"
proof (cases "\<exists>r si. owner = Some r \<and> map_of (li_sessions ls) r = Some si \<and> si_registered si")
  case True
  then obtain r si where si: "owner = Some r" "map_of (li_sessions ls) r = Some si" "si_registered si" by blast
  then have r: "si_rank si = r" using assms(1) by (simp add: keyed_def)
  let ?ls1 = "put_session (si\<lparr>si_registered := False, si_established := False\<rparr>) ls"
  have "li_sessions ls' = li_sessions ?ls1"
    using assms(2) si r by (auto simp: finalize_def Let_def release_connection_def forget_assembly_def split: if_splits)
  then have "is_registered ls' = is_registered ?ls1" by (rule is_registered_same)
  then show ?thesis using si(1) r by (auto simp: is_registered_put)
next
  case False
  then have "ls' = release_connection owner ls"
    using assms(2) by (auto simp: finalize_def split: option.splits Option.bind_split_asm if_splits)
  then have "is_registered ls' = is_registered ls" by (intro is_registered_same) (simp add: release_connection_def Let_def forget_assembly_def)
  moreover have "\<not> is_registered ls q" if "owner = Some q" using False that by (auto simp: is_registered_def split: option.splits)
  ultimately show ?thesis by auto
qed

lemma serve_owner:
  assumes "keyed ls" "tn_snapshot tn \<noteq> None" and live: "\<forall>r. owner = Some r \<longrightarrow> is_registered ls r"
    and "serve cfg tn conn owner inc ls = (ls', evs, res)"
  shows "res = Some owner' \<Longrightarrow> (owner' = owner \<and> is_registered ls' = is_registered ls) \<or>
      (\<exists>r. owner = None \<and> owner' = Some r \<and> \<not> is_registered ls r \<and> is_registered ls' = (is_registered ls)(r := True))"
    and "res = None \<Longrightarrow> is_registered ls' q \<longleftrightarrow> is_registered ls q \<and> owner \<noteq> Some q"
proof -
  obtain owner1 ls1 evs1 v where turn: "(case inc of FrameIn env \<Rightarrow> handle_envelope cfg tn conn owner env ls
      | FrameBad err \<Rightarrow> (owner, add_audit err owner None ls, [], Close) | Ended \<Rightarrow> (owner, ls, [], Close)) = (owner1, ls1, evs1, v)"
    by (rule prod_cases4)
  have audit: "is_registered (add_audit err owner None ls) = is_registered ls" for err
    by (rule is_registered_same) (simp add: add_audit_def)
  have own: "(owner1 = owner \<and> is_registered ls1 = is_registered ls) \<or>
    (\<exists>r b. owner = None \<and> owner1 = Some r \<and> \<not> is_registered ls r \<and> is_registered ls1 = (is_registered ls)(r := b) \<and> (v = Continue \<longrightarrow> b))"
    using turn handle_envelope_owner [OF assms(1,2) live [rule_format]] audit by (cases inc) auto
  have "changes cfg ls evs1 ls1"
    using turn handle_envelope_changes [OF assms(1,2)]
    by (cases inc) (auto intro: changes.none changes_quiet quiet_audit)
  then have keyed: "keyed ls1" using assms(1) by (rule changes_keyed)
  have crash: "is_registered (record_crash owner1 ls1) = is_registered ls1" "keyed (record_crash owner1 ls1)"
    using keyed by (auto simp: record_crash_def add_audit_def keyed_def intro!: is_registered_same)
  note step = assms(4) [unfolded serve_def turn, simplified]
  show "(owner' = owner \<and> is_registered ls' = is_registered ls) \<or>
      (\<exists>r. owner = None \<and> owner' = Some r \<and> \<not> is_registered ls r \<and> is_registered ls' = (is_registered ls)(r := True))"
    if "res = Some owner'"
    using that step own by (cases v) (auto split: prod.splits)
  show "is_registered ls' q \<longleftrightarrow> is_registered ls q \<and> owner \<noteq> Some q" if "res = None"
  proof -
    have "is_registered ls' q \<longleftrightarrow> is_registered ls1 q \<and> owner1 \<noteq> Some q"
      using that step finalize_registered [OF keyed, of tn owner1 _ _ q] finalize_registered [OF crash(2), of tn owner1 _ _ q] crash(1)
      by (cases v) (auto split: prod.splits)
    then show ?thesis using own by (auto split: if_splits)
  qed
qed

definition conns_ok :: "network \<Rightarrow> bool" where
  "conns_ok nw =
     ((\<forall>r. is_registered (nw_listener nw) r \<longrightarrow> (\<exists>c. map_of (nw_conns nw) c = Some (Some r))) \<and>
      (\<forall>c r. map_of (nw_conns nw) c = Some (Some r) \<longrightarrow> is_registered (nw_listener nw) r) \<and>
      (\<forall>c c' r. map_of (nw_conns nw) c = Some (Some r) \<longrightarrow> map_of (nw_conns nw) c' = Some (Some r) \<longrightarrow> c = c'))"

lemma conns_ok_owner: "conns_ok nw \<Longrightarrow> map_of (nw_conns nw) c = Some (Some r) \<Longrightarrow> is_registered (nw_listener nw) r"
  unfolding conns_ok_def by blast

lemma conns_ok_closed:
  assumes "conns_ok nw" "map_of (nw_conns nw) c = Some owner"
    and reg: "\<And>q. is_registered (nw_listener nw') q \<longleftrightarrow> is_registered (nw_listener nw) q \<and> owner \<noteq> Some q"
    and "nw_conns nw' = AList.delete c (nw_conns nw)"
  shows "conns_ok nw'"
proof -
  have conns: "map_of (nw_conns nw') d = Some (Some r) \<longleftrightarrow> d \<noteq> c \<and> map_of (nw_conns nw) d = Some (Some r)" for d r
    by (simp add: assms(4) delete_conv')
  show ?thesis
    unfolding conns_ok_def conns reg
  proof (intro conjI allI impI)
    fix r assume r: "is_registered (nw_listener nw) r \<and> owner \<noteq> Some r"
    then obtain d where "map_of (nw_conns nw) d = Some (Some r)" using assms(1) unfolding conns_ok_def by blast
    then show "\<exists>d. d \<noteq> c \<and> map_of (nw_conns nw) d = Some (Some r)" using r assms(2) by (intro exI [of _ d]) auto
  next
    fix d r assume d: "d \<noteq> c \<and> map_of (nw_conns nw) d = Some (Some r)"
    then show "is_registered (nw_listener nw) r" using conns_ok_owner [OF assms(1)] by blast
    show "owner \<noteq> Some r" using d assms(1,2) unfolding conns_ok_def by blast
  next
    fix d d' r assume "d \<noteq> c \<and> map_of (nw_conns nw) d = Some (Some r)" "d' \<noteq> c \<and> map_of (nw_conns nw) d' = Some (Some r)"
    then show "d = d'" using assms(1) unfolding conns_ok_def by blast
  qed
qed

lemma conns_ok_joined:
  assumes "conns_ok nw" "map_of (nw_conns nw) c = Some None" "\<not> is_registered (nw_listener nw) r"
    and reg: "is_registered (nw_listener nw') = (is_registered (nw_listener nw))(r := True)"
    and "nw_conns nw' = AList.update c (Some r) (nw_conns nw)"
  shows "conns_ok nw'"
proof -
  have free: "map_of (nw_conns nw) d \<noteq> Some (Some r)" for d using assms(1,3) conns_ok_owner by blast
  have conns: "map_of (nw_conns nw') d = Some (Some q) \<longleftrightarrow> (d = c \<and> q = r) \<or> map_of (nw_conns nw) d = Some (Some q)" for d q
    using assms(2) by (auto simp: assms(5) update_conv')
  show ?thesis
    unfolding conns_ok_def conns reg
  proof (intro conjI allI impI)
    fix q assume "((is_registered (nw_listener nw))(r := True)) q"
    then show "\<exists>d. (d = c \<and> q = r) \<or> map_of (nw_conns nw) d = Some (Some q)" using assms(1) unfolding conns_ok_def by (cases "q = r") auto
  next
    fix d q assume "(d = c \<and> q = r) \<or> map_of (nw_conns nw) d = Some (Some q)"
    then show "((is_registered (nw_listener nw))(r := True)) q" using conns_ok_owner [OF assms(1)] by auto
  next
    fix d d' q assume "(d = c \<and> q = r) \<or> map_of (nw_conns nw) d = Some (Some q)" "(d' = c \<and> q = r) \<or> map_of (nw_conns nw) d' = Some (Some q)"
    then show "d = d'" using assms(1) free unfolding conns_ok_def by blast
  qed
qed

lemma conns_ok_same:
  assumes "conns_ok nw" "is_registered (nw_listener nw') = is_registered (nw_listener nw)"
    and "\<And>c r. map_of (nw_conns nw') c = Some (Some r) \<longleftrightarrow> map_of (nw_conns nw) c = Some (Some r)"
  shows "conns_ok nw'"
  using assms(1) unfolding conns_ok_def assms(2,3) .

lemma reachable_conns_ok: "reachable cfg nw \<Longrightarrow> conns_ok nw"
proof (induction rule: reachable.induct)
  case start
  show ?case by (simp add: conns_ok_def new_network_def new_listener_def is_registered_def)
next
  case (step nw nw')
  have keyed: "keyed (nw_listener nw)" using step(1) by (rule reachable_keyed)
  from step(2) show ?case
  proof cases
    case (arrive c)
    then show ?thesis by (intro conns_ok_same [OF step.IH]) (auto simp: update_conv')
  next
    case (turn c owner tn inc ls' evs res)
    have own: "\<forall>r. owner = Some r \<longrightarrow> is_registered (nw_listener nw) r" using conns_ok_owner [OF step.IH] turn(2) by blast
    note serve = serve_owner [OF keyed turn(3) own turn(4)]
    show ?thesis
    proof (cases res)
      case None
      show ?thesis using turn(1) None serve(2) [OF None] by (intro conns_ok_closed [OF step.IH turn(2)]) simp_all
    next
      case (Some owner')
      from serve(1) [OF Some] show ?thesis
      proof
        assume "owner' = owner \<and> is_registered ls' = is_registered (nw_listener nw)"
        then show ?thesis using turn(1,2) Some by (intro conns_ok_same [OF step.IH]) (auto simp: update_conv')
      next
        assume "\<exists>r. owner = None \<and> owner' = Some r \<and> \<not> is_registered (nw_listener nw) r \<and>
            is_registered ls' = (is_registered (nw_listener nw))(r := True)"
        then obtain r where r: "owner = None" "owner' = Some r" "\<not> is_registered (nw_listener nw) r"
            "is_registered ls' = (is_registered (nw_listener nw))(r := True)" by blast
        show ?thesis using turn(1,2) Some r by (intro conns_ok_joined [OF step.IH _ r(3)]) simp_all
      qed
    qed
  next
    case (command tn r command_id operation payload sent evs ls')
    then have "effects cfg (nw_listener nw) evs ls'"
      by (auto simp: send_command_def intro: effects.none push_command_effects split: if_splits)
    then show ?thesis using command(1) effects_registered keyed by (intro conns_ok_same [OF step.IH]) auto
  next
    case (broadcast tn command_id operation payload evs ls' targets)
    then have "effects cfg (nw_listener nw) evs ls'" by (auto simp: broadcast_command_targets_def intro: broadcast_to_effects)
    then show ?thesis using broadcast(1) effects_registered keyed by (intro conns_ok_same [OF step.IH]) auto
  next
    case (goodbye r ls')
    have "effects cfg (nw_listener nw) [] ls'" using goodbye(2) by (rule expect_goodbye_effects)
    then show ?thesis using goodbye(1) effects_registered keyed by (intro conns_ok_same [OF step.IH]) auto
  qed
qed

section \<open>A sample run\<close>

definition sample_config :: listener_config where
  "sample_config =
     \<lparr>lc_deployment_id = ''dep'', lc_plan_hash = ''plan'', lc_generation = 0, lc_expected_ranks = 1,
      lc_expected_nodes = [(0, ''node0'')], lc_limits = default_control_limits, lc_sha = (\<lambda>_. replicate 64 (CHR ''0'')),
      lc_float = (\<lambda>_. ''0.5'')\<rparr>"

definition sample_turn :: turn where
  "sample_turn =
     \<lparr>tn_now = 0, tn_write = (\<lambda>_. Written), tn_register = Some (Some (PBool True)), tn_snapshot = Some (Some (PBool True)),
      tn_snapshot_ack = Some (Some PNone), tn_observation = (\<lambda>_. Taken), tn_raises = (\<lambda>_. False)\<rparr>"

definition ray_obs :: "int \<Rightarrow> component_observation" where
  "ray_obs seq =
     \<lparr>ob_schema_version = 1, ob_deployment_id = ''dep'', ob_plan_hash = ''plan'', ob_generation = 0, ob_component_id = ''ray'',
      ob_instance_id = ''ray-1'', ob_sequence = seq, ob_owner_scope = ''RANK'', ob_role = ''ray'', ob_node_id = ''node0'',
      ob_state = ''RUNNING'', ob_observed_at = PInt 0, ob_owner_rank = Some 0, ob_model_id = None, ob_replica_id = None,
      ob_reason_code = None, ob_detail = None, ob_receipt_hash = None\<rparr>"

definition sample_frame_in :: "envelope_kind \<Rightarrow> int \<Rightarrow> dict \<Rightarrow> incoming" where
  "sample_frame_in kind seq payload = FrameIn
     \<lparr>en_v = 1, en_kind = kind, en_deployment_id = ''dep'', en_plan_hash = ''plan'', en_generation = 0, en_sender_rank = 0,
      en_sender_node = ''node0'', en_seq = seq, en_payload = (PStr ''payload_version'', PInt 1) # payload\<rparr>"

definition zero_hash :: pyval where
  "zero_hash = PStr (replicate 64 (CHR ''0''))"

definition sample_frames :: "incoming list" where
  "sample_frames =
     [sample_frame_in REGISTER 1 [(PStr ''instance_id'', PStr ''boot'')],
      sample_frame_in SNAPSHOT 2
        [(PStr ''snapshot_id'', PStr ''s1''), (PStr ''chunk_index'', PInt 0), (PStr ''chunk_count'', PInt 1),
         (PStr ''complete_set_hash'', zero_hash), (PStr ''observations'', PList [obs_to_dict (ray_obs 1)]),
         (PStr ''compatibility_receipts'', PList [])],
      sample_frame_in COMMAND_RESULT 3
        [(PStr ''command_id'', PStr ''SNAPSHOT_ACCEPTED:0:s1''), (PStr ''operation'', PStr ''SNAPSHOT_ACCEPTED''),
         (PStr ''ok'', PBool True), (PStr ''detail'', PStr []), (PStr ''status'', PStr ''SUCCEEDED''),
         (PStr ''snapshot_id'', PStr ''s1''), (PStr ''complete_set_hash'', zero_hash)],
      sample_frame_in OBSERVATION 4 [(PStr ''observation'', obs_to_dict (ray_obs 2))],
      sample_frame_in OBSERVATION 5 [(PStr ''observation'', obs_to_dict (ray_obs 3))]]"

definition feed :: "listener_config \<Rightarrow> turn \<Rightarrow> nat \<Rightarrow> incoming \<Rightarrow> network \<Rightarrow> network" where
  "feed cfg tn c inc nw =
     (case map_of (nw_conns nw) c of
        None \<Rightarrow> nw
      | Some owner \<Rightarrow>
          (case serve cfg tn c owner inc (nw_listener nw) of (ls', evs, res) \<Rightarrow>
             \<lparr>nw_listener = ls',
              nw_conns = (case res of None \<Rightarrow> AList.delete c (nw_conns nw) | Some owner' \<Rightarrow> AList.update c owner' (nw_conns nw)),
              nw_trace = nw_trace nw @ evs\<rparr>))"

lemma feed_reachable: "reachable cfg nw \<Longrightarrow> tn_snapshot tn \<noteq> None \<Longrightarrow> reachable cfg (feed cfg tn c inc nw)"
proof (cases "map_of (nw_conns nw) c")
  case (Some owner)
  assume assms: "reachable cfg nw" "tn_snapshot tn \<noteq> None"
  obtain ls' evs res where res: "serve cfg tn c owner inc (nw_listener nw) = (ls', evs, res)" by (rule prod_cases3)
  then show ?thesis using reachable.step [OF assms(1) net_step.turn [OF Some assms(2) res]] by (simp add: feed_def Some)
qed (simp add: feed_def)

definition sample_network :: network where
  "sample_network = fold (feed sample_config sample_turn 7) sample_frames (new_network\<lparr>nw_conns := [(7, None)]\<rparr>)"

lemma sample_reachable: "reachable sample_config sample_network"
proof -
  have "reachable sample_config (fold (feed sample_config sample_turn 7) incs nw)" if "reachable sample_config nw" for incs nw
    using that
  proof (induction incs arbitrary: nw)
    case (Cons inc incs)
    have "tn_snapshot sample_turn \<noteq> None" by (simp add: sample_turn_def)
    then show ?case using Cons.IH [OF feed_reachable [OF Cons.prems]] by simp
  qed simp
  moreover have "net_step sample_config new_network (new_network\<lparr>nw_conns := AList.update 7 None (nw_conns new_network)\<rparr>)"
    by (rule net_step.arrive) (simp add: new_network_def)
  then have "reachable sample_config (new_network\<lparr>nw_conns := [(7, None)]\<rparr>)"
    using reachable.step [OF reachable.start] by (simp add: new_network_def)
  ultimately show ?thesis unfolding sample_network_def by blast
qed

lemma sample_established: "is_established (nw_listener sample_network) 0"
  by code_simp

lemma sample_barrier: "li_all_established (nw_listener sample_network)"
  by code_simp

lemma sample_delivered: "drop 5 (nw_trace sample_network) = [Delivered 0 (ray_obs 2), Delivered 0 (ray_obs 3)]"
  by code_simp

lemma sample_result:
  "map_option (\<lambda>res. field res ''operation'') (map_of (li_command_results (nw_listener sample_network)) ''SNAPSHOT_ACCEPTED:0:s1'') =
     Some (PStr ''SNAPSHOT_ACCEPTED'')"
  by code_simp

lemma sample_trace: "nw_trace sample_network = take 5 (nw_trace sample_network) @ [Delivered 0 (ray_obs 2), Delivered 0 (ray_obs 3)]"
  by (metis append_take_drop_id sample_delivered)

section \<open>Properties of the control transport\<close>

text \<open>
  Exclusive sessions (C8). In every reachable network, whatever the peers send, a registered rank is served by
  exactly one open connection; it is a planned rank, and its connection speaks for the node that the
  plan binds to it. Two registered ranks are never on the same node.
\<close>

theorem sessions_exclusive:
  assumes "reachable cfg nw" "map_of (li_sessions (nw_listener nw)) r = Some si" "si_registered si"
  shows "(\<exists>!c. map_of (nw_conns nw) c = Some (Some r)) \<and> si_rank si = r \<and> 0 \<le> r \<and> r < lc_expected_ranks cfg \<and>
    (\<forall>planned. map_of (lc_expected_nodes cfg) r = Some planned \<longrightarrow> same_node planned (si_node_id si)) \<and>
    (\<forall>r' si'. r' \<noteq> r \<longrightarrow> map_of (li_sessions (nw_listener nw)) r' = Some si' \<longrightarrow> \<not> same_node (si_node_id si) (si_node_id si'))"
proof -
  have reg: "is_registered (nw_listener nw) r" using assms(2,3) by (simp add: is_registered_def)
  have conns: "\<exists>!c. map_of (nw_conns nw) c = Some (Some r)"
    using reachable_conns_ok [OF assms(1)] reg unfolding conns_ok_def by blast
  have keyed: "si_rank si = r" using reachable_keyed [OF assms(1)] assms(2) by (simp add: keyed_def)
  note ok = reachable_rank_sessions_ok [OF assms(1)]
  have node: "map_of (li_nodes_by_rank (nw_listener nw)) r' = Some (si_node_id si')"
    if "map_of (li_sessions (nw_listener nw)) r' = Some si'" for r' si'
    using session_okD [OF ok that] reachable_keyed [OF assms(1)] that by (simp add: session_ok_def keyed_def)
  have "\<not> same_node (si_node_id si) (si_node_id si')"
    if "r' \<noteq> r" "map_of (li_sessions (nw_listener nw)) r' = Some si'" for r' si'
    using ok node [OF assms(2)] node [OF that(2)] that(1) unfolding rank_sessions_ok_def by metis
  then show ?thesis using conns keyed session_okD [OF ok assms(2)] by (auto simp: session_ok_def)
qed

theorem sessions_exclusive_witness:
  "\<exists>si. map_of (li_sessions (nw_listener sample_network)) 0 = Some si \<and> si_registered si \<and>
     (\<exists>!c. map_of (nw_conns sample_network) c = Some (Some 0)) \<and> same_node ''node0'' (si_node_id si)"
proof -
  obtain si where si: "map_of (li_sessions (nw_listener sample_network)) 0 = Some si" "si_registered si"
    using sample_established by (auto simp: is_established_def split: option.splits)
  then show ?thesis using sessions_exclusive [OF sample_reachable si] by (auto simp: sample_config_def)
qed

text \<open>
  Deliveries are bound to the authenticated rank (C4). Every observation that reaches the head through an
  incremental frame satisfies the contract, belongs to this deployment, plan and generation, is owned by the
  rank of the session that sent it, and names the node that this rank registered from: a rank can publish neither
  another rank's state nor a global one.
\<close>

theorem deliveries_bound:
  assumes "reachable cfg nw" "Delivered r obs \<in> set (nw_trace nw)"
  shows "\<exists>n. map_of (li_nodes_by_rank (nw_listener nw)) r = Some n \<and> owned_by cfg r n obs"
  using reachable_delivered_ok [OF assms(1)] assms(2) unfolding delivered_ok_def by blast

theorem deliveries_bound_witness:
  "Delivered 0 (ray_obs 2) \<in> set (nw_trace sample_network) \<and>
   (\<exists>n. map_of (li_nodes_by_rank (nw_listener sample_network)) 0 = Some n \<and> owned_by sample_config 0 n (ray_obs 2))"
proof -
  have "Delivered 0 (ray_obs 2) \<in> set (nw_trace sample_network)" by (subst sample_trace) simp
  then show ?thesis using deliveries_bound [OF sample_reachable] by blast
qed

text \<open>
  Deliveries in order and once (C5). Between two deliveries of a component instance of a rank, with no new session and
  no new snapshot of that rank in between, the sequence number strictly increases: duplicates and
  reordered frames never reach the head, however often they are sent.
\<close>

theorem deliveries_ordered:
  assumes "reachable cfg nw" "nw_trace nw = before @ Delivered r obs # between @ Delivered r obs' # after"
    and "list_all (\<lambda>ev. \<not> renews r ev) between"
    and "ob_component_id obs = ob_component_id obs'" "ob_instance_id obs = ob_instance_id obs'"
  shows "ob_sequence obs < ob_sequence obs'"
proof -
  let ?w = "Delivered r obs # between @ [Delivered r obs']"
  have "take (length (before @ ?w)) (nw_trace nw) = before @ ?w" by (simp add: assms(2))
  then have "sorted_wrt (in_order r) (since (renews r) (before @ ?w))"
    using reachable_ordered [OF assms(1)] unfolding ordered_always_def by metis
  moreover have "\<not> list_ex (renews r) ?w" using assms(3) by (auto simp: list_all_iff list_ex_iff)
  ultimately have "sorted_wrt (in_order r) (since (renews r) before @ ?w)" by (simp add: since_none)
  then have "in_order r (Delivered r obs) (Delivered r obs')" by (simp add: sorted_wrt_append)
  then show ?thesis using assms(4,5) by (simp add: in_order_def)
qed

theorem deliveries_ordered_witness:
  "nw_trace sample_network = take 5 (nw_trace sample_network) @ Delivered 0 (ray_obs 2) # [] @ Delivered 0 (ray_obs 3) # [] \<and>
   ob_sequence (ray_obs 2) < ob_sequence (ray_obs 3)"
  using deliveries_ordered [OF sample_reachable, of "take 5 (nw_trace sample_network)" 0 "ray_obs 2" "[]" "ray_obs 3" "[]"] sample_trace
  by (simp add: ray_obs_def)

text \<open>
  The START barrier (C6). A rank is established only after, since it joined, the listener accepted a
  complete snapshot from it and the rank then acknowledged exactly that snapshot, identity and hash, with success; and
  the flag that releases the head is set only while every planned rank is established.
\<close>

theorem established_acknowledged:
  assumes "reachable cfg nw" "0 \<le> r" "r < lc_expected_ranks cfg"
    and "is_established (nw_listener nw) r \<or> li_all_established (nw_listener nw)"
  shows "is_established (nw_listener nw) r \<and>
    (\<exists>sid h items p. SnapshotIn r sid h items \<in> set (since (joins r) (nw_trace nw)) \<and>
       SnapshotAck r p \<in> set (since (joins r) (nw_trace nw)) \<and> field p ''snapshot_id'' = PStr sid \<and>
       field p ''complete_set_hash'' = PStr h \<and> field p ''status'' = PStr ''SUCCEEDED'')"
proof -
  have est: "is_established (nw_listener nw) r"
    using reachable_barrier_ok [OF assms(1)] assms(2-4) by (auto simp: barrier_ok_def)
  then obtain si where "map_of (li_sessions (nw_listener nw)) r = Some si" "si_established si"
    by (auto simp: is_established_def split: option.splits)
  then have "acked r (since (joins r) (nw_trace nw))"
    using reachable_acked_ok [OF assms(1)] by (auto simp: acked_ok_def standing_def)
  then show ?thesis using est unfolding acked_def by blast
qed

theorem established_acknowledged_witness:
  "li_all_established (nw_listener sample_network) \<and> is_established (nw_listener sample_network) 0"
  using established_acknowledged [OF sample_reachable, of 0] sample_barrier by (simp add: sample_config_def)

lemma issued_persists:
  assumes "(net_step cfg)\<^sup>*\<^sup>* nw nw'" "reachable cfg nw" "map_of (li_issued_commands (nw_listener nw)) i = Some x"
  shows "reachable cfg nw' \<and> map_of (li_issued_commands (nw_listener nw')) i = Some x"
  using assms
proof (induction rule: rtranclp_induct)
  case (step nw1 nw2)
  then have nw1: "reachable cfg nw1" "map_of (li_issued_commands (nw_listener nw1)) i = Some x" by auto
  obtain evs where "changes cfg (nw_listener nw1) evs (nw_listener nw2)"
    using net_step_changes [OF step(2) reachable_keyed [OF nw1(1)]] by blast
  then have "map_of (li_issued_commands (nw_listener nw2)) i = Some x"
    using nw1(2) by (induction rule: changes.induct) (auto dest: change_issued)
  then show ?case using reachable.step [OF nw1(1) step(2)] by blast
qed simp

text \<open>
  Command results are authoritative (C22). A recorded result is a valid payload for a command that was
  issued under that identity, from the rank it was issued to and for the same operation. And whatever was issued under
  an identity, answered or not, stays issued to that rank with that request in every later state, so that an
  identity is never reused for another rank or another request.
\<close>

theorem results_authoritative:
  assumes "reachable cfg nw"
  shows "(\<forall>command_id res. map_of (li_command_results (nw_listener nw)) command_id = Some res \<longrightarrow>
      (\<exists>r q p. map_of (li_issued_commands (nw_listener nw)) command_id = Some (r, q) \<and> res = result_record p r \<and>
        validate_command_result_payload p = Inr p \<and> field p ''command_id'' = PStr command_id \<and>
        py_eq (field p ''operation'') (field q ''operation''))) \<and>
    (\<forall>nw' command_id r q. (net_step cfg)\<^sup>*\<^sup>* nw nw' \<longrightarrow>
      map_of (li_issued_commands (nw_listener nw)) command_id = Some (r, q) \<longrightarrow>
      map_of (li_issued_commands (nw_listener nw')) command_id = Some (r, q))"
  using reachable_results_ok [OF assms] issued_persists [OF _ assms] unfolding results_ok_def by blast

theorem results_authoritative_witness:
  "\<exists>nw' res r q p. net_step sample_config sample_network nw' \<and>
     map_of (li_command_results (nw_listener sample_network)) ''SNAPSHOT_ACCEPTED:0:s1'' = Some res \<and>
     map_of (li_issued_commands (nw_listener sample_network)) ''SNAPSHOT_ACCEPTED:0:s1'' = Some (r, q) \<and> res = result_record p r \<and>
     map_of (li_issued_commands (nw_listener nw')) ''SNAPSHOT_ACCEPTED:0:s1'' = Some (r, q)"
proof -
  obtain res where res: "map_of (li_command_results (nw_listener sample_network)) ''SNAPSHOT_ACCEPTED:0:s1'' = Some res"
    using sample_result by auto
  have "expect_goodbye 0 (nw_listener sample_network) \<noteq> Inl err" for err
    using sample_established by (auto simp: is_established_def expect_goodbye_def split: option.splits)
  then obtain ls' where "expect_goodbye 0 (nw_listener sample_network) = Inr ls'" by (cases "expect_goodbye 0 (nw_listener sample_network)") auto
  then have step: "net_step sample_config sample_network (sample_network\<lparr>nw_listener := ls'\<rparr>)" by (rule net_step.goodbye)
  note facts = results_authoritative [OF sample_reachable]
  obtain r q p where "map_of (li_issued_commands (nw_listener sample_network)) ''SNAPSHOT_ACCEPTED:0:s1'' = Some (r, q)" "res = result_record p r"
    using facts res by blast
  then show ?thesis using facts step res by (meson r_into_rtranclp)
qed

text \<open>
  Bounded memory (C24). Whatever the peers send and however long they run, the listener keeps at most 4096 command
  identities, 1000 audit records and 1000 handler failures, and every session keeps at most 4096
  deduplication keys and 64 component identities.
\<close>

theorem listener_bounded:
  assumes "reachable cfg nw"
  shows "length (li_issued_commands (nw_listener nw)) \<le> 4096 \<and> length (li_audit (nw_listener nw)) \<le> 1000 \<and>
    length (li_handler_failures (nw_listener nw)) \<le> 1000 \<and>
    (\<forall>r si. map_of (li_sessions (nw_listener nw)) r = Some si \<longrightarrow>
       length (si_seen_obs si) \<le> 4096 \<and> length (si_component_instances si) \<le> 64)"
  using reachable_records_ok [OF assms] session_okD [OF reachable_rank_sessions_ok [OF assms]]
  by (auto simp: records_ok_def session_ok_def max_command_records_def max_audit_records_def max_dedup_keys_def
      max_components_per_rank_def)

theorem listener_bounded_witness: "length (li_audit (nw_listener sample_network)) \<le> 1000"
  using listener_bounded [OF sample_reachable] by blast

end
