(* ===== verification/Node_Channel.thy ===== *)
theory Node_Channel
  imports Channel
begin

text \<open>
  The rank side of the control transport, \<^verbatim>\<open>NodeChannel\<close> of \<^verbatim>\<open>src/exaserve/control/transport.py\<close>: registration and the
  limits it brings, complete snapshots in chunks, the memory of received commands and of their results,
  heartbeats and goodbyes.

  The channel is a record. An operation returns a value or an error, the envelopes it handed to the socket, and
  the channel after it. The socket is an argument: what a write does (\<open>write_outcome\<close>), and what a
  read gives (\<open>head_input\<close>). A coroutine that is cancelled while it waits is not modelled.
\<close>

section \<open>State\<close>

record node_config =
  nd_deployment_id :: string
  nd_plan_hash :: string
  nd_generation :: int
  nd_rank :: int
  nd_node_id :: string
  nd_sha :: "string \<Rightarrow> string"
  nd_float :: "real \<Rightarrow> string"

text \<open>The checks of the constructor that are not checks of types; host, port and secret are the socket's.\<close>

definition node_config_ok :: "node_config \<Rightarrow> bool" where
  "node_config_ok cfg =
     (nd_deployment_id cfg \<noteq> [] \<and> nd_plan_hash cfg \<noteq> [] \<and> 0 \<le> nd_generation cfg \<and> 0 \<le> nd_rank cfg \<and> nd_node_id cfg \<noteq> [])"

text \<open>\<open>nc_writer\<close> and \<open>nc_reader\<close>: \<^verbatim>\<open>_writer\<close> and \<^verbatim>\<open>_reader\<close> are set.\<close>

record node_channel =
  nc_writer :: bool
  nc_reader :: bool
  nc_seq :: int
  nc_head_seq :: int
  nc_limits :: control_limits
  nc_control_limits :: dict
  nc_snapshot_hashes :: "(string \<times> string) list"
  nc_pending_head_commands :: "dict list"
  nc_received_commands :: "(string \<times> dict) list"
  nc_command_results :: "(string \<times> dict) list"
  nc_heartbeat_counter :: int

definition new_node_channel :: "control_limits \<Rightarrow> node_channel" where
  "new_node_channel limits =
     \<lparr>nc_writer = False, nc_reader = False, nc_seq = 0, nc_head_seq = 0, nc_limits = limits, nc_control_limits = [],
      nc_snapshot_hashes = [], nc_pending_head_commands = [], nc_received_commands = [], nc_command_results = [],
      nc_heartbeat_counter = 0\<rparr>"

text \<open>
  What an operation raises: a \<^verbatim>\<open>ContractError\<close>, the one of \<^verbatim>\<open>write_frame\<close> for a frame that cannot be sent,
  a \<^verbatim>\<open>ConnectionError\<close>, a timeout, or another exception.
\<close>

datatype node_error = Contract contract_error | FrameRefused | Disconnected | TimedOut | OtherError

type_synonym 'a node_result = "(node_error + 'a) \<times> envelope list \<times> node_channel"

definition refuse :: "string \<Rightarrow> node_error" where
  "refuse detail = Contract (ContractError MALFORMED detail)"

section \<open>Writing\<close>

definition node_env :: "node_config \<Rightarrow> envelope_kind \<Rightarrow> dict \<Rightarrow> node_channel \<Rightarrow> envelope \<times> node_channel" where
  "node_env cfg kind payload nc =
     (let seq = nc_seq nc + 1 in
      (\<lparr>en_v = schema_version, en_kind = kind, en_deployment_id = nd_deployment_id cfg, en_plan_hash = nd_plan_hash cfg,
        en_generation = nd_generation cfg, en_sender_rank = nd_rank cfg, en_sender_node = nd_node_id cfg, en_seq = seq,
        en_payload = payload\<rparr>, nc\<lparr>nc_seq := seq\<rparr>))"

definition node_write ::
    "node_config \<Rightarrow> (envelope \<Rightarrow> write_outcome) \<Rightarrow> envelope_kind \<Rightarrow> dict \<Rightarrow> node_channel \<Rightarrow> unit node_result" where
  "node_write cfg io kind payload nc =
     (if \<not> nc_writer nc then (Inl Disconnected, [], nc)
      else case node_env cfg kind payload nc of (env, nc1) \<Rightarrow>
        (case io env of
           Written \<Rightarrow> (Inr (), [env], nc1)
         | ConnectionLost \<Rightarrow> (Inl Disconnected, [], nc1)
         | WriteRefused \<Rightarrow> (Inl FrameRefused, [], nc1)))"

definition v1 :: "dict \<Rightarrow> dict" where
  "v1 payload = (PStr ''payload_version'', PInt 1) # payload"

definition send_observation ::
    "node_config \<Rightarrow> (envelope \<Rightarrow> write_outcome) \<Rightarrow> component_observation \<Rightarrow> dict option \<Rightarrow> node_channel \<Rightarrow> unit node_result" where
  "send_observation cfg io obs receipt nc =
     node_write cfg io OBSERVATION
       (v1 ((PStr ''observation'', obs_to_dict obs) #
          (case receipt of None \<Rightarrow> [] | Some r \<Rightarrow> [(PStr ''compatibility_receipt'', PDict r)]))) nc"

definition send_receipt :: "node_config \<Rightarrow> (envelope \<Rightarrow> write_outcome) \<Rightarrow> dict \<Rightarrow> node_channel \<Rightarrow> unit node_result" where
  "send_receipt cfg io receipt nc = node_write cfg io RECEIPT (v1 [(PStr ''receipt'', PDict receipt)]) nc"

definition drop_connection :: "node_channel \<Rightarrow> node_channel" where
  "drop_connection nc = nc\<lparr>nc_writer := False\<rparr>"

text \<open>\<^verbatim>\<open>close\<close>: the goodbye, if one is due, and the end of the connection; \<open>closes\<close> is whether \<^verbatim>\<open>wait_closed\<close> returns.\<close>

definition close_channel ::
    "node_config \<Rightarrow> (envelope \<Rightarrow> write_outcome) \<Rightarrow> bool \<Rightarrow> bool \<Rightarrow> node_channel \<Rightarrow> unit node_result" where
  "close_channel cfg io closes expected nc =
     (if \<not> nc_writer nc then (Inr (), [], nc)
      else case (if expected then node_write cfg io GOODBYE (v1 []) nc else (Inr (), [], nc)) of
        (r, sent, nc1) \<Rightarrow>
          (if r = Inr () \<and> closes then Inr () else Inl Disconnected, sent, nc1\<lparr>nc_writer := False, nc_reader := False\<rparr>))"

section \<open>Snapshots\<close>

fun chunks_of :: "nat \<Rightarrow> nat \<Rightarrow> 'a list \<Rightarrow> 'a list list" where
  "chunks_of 0 k xs = []"
| "chunks_of (Suc n) k xs = (if xs = [] then [] else take k xs # chunks_of n k (drop k xs))"

text \<open>\<^verbatim>\<open>[items[i : i + k] for i in range(0, len(items), k)] or [[]]\<close>\<close>

definition snapshot_chunks :: "nat \<Rightarrow> 'a list \<Rightarrow> 'a list list" where
  "snapshot_chunks k xs = (if xs = [] then [[]] else chunks_of (length xs) k xs)"

definition chunk_payload :: "string \<Rightarrow> string \<Rightarrow> nat \<Rightarrow> nat \<Rightarrow> snapshot_item list \<Rightarrow> dict" where
  "chunk_payload snapshot_id complete_hash n index chunk =
     v1 [(PStr ''snapshot_id'', PStr snapshot_id), (PStr ''chunk_index'', PInt (int index)), (PStr ''chunk_count'', PInt (int n)),
         (PStr ''complete_set_hash'', PStr complete_hash),
         (PStr ''observations'', PList (map snd (filter (\<lambda>it. fst it = ''observation'') chunk))),
         (PStr ''compatibility_receipts'', PList (map snd (filter (\<lambda>it. fst it = ''receipt'') chunk)))]"

text \<open>The writes of a sequence of payloads; the first that fails ends it.\<close>

fun node_write_all ::
    "node_config \<Rightarrow> (envelope \<Rightarrow> write_outcome) \<Rightarrow> envelope_kind \<Rightarrow> dict list \<Rightarrow> node_channel \<Rightarrow> unit node_result" where
  "node_write_all cfg io kind [] nc = (Inr (), [], nc)"
| "node_write_all cfg io kind (p # ps) nc =
     (case node_write cfg io kind p nc of
        (Inl err, sent, nc1) \<Rightarrow> (Inl err, sent, nc1)
      | (Inr u, sent, nc1) \<Rightarrow>
          (case node_write_all cfg io kind ps nc1 of (r, sent', nc2) \<Rightarrow> (r, sent @ sent', nc2)))"

definition default_snapshot_id :: "node_config \<Rightarrow> string \<Rightarrow> string \<Rightarrow> string" where
  "default_snapshot_id cfg snapshot_id complete_hash =
     (if snapshot_id \<noteq> [] then snapshot_id else ''snap-'' @ show_int (nd_rank cfg) @ ''-'' @ take 12 complete_hash)"

definition snapshot_items :: "component_observation list \<Rightarrow> dict list \<Rightarrow> snapshot_item list" where
  "snapshot_items observations receipts =
     map (\<lambda>obs. (''observation'', obs_to_dict obs)) observations @ map (\<lambda>r. (''receipt'', PDict r)) receipts"

definition snapshot_limit_checks ::
    "control_limits \<Rightarrow> (real \<Rightarrow> string) \<Rightarrow> int \<Rightarrow> snapshot_item list \<Rightarrow> (bool \<times> node_error) list" where
  "snapshot_limit_checks limits fl k items =
     [(k < 1, refuse ''chunk_items must be positive''),
      (max_snapshot_items limits < int (length items), refuse ''snapshot exceeds max_snapshot_items''),
      (case dumps fl (items_value items) of None \<Rightarrow> True | Some t \<Rightarrow> max_snapshot_bytes limits < int (length t),
        refuse ''snapshot exceeds max_snapshot_bytes''),
      (max_snapshot_chunks limits < int (length (snapshot_chunks (nat k) items)), refuse ''snapshot exceeds max_snapshot_chunks'')]"

definition send_snapshot ::
    "node_config \<Rightarrow> (envelope \<Rightarrow> write_outcome) \<Rightarrow> component_observation list \<Rightarrow> dict list \<Rightarrow> string \<Rightarrow> int \<Rightarrow> node_channel \<Rightarrow> string node_result" where
  "send_snapshot cfg io observations receipts snapshot_id k nc =
     (case canonical_snapshot_items (nd_float cfg) (snapshot_items observations receipts) of
        Inl err \<Rightarrow> (Inl (Contract err), [], nc)
      | Inr items \<Rightarrow>
          (case snapshot_set_hash (nd_float cfg) (nd_sha cfg) items of
             Inl err \<Rightarrow> (Inl (Contract err), [], nc)
           | Inr complete_hash \<Rightarrow>
               let sid = default_snapshot_id cfg snapshot_id complete_hash; chunks = snapshot_chunks (nat k) items;
                   previous = map_of (nc_snapshot_hashes nc) sid
               in case first_failure (snapshot_limit_checks (nc_limits nc) (nd_float cfg) k items @
                      [(previous \<noteq> None \<and> previous \<noteq> Some complete_hash, refuse ''snapshot_id was already used differently''),
                       (previous = None \<and> nc_snapshot_hashes nc \<noteq> [], refuse ''only one local snapshot may be in flight'')]) of
                    Some err \<Rightarrow> (Inl err, [], nc)
                  | None \<Rightarrow>
                      let nc1 = nc\<lparr>nc_snapshot_hashes := AList.update sid complete_hash (nc_snapshot_hashes nc)\<rparr>
                      in case node_write_all cfg io SNAPSHOT
                                (map (\<lambda>(i, chunk). chunk_payload sid complete_hash (length chunks) i chunk) (enumerate 0 chunks)) nc1 of
                           (Inl err, sent, nc2) \<Rightarrow> (Inl err, sent, nc2)
                         | (Inr u, sent, nc2) \<Rightarrow> (Inr sid, sent, nc2)))"

section \<open>Reading from the head\<close>

text \<open>What the next read gives within its time: an envelope, a frame that is refused, the end of the connection, or nothing.\<close>

datatype head_input = Arrived envelope | BadFrame contract_error | HeadGone | Silent

definition validate_head_envelope :: "node_config \<Rightarrow> envelope \<Rightarrow> node_channel \<Rightarrow> node_error + node_channel" where
  "validate_head_envelope cfg env nc =
     checked
       [(en_deployment_id env \<noteq> nd_deployment_id cfg \<or> en_plan_hash env \<noteq> nd_plan_hash cfg \<or>
           en_generation env \<noteq> nd_generation cfg \<or> en_sender_rank env \<noteq> supervisor_rank,
         refuse ''supervisor envelope identity mismatch''),
        (en_seq env \<le> nc_head_seq nc, Contract (ContractError SEQUENCE_REGRESSION []))]
       (nc\<lparr>nc_head_seq := en_seq env\<rparr>)"

definition read_head :: "node_config \<Rightarrow> head_input \<Rightarrow> node_channel \<Rightarrow> node_error + envelope \<times> node_channel" where
  "read_head cfg inp nc =
     (case inp of
        Arrived env \<Rightarrow> and_then (validate_head_envelope cfg env nc) (\<lambda>nc1. Inr (env, nc1))
      | BadFrame err \<Rightarrow> Inl (Contract err)
      | HeadGone \<Rightarrow> Inl Disconnected
      | Silent \<Rightarrow> Inl TimedOut)"

definition read_head_envelope :: "node_config \<Rightarrow> head_input \<Rightarrow> node_channel \<Rightarrow> node_error + envelope \<times> node_channel" where
  "read_head_envelope cfg inp nc = (if \<not> nc_reader nc then Inl Disconnected else read_head cfg inp nc)"

section \<open>Registration\<close>

definition limit_timings :: "string list" where
  "limit_timings = [''registration_deadline_s'', ''heartbeat_interval_s'', ''lease_timeout_s'', ''reconnect_grace_s'',
     ''snapshot_assembly_deadline_s'', ''watchdog_cleanup_deadline_s'']"

definition limit_counts :: "string list" where
  "limit_counts = [''max_frame_bytes'', ''max_snapshot_chunks'', ''max_snapshot_bytes'', ''max_snapshot_items'']"

definition positive_number :: "pyval \<Rightarrow> bool" where
  "positive_number v = (case as_number v of None \<Rightarrow> False | Some r \<Rightarrow> 0 < r)"

definition the_number :: "pyval \<Rightarrow> real" where
  "the_number v = (case as_number v of None \<Rightarrow> 0 | Some r \<Rightarrow> r)"

definition read_limits :: "dict \<Rightarrow> control_limits" where
  "read_limits d =
     \<lparr>registration_deadline_s = the_number (field d ''registration_deadline_s''), reconnect_grace_s = the_number (field d ''reconnect_grace_s''),
      heartbeat_interval_s = the_number (field d ''heartbeat_interval_s''), lease_timeout_s = the_number (field d ''lease_timeout_s''),
      snapshot_assembly_deadline_s = the_number (field d ''snapshot_assembly_deadline_s''),
      watchdog_cleanup_deadline_s = the_number (field d ''watchdog_cleanup_deadline_s''),
      max_frame_bytes = the_int (field d ''max_frame_bytes''), max_snapshot_chunks = the_int (field d ''max_snapshot_chunks''),
      max_snapshot_bytes = the_int (field d ''max_snapshot_bytes''), max_snapshot_items = the_int (field d ''max_snapshot_items''),
      evidence_backed = False\<rparr>"

text \<open>
  The acknowledgment of a registration. The names of the limits are visited in the order of a set; a limit
  that overflows is found here before those that are not positive numbers.
\<close>

definition ack_checks :: "envelope \<Rightarrow> (bool \<times> node_error) list" where
  "ack_checks ack =
     (let p = en_payload ack in
      [(\<not> (en_kind ack = COMMAND_RESULT \<and>
           has_keys p [''payload_version'', ''command_id'', ''operation'', ''ok'', ''control_limits''] \<and> payload_v1 p \<and>
           field p ''operation'' = PStr ''REGISTER'' \<and> field p ''command_id'' = PStr ''register'' \<and> field p ''ok'' = PBool True),
        refuse ''registration not acknowledged'')] @
      (case field p ''control_limits'' of
         PDict limits \<Rightarrow>
           [(\<not> has_keys limits (limit_timings @ limit_counts), refuse ''registration acknowledgment has invalid control limits''),
            (list_ex (\<lambda>k. float_overflows (field limits k)) limit_timings, OtherError),
            (\<not> list_all (\<lambda>k. positive_number (field limits k)) limit_timings,
              refuse ''registration acknowledgment has invalid control limits''),
            (\<not> list_all (\<lambda>k. int_at_least 1 (field limits k)) limit_counts,
              refuse ''registration acknowledgment has invalid control limits'')]
       | _ \<Rightarrow> [(True, refuse ''registration acknowledgment omitted control limits'')]))"

definition adopt_limits :: "dict \<Rightarrow> node_channel \<Rightarrow> node_channel" where
  "adopt_limits p nc =
     (case field p ''control_limits'' of
        PDict limits \<Rightarrow> nc\<lparr>nc_control_limits := limits, nc_limits := read_limits limits\<rparr>
      | _ \<Rightarrow> nc)"

text \<open>The previous connection closes, a new one opens, a write is done and the acknowledgment is read.\<close>

record connect_io =
  ci_cleanup :: bool
  ci_open :: bool
  ci_write :: "envelope \<Rightarrow> write_outcome"
  ci_ack :: head_input

definition register_payload :: "node_config \<Rightarrow> string \<Rightarrow> dict" where
  "register_payload cfg instance_id =
     v1 [(PStr ''instance_id'', PStr (if instance_id \<noteq> [] then instance_id else nd_node_id cfg @ '':supervisor''))]"

definition connect_and_register :: "node_config \<Rightarrow> connect_io \<Rightarrow> string \<Rightarrow> node_channel \<Rightarrow> unit node_result" where
  "connect_and_register cfg io instance_id nc =
     (let nc0 = (if nc_writer nc then nc\<lparr>nc_writer := False, nc_reader := False\<rparr> else nc) in
      if nc_writer nc \<and> \<not> ci_cleanup io \<or> \<not> ci_open io then (Inl Disconnected, [], nc0)
      else case node_write cfg (ci_write io) REGISTER (register_payload cfg instance_id) (nc0\<lparr>nc_writer := True, nc_reader := True\<rparr>) of
        (Inl err, sent, nc1) \<Rightarrow> (Inl err, sent, nc1)
      | (Inr u, sent, nc1) \<Rightarrow>
          (case read_head cfg (ci_ack io) nc1 of
             Inl err \<Rightarrow> (Inl err, sent, nc1)
           | Inr (ack, nc2) \<Rightarrow>
               (case first_failure (ack_checks ack) of
                  Some err \<Rightarrow> (Inl err, sent, nc2)
                | None \<Rightarrow> (Inr (), sent, adopt_limits (en_payload ack) nc2))))"

section \<open>Commands and their results\<close>

definition command_name :: "dict \<Rightarrow> string" where
  "command_name p = the_str (field p ''command_id'')"

definition same_dict :: "dict \<Rightarrow> dict \<Rightarrow> bool" where
  "same_dict p q = py_eq (PDict p) (PDict q)"

definition remember_received_command :: "dict \<Rightarrow> node_channel \<Rightarrow> node_error + dict \<times> node_channel" where
  "remember_received_command command nc =
     (case map_of (nc_received_commands nc) (command_name command) of
        Some previous \<Rightarrow>
          if \<not> same_dict previous command then Inl (refuse ''conflicting duplicate COMMAND'') else Inr (previous, nc)
      | None \<Rightarrow>
          if max_command_records \<le> length (nc_received_commands nc)
          then Inl (refuse ''rank command identity capacity exhausted'')
          else Inr (command, nc\<lparr>nc_received_commands := AList.update (command_name command) command (nc_received_commands nc)\<rparr>))"

definition queue_head_command :: "dict \<Rightarrow> node_channel \<Rightarrow> node_error + node_channel" where
  "queue_head_command p nc =
     (case validate_command_payload p of
        Inl err \<Rightarrow> Inl (Contract err)
      | Inr command \<Rightarrow>
          if max_pending_head_commands \<le> length (nc_pending_head_commands nc)
          then Inl (refuse ''pending supervisor command queue capacity exhausted'')
          else Inr (nc\<lparr>nc_pending_head_commands := nc_pending_head_commands nc @ [command]\<rparr>))"

text \<open>The command that \<^verbatim>\<open>receive_command\<close> takes up: the oldest queued one, else the next of the head; \<open>None\<close> when none came in time.\<close>

definition next_command :: "node_config \<Rightarrow> head_input \<Rightarrow> node_channel \<Rightarrow> (node_error + dict option) \<times> node_channel" where
  "next_command cfg inp nc =
     (case nc_pending_head_commands nc of
        p # ps \<Rightarrow>
          ((case validate_command_payload p of Inl err \<Rightarrow> Inl (Contract err) | Inr command \<Rightarrow> Inr (Some command)),
           nc\<lparr>nc_pending_head_commands := ps\<rparr>)
      | [] \<Rightarrow>
          (case read_head_envelope cfg inp nc of
             Inl TimedOut \<Rightarrow> (Inr None, nc)
           | Inl err \<Rightarrow> (Inl err, nc)
           | Inr (env, nc1) \<Rightarrow>
               (if en_kind env \<noteq> COMMAND then Inl (refuse ''expected COMMAND'')
                else case validate_command_payload (en_payload env) of Inl err \<Rightarrow> Inl (Contract err) | Inr command \<Rightarrow> Inr (Some command),
                nc1)))"

definition receive_command :: "node_config \<Rightarrow> head_input \<Rightarrow> node_channel \<Rightarrow> (node_error + dict option) \<times> node_channel" where
  "receive_command cfg inp nc =
     (case next_command cfg inp nc of
        (Inl err, nc1) \<Rightarrow> (Inl err, nc1)
      | (Inr None, nc1) \<Rightarrow> (Inr None, nc1)
      | (Inr (Some command), nc1) \<Rightarrow>
          (case remember_received_command command nc1 of
             Inl err \<Rightarrow> (Inl err, nc1)
           | Inr (remembered, nc2) \<Rightarrow> (Inr (Some remembered), nc2)))"

definition result_body :: "string \<Rightarrow> bool \<Rightarrow> string \<Rightarrow> string \<Rightarrow> string option \<Rightarrow> dict \<Rightarrow> dict" where
  "result_body command_id ok detail operation status payload =
     v1 [(PStr ''command_id'', PStr command_id), (PStr ''operation'', PStr operation), (PStr ''ok'', PBool ok), (PStr ''detail'', PStr detail),
         (PStr ''status'', PStr (case status of Some s \<Rightarrow> s | None \<Rightarrow> if ok then ''SUCCEEDED'' else ''FAILED''))] @ payload"

definition argument_checks :: "string \<Rightarrow> string \<Rightarrow> string option \<Rightarrow> dict \<Rightarrow> (bool \<times> node_error) list" where
  "argument_checks command_id operation status payload =
     [(command_id = [], refuse ''command result command_id''), (operation = [], refuse ''command result operation''),
      (case status of None \<Rightarrow> False | Some s \<Rightarrow> s \<notin> {''SUCCEEDED'', ''FAILED''}, refuse ''command result status is unsupported''),
      (list_ex (\<lambda>k. PStr k \<in> set (map fst payload)) result_fields, refuse ''command result payload cannot replace reserved fields'')]"

definition request_checks :: "dict \<Rightarrow> string \<Rightarrow> dict \<Rightarrow> (bool \<times> node_error) list" where
  "request_checks request operation body =
     [(field request ''operation'' \<noteq> PStr operation, refuse ''command result operation disagrees with received command''),
      (operation = ''SNAPSHOT_ACCEPTED'' \<and> list_ex (\<lambda>k. \<not> py_eq (field request k) (field body k)) snapshot_fields,
        refuse ''snapshot command result identity disagrees with received command'')]"

text \<open>The result that may be sent: the checks of \<^verbatim>\<open>send_command_result\<close> before its write.\<close>

definition prepare_result ::
    "string \<Rightarrow> bool \<Rightarrow> string \<Rightarrow> string \<Rightarrow> string option \<Rightarrow> dict \<Rightarrow> node_channel \<Rightarrow> node_error + dict" where
  "prepare_result command_id ok detail operation status payload nc =
     (let body = result_body command_id ok detail operation status payload in
      and_then (checked (argument_checks command_id operation status payload) ()) (\<lambda>_.
      and_then (case map_of (nc_received_commands nc) command_id of
          None \<Rightarrow> Inl (refuse ''cannot answer unreceived command'')
        | Some request \<Rightarrow> checked (request_checks request operation body) ()) (\<lambda>_.
      and_then (case validate_command_result_payload body of
          Inl (PayloadError detail) \<Rightarrow> Inl (refuse detail) | Inl Unhashable \<Rightarrow> Inl OtherError | Inr p \<Rightarrow> Inr p) (\<lambda>validated.
      checked
        (case map_of (nc_command_results nc) command_id of
           Some previous \<Rightarrow> [(\<not> same_dict previous validated, refuse ''conflicting result for command'')]
         | None \<Rightarrow> [(max_command_records \<le> length (nc_command_results nc), refuse ''rank command-result capacity exhausted'')])
        validated))))"

definition send_command_result ::
    "node_config \<Rightarrow> (envelope \<Rightarrow> write_outcome) \<Rightarrow> string \<Rightarrow> bool \<Rightarrow> string \<Rightarrow> string \<Rightarrow> string option \<Rightarrow> dict
      \<Rightarrow> node_channel \<Rightarrow> unit node_result" where
  "send_command_result cfg io command_id ok detail operation status payload nc =
     (case prepare_result command_id ok detail operation status payload nc of
        Inl err \<Rightarrow> (Inl err, [], nc)
      | Inr validated \<Rightarrow>
          (case node_write cfg io COMMAND_RESULT validated nc of
             (Inl err, sent, nc1) \<Rightarrow> (Inl err, sent, nc1)
           | (Inr u, sent, nc1) \<Rightarrow>
               (Inr (), sent, nc1\<lparr>nc_command_results := AList.update command_id validated (nc_command_results nc1)\<rparr>)))"

definition replay_command_result :: "node_config \<Rightarrow> (envelope \<Rightarrow> write_outcome) \<Rightarrow> dict \<Rightarrow> node_channel \<Rightarrow> bool node_result" where
  "replay_command_result cfg io command nc =
     (if \<not> nonempty_str (field command ''command_id'') then (Inl (refuse ''command replay requires a nonempty command_id''), [], nc)
      else case map_of (nc_command_results nc) (command_name command) of
        None \<Rightarrow> (Inr False, [], nc)
      | Some result \<Rightarrow>
          if (case map_of (nc_received_commands nc) (command_name command) of None \<Rightarrow> True | Some previous \<Rightarrow> \<not> same_dict previous command)
          then (Inl (refuse ''conflicting duplicate COMMAND''), [], nc)
          else case node_write cfg io COMMAND_RESULT result nc of
            (Inl err, sent, nc1) \<Rightarrow> (Inl err, sent, nc1)
          | (Inr u, sent, nc1) \<Rightarrow> (Inr True, sent, nc1))"

definition accepted_command_ok :: "string \<Rightarrow> string \<Rightarrow> dict \<Rightarrow> bool" where
  "accepted_command_ok snapshot_id expected_hash command =
     (py_eq (field command ''payload_version'') (PInt 1) \<and> field command ''operation'' = PStr ''SNAPSHOT_ACCEPTED'' \<and>
      field command ''snapshot_id'' = PStr snapshot_id \<and> field command ''complete_set_hash'' = PStr expected_hash \<and>
      nonempty_str (field command ''command_id''))"

definition await_snapshot_accepted ::
    "node_config \<Rightarrow> (envelope \<Rightarrow> write_outcome) \<Rightarrow> string \<Rightarrow> head_input \<Rightarrow> node_channel \<Rightarrow> bool node_result" where
  "await_snapshot_accepted cfg io snapshot_id inp nc =
     (case map_of (nc_snapshot_hashes nc) snapshot_id of
        None \<Rightarrow> (Inl (refuse ''unknown local snapshot''), [], nc)
      | Some expected_hash \<Rightarrow>
          (case receive_command cfg inp nc of
             (Inl err, nc1) \<Rightarrow> (Inl err, [], nc1)
           | (Inr None, nc1) \<Rightarrow> (Inr False, [], nc1)
           | (Inr (Some command), nc1) \<Rightarrow>
               if \<not> accepted_command_ok snapshot_id expected_hash command
               then (Inl (refuse ''SNAPSHOT_ACCEPTED command mismatch''), [], nc1)
               else case send_command_result cfg io (command_name command) True [] ''SNAPSHOT_ACCEPTED'' (Some ''SUCCEEDED'')
                           (snapshot_command_payload snapshot_id expected_hash) nc1 of
                 (Inl err, sent, nc2) \<Rightarrow> (Inl err, sent, nc2)
               | (Inr u, sent, nc2) \<Rightarrow>
                   (Inr True, sent, nc2\<lparr>nc_snapshot_hashes := AList.delete snapshot_id (nc_snapshot_hashes nc2)\<rparr>)))"

section \<open>Heartbeats\<close>

definition heartbeat_name :: "node_config \<Rightarrow> node_channel \<Rightarrow> string" where
  "heartbeat_name cfg nc = show_int (nd_rank cfg) @ '':'' @ show_int (nc_heartbeat_counter nc)"

definition send_heartbeat :: "node_config \<Rightarrow> (envelope \<Rightarrow> write_outcome) \<Rightarrow> node_channel \<Rightarrow> unit node_result" where
  "send_heartbeat cfg io nc =
     (let nc1 = nc\<lparr>nc_heartbeat_counter := nc_heartbeat_counter nc + 1\<rparr>
      in node_write cfg io HEARTBEAT (v1 [(PStr ''heartbeat_id'', PStr (heartbeat_name cfg nc1))]) nc1)"

definition is_echo :: "string \<Rightarrow> envelope \<Rightarrow> bool" where
  "is_echo heartbeat_id env =
     (en_kind env = HEARTBEAT \<and> has_keys (en_payload env) [''payload_version'', ''heartbeat_id''] \<and> payload_v1 (en_payload env) \<and>
      field (en_payload env) ''heartbeat_id'' = PStr heartbeat_id)"

text \<open>
  The loop of \<^verbatim>\<open>heartbeat_round_trip\<close>: the reads, each with the time that is left before it; a read without
  an entry times out.
\<close>

fun await_echo ::
    "node_config \<Rightarrow> string \<Rightarrow> (real \<times> head_input) list \<Rightarrow> node_channel \<Rightarrow> (node_error + bool) \<times> node_channel" where
  "await_echo cfg heartbeat_id [] nc = (Inl TimedOut, nc)"
| "await_echo cfg heartbeat_id ((remaining, inp) # reads) nc =
     (if remaining \<le> 0 then (Inr False, nc)
      else case read_head_envelope cfg inp nc of
        Inl err \<Rightarrow> (Inl err, nc)
      | Inr (env, nc1) \<Rightarrow>
          if en_kind env = COMMAND
          then (case queue_head_command (en_payload env) nc1 of
                  Inl err \<Rightarrow> (Inl err, nc1) | Inr nc2 \<Rightarrow> await_echo cfg heartbeat_id reads nc2)
          else (if is_echo heartbeat_id env then Inr True else Inl (refuse ''unexpected envelope during heartbeat''), nc1))"

definition heartbeat_round_trip ::
    "node_config \<Rightarrow> (envelope \<Rightarrow> write_outcome) \<Rightarrow> (real \<times> head_input) list \<Rightarrow> node_channel \<Rightarrow> bool node_result" where
  "heartbeat_round_trip cfg io reads nc =
     (let name = heartbeat_name cfg (nc\<lparr>nc_heartbeat_counter := nc_heartbeat_counter nc + 1\<rparr>) in
      case send_heartbeat cfg io nc of
        (Inl err, sent, nc1) \<Rightarrow> (Inl err, sent, nc1)
      | (Inr u, sent, nc1) \<Rightarrow> (case await_echo cfg name reads nc1 of (r, nc2) \<Rightarrow> (r, sent, nc2)))"

section \<open>Runs of a rank channel\<close>

datatype node_op =
    ConnectOp connect_io string
  | ObservationOp "envelope \<Rightarrow> write_outcome" component_observation "dict option"
  | SnapshotOp "envelope \<Rightarrow> write_outcome" "component_observation list" "dict list" string int
  | AwaitOp "envelope \<Rightarrow> write_outcome" string head_input
  | HeartbeatOp "envelope \<Rightarrow> write_outcome"
  | RoundTripOp "envelope \<Rightarrow> write_outcome" "(real \<times> head_input) list"
  | ReceiveOp head_input
  | ReplayOp "envelope \<Rightarrow> write_outcome" dict
  | ReceiptOp "envelope \<Rightarrow> write_outcome" dict
  | ResultOp "envelope \<Rightarrow> write_outcome" string bool string string "string option" dict
  | DropOp
  | CloseOp "envelope \<Rightarrow> write_outcome" bool bool

text \<open>What is left of a call when its result is not looked at.\<close>

fun run_node_op :: "node_config \<Rightarrow> node_op \<Rightarrow> node_channel \<Rightarrow> envelope list \<times> node_channel" where
  "run_node_op cfg (ConnectOp io instance_id) nc = snd (connect_and_register cfg io instance_id nc)"
| "run_node_op cfg (ObservationOp io obs receipt) nc = snd (send_observation cfg io obs receipt nc)"
| "run_node_op cfg (SnapshotOp io os rs snapshot_id k) nc = snd (send_snapshot cfg io os rs snapshot_id k nc)"
| "run_node_op cfg (AwaitOp io snapshot_id inp) nc = snd (await_snapshot_accepted cfg io snapshot_id inp nc)"
| "run_node_op cfg (HeartbeatOp io) nc = snd (send_heartbeat cfg io nc)"
| "run_node_op cfg (RoundTripOp io reads) nc = snd (heartbeat_round_trip cfg io reads nc)"
| "run_node_op cfg (ReceiveOp inp) nc = ([], snd (receive_command cfg inp nc))"
| "run_node_op cfg (ReplayOp io command) nc = snd (replay_command_result cfg io command nc)"
| "run_node_op cfg (ReceiptOp io receipt) nc = snd (send_receipt cfg io receipt nc)"
| "run_node_op cfg (ResultOp io command_id ok detail operation status payload) nc =
     snd (send_command_result cfg io command_id ok detail operation status payload nc)"
| "run_node_op cfg DropOp nc = ([], drop_connection nc)"
| "run_node_op cfg (CloseOp io closes expected) nc = snd (close_channel cfg io closes expected nc)"

inductive node_run :: "node_config \<Rightarrow> control_limits \<Rightarrow> node_channel \<Rightarrow> envelope list \<Rightarrow> bool"
  for cfg limits where
  init: "node_run cfg limits (new_node_channel limits) []"
| step: "node_run cfg limits nc es \<Longrightarrow> run_node_op cfg op nc = (sent, nc') \<Longrightarrow> node_run cfg limits nc' (es @ sent)"

section \<open>Invariant of a rank channel\<close>

definition own_envelope :: "node_config \<Rightarrow> envelope \<Rightarrow> bool" where
  "own_envelope cfg env \<longleftrightarrow>
     en_deployment_id env = nd_deployment_id cfg \<and> en_plan_hash env = nd_plan_hash cfg \<and> en_generation env = nd_generation cfg \<and>
     en_sender_rank env = nd_rank cfg \<and> en_sender_node env = nd_node_id cfg"

definition sent_in_order :: "node_config \<Rightarrow> node_channel \<Rightarrow> envelope list \<Rightarrow> bool" where
  "sent_in_order cfg nc es \<longleftrightarrow>
     sorted_wrt (<) (map en_seq es) \<and> (\<forall>e \<in> set es. own_envelope cfg e \<and> en_seq e \<le> nc_seq nc)"

text \<open>A result answers the received command of its name, with the operation of that command.\<close>

definition answers :: "node_channel \<Rightarrow> string \<Rightarrow> dict \<Rightarrow> bool" where
  "answers nc command_id result \<longleftrightarrow>
     field result ''command_id'' = PStr command_id \<and> validate_command_result_payload result = Inr result \<and>
     (\<exists>command. map_of (nc_received_commands nc) command_id = Some command \<and> field command ''operation'' = field result ''operation'')"

definition recorded :: "node_channel \<Rightarrow> dict \<Rightarrow> bool" where
  "recorded nc p \<longleftrightarrow>
     (\<exists>command_id result. map_of (nc_command_results nc) command_id = Some result \<and> same_dict result p \<and> answers nc command_id p)"

definition memory_ok :: "node_channel \<Rightarrow> envelope list \<Rightarrow> bool" where
  "memory_ok nc es \<longleftrightarrow>
     length (nc_received_commands nc) \<le> max_command_records \<and> length (nc_command_results nc) \<le> max_command_records \<and>
     length (nc_pending_head_commands nc) \<le> max_pending_head_commands \<and> length (nc_snapshot_hashes nc) \<le> 1 \<and>
     (\<forall>command_id result. map_of (nc_command_results nc) command_id = Some result \<longrightarrow> answers nc command_id result) \<and>
     (\<forall>e \<in> set es. en_kind e = COMMAND_RESULT \<longrightarrow> recorded nc (en_payload e))"

definition node_inv :: "node_config \<Rightarrow> node_channel \<Rightarrow> envelope list \<Rightarrow> bool" where
  "node_inv cfg nc es \<longleftrightarrow> sent_in_order cfg nc es \<and> memory_ok nc es"

text \<open>The memories of a channel.\<close>

definition same_memory :: "node_channel \<Rightarrow> node_channel \<Rightarrow> bool" where
  "same_memory nc nc' \<longleftrightarrow>
     nc_received_commands nc' = nc_received_commands nc \<and> nc_command_results nc' = nc_command_results nc \<and>
     nc_pending_head_commands nc' = nc_pending_head_commands nc \<and> nc_snapshot_hashes nc' = nc_snapshot_hashes nc"

lemma same_memory_ok: "same_memory nc nc' \<Longrightarrow> memory_ok nc' es = memory_ok nc es"
  by (simp add: same_memory_def memory_ok_def answers_def recorded_def)

lemma same_dict_trans: "same_dict p q \<Longrightarrow> same_dict q r \<Longrightarrow> same_dict p r"
  by (simp add: same_dict_def py_eq_def)

lemma same_dict_sym: "same_dict p q \<Longrightarrow> same_dict q p"
  by (simp add: same_dict_def py_eq_def)

lemma same_dict_refl [simp]: "same_dict p p"
  by (simp add: same_dict_def py_eq_def)

text \<open>What a write does to the channel.\<close>

lemma node_write_frame:
  assumes "node_write cfg io kind p nc = (r, sent, nc')"
  shows "same_memory nc nc' \<and> nc_seq nc \<le> nc_seq nc' \<and>
    (sent = [] \<or> sent = [fst (node_env cfg kind p nc)] \<and> r = Inr () \<and> nc_seq nc' = nc_seq nc + 1)"
  using assms
  by (auto simp: node_write_def node_env_def Let_def same_memory_def split: if_splits write_outcome.splits)

lemma sent_in_order_mono: "sent_in_order cfg nc es \<Longrightarrow> nc_seq nc \<le> nc_seq nc' \<Longrightarrow> sent_in_order cfg nc' es"
  by (fastforce simp: sent_in_order_def)

lemma node_write_order:
  assumes "node_write cfg io kind p nc = (r, sent, nc')" "sent_in_order cfg nc es"
  shows "sent_in_order cfg nc' (es @ sent)"
  using assms(2) node_write_frame [OF assms(1)]
  by (auto simp: sent_in_order_def sorted_wrt_append node_env_def Let_def own_envelope_def intro: order_trans)

lemma node_write_inv:
  assumes "node_write cfg io kind p nc = (r, sent, nc')" "node_inv cfg nc es" "kind \<noteq> COMMAND_RESULT"
  shows "node_inv cfg nc' (es @ sent)"
proof -
  have "memory_ok nc (es @ sent)"
    using assms(2,3) node_write_frame [OF assms(1)] by (auto simp: node_inv_def memory_ok_def node_env_def Let_def)
  then show ?thesis
    using node_write_order [OF assms(1)] node_write_frame [OF assms(1)] assms(2) same_memory_ok [of nc nc']
    by (simp add: node_inv_def)
qed

lemma inv_same: "node_inv cfg nc es \<Longrightarrow> same_memory nc nc' \<Longrightarrow> nc_seq nc \<le> nc_seq nc' \<Longrightarrow> node_inv cfg nc' es"
  using sent_in_order_mono [of cfg nc es nc'] same_memory_ok [of nc nc' es] by (simp add: node_inv_def)

lemma node_write_all_same: "node_write_all cfg io kind ps nc = (r, sent, nc') \<Longrightarrow> same_memory nc nc'"
proof (induction ps arbitrary: nc sent r nc')
  case (Cons p ps)
  obtain r1 s1 nc1 where w: "node_write cfg io kind p nc = (r1, s1, nc1)" by (rule prod_cases3)
  then have "same_memory nc nc1" using node_write_frame by blast
  then show ?case using Cons w by (cases r1) (fastforce simp: same_memory_def split: prod.splits)+
qed (simp add: same_memory_def)

lemma node_write_all_inv:
  "node_write_all cfg io kind ps nc = (r, sent, nc') \<Longrightarrow> node_inv cfg nc es \<Longrightarrow> kind \<noteq> COMMAND_RESULT \<Longrightarrow> node_inv cfg nc' (es @ sent)"
proof (induction ps arbitrary: nc es sent r nc')
  case (Cons p ps)
  obtain r1 s1 nc1 where w: "node_write cfg io kind p nc = (r1, s1, nc1)" by (rule prod_cases3)
  have inv: "node_inv cfg nc1 (es @ s1)" by (rule node_write_inv [OF w Cons.prems(2,3)])
  show ?case
  proof (cases r1)
    case (Inr u)
    obtain r2 s2 nc2 where w2: "node_write_all cfg io kind ps nc1 = (r2, s2, nc2)" by (rule prod_cases3)
    have "node_inv cfg nc2 ((es @ s1) @ s2)" by (rule Cons.IH [OF w2 inv Cons.prems(3)])
    then show ?thesis using Cons.prems(1) w w2 Inr by auto
  qed (use Cons.prems(1) w inv in auto)
qed simp

lemma read_head_frame:
  "read_head cfg inp nc = Inr (env, nc') \<Longrightarrow> nc' = nc\<lparr>nc_head_seq := en_seq env\<rparr>"
  by (auto simp: read_head_def validate_head_envelope_def check_simps split: head_input.splits)

lemma read_head_same: "read_head cfg inp nc = Inr (env, nc') \<Longrightarrow> same_memory nc nc' \<and> nc_seq nc' = nc_seq nc"
  using read_head_frame by (fastforce simp: same_memory_def)

lemma connect_inv:
  assumes "connect_and_register cfg io instance_id nc = (r, sent, nc')" "node_inv cfg nc es"
  shows "node_inv cfg nc' (es @ sent)"
proof -
  let ?nc = "nc\<lparr>nc_writer := True, nc_reader := True\<rparr>"
  have 0: "node_inv cfg (nc\<lparr>nc_writer := a, nc_reader := b\<rparr>) es" for a b
    using assms(2) by (auto intro: inv_same simp: same_memory_def)
  obtain r1 s1 nc1 where w: "node_write cfg (ci_write io) REGISTER (register_payload cfg instance_id) ?nc = (r1, s1, nc1)"
    by (rule prod_cases3)
  have 1: "node_inv cfg nc1 (es @ s1)" using node_write_inv [OF w 0] by simp
  have 2: "node_inv cfg nc2 (es @ s1)" "node_inv cfg (adopt_limits p nc2) (es @ s1)"
    if "read_head cfg (ci_ack io) nc1 = Inr (ack, nc2)" for ack p nc2
    using read_head_same [OF that] 1 by (auto intro!: inv_same [OF 1] simp: adopt_limits_def same_memory_def split: pyval.splits)
  show ?thesis
    using assms 0 1 2 w
    by (auto simp: connect_and_register_def Let_def simp del: first_failure.simps split: if_splits sum.splits option.splits)
qed

lemma send_snapshot_inv:
  assumes "send_snapshot cfg io os rs snapshot_id k nc = (r, sent, nc')" "node_inv cfg nc es"
  shows "node_inv cfg nc' (es @ sent)"
proof -
  have "length (AList.update sid h (nc_snapshot_hashes nc)) \<le> 1"
    if "\<not> (map_of (nc_snapshot_hashes nc) sid = None \<and> nc_snapshot_hashes nc \<noteq> [])" for sid h
    using that assms(2) unfolding update_length by (auto simp: node_inv_def memory_ok_def map_of_eq_None_keys)
  then have upd: "node_inv cfg (nc\<lparr>nc_snapshot_hashes := AList.update sid h (nc_snapshot_hashes nc)\<rparr>) es"
    if "\<not> (map_of (nc_snapshot_hashes nc) sid = None \<and> nc_snapshot_hashes nc \<noteq> [])" for sid h
    using that assms(2) by (simp add: node_inv_def memory_ok_def sent_in_order_def answers_def recorded_def)
  have wall: "node_inv cfg nc2 (es @ s)" if "node_write_all cfg io SNAPSHOT ps nc1 = (r1, s, nc2)" "node_inv cfg nc1 es" for ps nc1 r1 s nc2
    using node_write_all_inv [OF that] by simp
  have one: "node_inv cfg (nc\<lparr>nc_snapshot_hashes := [(sid, h)]\<rparr>) es" if "nc_snapshot_hashes nc = []" for sid h
    using upd [of sid h] that by simp
  show ?thesis
    using assms
    by (auto simp: send_snapshot_def Let_def check_simps split: sum.splits option.splits prod.splits intro!: upd one elim!: wall)
qed

lemma remember_inv:
  assumes "remember_received_command command nc = Inr (remembered, nc')" "node_inv cfg nc es"
  shows "node_inv cfg nc' es"
proof (cases "map_of (nc_received_commands nc) (command_name command)")
  case None
  let ?d = "AList.update (command_name command) command (nc_received_commands nc)"
  have nc': "nc' = nc\<lparr>nc_received_commands := ?d\<rparr>" "length (nc_received_commands nc) < max_command_records"
    using assms(1) None by (auto simp: remember_received_command_def split: if_splits)
  have "answers nc' i r" if "answers nc i r" for i r
    using that None by (auto simp: answers_def nc' update_conv)
  moreover from this have "recorded nc' p" if "recorded nc p" for p
    using that by (auto simp: recorded_def nc')
  moreover have "length ?d = Suc (length (nc_received_commands nc))"
    unfolding update_length using None by (simp add: map_of_eq_None_keys)
  ultimately show ?thesis
    using assms(2) nc' by (simp add: node_inv_def memory_ok_def sent_in_order_def)
qed (use assms in \<open>auto simp: remember_received_command_def split: if_splits\<close>)

lemma pending_inv:
  "node_inv cfg nc es \<Longrightarrow> length ps \<le> max_pending_head_commands \<Longrightarrow> node_inv cfg (nc\<lparr>nc_pending_head_commands := ps\<rparr>) es"
  by (simp add: node_inv_def memory_ok_def sent_in_order_def answers_def recorded_def)

lemma queue_inv: "queue_head_command p nc = Inr nc' \<Longrightarrow> node_inv cfg nc es \<Longrightarrow> node_inv cfg nc' es"
  by (auto simp: queue_head_command_def split: sum.splits if_splits intro!: pending_inv)

lemma read_envelope_inv:
  "read_head_envelope cfg inp nc = Inr (env, nc') \<Longrightarrow> node_inv cfg nc es \<Longrightarrow> node_inv cfg nc' es"
  using read_head_same [of cfg inp nc env nc'] inv_same by (auto simp: read_head_envelope_def split: if_splits)

lemma next_command_inv:
  assumes "next_command cfg inp nc = (r, nc')" "node_inv cfg nc es"
  shows "node_inv cfg nc' es"
proof (cases "nc_pending_head_commands nc")
  case Nil
  then have "nc' = nc \<or> (\<exists>env. read_head_envelope cfg inp nc = Inr (env, nc'))"
    using assms(1) by (auto simp: next_command_def split: sum.splits node_error.splits)
  then show ?thesis using assms(2) read_envelope_inv by blast
next
  case (Cons p ps)
  then have "nc' = nc\<lparr>nc_pending_head_commands := ps\<rparr>" using assms(1) by (simp add: next_command_def)
  moreover have "length ps \<le> max_pending_head_commands" using assms(2) Cons by (simp add: node_inv_def memory_ok_def)
  ultimately show ?thesis using pending_inv [OF assms(2)] by simp
qed

lemma receive_command_inv:
  assumes "receive_command cfg inp nc = (r, nc')" "node_inv cfg nc es"
  shows "node_inv cfg nc' es"
proof -
  obtain r1 nc1 where n: "next_command cfg inp nc = (r1, nc1)" by (rule prod.exhaust)
  then have "node_inv cfg nc1 es" using assms(2) by (rule next_command_inv)
  then show ?thesis
    using assms(1) n remember_inv by (auto simp: receive_command_def split: sum.splits option.splits)
qed

lemma prepare_result_answers:
  assumes "prepare_result command_id ok detail operation status payload nc = Inr result"
  shows "answers nc command_id result \<and>
    (case map_of (nc_command_results nc) command_id of
       None \<Rightarrow> length (nc_command_results nc) < max_command_records | Some previous \<Rightarrow> same_dict previous result)"
proof -
  have "field (result_body command_id ok detail operation status payload) ''command_id'' = PStr command_id"
    "field (result_body command_id ok detail operation status payload) ''operation'' = PStr operation"
    by (simp_all add: result_body_def v1_def field_def)
  then show ?thesis
    using assms
    by (auto simp: prepare_result_def Let_def check_simps answers_def validate_command_result_payload_def request_checks_def
        split: option.splits sum.splits payload_error.splits)
qed

lemma send_result_inv:
  assumes "send_command_result cfg io command_id ok detail operation status payload nc = (r, sent, nc')" "node_inv cfg nc es"
  shows "node_inv cfg nc' (es @ sent)"
proof (cases "prepare_result command_id ok detail operation status payload nc")
  case (Inr result)
  obtain r1 s1 nc1 where w: "node_write cfg io COMMAND_RESULT result nc = (r1, s1, nc1)" by (rule prod_cases3)
  note frame = node_write_frame [OF w]
  show ?thesis
  proof (cases r1)
    case Inl
    then have "sent = []" "nc' = nc1" using assms(1) Inr w frame by (auto simp: send_command_result_def)
    then show ?thesis using inv_same [OF assms(2)] frame by simp
  next
    case r1: (Inr u)
    let ?results = "AList.update command_id result (nc_command_results nc)"
    have nc': "sent = s1" "nc' = nc1\<lparr>nc_command_results := ?results\<rparr>"
      using assms(1) Inr w r1 frame by (auto simp: send_command_result_def same_memory_def)
    have s1: "s1 = [fst (node_env cfg COMMAND_RESULT result nc)]"
      using w r1 by (auto simp: node_write_def node_env_def Let_def split: if_splits write_outcome.splits)
    note ans = prepare_result_answers [OF Inr]
    have "length ?results = (if map_of (nc_command_results nc) command_id = None then Suc (length (nc_command_results nc))
        else length (nc_command_results nc))"
      unfolding update_length map_of_eq_None_keys by simp
    then have len: "length ?results \<le> max_command_records"
      using ans assms(2) by (auto simp: node_inv_def memory_ok_def split: option.splits)
    have same: "\<exists>result'. map_of ?results i = Some result' \<and> same_dict result' q"
      if "map_of (nc_command_results nc) i = Some p" "same_dict p q" for i p q
      using that ans by (auto simp: update_conv) (metis same_dict_trans same_dict_sym)
    have results: "nc_command_results nc' = ?results" "answers nc' = answers nc"
      using frame by (simp_all add: nc' answers_def [abs_def] same_memory_def)
    then have old: "recorded nc' q" if "recorded nc q" for q
      using that same unfolding recorded_def results by blast
    have new: "recorded nc' result" using ans unfolding recorded_def results by (auto simp: update_conv)
    have "answers nc i r" if "map_of ?results i = Some r" for i r
      using that assms(2) ans by (auto simp: node_inv_def memory_ok_def update_conv split: if_splits)
    then have "memory_ok nc' (es @ sent)"
      using assms(2) frame len old new unfolding node_inv_def memory_ok_def results
      by (auto simp: nc' s1 same_memory_def node_env_def Let_def)
    moreover have "sent_in_order cfg nc' (es @ sent)"
      using sent_in_order_mono [OF node_write_order [OF w]] assms(2) nc' by (simp add: node_inv_def)
    ultimately show ?thesis by (simp add: node_inv_def)
  qed
qed (use assms in \<open>auto simp: send_command_result_def\<close>)

lemma replay_inv:
  assumes "replay_command_result cfg io command nc = (r, sent, nc')" "node_inv cfg nc es"
  shows "node_inv cfg nc' (es @ sent)"
proof (cases "\<exists>result. map_of (nc_command_results nc) (command_name command) = Some result \<and>
    (\<exists>r1. node_write cfg io COMMAND_RESULT result nc = (r1, sent, nc'))")
  case True
  then obtain result r1 where res: "map_of (nc_command_results nc) (command_name command) = Some result"
      and w: "node_write cfg io COMMAND_RESULT result nc = (r1, sent, nc')" by blast
  have "answers nc (command_name command) result" using assms(2) res by (simp add: node_inv_def memory_ok_def)
  then have "memory_ok nc (es @ sent)"
    using assms(2) res node_write_frame [OF w] by (auto simp: node_inv_def memory_ok_def node_env_def Let_def answers_def recorded_def)
  then show ?thesis
    using node_write_order [OF w] node_write_frame [OF w] same_memory_ok [of nc nc'] assms(2) by (simp add: node_inv_def)
next
  case False
  then have "sent = [] \<and> nc' = nc"
    using assms(1) by (auto simp: replay_command_result_def split: if_splits option.splits sum.splits prod.splits)
  then show ?thesis using assms(2) by simp
qed

lemma forget_snapshot_inv:
  "node_inv cfg nc es \<Longrightarrow> node_inv cfg (nc\<lparr>nc_snapshot_hashes := AList.delete sid (nc_snapshot_hashes nc)\<rparr>) es"
  using length_delete_le [of sid "nc_snapshot_hashes nc"]
  by (simp add: node_inv_def memory_ok_def sent_in_order_def answers_def recorded_def)

lemma await_inv:
  assumes "await_snapshot_accepted cfg io snapshot_id inp nc = (r, sent, nc')" "node_inv cfg nc es"
  shows "node_inv cfg nc' (es @ sent)"
proof -
  obtain r1 nc1 where c: "receive_command cfg inp nc = (r1, nc1)" by (rule prod.exhaust)
  then have 1: "node_inv cfg nc1 es" using assms(2) by (rule receive_command_inv)
  have 2: "node_inv cfg nc2 (es @ s)"
    if "send_command_result cfg io i True [] ''SNAPSHOT_ACCEPTED'' (Some ''SUCCEEDED'') p nc1 = (r2, s, nc2)" for i p r2 s nc2
    by (rule send_result_inv [OF that 1])
  show ?thesis
    using assms c 1
    by (auto simp: await_snapshot_accepted_def split: option.splits sum.splits if_splits prod.splits intro: 2 forget_snapshot_inv)
qed

lemma await_echo_inv: "await_echo cfg heartbeat_id reads nc = (r, nc') \<Longrightarrow> node_inv cfg nc es \<Longrightarrow> node_inv cfg nc' es"
proof (induction reads arbitrary: nc)
  case (Cons ri reads)
  obtain remaining inp where ri: "ri = (remaining, inp)" by (rule prod.exhaust)
  show ?case
  proof (cases "remaining \<le> 0 \<or> (\<exists>err. read_head_envelope cfg inp nc = Inl err)")
    case False
    then obtain env nc1 where e: "read_head_envelope cfg inp nc = Inr (env, nc1)" by (cases "read_head_envelope cfg inp nc") auto
    have 1: "node_inv cfg nc1 es" using e Cons.prems(2) by (rule read_envelope_inv)
    show ?thesis
      using Cons.prems(1) Cons.IH False e 1 queue_inv by (auto simp: ri split: if_splits sum.splits)
  qed (use Cons.prems in \<open>auto simp: ri split: if_splits\<close>)
qed simp

lemma send_heartbeat_inv:
  assumes "send_heartbeat cfg io nc = (r, sent, nc')" "node_inv cfg nc es"
  shows "node_inv cfg nc' (es @ sent)"
proof -
  have "node_inv cfg (nc\<lparr>nc_heartbeat_counter := nc_heartbeat_counter nc + 1\<rparr>) es"
    by (rule inv_same [OF assms(2)]) (simp_all add: same_memory_def)
  then show ?thesis using assms(1) node_write_inv unfolding send_heartbeat_def Let_def by blast
qed

lemma round_trip_inv:
  assumes "heartbeat_round_trip cfg io reads nc = (r, sent, nc')" "node_inv cfg nc es"
  shows "node_inv cfg nc' (es @ sent)"
proof -
  obtain r1 s1 nc1 where h: "send_heartbeat cfg io nc = (r1, s1, nc1)" by (rule prod_cases3)
  have "node_inv cfg nc1 (es @ s1)" by (rule send_heartbeat_inv [OF h assms(2)])
  then show ?thesis
    using assms(1) h await_echo_inv by (auto simp: heartbeat_round_trip_def Let_def split: sum.splits prod.splits)
qed

lemma close_channel_inv:
  assumes "close_channel cfg io closes expected nc = (r, sent, nc')" "node_inv cfg nc es"
  shows "node_inv cfg nc' (es @ sent)"
proof -
  have close: "node_inv cfg (nc1\<lparr>nc_writer := False, nc_reader := False\<rparr>) es1" if "node_inv cfg nc1 es1" for nc1 es1
    by (rule inv_same [OF that]) (simp_all add: same_memory_def)
  show ?thesis
    using assms node_write_inv [of cfg io GOODBYE "v1 []" nc]
    by (auto simp: close_channel_def split: if_splits prod.splits intro: close)
qed

lemma snd_eq_iff: "snd x = y \<longleftrightarrow> (\<exists>r. x = (r, y))"
  by (cases x) auto

lemma node_op_inv:
  assumes "run_node_op cfg op nc = (sent, nc')" "node_inv cfg nc es"
  shows "node_inv cfg nc' (es @ sent)"
proof (cases op)
  case DropOp
  then show ?thesis
    using assms by (auto intro: inv_same [OF assms(2)] simp: drop_connection_def same_memory_def)
qed (use assms in \<open>auto simp: snd_eq_iff send_observation_def send_receipt_def
    dest: connect_inv send_snapshot_inv await_inv send_heartbeat_inv round_trip_inv receive_command_inv replay_inv send_result_inv close_channel_inv
      node_write_inv\<close>)

lemma node_run_inv: "node_run cfg limits nc es \<Longrightarrow> node_inv cfg nc es"
proof (induction rule: node_run.induct)
  case init
  then show ?case by (simp add: node_inv_def memory_ok_def sent_in_order_def new_node_channel_def)
qed (rule node_op_inv)

section \<open>A sample run\<close>

definition sample_node :: node_config where
  "sample_node =
     \<lparr>nd_deployment_id = ''dep'', nd_plan_hash = ''plan'', nd_generation = 0, nd_rank = 0, nd_node_id = ''node0'',
      nd_sha = (\<lambda>_. replicate 64 (CHR ''0'')), nd_float = (\<lambda>_. ''0.5'')\<rparr>"

definition from_head :: "envelope_kind \<Rightarrow> int \<Rightarrow> dict \<Rightarrow> head_input" where
  "from_head kind seq payload = Arrived
     \<lparr>en_v = 1, en_kind = kind, en_deployment_id = ''dep'', en_plan_hash = ''plan'', en_generation = 0, en_sender_rank = - 1,
      en_sender_node = ''head'', en_seq = seq, en_payload = payload\<rparr>"

definition stop_command :: dict where
  "stop_command = command_body ''c1'' ''STOP'' []"

definition sample_node_ops :: "node_op list" where
  "sample_node_ops =
     [ConnectOp \<lparr>ci_cleanup = True, ci_open = True, ci_write = (\<lambda>_. Written),
        ci_ack = from_head COMMAND_RESULT 1
          (v1 [(PStr ''command_id'', PStr ''register''), (PStr ''operation'', PStr ''REGISTER''), (PStr ''ok'', PBool True),
             (PStr ''control_limits'', PDict (limits_payload default_control_limits))])\<rparr> ''boot'',
      ReceiveOp (from_head COMMAND 2 stop_command),
      ResultOp (\<lambda>_. Written) ''c1'' True ''stopped'' ''STOP'' None [],
      ReceiveOp (from_head COMMAND 3 stop_command),
      ReplayOp (\<lambda>_. Written) stop_command]"

fun run_node_ops :: "node_config \<Rightarrow> node_op list \<Rightarrow> node_channel \<Rightarrow> envelope list \<times> node_channel" where
  "run_node_ops cfg [] nc = ([], nc)"
| "run_node_ops cfg (op # ops) nc =
     (case run_node_op cfg op nc of (sent, nc1) \<Rightarrow> (case run_node_ops cfg ops nc1 of (sent', nc2) \<Rightarrow> (sent @ sent', nc2)))"

lemma run_node_ops_run:
  "node_run cfg limits nc es \<Longrightarrow> run_node_ops cfg ops nc = (sent, nc') \<Longrightarrow> node_run cfg limits nc' (es @ sent)"
proof (induction cfg ops nc arbitrary: es sent rule: run_node_ops.induct)
  case (2 cfg op ops nc)
  obtain s1 nc1 s2 nc2 where r: "run_node_op cfg op nc = (s1, nc1)" "run_node_ops cfg ops nc1 = (s2, nc2)" by (meson prod.exhaust)
  then have "node_run cfg limits nc1 (es @ s1)" using "2.prems"(1) by (intro node_run.step)
  then show ?case using "2.IH" [OF r(1) [symmetric], of "es @ s1" s2] r "2.prems"(2) by simp
qed simp

definition sample_node_run :: "envelope list \<times> node_channel" where
  "sample_node_run = run_node_ops sample_node sample_node_ops (new_node_channel default_control_limits)"

lemma sample_node_reach: "node_run sample_node default_control_limits (snd sample_node_run) (fst sample_node_run)"
  using run_node_ops_run [OF node_run.init, of sample_node sample_node_ops default_control_limits] by (simp add: sample_node_run_def)

text \<open>
  Ranks do not contradict themselves (C23). However the calls of a rank channel interleave with failing writes,
  lost connections, repeated commands and replays, two results it sends for the same command have equal
  payloads, and each answers a command that the rank has received, with that command's operation.
\<close>

theorem rank_answers_once:
  assumes "node_run cfg limits nc es" "e \<in> set es" "e' \<in> set es" "en_kind e = COMMAND_RESULT" "en_kind e' = COMMAND_RESULT"
    "field (en_payload e) ''command_id'' = field (en_payload e') ''command_id''"
  shows "same_dict (en_payload e) (en_payload e') \<and>
    (\<exists>command_id command. field (en_payload e) ''command_id'' = PStr command_id \<and>
       map_of (nc_received_commands nc) command_id = Some command \<and> field command ''operation'' = field (en_payload e) ''operation'')"
proof -
  have "memory_ok nc es" using node_run_inv [OF assms(1)] by (simp add: node_inv_def)
  then have "recorded nc (en_payload e)" "recorded nc (en_payload e')" using assms(2-5) by (auto simp: memory_ok_def)
  then obtain i r i' r' where r: "map_of (nc_command_results nc) i = Some r" "same_dict r (en_payload e)" "answers nc i (en_payload e)"
      "map_of (nc_command_results nc) i' = Some r'" "same_dict r' (en_payload e')" "answers nc i' (en_payload e')"
    unfolding recorded_def by blast
  then have "i = i'" using assms(6) by (simp add: answers_def)
  then have "same_dict (en_payload e) (en_payload e')" using r by (auto intro: same_dict_trans same_dict_sym)
  then show ?thesis using r(3) by (auto simp: answers_def)
qed

lemma sample_results:
  "map en_kind (fst sample_node_run) = [REGISTER, COMMAND_RESULT, COMMAND_RESULT] \<and>
   map (\<lambda>e. field (en_payload e) ''command_id'') (fst sample_node_run) = [PNone, PStr ''c1'', PStr ''c1'']"
  by code_simp

theorem rank_answers_once_witness:
  "same_dict (en_payload (fst sample_node_run ! 1)) (en_payload (fst sample_node_run ! 2)) \<and>
   (\<exists>command. map_of (nc_received_commands (snd sample_node_run)) ''c1'' = Some command)"
proof -
  have kinds: "en_kind (fst sample_node_run ! i) = COMMAND_RESULT" "field (en_payload (fst sample_node_run ! i)) ''command_id'' = PStr ''c1''"
      "fst sample_node_run ! i \<in> set (fst sample_node_run)" if "i = 1 \<or> i = 2" for i
    using that sample_results by (auto simp: map_eq_Cons_conv)
  show ?thesis
    using rank_answers_once [OF sample_node_reach kinds(3) [of 1] kinds(3) [of 2]] kinds [of 1] kinds [of 2] by auto
qed

end
