(* ===== verification/Handshake.thy ===== *)
theory Handshake
  imports Network Node_Channel
begin

text \<open>
  The two ends of the control transport together: a snapshot that a rank sends in chunks is what the head
  assembles, and the exchange that follows establishes the session of the rank. Payloads travel as the frames of
  \<open>Wire\<close> deliver them, with sorted keys (\<open>canon_envelope\<close>).
\<close>

section \<open>Canonical snapshots are fixed points\<close>

definition canon_item :: "snapshot_item \<Rightarrow> snapshot_item" where
  "canon_item it = (fst it, canon (snd it))"

lemma canon_item_fst [simp]: "fst (canon_item it) = fst it"
  by (simp add: canon_item_def)

lemma canon_item_value: "canon (item_value (canon_item it)) = canon (item_value it)"
  by (simp add: item_value_def canon_item_def canon_canon)

lemma dumps_canon_item [simp]: "dumps fl (item_value (canon_item it)) = dumps fl (item_value it)"
  by (simp add: dumps_def canon_item_value)

lemma dumps_canon_items [simp]: "dumps fl (items_value (map canon_item items)) = dumps fl (items_value items)"
  by (simp add: dumps_def items_value_def canon_item_value o_def)

lemma the_str_canon [simp]: "the_str (canon v) = the_str v" "nonempty_str (canon v) = nonempty_str v"
  by (cases v; simp add: the_str_def nonempty_str_def)+

lemma item_key_canon:
  assumes wire: "wire_value F (snd it)"
  shows "item_key (canon_item it) = item_key it"
proof (cases "snd it")
  case (PDict d)
  obtain d' where d': "canon (PDict d) = PDict d'" by simp
  have "field d' k = canon (field d k)" for k using field_canon [OF d'] wire PDict by simp
  then show ?thesis using PDict d' by (cases it) (simp add: item_key_def canon_item_def del: canon.simps)
qed (cases it, simp add: item_key_def canon_item_def)+

text \<open>A list of items in canonical form: sorted by keys that are distinct, each with a text.\<close>

definition canonical_form :: "(real \<Rightarrow> string) \<Rightarrow> snapshot_item list \<Rightarrow> bool" where
  "canonical_form fl items \<longleftrightarrow>
     (\<exists>keys. list_all2 (\<lambda>key it. item_key it = Inr key \<and> dumps fl (item_value it) \<noteq> None) keys items \<and> sorted keys \<and> distinct keys)"

lemma update_new: "map_of d k = None \<Longrightarrow> AList.update k v d = d @ [(k, v)]"
  by (induction d) auto

definition entry_ok :: "(real \<Rightarrow> string) \<Rightarrow> string list \<times> string \<times> snapshot_item \<Rightarrow> bool" where
  "entry_ok fl u \<longleftrightarrow> item_key (snd (snd u)) = Inr (fst u) \<and> dumps fl (item_value (snd (snd u))) = Some (fst (snd u))"

lemma collect_items_Cons:
  "collect_items fl unique (it # items) = Inr us \<longleftrightarrow>
     (\<exists>key encoded. item_key it = Inr key \<and> dumps fl (item_value it) = Some encoded \<and>
        (map_of unique key = None \<or> (\<exists>i. map_of unique key = Some (encoded, i))) \<and>
        collect_items fl (AList.update key (encoded, it) unique) items = Inr us)"
proof (cases "item_key it")
  case (Inr key)
  then show ?thesis
    by (cases "dumps fl (item_value it)"; cases "map_of unique key") (auto split: if_splits)
qed simp

lemma collect_items_entries:
  "collect_items fl unique items = Inr us \<Longrightarrow> distinct (map fst unique) \<Longrightarrow> \<forall>u \<in> set unique. entry_ok fl u \<Longrightarrow>
     distinct (map fst us) \<and> (\<forall>u \<in> set us. entry_ok fl u) \<and> (snd \<circ> snd) ` set us \<subseteq> (snd \<circ> snd) ` set unique \<union> set items"
proof (induction items arbitrary: unique)
  case (Cons it items)
  from Cons.prems(1) obtain key encoded where k: "item_key it = Inr key" "dumps fl (item_value it) = Some encoded"
      "collect_items fl (AList.update key (encoded, it) unique) items = Inr us"
    unfolding collect_items_Cons by blast
  have "\<forall>u \<in> set (AList.update key (encoded, it) unique). entry_ok fl u"
    using Cons.prems(3) k by (auto simp: entry_ok_def dest: in_set_update)
  moreover have "distinct (map fst (AList.update key (encoded, it) unique))" using Cons.prems(2) by (rule distinct_update)
  ultimately have "distinct (map fst us) \<and> (\<forall>u \<in> set us. entry_ok fl u) \<and>
      (snd \<circ> snd) ` set us \<subseteq> (snd \<circ> snd) ` set (AList.update key (encoded, it) unique) \<union> set items"
    using Cons.IH k(3) by blast
  moreover have "(snd \<circ> snd) ` set (AList.update key (encoded, it) unique) \<subseteq> insert it ((snd \<circ> snd) ` set unique)"
    by (force dest: in_set_update)
  ultimately show ?case unfolding list.set(2) by blast
qed auto

lemma canonical_items_form:
  assumes "canonical_snapshot_items fl items = Inr cs"
  shows "canonical_form fl cs \<and> set cs \<subseteq> set items"
proof -
  obtain us where us: "collect_items fl [] items = Inr us" "cs = map (\<lambda>(_, _, it). it) (sort_key fst us)"
    using assms by (auto simp: canonical_snapshot_items_def and_then_Inr)
  have ok: "distinct (map fst us)" "\<forall>u \<in> set us. entry_ok fl u" "(snd \<circ> snd) ` set us \<subseteq> set items"
    using collect_items_entries [OF us(1)] by auto
  have "list_all2 (\<lambda>key it. item_key it = Inr key \<and> dumps fl (item_value it) \<noteq> None) (map fst (sort_key fst us)) cs"
    using ok(2) by (auto simp: us(2) list.rel_map list_all2_same entry_ok_def)
  moreover have "distinct (map fst (sort_key fst us))"
    using ok(1) by (metis distinct_map distinct_sort set_sort)
  moreover have "sorted (map fst (sort_key fst us))" by simp
  moreover have "set cs \<subseteq> set items" using ok(3) by (auto simp: us(2) split_beta)
  ultimately show ?thesis unfolding canonical_form_def by blast
qed

lemma collect_items_distinct:
  "list_all2 (\<lambda>key it. item_key it = Inr key \<and> dumps fl (item_value it) \<noteq> None) keys items \<Longrightarrow> distinct (map fst unique @ keys) \<Longrightarrow>
     collect_items fl unique items = Inr (unique @ map (\<lambda>(key, it). (key, the (dumps fl (item_value it)), it)) (zip keys items))"
proof (induction keys items arbitrary: unique rule: list_all2_induct)
  case (Cons key keys it items)
  then have "map_of unique key = None" by (simp add: map_of_eq_None_keys)
  then show ?case using Cons by (auto simp: update_new)
qed simp

lemma canonical_form_fixed:
  assumes "canonical_form fl items"
  shows "canonical_snapshot_items fl items = Inr items"
proof -
  obtain keys where k: "list_all2 (\<lambda>key it. item_key it = Inr key \<and> dumps fl (item_value it) \<noteq> None) keys items" "sorted keys" "distinct keys"
    using assms unfolding canonical_form_def by blast
  let ?us = "map (\<lambda>(key, it). (key, the (dumps fl (item_value it)), it)) (zip keys items)"
  have len: "length keys = length items" using k(1) by (rule list_all2_lengthD)
  have "map fst ?us = keys" using len by (simp add: o_def split_beta)
  then have "sort_key fst ?us = ?us" using k(2) by (simp add: sort_key_id_if_sorted)
  moreover have "map (\<lambda>(_, _, it). it) ?us = items" using len by (simp add: o_def split_beta)
  ultimately show ?thesis
    using collect_items_distinct [OF k(1), of "[]"] k(3) by (simp add: canonical_snapshot_items_def)
qed

lemma canonical_form_dumps: "canonical_form fl items \<Longrightarrow> it \<in> set items \<Longrightarrow> dumps fl (item_value it) \<noteq> None"
  unfolding canonical_form_def by (metis (mono_tags, lifting) in_set_conv_nth list_all2_conv_all_nth)

lemma canonical_form_canon:
  assumes "canonical_form fl items" "\<forall>it \<in> set items. wire_value F (snd it)"
  shows "canonical_form fl (map canon_item items)"
proof -
  obtain keys where k: "list_all2 (\<lambda>key it. item_key it = Inr key \<and> dumps fl (item_value it) \<noteq> None) keys items" "sorted keys" "distinct keys"
    using assms(1) unfolding canonical_form_def by blast
  have "list_all2 (\<lambda>key it. item_key (canon_item it) = Inr key \<and> dumps fl (item_value it) \<noteq> None) keys items"
    using k(1) by (rule list.rel_mono_strong) (use assms(2) item_key_canon in auto)
  then show ?thesis using k(2,3) unfolding canonical_form_def by (auto simp: list.rel_map)
qed

section \<open>Chunks\<close>

lemma observation_before_receipt: "\<not> ''receipt'' \<le> ''observation''"
  by (simp add: less_char_def)

lemma item_key_kind: "item_key it = Inr key \<Longrightarrow> hd key = fst it \<and> key \<noteq> [] \<and> fst it \<in> {''observation'', ''receipt''}"
  by (cases it) (auto simp: item_key_def split: if_splits pyval.splits)

definition kinds_sorted :: "snapshot_item list \<Rightarrow> bool" where
  "kinds_sorted items \<longleftrightarrow> sorted (map fst items) \<and> fst ` set items \<subseteq> {''observation'', ''receipt''}"

lemma canonical_form_kinds:
  assumes "canonical_form fl items"
  shows "kinds_sorted items"
proof -
  obtain keys where k: "list_all2 (\<lambda>key it. item_key it = Inr key \<and> dumps fl (item_value it) \<noteq> None) keys items" "sorted keys"
    using assms unfolding canonical_form_def by blast
  then have "sorted (map fst items) \<and> fst ` set items \<subseteq> {''observation'', ''receipt''} \<and>
      (\<forall>it \<in> set items. \<exists>key \<in> set keys. item_key it = Inr key)"
  proof (induction keys items rule: list_all2_induct)
    case (Cons key keys it items)
    have "fst it \<le> fst it'" if it': "it' \<in> set items" for it'
    proof -
      have "\<forall>it \<in> set items. \<exists>key \<in> set keys. item_key it = Inr key" using Cons by simp
      then obtain key' where "key' \<in> set keys" "item_key it' = Inr key'" using it' by blast
      then have "key \<le> key'" "hd key' = fst it'" "key' \<noteq> []" using Cons.prems item_key_kind [of it' key'] by simp_all
      moreover have "hd key = fst it" "key \<noteq> []" using Cons.hyps item_key_kind [of it key] by simp_all
      ultimately show ?thesis by (cases key; cases key') auto
    qed
    then show ?case using Cons item_key_kind [of it key] by simp
  qed simp
  then show ?thesis by (simp add: kinds_sorted_def)
qed

lemma kinds_split:
  "kinds_sorted items \<Longrightarrow>
     map (Pair ''observation'') (map snd (filter (\<lambda>it. fst it = ''observation'') items)) @
     map (Pair ''receipt'') (map snd (filter (\<lambda>it. fst it = ''receipt'') items)) = items"
proof (induction items)
  case (Cons it items)
  have "kinds_sorted items" using Cons.prems by (simp add: kinds_sorted_def)
  note IH = Cons.IH [OF this]
  show ?case
  proof (cases "fst it = ''observation''")
    case True
    then show ?thesis using IH by (cases it) simp
  next
    case False
    then have r: "fst it = ''receipt''" using Cons.prems by (simp add: kinds_sorted_def)
    have "filter (\<lambda>it. fst it = ''observation'') items = []"
      using Cons.prems r observation_before_receipt by (auto simp: kinds_sorted_def filter_empty_conv)
    then show ?thesis using IH r by (cases it) simp
  qed
qed simp

lemma chunks_of_concat: "0 < k \<Longrightarrow> length xs \<le> n \<Longrightarrow> concat (chunks_of n k xs) = xs"
  by (induction n k xs rule: chunks_of.induct) auto

lemma chunks_of_parts: "c \<in> set (chunks_of n k xs) \<Longrightarrow> \<exists>i. c = take k (drop i xs)"
proof (induction n k xs rule: chunks_of.induct)
  case (2 n k xs)
  then consider "c = take k xs" | "c \<in> set (chunks_of n k (drop k xs))" "xs \<noteq> []" by (auto split: if_splits)
  then show ?case
  proof cases
    case 1
    then show ?thesis by (metis drop_0)
  next
    case 2
    then show ?thesis using "2.IH" by (auto simp: drop_drop)
  qed
qed simp

lemma chunks_of_nonempty: "0 < k \<Longrightarrow> c \<in> set (chunks_of n k xs) \<Longrightarrow> c \<noteq> []"
  by (induction n k xs rule: chunks_of.induct) (auto split: if_splits)

lemma snapshot_chunks_concat: "0 < k \<Longrightarrow> concat (snapshot_chunks k xs) = xs"
  by (simp add: snapshot_chunks_def chunks_of_concat)

lemma snapshot_chunks_nonempty: "snapshot_chunks k xs \<noteq> []"
  by (cases xs) (simp_all add: snapshot_chunks_def)

lemma snapshot_chunks_parts: "c \<in> set (snapshot_chunks k xs) \<Longrightarrow> \<exists>i. c = take k (drop i xs)"
  using chunks_of_parts by (fastforce simp: snapshot_chunks_def split: if_splits)

lemma chunk_kinds: "kinds_sorted items \<Longrightarrow> c \<in> set (snapshot_chunks k items) \<Longrightarrow> kinds_sorted c"
  using snapshot_chunks_parts [of c k items]
  by (auto simp: kinds_sorted_def take_map [symmetric] drop_map [symmetric] dest!: in_set_takeD in_set_dropD)

text \<open>The bytes of a list of items: those of its items, separators and brackets.\<close>

definition item_bytes :: "(real \<Rightarrow> string) \<Rightarrow> snapshot_item \<Rightarrow> nat" where
  "item_bytes fl it = length (the (dumps fl (item_value it)))"

lemma sep_by_length: "length (sep_by c ts) = sum_list (map length ts) + (length ts - 1)"
proof (cases ts)
  case (Cons t us)
  have "length (concat (map ((#) c) us)) = sum_list (map length us) + length us" by (induction us) auto
  then show ?thesis by (simp add: Cons sep_by_def)
qed (simp add: sep_by_def)

lemma all_some_total: "\<forall>x \<in> set xs. f x \<noteq> None \<Longrightarrow> all_some (map f xs) = Some (map (the \<circ> f) xs)"
  by (induction xs) auto

lemma items_dumps:
  assumes "\<forall>it \<in> set items. dumps fl (item_value it) \<noteq> None"
  shows "\<exists>t. dumps fl (items_value items) = Some t \<and>
    length t = sum_list (map (item_bytes fl) items) + (length items - 1) + 2"
proof -
  let ?f = "\<lambda>it. dump fl (canon (item_value it))"
  have all: "all_some (map ?f items) = Some (map (the \<circ> ?f) items)"
    using assms by (intro all_some_total) (simp add: dumps_def)
  have "dumps fl (items_value items) =
      map_option (\<lambda>ts. CHR ''['' # sep_by (CHR '','') ts @ '']'') (all_some (map ?f items))"
    by (simp add: dumps_def items_value_def o_def)
  then show ?thesis unfolding all
    by (simp add: sep_by_length o_def item_bytes_def [abs_def] dumps_def)
qed

section \<open>Chunks at the head\<close>

text \<open>Chunks of one rank in the order they arrive, each at a time.\<close>

fun assemble_all ::
    "listener_config \<Rightarrow> int \<Rightarrow> (real \<times> dict) list \<Rightarrow> control_listener \<Rightarrow> control_listener \<times> assembled list" where
  "assemble_all cfg rank [] ls = (ls, [])"
| "assemble_all cfg rank ((now, p) # rest) ls =
     (case assemble_snapshot cfg now rank p ls of
        (ls1, a) \<Rightarrow> (case assemble_all cfg rank rest ls1 of (ls2, as) \<Rightarrow> (ls2, a # as)))"

lemma assemble_all_quiet: "assemble_all cfg rank dels ls = (ls', as) \<Longrightarrow> quiet ls ls'"
proof (induction cfg rank dels ls arbitrary: ls' as rule: assemble_all.induct)
  case (2 cfg rank now p rest ls)
  then show ?case using assemble_quiet [of cfg now rank p ls] by (auto split: prod.splits intro: quiet_trans)
qed simp

definition arrives_as :: "dict \<Rightarrow> dict \<Rightarrow> bool" where
  "arrives_as p p' \<longleftrightarrow> canon (PDict p) = PDict p'"

lemma arrives_field: "arrives_as p p' \<Longrightarrow> distinct (map fst p) \<Longrightarrow> field p' k = canon (field p k)"
  unfolding arrives_as_def by (rule field_canon)

lemma arrives_keys: "arrives_as p p' \<Longrightarrow> has_keys p' names = has_keys p names"
  using canon_keys [of p p'] by (simp add: arrives_as_def has_keys_def del: canon.simps)

lemma chunk_payload_fields:
  "field (chunk_payload sid h n i c) ''payload_version'' = PInt 1"
  "field (chunk_payload sid h n i c) ''snapshot_id'' = PStr sid"
  "field (chunk_payload sid h n i c) ''chunk_index'' = PInt (int i)"
  "field (chunk_payload sid h n i c) ''chunk_count'' = PInt (int n)"
  "field (chunk_payload sid h n i c) ''complete_set_hash'' = PStr h"
  "field (chunk_payload sid h n i c) ''observations'' = PList (map snd (filter (\<lambda>it. fst it = ''observation'') c))"
  "field (chunk_payload sid h n i c) ''compatibility_receipts'' = PList (map snd (filter (\<lambda>it. fst it = ''receipt'') c))"
  "distinct (map fst (chunk_payload sid h n i c))" "has_keys (chunk_payload sid h n i c) chunk_fields"
  by (simp_all add: field_def chunk_payload_def v1_def has_keys_def chunk_fields_def)

lemma chunk_arrives:
  assumes "arrives_as (chunk_payload sid h n i c) p"
  shows "first_failure (chunk_checks cfg p) = None \<longleftrightarrow>
      sid \<noteq> [] \<and> is_sha256 h \<and> i < n \<and> int n \<le> max_snapshot_chunks (lc_limits cfg)"
    "the_str (field p ''snapshot_id'') = sid" "the_int (field p ''chunk_count'') = int n" "the_int (field p ''chunk_index'') = int i"
    "the_str (field p ''complete_set_hash'') = h" "kinds_sorted c \<Longrightarrow> chunk_items p = Some (map canon_item c)"
proof -
  note f = arrives_field [OF assms chunk_payload_fields(8)]
  note F = chunk_payload_fields
  show "first_failure (chunk_checks cfg p) = None \<longleftrightarrow>
      sid \<noteq> [] \<and> is_sha256 h \<and> i < n \<and> int n \<le> max_snapshot_chunks (lc_limits cfg)"
    by (auto simp: chunk_checks_def Let_def check_simps payload_v1_def f F arrives_keys [OF assms] the_int_def is_hash_def nonempty_str_def)
  show "the_str (field p ''snapshot_id'') = sid" "the_int (field p ''chunk_count'') = int n" "the_int (field p ''chunk_index'') = int i"
    "the_str (field p ''complete_set_hash'') = h"
    by (simp_all add: f F the_str_def the_int_def)
  assume "kinds_sorted c"
  then have "map canon_item c = map canon_item (map (Pair ''observation'') (map snd (filter (\<lambda>it. fst it = ''observation'') c)) @
      map (Pair ''receipt'') (map snd (filter (\<lambda>it. fst it = ''receipt'') c)))"
    by (simp only: kinds_split)
  then show "chunk_items p = Some (map canon_item c)"
    by (simp add: chunk_items_def f F canon_item_def [abs_def] o_def)
qed

text \<open>The assembly after the chunks \<open>cs\<close> of \<open>n\<close>.\<close>

definition chunk_bytes :: "(real \<Rightarrow> string) \<Rightarrow> snapshot_item list \<Rightarrow> nat" where
  "chunk_bytes fl c = length (the (dumps fl (items_value c)))"

definition assembly_of ::
    "(real \<Rightarrow> string) \<Rightarrow> string \<Rightarrow> string \<Rightarrow> nat \<Rightarrow> real \<Rightarrow> snapshot_item list list \<Rightarrow> snapshot_assembly" where
  "assembly_of fl sid h n t0 cs =
     \<lparr>sa_snapshot_id = sid, sa_total = int n, sa_hash = h,
      sa_chunks = map (\<lambda>(i, c). (int i, map canon_item c)) (enumerate 0 cs),
      sa_bytes = int (sum_list (map (chunk_bytes fl) cs)), sa_started_at = t0\<rparr>"

lemma assembly_chunks:
  "map fst (sa_chunks (assembly_of fl sid h n t0 cs)) = map int [0..<length cs]"
  "map snd (sa_chunks (assembly_of fl sid h n t0 cs)) = map (map canon_item) cs"
  by (rule nth_equalityI; simp add: assembly_of_def nth_enumerate_eq)+

lemma assembly_snoc:
  "sa_chunks (assembly_of fl sid h n t0 (cs @ [c])) = sa_chunks (assembly_of fl sid h n t0 cs) @ [(int (length cs), map canon_item c)]"
  by (simp add: assembly_of_def enumerate_append_eq)

lemma assembly_finish:
  assumes "canonical_form (lc_float cfg) items" "\<forall>it \<in> set items. wire_value F (snd it)"
    "snapshot_set_hash (lc_float cfg) (lc_sha cfg) items = Inr h" "concat cs = items"
  shows "snd (finish_assembly cfg rank (assembly_of fl sid h n t0 cs) ls) = Assembled (map canon_item items)"
proof -
  have "sort_key fst (sa_chunks (assembly_of fl sid h n t0 cs)) = sa_chunks (assembly_of fl sid h n t0 cs)"
    by (rule sort_key_id_if_sorted) (simp add: assembly_chunks sorted_map sorted_wrt_upt)
  then have "concat (map snd (sort_key fst (sa_chunks (assembly_of fl sid h n t0 cs)))) = map canon_item items"
    using assms(4) by (simp add: assembly_chunks map_concat [symmetric])
  moreover have "canonical_snapshot_items (lc_float cfg) (map canon_item items) = Inr (map canon_item items)"
    by (rule canonical_form_fixed [OF canonical_form_canon [OF assms(1,2)]])
  moreover have "snapshot_set_hash (lc_float cfg) (lc_sha cfg) (map canon_item items) = Inr h"
    using assms(3) canonical_form_fixed [OF assms(1)] calculation(2) by (simp add: snapshot_set_hash_def)
  moreover have "sa_hash (assembly_of fl sid h n t0 cs) = h" by (simp add: assembly_of_def)
  ultimately show ?thesis by (simp add: finish_assembly_def)
qed

text \<open>The limits that the head enforces on the chunks \<open>cs\<close>.\<close>

definition within_limits :: "listener_config \<Rightarrow> snapshot_item list list \<Rightarrow> bool" where
  "within_limits cfg cs \<longleftrightarrow>
     int (sum_list (map (chunk_bytes (lc_float cfg)) cs)) \<le> max_snapshot_bytes (lc_limits cfg) \<and>
     int (length (concat cs)) \<le> max_snapshot_items (lc_limits cfg)"

lemma within_limits_append: "within_limits cfg (cs @ ds) \<Longrightarrow> within_limits cfg cs"
  by (simp add: within_limits_def)

lemma add_chunk_next:
  assumes "within_limits cfg (cs @ [c])" "\<forall>it \<in> set c. dumps (lc_float cfg) (item_value it) \<noteq> None"
  shows "add_chunk cfg rank (int (length cs)) (map canon_item c) (assembly_of (lc_float cfg) sid h n t0 cs) ls =
    (if Suc (length cs) < n then (put_assembly rank (assembly_of (lc_float cfg) sid h n t0 (cs @ [c])) ls, Pending)
     else finish_assembly cfg rank (assembly_of (lc_float cfg) sid h n t0 (cs @ [c])) ls)"
proof -
  let ?st = "assembly_of (lc_float cfg) sid h n t0 cs" and ?st' = "assembly_of (lc_float cfg) sid h n t0 (cs @ [c])"
  obtain t where t: "dumps (lc_float cfg) (items_value c) = Some t" using items_dumps [OF assms(2)] by blast
  have new: "map_of (sa_chunks ?st) (int (length cs)) = None"
    unfolding map_of_eq_None_keys assembly_chunks by auto
  have st': "?st\<lparr>sa_bytes := sa_bytes ?st + int (length t), sa_chunks := sa_chunks ?st @ [(int (length cs), map canon_item c)]\<rparr> = ?st'"
    using t by (simp add: assembly_of_def enumerate_append_eq chunk_bytes_def)
  have bytes: "sa_bytes ?st + int (length t) \<le> max_snapshot_bytes (lc_limits cfg)"
    using assms(1) t by (simp add: within_limits_def assembly_of_def chunk_bytes_def)
  have "sum_list (map (length \<circ> snd) (sa_chunks ?st')) = sum_list (map length (map snd (sa_chunks ?st')))" by simp
  also have "\<dots> = length (concat (cs @ [c]))" by (simp only: assembly_chunks) (simp add: length_concat o_def)
  finally have items: "int (sum_list (map (length \<circ> snd) (sa_chunks ?st'))) \<le> max_snapshot_items (lc_limits cfg)"
    using assms(1) by (simp only: within_limits_def)
  have len: "length (sa_chunks ?st') = Suc (length cs)" "sa_total ?st' = int n" by (simp_all add: assembly_of_def)
  show ?thesis
    using bytes items len st' by (simp add: add_chunk_def t new update_new Let_def)
qed

lemma assemble_next:
  assumes "arrives_as (chunk_payload sid h n (length cs) c) p" "sid \<noteq> []" "is_sha256 h" "length cs < n"
    "int n \<le> max_snapshot_chunks (lc_limits cfg)" "kinds_sorted c" "within_limits cfg (cs @ [c])"
    "\<forall>it \<in> set c. dumps (lc_float cfg) (item_value it) \<noteq> None"
    "map_of (li_snapshots ls) rank = (if cs = [] then None else Some (assembly_of (lc_float cfg) sid h n t0 cs))"
    "cs = [] \<longrightarrow> now = t0" "now - t0 \<le> snapshot_assembly_deadline_s (lc_limits cfg)"
  obtains ls1 where "assemble_snapshot cfg now rank p ls =
    (if Suc (length cs) < n then (put_assembly rank (assembly_of (lc_float cfg) sid h n t0 (cs @ [c])) ls1, Pending)
     else finish_assembly cfg rank (assembly_of (lc_float cfg) sid h n t0 (cs @ [c])) ls1)"
proof -
  let ?st = "assembly_of (lc_float cfg) sid h n t0 cs"
  note arr = chunk_arrives [OF assms(1)]
  have ok: "first_failure (chunk_checks cfg p) = None" using assms(2-5) by (simp add: arr(1))
  have "(case map_of (li_snapshots ls) rank of
      None \<Rightarrow> \<lparr>sa_snapshot_id = sid, sa_total = int n, sa_hash = h, sa_chunks = [], sa_bytes = 0, sa_started_at = now\<rparr>
    | Some st \<Rightarrow> st) = ?st"
    using assms(9,10) by (auto simp: assembly_of_def)
  moreover have "(sa_snapshot_id ?st, sa_total ?st, sa_hash ?st) = (sid, int n, h)" "sa_started_at ?st = t0"
    by (simp_all add: assembly_of_def)
  ultimately have "assemble_snapshot cfg now rank p ls = add_chunk cfg rank (int (length cs)) (map canon_item c) ?st (put_assembly rank ?st ls)"
    using assms(11) arr(6) [OF assms(6)] ok unfolding assemble_snapshot_def arr(2-5) Let_def by simp
  then show thesis using that add_chunk_next [OF assms(7,8)] by simp
qed

lemma put_assembly_get [simp]: "map_of (li_snapshots (put_assembly rank st ls)) rank = Some st"
  by (simp add: put_assembly_def update_conv)

lemma finish_forgets: "map_of (li_snapshots (fst (finish_assembly cfg rank st ls))) rank = None"
  by (simp add: finish_assembly_def forget_assembly_def delete_conv')

text \<open>All remaining chunks.\<close>

lemma assemble_rest:
  assumes "list_all2 (\<lambda>(t, p) (i, c). arrives_as (chunk_payload sid h n i c) p \<and> t - t0 \<le> snapshot_assembly_deadline_s (lc_limits cfg))
      dels (enumerate (length cs) rest)"
    "rest \<noteq> []" "length cs + length rest = n" "cs = [] \<longrightarrow> fst (hd dels) = t0"
    "map_of (li_snapshots ls) rank = (if cs = [] then None else Some (assembly_of (lc_float cfg) sid h n t0 cs))"
    and fixed: "sid \<noteq> []" "is_sha256 h" "int n \<le> max_snapshot_chunks (lc_limits cfg)" "within_limits cfg (cs @ rest)"
      "\<forall>c \<in> set rest. kinds_sorted c" "concat (cs @ rest) = items" "canonical_form (lc_float cfg) items"
      "\<forall>it \<in> set items. wire_value F (snd it) \<and> dumps (lc_float cfg) (item_value it) \<noteq> None"
      "snapshot_set_hash (lc_float cfg) (lc_sha cfg) items = Inr h"
  shows "\<exists>ls'. assemble_all cfg rank dels ls = (ls', replicate (length rest - 1) Pending @ [Assembled (map canon_item items)]) \<and>
    map_of (li_snapshots ls') rank = None"
  using assms
proof (induction rest arbitrary: dels cs ls)
  case (Cons c rest)
  obtain now p dels' where d: "dels = (now, p) # dels'" "arrives_as (chunk_payload sid h n (length cs) c) p"
      "now - t0 \<le> snapshot_assembly_deadline_s (lc_limits cfg)"
      "list_all2 (\<lambda>(t, p) (i, c). arrives_as (chunk_payload sid h n i c) p \<and> t - t0 \<le> snapshot_assembly_deadline_s (lc_limits cfg))
        dels' (enumerate (Suc (length cs)) rest)"
    using Cons.prems(1) by (auto simp: list_all2_Cons2)
  have lim: "within_limits cfg (cs @ [c])" using Cons.prems(9) within_limits_append [of cfg "cs @ [c]" rest] by simp
  have dump: "\<forall>it \<in> set c. dumps (lc_float cfg) (item_value it) \<noteq> None" using Cons.prems(11,13) by auto
  obtain ls1 where ls1: "assemble_snapshot cfg now rank p ls =
      (if Suc (length cs) < n then (put_assembly rank (assembly_of (lc_float cfg) sid h n t0 (cs @ [c])) ls1, Pending)
       else finish_assembly cfg rank (assembly_of (lc_float cfg) sid h n t0 (cs @ [c])) ls1)"
    using assemble_next [OF d(2) Cons.prems(6,7) _ Cons.prems(8) _ lim dump Cons.prems(5)] Cons.prems(3,4,10) d(1,3) by auto
  show ?case
  proof (cases "rest = []")
    case True
    have "concat (cs @ [c]) = items" using Cons.prems(11) True by simp
    then show ?thesis
      using ls1 Cons.prems(3) True d(1,4) finish_forgets [of cfg rank "assembly_of (lc_float cfg) sid h n t0 (cs @ [c])" ls1]
        assembly_finish [OF Cons.prems(12) _ Cons.prems(14), of F "cs @ [c]"  rank "lc_float cfg" sid n t0 ls1] Cons.prems(13)
      by (cases "finish_assembly cfg rank (assembly_of (lc_float cfg) sid h n t0 (cs @ [c])) ls1") simp
  next
    case False
    let ?ls = "put_assembly rank (assembly_of (lc_float cfg) sid h n t0 (cs @ [c])) ls1"
    have "\<exists>ls'. assemble_all cfg rank dels' ?ls = (ls', replicate (length rest - 1) Pending @ [Assembled (map canon_item items)]) \<and>
        map_of (li_snapshots ls') rank = None"
      by (rule Cons.IH [of dels' "cs @ [c]"]) (use Cons.prems d(4) False in simp_all)
    then show ?thesis using ls1 Cons.prems(3) False d(1) by (cases rest) auto
  qed
qed simp

section \<open>A snapshot from a rank to the head\<close>

lemma node_write_sent:
  "node_write cfg io kind p nc = (Inr u, sent, nc') \<Longrightarrow> \<exists>env. sent = [env] \<and> env = fst (node_env cfg kind p nc) \<and> nc' = snd (node_env cfg kind p nc)"
  by (auto simp: node_write_def split: if_splits prod.splits write_outcome.splits)

lemma node_write_all_sent:
  "node_write_all cfg io kind ps nc = (Inr u, sent, nc') \<Longrightarrow> map en_payload sent = ps"
proof (induction ps arbitrary: nc sent)
  case (Cons p ps)
  then obtain s1 nc1 s2 where "node_write cfg io kind p nc = (Inr (), s1, nc1)" "node_write_all cfg io kind ps nc1 = (Inr u, s2, nc')"
      "sent = s1 @ s2"
    by (auto split: prod.splits sum.splits)
  then show ?case using Cons.IH node_write_sent by (fastforce simp: node_env_def Let_def)
qed simp

lemma payload_arrives: "arrives_as (en_payload env) (en_payload (canon_envelope env))"
  unfolding arrives_as_def by (rule canon_payload)

lemma send_snapshot_sent:
  assumes "send_snapshot ncfg io observations receipts snapshot_id k nc = (Inr sid, sent, nc')"
    "canonical_snapshot_items (nd_float ncfg) (snapshot_items observations receipts) = Inr items"
  obtains h where "snapshot_set_hash (nd_float ncfg) (nd_sha ncfg) items = Inr h" "sid \<noteq> []" "0 < k"
    "map en_payload sent = map (\<lambda>(i, c). chunk_payload sid h (length (snapshot_chunks (nat k) items)) i c) (enumerate 0 (snapshot_chunks (nat k) items))"
    "int (length items) \<le> max_snapshot_items (nc_limits nc)"
    "int (length (snapshot_chunks (nat k) items)) \<le> max_snapshot_chunks (nc_limits nc)"
    "map_of (nc_snapshot_hashes nc') sid = Some h"
proof -
  obtain h where h: "snapshot_set_hash (nd_float ncfg) (nd_sha ncfg) items = Inr h"
    using assms by (auto simp: send_snapshot_def split: sum.splits)
  let ?sid = "default_snapshot_id ncfg snapshot_id h" and ?chunks = "snapshot_chunks (nat k) items"
  let ?nc = "nc\<lparr>nc_snapshot_hashes := AList.update ?sid h (nc_snapshot_hashes nc)\<rparr>"
  let ?ps = "map (\<lambda>(i, chunk). chunk_payload ?sid h (length ?chunks) i chunk) (enumerate 0 ?chunks)"
  have ff: "first_failure (snapshot_limit_checks (nc_limits nc) (nd_float ncfg) k items) = None"
    and w: "node_write_all ncfg io SNAPSHOT ?ps ?nc = (Inr (), sent, nc')" and sid: "sid = ?sid"
    using assms h by (auto simp: send_snapshot_def Let_def simp del: first_failure.simps split: option.splits sum.splits prod.splits)
  have "nc_snapshot_hashes nc' = nc_snapshot_hashes ?nc"
    using node_write_all_same [OF w] by (simp add: same_memory_def)
  then have "map_of (nc_snapshot_hashes nc') sid = Some h" by (simp add: sid update_conv)
  moreover have "sid \<noteq> []" by (simp add: sid default_snapshot_id_def)
  ultimately show thesis
    using that [OF h _ _ node_write_all_sent [OF w, folded sid]] ff by (auto simp: snapshot_limit_checks_def split: if_splits)
qed

text \<open>The head counts the bytes of the chunks: one more than the whole text for every further chunk.\<close>

lemma chunks_bytes:
  assumes "\<forall>it \<in> set items. dumps fl (item_value it) \<noteq> None" "dumps fl (items_value items) = Some t" "0 < k"
  shows "sum_list (map (chunk_bytes fl) (snapshot_chunks k items)) + 1 = length t + length (snapshot_chunks k items)"
proof (cases "items = []")
  case True
  then show ?thesis using assms(2) by (simp add: snapshot_chunks_def chunk_bytes_def)
next
  case False
  let ?cs = "snapshot_chunks k items"
  have all: "\<forall>c \<in> set ?cs. c \<noteq> [] \<and> (\<forall>it \<in> set c. dumps fl (item_value it) \<noteq> None)"
  proof
    fix c assume c: "c \<in> set ?cs"
    then have "set c \<subseteq> set items" using snapshot_chunks_concat [OF assms(3), of items] by (metis UN_upper set_concat)
    moreover have "c \<noteq> []" using c False by (auto simp: snapshot_chunks_def dest: chunks_of_nonempty [OF assms(3)])
    ultimately show "c \<noteq> [] \<and> (\<forall>it \<in> set c. dumps fl (item_value it) \<noteq> None)" using assms(1) by blast
  qed
  have one: "chunk_bytes fl c = sum_list (map (item_bytes fl) c) + length c + 1"
    if "c \<noteq> []" "\<forall>it \<in> set c. dumps fl (item_value it) \<noteq> None" for c
    using items_dumps [OF that(2)] that(1) by (cases c) (auto simp: chunk_bytes_def)
  have "sum_list (map (chunk_bytes fl) cs) = sum_list (map (item_bytes fl) (concat cs)) + length (concat cs) + length cs"
    if "\<forall>c \<in> set cs. c \<noteq> [] \<and> (\<forall>it \<in> set c. dumps fl (item_value it) \<noteq> None)" for cs
    using that by (induction cs) (auto simp: one)
  from this [OF all] have "sum_list (map (chunk_bytes fl) ?cs) = sum_list (map (item_bytes fl) items) + length items + length ?cs"
    by (simp add: snapshot_chunks_concat [OF assms(3)])
  moreover have "length t = sum_list (map (item_bytes fl) items) + length items + 1"
    using one [OF False assms(1)] assms(2) by (simp add: chunk_bytes_def)
  ultimately show ?thesis by simp
qed

text \<open>The limits of the acknowledgment are the limits of the head.\<close>

lemma read_limits_payload: "read_limits (limits_payload c) = c\<lparr>evidence_backed := False\<rparr>"
  by (simp add: read_limits_def limits_payload_def field_def the_number_def the_int_def)

text \<open>The frames of the chunks, as they arrive.\<close>

lemma chunks_arrive:
  assumes "map en_payload sent = map (\<lambda>(i, c). chunk_payload sid h n i c) (enumerate 0 cs)" "length clock = length sent"
    "\<And>t. t \<in> set clock \<Longrightarrow> t - t0 \<le> deadline"
  shows "list_all2 (\<lambda>(t, p) (i, c). arrives_as (chunk_payload sid h n i c) p \<and> t - t0 \<le> deadline)
    (zip clock (map (en_payload \<circ> canon_envelope) sent)) (enumerate 0 cs)"
proof (rule list_all2_all_nthI)
  have len: "length sent = length cs" using arg_cong [OF assms(1), of length] by simp
  then show "length (zip clock (map (en_payload \<circ> canon_envelope) sent)) = length (enumerate 0 cs)" using assms(2) by simp
  fix i assume "i < length (zip clock (map (en_payload \<circ> canon_envelope) sent))"
  then have i: "i < length cs" using assms(2) len by simp
  have "en_payload (sent ! i) = chunk_payload sid h n i (cs ! i)"
    using arg_cong [OF assms(1), of "\<lambda>ps. ps ! i"] i len by (simp add: nth_enumerate_eq)
  then show "(case zip clock (map (en_payload \<circ> canon_envelope) sent) ! i of (t, p) \<Rightarrow> \<lambda>(i, c).
      arrives_as (chunk_payload sid h n i c) p \<and> t - t0 \<le> deadline) (enumerate 0 cs ! i)"
    using i len assms(2,3) payload_arrives [of "sent ! i"] by (simp add: nth_enumerate_eq)
qed

text \<open>
  Snapshots arrive complete (C20). When a rank has sent a snapshot, in whatever number of chunks, the head that
  receives those frames in order and in time waits through all chunks but the last and then has exactly the
  canonical items the rank started from: nothing is lost, added or reordered by chunking, sorting, hashing and
  the two JSON encodings. The head compares bytes chunk by chunk, so the bound leaves one byte for every
  further chunk. SHA-256 appears only as a function whose values are 64 hexadecimal digits.
\<close>

theorem snapshot_transfer:
  assumes send: "send_snapshot ncfg io observations receipts snapshot_id k nc = (Inr sid, sent, nc')"
    and items: "canonical_snapshot_items (lc_float cfg) (snapshot_items observations receipts) = Inr items"
      "dumps (lc_float cfg) (items_value items) = Some encoded"
    and peers: "nc_limits nc = read_limits (limits_payload (lc_limits cfg))" "nd_sha ncfg = lc_sha cfg" "nd_float ncfg = lc_float cfg"
    and sha: "\<And>s. is_sha256 (lc_sha cfg s)"
    and wire: "\<And>obs. obs \<in> set observations \<Longrightarrow> wire_value F (obs_to_dict obs)" "\<And>r. r \<in> set receipts \<Longrightarrow> wire_value F (PDict r)"
    and idle: "map_of (li_snapshots ls) rank = None"
    and clock: "length clock = length sent" "\<And>t. t \<in> set clock \<Longrightarrow> t - hd clock \<le> snapshot_assembly_deadline_s (lc_limits cfg)"
    and size: "int (length encoded + length sent) \<le> max_snapshot_bytes (lc_limits cfg) + 1"
  shows "\<exists>ls'. assemble_all cfg rank (zip clock (map (en_payload \<circ> canon_envelope) sent)) ls =
      (ls', replicate (length sent - 1) Pending @ [Assembled (map canon_item items)]) \<and>
    map_of (li_snapshots ls') rank = None \<and> quiet ls ls'"
proof -
  let ?cs = "snapshot_chunks (nat k) items" and ?n = "length (snapshot_chunks (nat k) items)"
  obtain h where h: "snapshot_set_hash (lc_float cfg) (lc_sha cfg) items = Inr h" "sid \<noteq> []" "0 < k"
      "map en_payload sent = map (\<lambda>(i, c). chunk_payload sid h ?n i c) (enumerate 0 ?cs)"
      "int (length items) \<le> max_snapshot_items (nc_limits nc)" "int ?n \<le> max_snapshot_chunks (nc_limits nc)"
    using send_snapshot_sent [OF send, of items] items(1) peers by metis
  have form: "canonical_form (lc_float cfg) items" "set items \<subseteq> set (snapshot_items observations receipts)"
    using canonical_items_form [OF items(1)] by simp_all
  have dump: "\<forall>it \<in> set items. dumps (lc_float cfg) (item_value it) \<noteq> None"
    using canonical_form_dumps [OF form(1)] by blast
  have wires: "\<forall>it \<in> set items. wire_value F (snd it) \<and> dumps (lc_float cfg) (item_value it) \<noteq> None"
    using dump wire form(2) by (force simp: snapshot_items_def)
  have k: "0 < nat k" using h(3) by simp
  have len: "length sent = ?n" using arg_cong [OF h(4), of length] by simp
  have lim: "within_limits cfg ?cs"
    using chunks_bytes [OF dump items(2) k] size len h(5) snapshot_chunks_concat [OF k, of items] peers(1)
    by (simp add: within_limits_def read_limits_payload)
  have hex: "is_sha256 h" using h(1) sha by (auto simp: snapshot_set_hash_def and_then_Inr split: option.splits)
  have dels: "list_all2 (\<lambda>(t, p) (i, c). arrives_as (chunk_payload sid h ?n i c) p \<and>
        t - hd clock \<le> snapshot_assembly_deadline_s (lc_limits cfg))
      (zip clock (map (en_payload \<circ> canon_envelope) sent)) (enumerate (length []) ?cs)"
    using chunks_arrive [OF h(4) clock] by simp
  have kinds: "\<forall>c \<in> set ?cs. kinds_sorted c" using chunk_kinds canonical_form_kinds [OF form(1)] by blast
  have start: "[] = [] \<longrightarrow> fst (hd (zip clock (map (en_payload \<circ> canon_envelope) sent))) = hd clock"
    using clock(1) len snapshot_chunks_nonempty [of "nat k" items] by (cases clock; cases sent) auto
  have "\<exists>ls'. assemble_all cfg rank (zip clock (map (en_payload \<circ> canon_envelope) sent)) ls =
      (ls', replicate (?n - 1) Pending @ [Assembled (map canon_item items)]) \<and> map_of (li_snapshots ls') rank = None"
    by (rule assemble_rest [where F = F, OF dels snapshot_chunks_nonempty _ start])
       (use idle h hex lim kinds form(1) wires peers(1) snapshot_chunks_concat [OF k, of items] in \<open>simp_all add: read_limits_payload\<close>)
  then show ?thesis using assemble_all_quiet len by metis
qed


definition sample_channel :: node_channel where
  "sample_channel = (new_node_channel (read_limits (limits_payload default_control_limits)))\<lparr>nc_writer := True, nc_reader := True, nc_seq := 1, nc_head_seq := 1\<rparr>"

definition sample_receipt :: dict where
  "sample_receipt = [(PStr ''receipt_requirement_id'', PStr ''ray-runtime''), (PStr ''component_id'', PStr ''ray''),
     (PStr ''instance_id'', PStr ''ray-1''), (PStr ''owner_scope'', PStr ''RANK''), (PStr ''owner_rank'', PInt 0)]"

definition sample_send :: "string node_result" where
  "sample_send = send_snapshot sample_node (\<lambda>_. Written) [ray_obs 1] [sample_receipt] ''s1'' 1 sample_channel"

definition sample_items :: "snapshot_item list" where
  "sample_items = snapshot_items [ray_obs 1] [sample_receipt]"

lemma sample_send_ok:
  "fst sample_send = Inr ''s1'' \<and> length (fst (snd sample_send)) = 2"
  by code_simp

lemma sample_canonical:
  "canonical_snapshot_items (\<lambda>_. ''0.5'') sample_items = Inr sample_items"
  "(case dumps (\<lambda>_. ''0.5'') (items_value sample_items) of None \<Rightarrow> False | Some t \<Rightarrow> length t < 1000)"
  by code_simp+

lemma sample_wire: "wire_value {} (obs_to_dict (ray_obs 1)) \<and> wire_value {} (PDict sample_receipt)"
  by (simp add: obs_to_dict_def ray_obs_def sample_receipt_def opt_int_def str_or_none_def)

lemma zero_digest: "is_sha256 (replicate 64 (CHR ''0''))"
  by code_simp

theorem snapshot_transfer_witness:
  "\<exists>ls'. assemble_all sample_config 0 (zip [0, 1] (map (en_payload \<circ> canon_envelope) (fst (snd sample_send)))) new_listener =
      (ls', [Pending, Assembled (map canon_item sample_items)]) \<and> map_of (li_snapshots ls') 0 = None"
proof -
  obtain sent nc where send: "send_snapshot sample_node (\<lambda>_. Written) [ray_obs 1] [sample_receipt] ''s1'' 1 sample_channel = (Inr ''s1'', sent, nc)"
      "sample_send = (Inr ''s1'', sent, nc)" "length sent = 2"
    using sample_send_ok by (cases sample_send) (auto simp: sample_send_def)
  obtain t where t: "dumps (\<lambda>_. ''0.5'') (items_value sample_items) = Some t" "length t < 1000"
    using sample_canonical(2) by (auto split: option.splits)
  have "\<exists>ls'. assemble_all sample_config 0 (zip [0, 1] (map (en_payload \<circ> canon_envelope) sent)) new_listener =
      (ls', replicate (length sent - 1) Pending @ [Assembled (map canon_item sample_items)]) \<and>
    map_of (li_snapshots ls') 0 = None \<and> quiet new_listener ls'"
    by (rule snapshot_transfer [where F = "{}" and encoded = t, OF send(1)])
       (use sample_canonical(1) t send(3) sample_wire zero_digest in
         \<open>auto simp: sample_config_def sample_node_def sample_channel_def new_node_channel_def sample_items_def new_listener_def
            default_control_limits_def\<close>)
  moreover have "fst (snd sample_send) = sent" unfolding send(2) by simp
  ultimately show ?thesis using send(3) by (auto simp: numeral_2_eq_2)
qed

section \<open>The acknowledgment of a snapshot\<close>

text \<open>The payload \<open>p\<close> as it arrives.\<close>

definition arrived :: "dict \<Rightarrow> dict" where
  "arrived p = (case canon (PDict p) of PDict p' \<Rightarrow> p' | _ \<Rightarrow> [])"

lemma arrives_arrived: "arrives_as p (arrived p)"
  by (simp add: arrives_as_def arrived_def)

lemma canon_envelope_arrived: "canon_envelope env = env\<lparr>en_payload := arrived (en_payload env)\<rparr>"
  by (simp add: canon_envelope_def arrived_def)

definition ack_command :: "int \<Rightarrow> string \<Rightarrow> string \<Rightarrow> dict" where
  "ack_command rank sid h = command_body (ack_command_id rank sid) ''SNAPSHOT_ACCEPTED'' (snapshot_command_payload sid h)"

definition ack_answer :: "int \<Rightarrow> string \<Rightarrow> string \<Rightarrow> dict" where
  "ack_answer rank sid h =
     result_body (ack_command_id rank sid) True [] ''SNAPSHOT_ACCEPTED'' (Some ''SUCCEEDED'') (snapshot_command_payload sid h)"

lemma ack_id_nonempty [simp]: "ack_command_id rank sid \<noteq> []"
  by (simp add: ack_command_id_def)

lemmas body_defs = ack_command_def ack_answer_def command_body_def result_body_def snapshot_command_payload_def v1_def

lemma ack_command_fields:
  "field (ack_command rank sid h) ''payload_version'' = PInt 1"
  "field (ack_command rank sid h) ''command_id'' = PStr (ack_command_id rank sid)"
  "field (ack_command rank sid h) ''operation'' = PStr ''SNAPSHOT_ACCEPTED''"
  "field (ack_command rank sid h) ''snapshot_id'' = PStr sid"
  "field (ack_command rank sid h) ''complete_set_hash'' = PStr h"
  "distinct (map fst (ack_command rank sid h))" "has_keys (ack_command rank sid h) (command_fields @ snapshot_fields)"
  by (simp_all add: body_defs field_def has_keys_def command_fields_def snapshot_fields_def)

lemma ack_answer_fields:
  "field (ack_answer rank sid h) ''payload_version'' = PInt 1"
  "field (ack_answer rank sid h) ''command_id'' = PStr (ack_command_id rank sid)"
  "field (ack_answer rank sid h) ''operation'' = PStr ''SNAPSHOT_ACCEPTED''"
  "field (ack_answer rank sid h) ''ok'' = PBool True" "field (ack_answer rank sid h) ''detail'' = PStr []"
  "field (ack_answer rank sid h) ''status'' = PStr ''SUCCEEDED''"
  "field (ack_answer rank sid h) ''snapshot_id'' = PStr sid"
  "field (ack_answer rank sid h) ''complete_set_hash'' = PStr h"
  "distinct (map fst (ack_answer rank sid h))" "has_keys (ack_answer rank sid h) (result_fields @ snapshot_fields)"
  by (simp_all add: body_defs field_def has_keys_def result_fields_def snapshot_fields_def)

lemma arrived_fields:
  "field (arrived (ack_command rank sid h)) k = canon (field (ack_command rank sid h) k)"
  "field (arrived (ack_answer rank sid h)) k = canon (field (ack_answer rank sid h) k)"
  using arrives_field [OF arrives_arrived] ack_command_fields(6) ack_answer_fields(9) by blast+

text \<open>An entry is absent, with room for it, or is the expected one.\<close>

definition fresh_or :: "('k \<times> 'v) list \<Rightarrow> 'k \<Rightarrow> 'v \<Rightarrow> bool" where
  "fresh_or d k v = (case map_of d k of None \<Rightarrow> length d < max_command_records | Some v' \<Rightarrow> v' = v)"

lemma arrived_command_valid:
  assumes "sid \<noteq> []" "is_sha256 h"
  shows "validate_command_payload (arrived (ack_command rank sid h)) = Inr (arrived (ack_command rank sid h))"
  using assms arrives_keys [OF arrives_arrived, of "ack_command rank sid h"]
  by (simp add: validate_command_payload_def check_simps payload_v1_def for_snapshot_def arrived_fields ack_command_fields
      nonempty_str_def is_hash_def)

lemma answer_valid:
  assumes "sid \<noteq> []" "is_sha256 h"
  shows "validate_command_result_payload (ack_answer rank sid h) = Inr (ack_answer rank sid h)"
    "validate_command_result_payload (arrived (ack_answer rank sid h)) = Inr (arrived (ack_answer rank sid h))"
  using assms arrives_keys [OF arrives_arrived, of "ack_answer rank sid h"]
  by (simp_all add: validate_command_result_payload_def command_result_checks_def check_simps payload_v1_def for_snapshot_def
      arrived_fields ack_answer_fields nonempty_str_def is_hash_def field_in_def result_operations_def)

text \<open>The rank takes the command up and answers it.\<close>

lemma await_answers:
  assumes rank: "nc_writer nc" "nc_reader nc" "nc_pending_head_commands nc = []" "map_of (nc_snapshot_hashes nc) sid = Some h"
      "fresh_or (nc_received_commands nc) (ack_command_id rank sid) (arrived (ack_command rank sid h))"
      "fresh_or (nc_command_results nc) (ack_command_id rank sid) (ack_answer rank sid h)" "\<And>env. io env = Written"
    and cmd: "en_payload cmd = ack_command rank sid h" "en_kind cmd = COMMAND" "nc_head_seq nc < en_seq cmd"
      "en_deployment_id cmd = nd_deployment_id cfg" "en_plan_hash cmd = nd_plan_hash cfg" "en_generation cmd = nd_generation cfg"
      "en_sender_rank cmd = supervisor_rank" "sid \<noteq> []" "is_sha256 h"
  obtains res nc' where "await_snapshot_accepted cfg io sid (Arrived (canon_envelope cmd)) nc = (Inr True, [res], nc')"
    "res = fst (node_env cfg COMMAND_RESULT (ack_answer rank sid h) nc)" "map_of (nc_snapshot_hashes nc') sid = None"
proof -
  let ?cmd = "arrived (ack_command rank sid h)" and ?id = "ack_command_id rank sid"
  let ?nc1 = "nc\<lparr>nc_head_seq := en_seq cmd\<rparr>"
  have name: "command_name ?cmd = ?id" by (simp add: command_name_def arrived_fields ack_command_fields the_str_def)
  have next_cmd: "next_command cfg (Arrived (canon_envelope cmd)) nc = (Inr (Some ?cmd), ?nc1)"
    using rank cmd arrived_command_valid [of sid h rank]
    by (simp add: next_command_def read_head_envelope_def read_head_def validate_head_envelope_def check_simps checked_def canon_envelope_arrived)
  obtain received where rec: "remember_received_command ?cmd ?nc1 = Inr (?cmd, ?nc1\<lparr>nc_received_commands := received\<rparr>)"
      "map_of received ?id = Some ?cmd"
  proof (cases "map_of (nc_received_commands nc) ?id")
    case None
    then show thesis
      using that rank(5) by (auto simp: remember_received_command_def name fresh_or_def update_conv)
  next
    case (Some p)
    then have "p = ?cmd" using rank(5) by (simp add: fresh_or_def)
    then show thesis
      using that [of "nc_received_commands nc"] Some by (simp add: remember_received_command_def name same_dict_def py_eq_def)
  qed
  let ?nc2 = "?nc1\<lparr>nc_received_commands := received\<rparr>"
  have receive: "receive_command cfg (Arrived (canon_envelope cmd)) nc = (Inr (Some ?cmd), ?nc2)"
    by (simp add: receive_command_def next_cmd rec(1))
  have ok: "accepted_command_ok sid h ?cmd"
    by (simp add: accepted_command_ok_def arrived_fields ack_command_fields py_eq_def nonempty_str_def)
  have "prepare_result ?id True [] ''SNAPSHOT_ACCEPTED'' (Some ''SUCCEEDED'') (snapshot_command_payload sid h) ?nc2 =
      Inr (ack_answer rank sid h)"
    using rank(6) answer_valid [OF cmd(8,9)] rec(2) unfolding prepare_result_def ack_answer_def [symmetric] Let_def
    by (auto simp: argument_checks_def request_checks_def checked_def arrived_fields ack_command_fields ack_answer_fields fresh_or_def
        py_eq_def same_dict_def snapshot_fields_def result_fields_def snapshot_command_payload_def split: option.splits)
  then show thesis
    using that rank(1,4,7)
    by (simp add: await_snapshot_accepted_def receive ok name send_command_result_def node_write_def node_env_def Let_def delete_conv')
qed

text \<open>The head has accepted a snapshot: what its state and its last event are.\<close>

definition last_out_seq :: "control_listener \<Rightarrow> int \<Rightarrow> int" where
  "last_out_seq ls rank = (case map_of (li_out_seq ls) rank of None \<Rightarrow> 0 | Some n \<Rightarrow> n)"

lemma accepted_state:
  assumes "accept_snapshot cfg tn si sid h items os rs ls = (ls1, evs, Continue)" "si_rank si = rank"
    "fresh_or (li_issued_commands ls) (ack_command_id rank sid) (rank, ack_command rank sid h)"
  obtains si1 cmd where "last evs = Wrote rank cmd" "cmd = head_envelope cfg COMMAND (last_out_seq ls rank + 1) (ack_command rank sid h)"
    "map_of (li_sessions ls1) rank = Some si1" "si_rank si1 = rank" "si_node_id si1 = si_node_id si"
    "si_registered si1 = si_registered si" "si_last_seq si1 = si_last_seq si" "si_established si1 = si_established si"
    "si_pending_snapshot_id si1 = sid" "si_pending_snapshot_hash si1 = h" "si_pending_snapshot_command_id si1 = ack_command_id rank sid"
    "map_of (li_issued_commands ls1) (ack_command_id rank sid) = Some (rank, ack_command rank sid h)"
    "li_command_results ls1 = li_command_results ls"
proof -
  let ?si = "replace_projection os si" and ?id = "ack_command_id rank sid"
  obtain evs0 where ev0: "snapshot_events tn (si_rank si) sid h items os rs = (evs0, False)"
    using assms(1) by (cases "snapshot_events tn (si_rank si) sid h items os rs") (auto simp: accept_snapshot_def split: if_splits)
  obtain si0 where si0: "remember_all cfg os ?si = Some si0"
    using assms(1) ev0 by (cases "remember_all cfg os ?si") (auto simp: accept_snapshot_def)
  obtain seen where seen: "si0 = ?si\<lparr>si_seen_obs := seen\<rparr>"
    using remember_all_session [OF si0] by (auto simp: replace_projection_def)
  let ?si1 = "await_ack sid h si0" and ?ls = "put_session (await_ack sid h si0) ls"
  have si1: "si_rank ?si1 = rank" "si_pending_snapshot_command_id ?si1 = ?id"
    using assms(2) by (simp_all add: await_ack_def seen replace_projection_def)
  obtain evs1 where push: "push_command cfg tn rank ?id ''SNAPSHOT_ACCEPTED'' (snapshot_command_payload sid h) ?ls = Inr (True, evs1, ls1)"
      "evs = evs0 @ evs1"
    using assms(1) ev0 si0 si1
    by (auto simp: accept_snapshot_def Let_def split: sum.splits if_splits)
  obtain ls2 where ls2: "remember_issued_command ?id (rank, ack_command rank sid h) ?ls = Inr ls2"
      "ls2 = ?ls\<lparr>li_issued_commands := li_issued_commands ls2\<rparr>" "map_of (li_issued_commands ls2) ?id = Some (rank, ack_command rank sid h)"
    using assms(3) that
    by (cases "map_of (li_issued_commands ls) ?id") (auto simp: remember_issued_command_def fresh_or_def py_eq_def update_conv put_session_def)
  have "\<not> list_ex (\<lambda>k. PStr k \<in> set (map fst (snapshot_command_payload sid h))) command_fields"
    by (simp add: snapshot_command_payload_def command_fields_def)
  then have out: "evs1 = [Wrote rank (head_envelope cfg COMMAND (last_out_seq ls rank + 1) (ack_command rank sid h))]"
      "ls1 = snd (next_out_seq rank ls2)"
    using push(1) ls2(1) arg_cong [OF ls2(2), of li_out_seq] unfolding push_command_def
    by (auto simp: and_then_Inr checked_def ack_command_def [symmetric] next_out_seq_def Let_def last_out_seq_def put_session_def
        split: if_splits)
  show thesis
  proof (rule that [of "head_envelope cfg COMMAND (last_out_seq ls rank + 1) (ack_command rank sid h)" ?si1])
    show "map_of (li_sessions ls1) rank = Some ?si1"
      using out(2) arg_cong [OF ls2(2), of li_sessions] si1 by (simp add: next_out_seq_def Let_def put_session_def update_conv)
    show "map_of (li_issued_commands ls1) ?id = Some (rank, ack_command rank sid h)" "li_command_results ls1 = li_command_results ls"
      using out(2) ls2(3) arg_cong [OF ls2(2), of li_command_results] by (simp_all add: next_out_seq_def Let_def put_session_def)
  qed (use assms(2) push(2) out si1 in \<open>simp_all add: await_ack_def seen replace_projection_def\<close>)
qed

text \<open>The head takes the answer.\<close>

lemma answer_establishes:
  assumes si: "map_of (li_sessions ls) rank = Some si" "si_rank si = rank" "si_registered si"
      "si_pending_snapshot_id si = sid" "si_pending_snapshot_hash si = h" "si_pending_snapshot_command_id si = ack_command_id rank sid"
      "map_of (li_issued_commands ls) (ack_command_id rank sid) = Some (rank, ack_command rank sid h)"
      "\<And>prior. map_of (li_command_results ls) (ack_command_id rank sid) = Some prior \<Longrightarrow>
         prior = result_record (arrived (ack_answer rank sid h)) rank"
    and env: "en_payload env = ack_answer rank sid h" "en_kind env = COMMAND_RESULT" "check_scope cfg env = None" "en_sender_rank env = rank"
      "en_sender_node env = si_node_id si" "si_last_seq si < en_seq env" "sid \<noteq> []" "is_sha256 h"
    and cb: "call_decision (tn_snapshot_ack tn) = Some (True, d)"
  obtains ls' where "handle_envelope cfg tn conn (Some rank) (canon_envelope env) ls =
      (Some rank, ls', [SnapshotAck rank (arrived (ack_answer rank sid h))], Continue)" "is_established ls' rank"
proof -
  let ?p = "arrived (ack_answer rank sid h)"
  let ?si = "si\<lparr>si_last_seq := en_seq env\<rparr>"
  let ?ls = "put_session ?si ls"
  let ?ls1 = "?ls\<lparr>li_command_results := AList.update (ack_command_id rank sid) (result_record ?p rank) (li_command_results ?ls)\<rparr>"
  have id: "the_str (field ?p ''command_id'') = ack_command_id rank sid"
    by (simp add: arrived_fields ack_answer_fields the_str_def)
  have scope: "check_scope cfg (canon_envelope env) = None"
    using env(3) by (simp add: check_scope_def canon_envelope_arrived)
  have refusal: "result_refusal ?si ?p rank ?ls = None"
    unfolding result_refusal_def Let_def id using si(2,6,7,8)
    by (auto simp: arrived_fields ack_answer_fields ack_command_fields py_eq_def put_session_def split: option.splits)
  have op: "field ?p ''operation'' = PStr ''SNAPSHOT_ACCEPTED''" by (simp add: arrived_fields ack_answer_fields)
  have ok: "snapshot_ack_ok ?si ?p"
    by (simp add: snapshot_ack_ok_def arrived_fields ack_answer_fields si)
  have "handle_command_result cfg tn ?si (canon_envelope env) ?ls = acknowledge cfg tn ?si ?p ?ls1"
    using answer_valid(2) [OF env(7,8), of rank] refusal op si(6) env(1,4)
    by (simp add: handle_command_result_def Let_def id canon_envelope_arrived)
  also have "\<dots> = (refresh_established cfg (put_session (?si\<lparr>si_established := True, si_pending_snapshot_command_id := []\<rparr>) ?ls1),
      [SnapshotAck rank ?p], Continue)"
    using ok cb si(2) by (simp add: acknowledge_def)
  finally have "handle_envelope cfg tn conn (Some rank) (canon_envelope env) ls =
      (Some rank, refresh_established cfg (put_session (?si\<lparr>si_established := True, si_pending_snapshot_command_id := []\<rparr>) ?ls1),
       [SnapshotAck rank ?p], Continue)"
    using scope si env by (simp add: handle_envelope_def Let_def dispatch_def canon_envelope_arrived)
  then show thesis
    using that si(2,3) by (auto simp: refresh_established_def is_established_def put_session_def update_conv)
qed

text \<open>The rank of a session, with the identity of the deployment.\<close>

definition peer :: "listener_config \<Rightarrow> session_info \<Rightarrow> node_config \<Rightarrow> bool" where
  "peer cfg si ncfg \<longleftrightarrow>
     nd_deployment_id ncfg = lc_deployment_id cfg \<and> nd_plan_hash ncfg = lc_plan_hash cfg \<and> nd_generation ncfg = lc_generation cfg \<and>
     nd_rank ncfg = si_rank si \<and> nd_node_id ncfg = si_node_id si"

text \<open>
  A command left in the queue of the rank, where \<^verbatim>\<open>heartbeat_round_trip\<close> puts what arrives before the echo: the wait for
  the acceptance takes it up in place of the head's answer and fails; nothing is sent, and the command is gone
  from the queue, received but never answered.
\<close>

lemma queued_command_spoils_acceptance:
  assumes "map_of (nc_snapshot_hashes nc) sid = Some h" "nc_pending_head_commands nc = p # ps" "validate_command_payload p = Inr p"
    and "field p ''operation'' \<noteq> PStr ''SNAPSHOT_ACCEPTED''" "map_of (nc_received_commands nc) (command_name p) = None"
    and "length (nc_received_commands nc) < max_command_records"
  shows "\<exists>nc'. await_snapshot_accepted cfg io sid inp nc = (Inl (refuse ''SNAPSHOT_ACCEPTED command mismatch''), [], nc') \<and>
    nc_pending_head_commands nc' = ps \<and> nc_command_results nc' = nc_command_results nc \<and>
    map_of (nc_received_commands nc') (command_name p) = Some p"
  using assms
  by (auto simp: await_snapshot_accepted_def receive_command_def next_command_def remember_received_command_def
      accepted_command_ok_def update_conv')

text \<open>
  An accepted snapshot establishes its rank (C7). After the head has accepted a snapshot, the command it sent
  last is one that the rank takes up and answers, and the answer makes the session established: the barrier is
  passed in one exchange. This holds on a first connection and on a reconnection that repeats the snapshot, where
  both sides remember the command and its result. The conditions: the two sides agree on deployment, plan, generation,
  rank and node; the snapshot has an identity and a digest; the rank is connected, has this snapshot in flight, and no
  command of the head is left in its queue (a queued one is taken up first and the wait then fails); the identity of the
  command is new to each side, with room to remember it, or remembered there with this command and this
  answer; the callback of the head for acknowledgments accepts; the writes of the rank succeed; and the sequence
  number each side has seen is not ahead of what the other has sent.
\<close>

theorem accepted_rank_established:
  assumes accepted: "accept_snapshot cfg tn si sid h items os rs ls = (ls1, evs, Continue)"
    and session: "si_registered si" "peer cfg si ncfg" "sid \<noteq> []" "is_sha256 h" "call_decision (tn_snapshot_ack tn') = Some (True, d)"
    and head: "fresh_or (li_issued_commands ls) (ack_command_id (si_rank si) sid) (si_rank si, ack_command (si_rank si) sid h)"
      "\<And>prior. map_of (li_command_results ls) (ack_command_id (si_rank si) sid) = Some prior \<Longrightarrow>
         prior = result_record (arrived (ack_answer (si_rank si) sid h)) (si_rank si)"
    and rank: "nc_writer nc" "nc_reader nc" "nc_pending_head_commands nc = []" "map_of (nc_snapshot_hashes nc) sid = Some h"
      "fresh_or (nc_received_commands nc) (ack_command_id (si_rank si) sid) (arrived (ack_command (si_rank si) sid h))"
      "fresh_or (nc_command_results nc) (ack_command_id (si_rank si) sid) (ack_answer (si_rank si) sid h)"
      "\<And>env. io env = Written"
    and order: "nc_head_seq nc \<le> last_out_seq ls (si_rank si)" "si_last_seq si \<le> nc_seq nc"
  shows "\<exists>cmd res nc' ls2. last evs = Wrote (si_rank si) cmd \<and>
    await_snapshot_accepted ncfg io sid (Arrived (canon_envelope cmd)) nc = (Inr True, [res], nc') \<and>
    map_of (nc_snapshot_hashes nc') sid = None \<and>
    handle_envelope cfg tn' conn (Some (si_rank si)) (canon_envelope res) ls1 =
      (Some (si_rank si), ls2, [SnapshotAck (si_rank si) (arrived (ack_answer (si_rank si) sid h))], Continue) \<and>
    is_established ls2 (si_rank si)"
proof -
  let ?r = "si_rank si"
  obtain si1 cmd where acc: "last evs = Wrote ?r cmd" "cmd = head_envelope cfg COMMAND (last_out_seq ls ?r + 1) (ack_command ?r sid h)"
      "map_of (li_sessions ls1) ?r = Some si1" "si_rank si1 = ?r" "si_node_id si1 = si_node_id si"
      "si_registered si1 = si_registered si" "si_last_seq si1 = si_last_seq si"
      "si_pending_snapshot_id si1 = sid" "si_pending_snapshot_hash si1 = h" "si_pending_snapshot_command_id si1 = ack_command_id ?r sid"
      "map_of (li_issued_commands ls1) (ack_command_id ?r sid) = Some (?r, ack_command ?r sid h)"
      "li_command_results ls1 = li_command_results ls"
    using accepted_state [OF accepted refl head(1)] by metis
  note id = session(2) [unfolded peer_def]
  obtain res nc' where res: "await_snapshot_accepted ncfg io sid (Arrived (canon_envelope cmd)) nc = (Inr True, [res], nc')"
      "res = fst (node_env ncfg COMMAND_RESULT (ack_answer ?r sid h) nc)" "map_of (nc_snapshot_hashes nc') sid = None"
    by (rule await_answers [OF rank, of cmd ncfg]) (use id order(1) session(3,4) in \<open>simp_all add: acc(2) head_envelope_def\<close>)
  have "check_scope cfg res = None" using id by (simp add: res(2) check_scope_def node_env_def Let_def)
  then obtain ls2 where "handle_envelope cfg tn' conn (Some ?r) (canon_envelope res) ls1 =
      (Some ?r, ls2, [SnapshotAck ?r (arrived (ack_answer ?r sid h))], Continue)" "is_established ls2 ?r"
    using answer_establishes [of ls1 ?r si1 sid h res cfg tn' d conn] acc session head(2) id order(2)
    by (auto simp: res(2) node_env_def Let_def)
  then show ?thesis using acc(1) res(1,3) by blast
qed

definition sample_joined :: control_listener where
  "sample_joined = nw_listener (feed sample_config sample_turn 7 (hd sample_frames) (new_network\<lparr>nw_conns := [(7, None)]\<rparr>))"

definition sample_session :: session_info where
  "sample_session = (case map_of (li_sessions sample_joined) 0 of Some si \<Rightarrow> si)"

definition zeros :: string where
  "zeros = replicate 64 (CHR ''0'')"

definition sample_accept :: handled where
  "sample_accept = accept_snapshot sample_config sample_turn sample_session ''s1'' zeros sample_items [ray_obs 1] [] sample_joined"

lemma sample_accepted: "snd (snd sample_accept) = Continue"
  by code_simp

lemma sample_session_ok: "si_registered sample_session \<and> si_rank sample_session = 0 \<and> si_node_id sample_session = ''node0'' \<and> si_last_seq sample_session = 1"
  by code_simp

lemma sample_head_fresh:
  "map_of (li_issued_commands sample_joined) k = None" "length (li_issued_commands sample_joined) < max_command_records"
  "map_of (li_command_results sample_joined) k = None" "last_out_seq sample_joined 0 = 1"
proof -
  have "li_issued_commands sample_joined = [] \<and> li_command_results sample_joined = []" by code_simp
  then show "map_of (li_issued_commands sample_joined) k = None" "length (li_issued_commands sample_joined) < max_command_records"
    "map_of (li_command_results sample_joined) k = None" by (simp_all add: max_command_records_def)
  show "last_out_seq sample_joined 0 = 1" by code_simp
qed

definition idle_after :: "node_channel \<Rightarrow> bool" where
  "idle_after nc =
     (nc_writer nc \<and> nc_reader nc \<and> nc_pending_head_commands nc = [] \<and> nc_snapshot_hashes nc = [(''s1'', zeros)] \<and>
      nc_received_commands nc = [] \<and> nc_command_results nc = [] \<and> nc_head_seq nc = 1 \<and> nc_seq nc = 3)"

lemma sample_idle: "idle_after (snd (snd sample_send))"
  by code_simp

text \<open>
  A reconnection: the rank answers and is established, its connection ends, it dials again, registers with the
  listener that remembers it and repeats the snapshot. The listener and the channel at that point:
\<close>

definition written :: "event list \<Rightarrow> envelope" where
  "written evs = hd (List.map_filter (\<lambda>ev. case ev of Wrote r env \<Rightarrow> Some env | _ \<Rightarrow> None) evs)"

definition dial_again :: "head_input \<Rightarrow> node_channel \<Rightarrow> unit node_result" where
  "dial_again ack = connect_and_register sample_node
     \<lparr>ci_cleanup = True, ci_open = True, ci_write = (\<lambda>_. Written), ci_ack = ack\<rparr> ''boot''"

definition reconnected :: "control_listener \<times> node_channel" where
  "reconnected =
     (case sample_accept of (ls1, evs1, v) \<Rightarrow>
      case await_snapshot_accepted sample_node (\<lambda>_. Written) ''s1'' (Arrived (canon_envelope (written evs1))) (snd (snd sample_send)) of (ok, res, nc1) \<Rightarrow>
      case handle_envelope sample_config sample_turn 7 (Some 0) (canon_envelope (hd res)) ls1 of (owner, ls2, evs2, v2) \<Rightarrow>
      case serve sample_config sample_turn 7 (Some 0) Ended ls2 of (ls3, evs3, v3) \<Rightarrow>
      case dial_again Silent nc1 of (err, reg, nc) \<Rightarrow>
      case serve sample_config sample_turn 8 None (FrameIn (canon_envelope (hd reg))) ls3 of (ls4, evs4, v4) \<Rightarrow>
      case dial_again (Arrived (canon_envelope (written evs4))) nc1 of (done, reg', nc2) \<Rightarrow>
        (ls4, snd (snd (send_snapshot sample_node (\<lambda>_. Written) [ray_obs 1] [sample_receipt] ''s1'' 1 nc2))))"

definition ack_id :: string where
  "ack_id = ack_command_id 0 ''s1''"

definition rank_remembers :: "node_channel \<Rightarrow> bool" where
  "rank_remembers nc =
     (nc_writer nc \<and> nc_reader nc \<and> nc_pending_head_commands nc = [] \<and> nc_snapshot_hashes nc = [(''s1'', zeros)] \<and>
      nc_received_commands nc = [(ack_id, arrived (ack_command 0 ''s1'' zeros))] \<and>
      nc_command_results nc = [(ack_id, ack_answer 0 ''s1'' zeros)] \<and> nc_head_seq nc = 3 \<and> nc_seq nc = 7)"

definition head_remembers :: "control_listener \<Rightarrow> bool" where
  "head_remembers ls =
     (li_issued_commands ls = [(ack_id, 0, ack_command 0 ''s1'' zeros)] \<and>
      li_command_results ls = [(ack_id, result_record (arrived (ack_answer 0 ''s1'' zeros)) 0)] \<and> last_out_seq ls 0 = 3 \<and>
      (case map_of (li_sessions ls) 0 of None \<Rightarrow> False
       | Some si \<Rightarrow> si_registered si \<and> \<not> si_established si \<and> si_rank si = 0 \<and> si_node_id si = ''node0'' \<and> si_last_seq si \<le> 7 \<and>
           snd (snd (accept_snapshot sample_config sample_turn si ''s1'' zeros sample_items [ray_obs 1] [] ls)) = Continue))"

lemma reconnected_facts: "case reconnected of (ls, nc) \<Rightarrow> head_remembers ls \<and> rank_remembers nc"
  by code_simp
theorem accepted_rank_established_witness:
  "(\<exists>cmd res nc' ls2. last (fst (snd sample_accept)) = Wrote 0 cmd \<and>
    await_snapshot_accepted sample_node (\<lambda>_. Written) ''s1'' (Arrived (canon_envelope cmd)) (snd (snd sample_send)) = (Inr True, [res], nc') \<and>
    handle_envelope sample_config sample_turn 7 (Some 0) (canon_envelope res) (fst sample_accept) =
      (Some 0, ls2, [SnapshotAck 0 (arrived (ack_answer 0 ''s1'' zeros))], Continue) \<and>
    is_established ls2 0) \<and>
   (\<exists>si ls1 evs cmd res nc' ls2. map_of (li_sessions (fst reconnected)) 0 = Some si \<and> \<not> si_established si \<and>
    accept_snapshot sample_config sample_turn si ''s1'' zeros sample_items [ray_obs 1] [] (fst reconnected) = (ls1, evs, Continue) \<and>
    last evs = Wrote 0 cmd \<and>
    await_snapshot_accepted sample_node (\<lambda>_. Written) ''s1'' (Arrived (canon_envelope cmd)) (snd reconnected) = (Inr True, [res], nc') \<and>
    handle_envelope sample_config sample_turn 8 (Some 0) (canon_envelope res) ls1 =
      (Some 0, ls2, [SnapshotAck 0 (arrived (ack_answer 0 ''s1'' zeros))], Continue) \<and>
    is_established ls2 0)"
proof
  have cb: "call_decision (tn_snapshot_ack sample_turn) = Some (True, ''accepted'')"
    by (simp add: sample_turn_def call_decision_def)
  have hex: "is_sha256 zeros" unfolding zeros_def by (rule zero_digest)
  have acc: "accept_snapshot sample_config sample_turn sample_session ''s1'' zeros sample_items [ray_obs 1] [] sample_joined =
      (fst sample_accept, fst (snd sample_accept), Continue)"
    unfolding sample_accepted [symmetric] by (simp add: sample_accept_def)
  have peer: "peer sample_config sample_session sample_node"
    using sample_session_ok by (simp add: peer_def sample_config_def sample_node_def)
  have "\<exists>cmd res nc' ls2. last (fst (snd sample_accept)) = Wrote (si_rank sample_session) cmd \<and>
      await_snapshot_accepted sample_node (\<lambda>_. Written) ''s1'' (Arrived (canon_envelope cmd)) (snd (snd sample_send)) = (Inr True, [res], nc') \<and>
      map_of (nc_snapshot_hashes nc') ''s1'' = None \<and>
      handle_envelope sample_config sample_turn 7 (Some (si_rank sample_session)) (canon_envelope res) (fst sample_accept) =
        (Some (si_rank sample_session), ls2, [SnapshotAck (si_rank sample_session) (arrived (ack_answer (si_rank sample_session) ''s1'' zeros))], Continue) \<and>
      is_established ls2 (si_rank sample_session)"
    by (rule accepted_rank_established [OF acc _ peer _ hex cb])
       (use sample_head_fresh sample_idle sample_session_ok in \<open>simp_all add: fresh_or_def idle_after_def max_command_records_def\<close>)
  then show "\<exists>cmd res nc' ls2. last (fst (snd sample_accept)) = Wrote 0 cmd \<and>
    await_snapshot_accepted sample_node (\<lambda>_. Written) ''s1'' (Arrived (canon_envelope cmd)) (snd (snd sample_send)) = (Inr True, [res], nc') \<and>
    handle_envelope sample_config sample_turn 7 (Some 0) (canon_envelope res) (fst sample_accept) =
      (Some 0, ls2, [SnapshotAck 0 (arrived (ack_answer 0 ''s1'' zeros))], Continue) \<and>
    is_established ls2 0" using sample_session_ok by metis
next
  have cb: "call_decision (tn_snapshot_ack sample_turn) = Some (True, ''accepted'')"
    by (simp add: sample_turn_def call_decision_def)
  have hex: "is_sha256 zeros" unfolding zeros_def by (rule zero_digest)
  have facts: "head_remembers (fst reconnected)" "rank_remembers (snd reconnected)"
    using reconnected_facts by (simp_all add: case_prod_beta)
  then obtain si where si: "map_of (li_sessions (fst reconnected)) 0 = Some si" "si_registered si" "\<not> si_established si" "si_rank si = 0"
      "si_node_id si = ''node0''" "si_last_seq si \<le> 7"
      "snd (snd (accept_snapshot sample_config sample_turn si ''s1'' zeros sample_items [ray_obs 1] [] (fst reconnected))) = Continue"
    by (auto simp: head_remembers_def split: option.splits)
  then obtain ls1 evs where acc: "accept_snapshot sample_config sample_turn si ''s1'' zeros sample_items [ray_obs 1] [] (fst reconnected) =
      (ls1, evs, Continue)" by (metis prod.collapse)
  have peer: "peer sample_config si sample_node" using si by (simp add: peer_def sample_config_def sample_node_def)
  have "\<exists>cmd res nc' ls2. last evs = Wrote (si_rank si) cmd \<and>
      await_snapshot_accepted sample_node (\<lambda>_. Written) ''s1'' (Arrived (canon_envelope cmd)) (snd reconnected) = (Inr True, [res], nc') \<and>
      map_of (nc_snapshot_hashes nc') ''s1'' = None \<and>
      handle_envelope sample_config sample_turn 8 (Some (si_rank si)) (canon_envelope res) ls1 =
        (Some (si_rank si), ls2, [SnapshotAck (si_rank si) (arrived (ack_answer (si_rank si) ''s1'' zeros))], Continue) \<and>
      is_established ls2 (si_rank si)"
    by (rule accepted_rank_established [OF acc _ peer _ hex cb])
       (use facts si in \<open>simp_all add: fresh_or_def head_remembers_def rank_remembers_def ack_id_def\<close>)
  then show "\<exists>si ls1 evs cmd res nc' ls2. map_of (li_sessions (fst reconnected)) 0 = Some si \<and> \<not> si_established si \<and>
    accept_snapshot sample_config sample_turn si ''s1'' zeros sample_items [ray_obs 1] [] (fst reconnected) = (ls1, evs, Continue) \<and>
    last evs = Wrote 0 cmd \<and>
    await_snapshot_accepted sample_node (\<lambda>_. Written) ''s1'' (Arrived (canon_envelope cmd)) (snd reconnected) = (Inr True, [res], nc') \<and>
    handle_envelope sample_config sample_turn 8 (Some 0) (canon_envelope res) ls1 =
      (Some 0, ls2, [SnapshotAck 0 (arrived (ack_answer 0 ''s1'' zeros))], Continue) \<and>
    is_established ls2 0" using si acc by metis
qed

end
