(* ===== verification/Session.thy ===== *)
theory Session
  imports Plan_Binding
begin

text \<open>
  The head-side control-session state machine, \<^verbatim>\<open>src/exaserve/control/session.py\<close>.

  \<open>session_coordinator\<close> is the state of \<^verbatim>\<open>SessionCoordinator\<close>; each method is one definition that
  takes the reading of the clock and returns the new state with the method's result. Replies and
  terminal reasons are datatypes with one constructor per message of the source. Snapshot items have
  an arbitrary type \<open>'i\<close> and \<open>canonical_hash\<close> is an arbitrary function on them, so every theorem
  holds for the SHA-256 of the source. \<open>session_step\<close> is the relation of all method calls, from
  which reachability and the invariants are derived.
\<close>

section \<open>Data\<close>

datatype session_state =
  EXPECTED | AUTHENTICATED | SNAPSHOT_PENDING | SNAPSHOT_ACK_PENDING | ESTABLISHED | LOST | TERMINAL

datatype generation_state = REGISTERING | STARTED | GEN_TERMINAL

record rank_session =
  rs_rank :: int
  rs_node_id :: string
  rs_state :: session_state
  rs_instance_id :: string
  rs_last_heartbeat_at :: "real option"
  rs_loss_time :: "real option"
  rs_snapshot_id :: string
  rs_complete_set_hash :: string
  rs_snapshot_command_id :: string
  rs_snapshot_accepted :: bool
  rs_supervisor_receipt_accepted :: bool
  rs_reconnects :: int

definition is_established :: "rank_session \<Rightarrow> bool" where
  "is_established x = (rs_state x = ESTABLISHED)"

record 'i snapshot_assembly =
  sa_snapshot_id :: string
  sa_total_chunks :: int
  sa_complete_hash :: string
  sa_limits :: control_limits
  sa_started_at :: real
  sa_chunks :: "(int \<times> 'i list) list"

datatype session_reply =
    ChunkOutOfRange int | ChunksOverLimit int | ConflictingDuplicate int | TooManyItems nat
  | ChunkAccepted
  | NotInBinding int | RegistrationNotStarted | NodeMismatch | AlreadyEstablished | SnapshotOwed
  | SnapshotBeforeAuthentication | NoChunks | DifferentSnapshotInFlight | IdenticalSnapshot
  | Assembling | NoSnapshotInFlight | AssemblyExpired | IncompleteSnapshot "int list"
  | HashMismatch | SupervisorReceiptMissing | AckRoundTripPending
  | UnknownRank | NoAckPending | AckCommandFailed | AckCommandMismatch | AckSnapshotMismatch
  | AckHashMismatch | Established
  | ExpectedGoodbye | RegistrationInterrupted | LostConnection
  | SessionTerminal | GraceExpired | SnapshotRequired
  | IncrementalBeforeSnapshot | IncrementalAccepted

datatype terminal_reason =
    WrongNode int string string
  | RegistrationDeadline "int list"
  | UnboundReconnect int string
  | ReconnectGraceExpired int
  | ProtocolViolation int string
  | GraceExpiredRanks "int list"

datatype start_reply = StartRefusedTerminal "terminal_reason option" | RanksNotEstablished "int list"
  | AllEstablished

record 'i session_coordinator =
  sc_binding :: allocation_binding
  sc_limits :: control_limits
  sc_generation_state :: generation_state
  sc_terminal_reason :: "terminal_reason option"
  sc_started_at :: "real option"
  sc_sessions :: "(int \<times> rank_session) list"
  sc_assemblies :: "(int \<times> 'i snapshot_assembly) list"
  sc_drain_requested :: "int list"

section \<open>Snapshot reassembly\<close>

definition sa_item_count :: "'i snapshot_assembly \<Rightarrow> nat" where
  "sa_item_count a = sum_list (map (\<lambda>(i, c). length c) (sa_chunks a))"

definition sa_add ::
    "int \<Rightarrow> 'i list \<Rightarrow> 'i snapshot_assembly \<Rightarrow> 'i snapshot_assembly \<times> bool \<times> session_reply" where
  "sa_add index payload a =
     (if index < 0 \<or> sa_total_chunks a \<le> index then (a, False, ChunkOutOfRange index)
      else if max_snapshot_chunks (sa_limits a) < sa_total_chunks a
        then (a, False, ChunksOverLimit (sa_total_chunks a))
      else if (case map_of (sa_chunks a) index of None \<Rightarrow> False | Some c \<Rightarrow> c \<noteq> payload)
        then (a, False, ConflictingDuplicate index)
      else
        let a' = a\<lparr>sa_chunks := AList.update index payload (sa_chunks a)\<rparr>
        in if max_snapshot_items (sa_limits a) < int (sa_item_count a')
           then (a', False, TooManyItems (sa_item_count a'))
           else (a', True, ChunkAccepted))"

definition sa_is_complete :: "'i snapshot_assembly \<Rightarrow> bool" where
  "sa_is_complete a = (int (length (sa_chunks a)) = sa_total_chunks a)"

definition sa_expired :: "real \<Rightarrow> 'i snapshot_assembly \<Rightarrow> bool" where
  "sa_expired now a = (snapshot_assembly_deadline_s (sa_limits a) < now - sa_started_at a)"

definition sa_items :: "'i snapshot_assembly \<Rightarrow> 'i list" where
  "sa_items a = concat (map (\<lambda>i. the (map_of (sa_chunks a) i)) (sort (map fst (sa_chunks a))))"

section \<open>The coordinator\<close>

definition new_rank_session :: "int \<Rightarrow> string \<Rightarrow> rank_session" where
  "new_rank_session r n =
     \<lparr>rs_rank = r, rs_node_id = n, rs_state = EXPECTED, rs_instance_id = [],
      rs_last_heartbeat_at = None, rs_loss_time = None, rs_snapshot_id = [],
      rs_complete_set_hash = [], rs_snapshot_command_id = [], rs_snapshot_accepted = False,
      rs_supervisor_receipt_accepted = False, rs_reconnects = 0\<rparr>"

definition init_coordinator :: "control_limits \<Rightarrow> allocation_binding \<Rightarrow> 'i session_coordinator" where
  "init_coordinator limits b =
     \<lparr>sc_binding = b, sc_limits = limits, sc_generation_state = REGISTERING,
      sc_terminal_reason = None, sc_started_at = None,
      sc_sessions = map (\<lambda>r. (r, new_rank_session r
        (case node_for b r of None \<Rightarrow> [] | Some n \<Rightarrow> n))) (ab_ranks b),
      sc_assemblies = [], sc_drain_requested = []\<rparr>"

definition session_of :: "'i session_coordinator \<Rightarrow> int \<Rightarrow> rank_session option" where
  "session_of s r = map_of (sc_sessions s) r"

definition set_session ::
    "int \<Rightarrow> (rank_session \<Rightarrow> rank_session) \<Rightarrow> 'i session_coordinator \<Rightarrow> 'i session_coordinator" where
  "set_session r f s = s\<lparr>sc_sessions := adjust r f (sc_sessions s)\<rparr>"

definition drop_assembly :: "int \<Rightarrow> 'i session_coordinator \<Rightarrow> 'i session_coordinator" where
  "drop_assembly r s = s\<lparr>sc_assemblies := AList.delete r (sc_assemblies s)\<rparr>"

definition fatal :: "terminal_reason \<Rightarrow> 'i session_coordinator \<Rightarrow> 'i session_coordinator" where
  "fatal reason s =
     (if sc_generation_state s \<noteq> GEN_TERMINAL
      then s\<lparr>sc_generation_state := GEN_TERMINAL, sc_terminal_reason := Some reason\<rparr> else s)"

definition expected_ranks :: "'i session_coordinator \<Rightarrow> int list" where
  "expected_ranks s = sort (map fst (sc_sessions s))"

definition begin_registration ::
    "real \<Rightarrow> 'i session_coordinator \<Rightarrow> 'i session_coordinator \<times> (generation_state + real)" where
  "begin_registration now s =
     (if sc_generation_state s \<noteq> REGISTERING then (s, Inl (sc_generation_state s))
      else case sc_started_at s of
        Some t \<Rightarrow> (s, Inr t)
      | None \<Rightarrow> (s\<lparr>sc_started_at := Some now\<rparr>, Inr now))"

definition registration_deadline_at :: "'i session_coordinator \<Rightarrow> real option" where
  "registration_deadline_at s =
     map_option (\<lambda>t. t + registration_deadline_s (sc_limits s)) (sc_started_at s)"

definition registration_remaining_s :: "real \<Rightarrow> 'i session_coordinator \<Rightarrow> real option" where
  "registration_remaining_s now s = map_option (\<lambda>d. max 0 (d - now)) (registration_deadline_at s)"

subsection \<open>Registration and the snapshot barrier\<close>

definition register ::
    "real \<Rightarrow> int \<Rightarrow> string \<Rightarrow> string \<Rightarrow> 'i session_coordinator
      \<Rightarrow> 'i session_coordinator \<times> bool \<times> session_reply" where
  "register now r node inst s =
     (case session_of s r of
        None \<Rightarrow> (s, False, NotInBinding r)
      | Some x \<Rightarrow>
          let bound = (case node_for (sc_binding s) r of None \<Rightarrow> [] | Some n \<Rightarrow> n)
          in if sc_started_at s = None then (s, False, RegistrationNotStarted)
             else if bound \<noteq> [] \<and> \<not> is_bound_node (sc_binding s) r node
             then (set_session r (rs_state_update (\<lambda>_. TERMINAL)) (fatal (WrongNode r node bound) s),
                   False, NodeMismatch)
             else if rs_state x = ESTABLISHED \<and> inst = rs_instance_id x
             then (s, True, AlreadyEstablished)
             else (set_session r (\<lambda>x. x\<lparr>rs_instance_id := inst, rs_state := AUTHENTICATED,
                     rs_last_heartbeat_at := Some now, rs_loss_time := None, rs_snapshot_id := [],
                     rs_complete_set_hash := [], rs_snapshot_command_id := [],
                     rs_snapshot_accepted := False, rs_supervisor_receipt_accepted := False\<rparr>) s,
                   True, SnapshotOwed))"

definition begin_snapshot ::
    "real \<Rightarrow> int \<Rightarrow> string \<Rightarrow> int \<Rightarrow> string \<Rightarrow> 'i session_coordinator
      \<Rightarrow> 'i session_coordinator \<times> bool \<times> session_reply" where
  "begin_snapshot now r sid chunks chash s =
     (if (case session_of s r of None \<Rightarrow> True | Some x \<Rightarrow> rs_state x = EXPECTED)
        then (s, False, SnapshotBeforeAuthentication)
      else if chunks < 1 then (s, False, NoChunks)
      else if max_snapshot_chunks (sc_limits s) < chunks then (s, False, ChunksOverLimit chunks)
      else case map_of (sc_assemblies s) r of
        Some a \<Rightarrow>
          if sa_snapshot_id a \<noteq> sid \<or> sa_total_chunks a \<noteq> chunks \<or> sa_complete_hash a \<noteq> chash
          then (s, False, DifferentSnapshotInFlight)
          else (s, True, IdenticalSnapshot)
      | None \<Rightarrow>
          (set_session r (\<lambda>x. x\<lparr>rs_state := SNAPSHOT_PENDING, rs_snapshot_accepted := False\<rparr>)
             (s\<lparr>sc_assemblies := AList.update r
                 \<lparr>sa_snapshot_id = sid, sa_total_chunks = chunks, sa_complete_hash = chash,
                  sa_limits = sc_limits s, sa_started_at = now, sa_chunks = []\<rparr> (sc_assemblies s)\<rparr>),
           True, Assembling))"

definition add_snapshot_chunk ::
    "real \<Rightarrow> int \<Rightarrow> int \<Rightarrow> 'i list \<Rightarrow> 'i session_coordinator
      \<Rightarrow> 'i session_coordinator \<times> bool \<times> session_reply" where
  "add_snapshot_chunk now r index payload s =
     (case map_of (sc_assemblies s) r of
        None \<Rightarrow> (s, False, NoSnapshotInFlight)
      | Some a \<Rightarrow>
          if sa_expired now a then (drop_assembly r s, False, AssemblyExpired)
          else case sa_add index payload a of
            (a', ok, why) \<Rightarrow>
              (s\<lparr>sc_assemblies := AList.update r a' (sc_assemblies s)\<rparr>, ok, why))"

definition snapshot_command_id :: "int \<Rightarrow> string \<Rightarrow> string" where
  "snapshot_command_id r sid = ''SNAPSHOT_ACCEPTED:'' @ show_int r @ '':'' @ sid"

text \<open>\<open>verify\<close> is the optional \<^verbatim>\<open>verify_hash\<close>; an empty text is false in Python's \<^verbatim>\<open>or\<close>.\<close>

definition complete_snapshot ::
    "('i list \<Rightarrow> string) \<Rightarrow> real \<Rightarrow> int \<Rightarrow> string option \<Rightarrow> bool \<Rightarrow> 'i session_coordinator
      \<Rightarrow> 'i session_coordinator \<times> bool \<times> session_reply" where
  "complete_snapshot canonical_hash now r verify receipt s =
     (case (map_of (sc_assemblies s) r, session_of s r) of
        (Some a, Some x) \<Rightarrow>
          if \<not> sa_is_complete a
          then (s, False, IncompleteSnapshot
                  (take 8 (filter (\<lambda>i. i \<notin> fst ` set (sa_chunks a)) (int_range (nat (sa_total_chunks a))))))
          else
            let expected = (case verify of Some v \<Rightarrow> if v \<noteq> [] then v else sa_complete_hash a
                            | None \<Rightarrow> sa_complete_hash a);
                actual = canonical_hash (sa_items a)
            in if expected \<noteq> [] \<and> actual \<noteq> expected
               then (drop_assembly r s, False, HashMismatch)
               else
                 let got = receipt \<or> rs_supervisor_receipt_accepted x;
                     s' = set_session r (\<lambda>x. x\<lparr>rs_snapshot_id := sa_snapshot_id a,
                            rs_complete_set_hash := actual,
                            rs_snapshot_command_id := snapshot_command_id r (sa_snapshot_id a),
                            rs_snapshot_accepted := False,
                            rs_supervisor_receipt_accepted := got\<rparr>) (drop_assembly r s)
                 in if \<not> got then (s', False, SupervisorReceiptMissing)
                    else (set_session r (\<lambda>x. x\<lparr>rs_state := SNAPSHOT_ACK_PENDING,
                            rs_last_heartbeat_at := Some now, rs_loss_time := None\<rparr>) s',
                          True, AckRoundTripPending)
      | _ \<Rightarrow> (s, False, NoSnapshotInFlight))"

definition acknowledge_snapshot ::
    "real \<Rightarrow> int \<Rightarrow> string \<Rightarrow> string \<Rightarrow> string \<Rightarrow> bool \<Rightarrow> 'i session_coordinator
      \<Rightarrow> 'i session_coordinator \<times> bool \<times> session_reply" where
  "acknowledge_snapshot now r cmd sid chash succeeded s =
     (case session_of s r of
        None \<Rightarrow> (s, False, UnknownRank)
      | Some x \<Rightarrow>
          if rs_state x \<noteq> SNAPSHOT_ACK_PENDING then (s, False, NoAckPending)
          else if \<not> succeeded then (s, False, AckCommandFailed)
          else if cmd \<noteq> rs_snapshot_command_id x then (s, False, AckCommandMismatch)
          else if sid \<noteq> rs_snapshot_id x then (s, False, AckSnapshotMismatch)
          else if chash \<noteq> rs_complete_set_hash x then (s, False, AckHashMismatch)
          else (set_session r (\<lambda>x. x\<lparr>rs_snapshot_accepted := True, rs_state := ESTABLISHED,
                  rs_last_heartbeat_at := Some now\<rparr>) s, True, Established))"

definition fully_registered :: "rank_session \<Rightarrow> bool" where
  "fully_registered x =
     (is_established x \<and> rs_snapshot_accepted x \<and> rs_supervisor_receipt_accepted x)"

definition all_registered :: "'i session_coordinator \<Rightarrow> bool" where
  "all_registered s = list_all (\<lambda>(r, x). fully_registered x) (sc_sessions s)"

definition may_start :: "'i session_coordinator \<Rightarrow> bool \<times> start_reply" where
  "may_start s =
     (if sc_generation_state s = GEN_TERMINAL
        then (False, StartRefusedTerminal (sc_terminal_reason s))
      else if \<not> all_registered s
        then (False, RanksNotEstablished
               (take 8 (sort (map fst (filter (\<lambda>(r, x). \<not> fully_registered x) (sc_sessions s))))))
      else (True, AllEstablished))"

definition start :: "'i session_coordinator \<Rightarrow> 'i session_coordinator \<times> bool \<times> start_reply" where
  "start s =
     (case may_start s of
        (ok, why) \<Rightarrow> (if ok then s\<lparr>sc_generation_state := STARTED\<rparr> else s, ok, why))"

definition not_established_ranks :: "'i session_coordinator \<Rightarrow> int list" where
  "not_established_ranks s =
     sort (map fst (filter (\<lambda>(r, x). \<not> is_established x) (sc_sessions s)))"

definition check_registration_deadline ::
    "real \<Rightarrow> 'i session_coordinator \<Rightarrow> 'i session_coordinator \<times> terminal_reason option" where
  "check_registration_deadline now s =
     (if sc_generation_state s \<noteq> REGISTERING then (s, None)
      else case sc_started_at s of
        None \<Rightarrow> (s, None)
      | Some t \<Rightarrow>
          if now - t < registration_deadline_s (sc_limits s) then (s, None)
          else if not_established_ranks s \<noteq> []
          then let reason = RegistrationDeadline (take 8 (not_established_ranks s))
               in (fatal reason s, Some reason)
          else (s, None))"

subsection \<open>Loss and reconnection\<close>

definition on_disconnect ::
    "real \<Rightarrow> int \<Rightarrow> bool \<Rightarrow> 'i session_coordinator \<Rightarrow> 'i session_coordinator \<times> session_reply" where
  "on_disconnect now r expected s =
     (case session_of s r of
        None \<Rightarrow> (s, UnknownRank)
      | Some x \<Rightarrow>
          if expected then (set_session r (rs_state_update (\<lambda>_. TERMINAL)) s, ExpectedGoodbye)
          else if \<not> is_established x
          then (set_session r (\<lambda>x. x\<lparr>rs_snapshot_accepted := False, rs_state := EXPECTED,
                  rs_loss_time := None\<rparr>) (drop_assembly r s), RegistrationInterrupted)
          else (set_session r (\<lambda>x. x\<lparr>rs_snapshot_accepted := False, rs_state := LOST,
                  rs_loss_time := Some now\<rparr>) (drop_assembly r s), LostConnection))"

definition request_drain :: "int \<Rightarrow> 'i session_coordinator \<Rightarrow> 'i session_coordinator" where
  "request_drain r s = s\<lparr>sc_drain_requested := List.insert r (sc_drain_requested s)\<rparr>"

definition on_heartbeat :: "real \<Rightarrow> int \<Rightarrow> 'i session_coordinator \<Rightarrow> 'i session_coordinator" where
  "on_heartbeat now r s =
     set_session r (\<lambda>x. if is_established x then x\<lparr>rs_last_heartbeat_at := Some now\<rparr> else x) s"

text \<open>\<open>lease_lost\<close> is the condition of the loop body of \<^verbatim>\<open>poll_leases\<close>.\<close>

definition lease_lost :: "control_limits \<Rightarrow> real \<Rightarrow> rank_session \<Rightarrow> bool" where
  "lease_lost c now x =
     (rs_state x = ESTABLISHED \<and>
      (case rs_last_heartbeat_at x of None \<Rightarrow> False | Some hb \<Rightarrow> lease_timeout_s c < now - hb))"

definition poll_leases :: "real \<Rightarrow> 'i session_coordinator \<Rightarrow> 'i session_coordinator \<times> int list" where
  "poll_leases now s =
     (s\<lparr>sc_sessions := map (\<lambda>(r, x). (r, if lease_lost (sc_limits s) now x
          then x\<lparr>rs_state := LOST,
                 rs_loss_time := map_option (\<lambda>hb. hb + lease_timeout_s (sc_limits s))
                                   (rs_last_heartbeat_at x)\<rparr>
          else x)) (sc_sessions s)\<rparr>,
      map (\<lambda>(r, x). rs_rank x) (filter (\<lambda>(r, x). lease_lost (sc_limits s) now x) (sc_sessions s)))"

definition readiness_revoked_ranks :: "'i session_coordinator \<Rightarrow> int list" where
  "readiness_revoked_ranks s = not_established_ranks s"

definition reconnect ::
    "real \<Rightarrow> int \<Rightarrow> string \<Rightarrow> string \<Rightarrow> 'i session_coordinator
      \<Rightarrow> 'i session_coordinator \<times> bool \<times> session_reply" where
  "reconnect now r node inst s =
     (case session_of s r of
        None \<Rightarrow> (s, False, UnknownRank)
      | Some x \<Rightarrow>
          if \<not> is_bound_node (sc_binding s) r node
          then (set_session r (rs_state_update (\<lambda>_. TERMINAL)) (fatal (UnboundReconnect r node) s),
                False, NodeMismatch)
          else if rs_state x = TERMINAL then (s, False, SessionTerminal)
          else if (case rs_loss_time x of None \<Rightarrow> False
                   | Some t \<Rightarrow> t + reconnect_grace_s (sc_limits s) < now)
          then (set_session r (rs_state_update (\<lambda>_. TERMINAL)) (fatal (ReconnectGraceExpired r) s),
                False, GraceExpired)
          else (set_session r (\<lambda>x. x\<lparr>rs_reconnects := rs_reconnects x + 1,
                  rs_snapshot_accepted := False, rs_supervisor_receipt_accepted := False,
                  rs_snapshot_id := [], rs_complete_set_hash := [], rs_snapshot_command_id := [],
                  rs_instance_id := inst, rs_state := AUTHENTICATED\<rparr>) s,
                True, SnapshotRequired))"

definition protocol_violation ::
    "int \<Rightarrow> string \<Rightarrow> 'i session_coordinator \<Rightarrow> 'i session_coordinator" where
  "protocol_violation r why s =
     fatal (ProtocolViolation r why)
       (drop_assembly r (set_session r (rs_state_update (\<lambda>_. TERMINAL)) s))"

definition accept_incremental :: "int \<Rightarrow> 'i session_coordinator \<Rightarrow> bool \<times> session_reply" where
  "accept_incremental r s =
     (case session_of s r of
        None \<Rightarrow> (False, UnknownRank)
      | Some x \<Rightarrow>
          if \<not> is_established x \<or> \<not> rs_snapshot_accepted x
          then (False, IncrementalBeforeSnapshot) else (True, IncrementalAccepted))"

definition grace_over :: "control_limits \<Rightarrow> real \<Rightarrow> rank_session \<Rightarrow> bool" where
  "grace_over c now x =
     (rs_state x = LOST \<and>
      (case rs_loss_time x of None \<Rightarrow> False | Some t \<Rightarrow> t + reconnect_grace_s c < now))"

definition check_grace_deadlines ::
    "real \<Rightarrow> 'i session_coordinator \<Rightarrow> 'i session_coordinator \<times> int list" where
  "check_grace_deadlines now s =
     (let expired = map (\<lambda>(r, x). rs_rank x) (filter (\<lambda>(r, x). grace_over (sc_limits s) now x) (sc_sessions s));
          s' = s\<lparr>sc_sessions := map (\<lambda>(r, x). (r, if grace_over (sc_limits s) now x
                   then x\<lparr>rs_state := TERMINAL\<rparr> else x)) (sc_sessions s)\<rparr>
      in (if expired \<noteq> [] then fatal (GraceExpiredRanks expired) s' else s', expired))"

definition cleanup_deadline_for :: "int \<Rightarrow> 'i session_coordinator \<Rightarrow> real option" where
  "cleanup_deadline_for r s =
     (case session_of s r of
        None \<Rightarrow> None
      | Some x \<Rightarrow> map_option (\<lambda>t. t + reconnect_grace_s (sc_limits s)
                     + watchdog_cleanup_deadline_s (sc_limits s)) (rs_loss_time x))"

record session_report =
  sr_generation_state :: generation_state
  sr_terminal_reason :: "terminal_reason option"
  sr_sessions :: "(int \<times> session_state) list"
  sr_established :: nat
  sr_planned :: nat

definition snapshot_state :: "'i session_coordinator \<Rightarrow> session_report" where
  "snapshot_state s =
     \<lparr>sr_generation_state = sc_generation_state s, sr_terminal_reason = sc_terminal_reason s,
      sr_sessions = sort_key fst (map (\<lambda>(r, x). (r, rs_state x)) (sc_sessions s)),
      sr_established = length (filter (\<lambda>(r, x). is_established x) (sc_sessions s)),
      sr_planned = length (sc_sessions s)\<rparr>"

section \<open>Method calls as steps\<close>

text \<open>
  One constructor per call that changes the coordinator, with the clock reading it makes. A call of
  \<^verbatim>\<open>start\<close>, \<^verbatim>\<open>may_start\<close> and the queries reads no clock.
\<close>

datatype 'i session_op =
    BeginRegistration real
  | Register real int string string
  | BeginSnapshot real int string int string
  | AddChunk real int int "'i list"
  | CompleteSnapshot real int "string option" bool
  | Acknowledge real int string string string bool
  | Start
  | CheckRegistration real
  | Disconnect real int bool
  | RequestDrain int
  | Heartbeat real int
  | PollLeases real
  | Reconnect real int string string
  | Violation int string
  | CheckGrace real

fun run_op ::
    "('i list \<Rightarrow> string) \<Rightarrow> 'i session_op \<Rightarrow> 'i session_coordinator \<Rightarrow> 'i session_coordinator" where
  "run_op H (BeginRegistration now) s = fst (begin_registration now s)"
| "run_op H (Register now r node inst) s = fst (register now r node inst s)"
| "run_op H (BeginSnapshot now r sid n h) s = fst (begin_snapshot now r sid n h s)"
| "run_op H (AddChunk now r i p) s = fst (add_snapshot_chunk now r i p s)"
| "run_op H (CompleteSnapshot now r v rc) s = fst (complete_snapshot H now r v rc s)"
| "run_op H (Acknowledge now r c sid h ok) s = fst (acknowledge_snapshot now r c sid h ok s)"
| "run_op H Start s = fst (start s)"
| "run_op H (CheckRegistration now) s = fst (check_registration_deadline now s)"
| "run_op H (Disconnect now r ex) s = fst (on_disconnect now r ex s)"
| "run_op H (RequestDrain r) s = request_drain r s"
| "run_op H (Heartbeat now r) s = on_heartbeat now r s"
| "run_op H (PollLeases now) s = fst (poll_leases now s)"
| "run_op H (Reconnect now r node inst) s = fst (reconnect now r node inst s)"
| "run_op H (Violation r why) s = protocol_violation r why s"
| "run_op H (CheckGrace now) s = fst (check_grace_deadlines now s)"

definition run_ops ::
    "('i list \<Rightarrow> string) \<Rightarrow> 'i session_op list \<Rightarrow> 'i session_coordinator \<Rightarrow> 'i session_coordinator" where
  "run_ops H ops s = fold (run_op H) ops s"

text \<open>States a coordinator for one generation can be in.\<close>

inductive session_reach ::
    "('i list \<Rightarrow> string) \<Rightarrow> control_limits \<Rightarrow> allocation_binding \<Rightarrow> 'i session_coordinator \<Rightarrow> bool"
  for H limits b where
  init: "session_reach H limits b (init_coordinator limits b)"
| step: "session_reach H limits b s \<Longrightarrow> session_reach H limits b (run_op H op s)"

lemma run_ops_simps [simp]:
  "run_ops H [] s = s"
  "run_ops H (op # ops) s = run_ops H ops (run_op H op s)"
  "run_ops H (ops @ ops') s = run_ops H ops' (run_ops H ops s)"
  by (simp_all add: run_ops_def)

lemma session_reach_run_ops:
  "session_reach H limits b s \<Longrightarrow> session_reach H limits b (run_ops H ops s)"
  by (induction ops arbitrary: s) (auto intro: session_reach.step)

lemma session_reach_iff:
  "session_reach H limits b s \<longleftrightarrow> (\<exists>ops. s = run_ops H ops (init_coordinator limits b))"
proof
  show "session_reach H limits b s \<Longrightarrow> \<exists>ops. s = run_ops H ops (init_coordinator limits b)"
  proof (induction rule: session_reach.induct)
    case init
    then show ?case by (metis run_ops_simps(1))
  next
    case (step s op)
    then obtain ops where "s = run_ops H ops (init_coordinator limits b)" by blast
    then have "run_op H op s = run_ops H (ops @ [op]) (init_coordinator limits b)" by simp
    then show ?case by blast
  qed
qed (auto intro: session_reach.init session_reach_run_ops)

section \<open>Snapshot reassembly is correct for every arrival order\<close>

definition sa_wf :: "'i snapshot_assembly \<Rightarrow> bool" where
  "sa_wf a = (distinct (map fst (sa_chunks a)) \<and> 1 \<le> sa_total_chunks a \<and>
     (\<forall>(i, c) \<in> set (sa_chunks a). 0 \<le> i \<and> i < sa_total_chunks a))"

lemma sa_add_wf: "sa_wf a \<Longrightarrow> sa_wf (fst (sa_add i p a))"
  by (auto simp: sa_add_def sa_wf_def Let_def distinct_update
      dest!: in_set_update split: option.splits if_splits)

lemma sa_add_frame [simp]:
  "sa_total_chunks (fst (sa_add i p a)) = sa_total_chunks a"
  "sa_limits (fst (sa_add i p a)) = sa_limits a"
  "sa_snapshot_id (fst (sa_add i p a)) = sa_snapshot_id a"
  by (auto simp: sa_add_def Let_def)

lemma sa_is_complete_iff:
  assumes "sa_wf a"
  shows "sa_is_complete a \<longleftrightarrow> fst ` set (sa_chunks a) = {0..<sa_total_chunks a}"
proof -
  let ?K = "fst ` set (sa_chunks a)"
  have card: "card ?K = length (sa_chunks a)"
    using assms by (metis sa_wf_def distinct_card length_map set_map)
  have sub: "?K \<subseteq> {0..<sa_total_chunks a}"
    using assms by (auto simp: sa_wf_def)
  have "?K = {0..<sa_total_chunks a}" if "int (length (sa_chunks a)) = sa_total_chunks a"
    using sub card that by (intro card_subset_eq) auto
  moreover have "int (length (sa_chunks a)) = sa_total_chunks a" if "?K = {0..<sa_total_chunks a}"
    using card that assms by (auto simp: sa_wf_def)
  ultimately show ?thesis by (auto simp: sa_is_complete_def)
qed

lemma sa_complete_keys_sorted:
  assumes "sa_wf a" "sa_is_complete a"
  shows "sort (map fst (sa_chunks a)) = int_range (nat (sa_total_chunks a))"
proof (rule sorted_distinct_set_unique)
  show "set (sort (map fst (sa_chunks a))) = set (int_range (nat (sa_total_chunks a)))"
    using assms by (simp add: sa_is_complete_iff int_range_set sa_wf_def)
qed (use assms in \<open>auto simp: sa_wf_def\<close>)

text \<open>Feeding a list of arrivals; the flag says whether every chunk was accepted.\<close>

fun sa_feed :: "(int \<times> 'i list) list \<Rightarrow> 'i snapshot_assembly \<Rightarrow> 'i snapshot_assembly \<times> bool" where
  "sa_feed [] a = (a, True)"
| "sa_feed ((i, p) # cs) a =
     (case sa_add i p a of (a', ok, why) \<Rightarrow> case sa_feed cs a' of (a'', oks) \<Rightarrow> (a'', ok \<and> oks))"

definition empty_assembly :: "control_limits \<Rightarrow> string \<Rightarrow> int \<Rightarrow> string \<Rightarrow> real \<Rightarrow> 'i snapshot_assembly" where
  "empty_assembly limits sid n h now =
     \<lparr>sa_snapshot_id = sid, sa_total_chunks = n, sa_complete_hash = h, sa_limits = limits,
      sa_started_at = now, sa_chunks = []\<rparr>"

text \<open>The chunks held so far are chunks of the list \<open>ps\<close> that was sent.\<close>

definition sa_holds :: "'i list list \<Rightarrow> 'i snapshot_assembly \<Rightarrow> bool" where
  "sa_holds ps a = (sa_wf a \<and> sa_total_chunks a = int (length ps) \<and>
     (\<forall>(i, c) \<in> set (sa_chunks a). c = ps ! nat i))"

lemma sa_holds_count:
  assumes "sa_holds ps a"
  shows "sa_item_count a \<le> length (concat ps)"
proof -
  let ?K = "fst ` set (sa_chunks a)" and ?f = "\<lambda>i. length (ps ! nat i)"
  have d: "distinct (sa_chunks a)" and inj: "inj_on fst (set (sa_chunks a))"
    using assms by (auto simp: sa_holds_def sa_wf_def distinct_map)
  have "sa_item_count a = (\<Sum>(i, c) \<in> set (sa_chunks a). length c)"
    using d by (simp add: sa_item_count_def sum_list_distinct_conv_sum_set)
  also have "\<dots> = (\<Sum>p \<in> set (sa_chunks a). ?f (fst p))"
    using assms by (intro sum.cong) (auto simp: sa_holds_def)
  also have "\<dots> = sum ?f ?K"
    using inj by (simp add: sum.reindex)
  also have "\<dots> \<le> sum ?f (int ` {0..<length ps})"
    using assms by (intro sum_mono2)
      (auto simp: sa_holds_def sa_wf_def image_int_atLeastLessThan split_beta)
  also have "\<dots> = (\<Sum>j = 0..<length ps. length (ps ! j))"
    by (simp add: sum.reindex)
  also have "\<dots> = length (concat ps)"
    by (simp add: length_concat sum_list_sum_nth)
  finally show ?thesis .
qed

lemma sa_add_holds:
  assumes h: "sa_holds ps a" and i: "0 \<le> i" "i < int (length ps)"
    and chunks: "int (length ps) \<le> max_snapshot_chunks (sa_limits a)"
    and items: "int (length (concat ps)) \<le> max_snapshot_items (sa_limits a)"
  shows "sa_add i (ps ! nat i) a =
    (a\<lparr>sa_chunks := AList.update i (ps ! nat i) (sa_chunks a)\<rparr>, True, ChunkAccepted)"
    and "sa_holds ps (a\<lparr>sa_chunks := AList.update i (ps ! nat i) (sa_chunks a)\<rparr>)"
proof -
  let ?a = "a\<lparr>sa_chunks := AList.update i (ps ! nat i) (sa_chunks a)\<rparr>"
  show holds: "sa_holds ps ?a"
    using h i by (auto simp: sa_holds_def sa_wf_def distinct_update dest!: in_set_update)
  have dup: "c = ps ! nat i" if "map_of (sa_chunks a) i = Some c" for c
    using h map_of_SomeD [OF that] by (auto simp: sa_holds_def)
  have "\<not> max_snapshot_items (sa_limits a) < int (sa_item_count ?a)"
    using sa_holds_count [OF holds] items by simp
  then show "sa_add i (ps ! nat i) a = (?a, True, ChunkAccepted)"
    using h i chunks dup
    by (auto simp: sa_add_def sa_holds_def Let_def split: option.splits)
qed

lemma sa_feed_holds:
  assumes "sa_holds ps a" "int (length ps) \<le> max_snapshot_chunks (sa_limits a)"
    "int (length (concat ps)) \<le> max_snapshot_items (sa_limits a)"
    "\<forall>(i, c) \<in> set cs. 0 \<le> i \<and> i < int (length ps) \<and> c = ps ! nat i"
  shows "snd (sa_feed cs a) \<and> sa_holds ps (fst (sa_feed cs a)) \<and>
    fst ` set (sa_chunks (fst (sa_feed cs a))) = fst ` set (sa_chunks a) \<union> fst ` set cs"
  using assms
proof (induction cs arbitrary: a)
  case (Cons ic cs)
  obtain i c where ic: "ic = (i, c)" by (cases ic)
  with Cons.prems have i: "0 \<le> i" "i < int (length ps)" and c: "c = ps ! nat i" by auto
  let ?a = "a\<lparr>sa_chunks := AList.update i (ps ! nat i) (sa_chunks a)\<rparr>"
  note add = sa_add_holds [OF Cons.prems(1) i Cons.prems(2,3)]
  have "snd (sa_feed cs ?a) \<and> sa_holds ps (fst (sa_feed cs ?a)) \<and>
    fst ` set (sa_chunks (fst (sa_feed cs ?a))) = fst ` set (sa_chunks ?a) \<union> fst ` set cs"
    using Cons.prems add(2) by (intro Cons.IH) auto
  then show ?case
    using add(1) by (auto simp: ic c dom_update split: prod.splits)
qed auto

lemma sa_holds_complete_items:
  assumes h: "sa_holds ps a" and full: "fst ` set (sa_chunks a) = {0..<int (length ps)}"
  shows "sa_is_complete a" "sa_items a = concat ps"
proof -
  have wf: "sa_wf a" and total: "sa_total_chunks a = int (length ps)"
    using h by (auto simp: sa_holds_def)
  show c: "sa_is_complete a"
    using wf full total by (simp add: sa_is_complete_iff)
  have the: "the (map_of (sa_chunks a) (int j)) = ps ! j" if "j < length ps" for j
  proof -
    have "int j \<in> fst ` set (sa_chunks a)" using full that by simp
    then obtain c where "map_of (sa_chunks a) (int j) = Some c"
      by (metis map_of_eq_None_iff option.exhaust)
    then show ?thesis using h map_of_SomeD by (fastforce simp: sa_holds_def)
  qed
  have "sa_items a = concat (map (\<lambda>j. the (map_of (sa_chunks a) (int j))) [0..<length ps])"
    by (simp add: sa_items_def sa_complete_keys_sorted [OF wf c] total int_range_def o_def)
  also have "\<dots> = concat (map (\<lambda>j. ps ! j) [0..<length ps])"
    using the by (intro arg_cong [where f = concat] map_cong) auto
  finally show "sa_items a = concat ps" by (simp add: map_nth)
qed

section \<open>What one call can do to one session\<close>

lemmas session_op_defs =
  begin_registration_def register_def begin_snapshot_def add_snapshot_chunk_def
  complete_snapshot_def acknowledge_snapshot_def start_def may_start_def
  check_registration_deadline_def on_disconnect_def request_drain_def on_heartbeat_def
  poll_leases_def reconnect_def protocol_violation_def check_grace_deadlines_def

lemma session_of_set_session [simp]:
  "session_of (set_session k f s) r =
     (if r = k then map_option f (session_of s k) else session_of s r)"
  by (simp add: session_of_def set_session_def map_of_adjust)

lemma session_of_fatal [simp]: "session_of (fatal why s) r = session_of s r"
  by (simp add: session_of_def fatal_def)

lemma session_of_drop_assembly [simp]: "session_of (drop_assembly k s) r = session_of s r"
  by (simp add: session_of_def drop_assembly_def)

lemma session_of_other_fields [simp]:
  "session_of (s\<lparr>sc_assemblies := A\<rparr>) r = session_of s r"
  "session_of (s\<lparr>sc_generation_state := g\<rparr>) r = session_of s r"
  "session_of (s\<lparr>sc_started_at := t\<rparr>) r = session_of s r"
  "session_of (s\<lparr>sc_drain_requested := q\<rparr>) r = session_of s r"
  "session_of (s\<lparr>sc_sessions := map (\<lambda>(r, x). (r, f x)) (sc_sessions s)\<rparr>) r =
     map_option f (session_of s r)"
  by (simp_all add: session_of_def map_of_map_snd)

lemma set_session_fields [simp]:
  "sc_binding (set_session k f s) = sc_binding s" "sc_limits (set_session k f s) = sc_limits s"
  "sc_generation_state (set_session k f s) = sc_generation_state s"
  "sc_terminal_reason (set_session k f s) = sc_terminal_reason s"
  "sc_started_at (set_session k f s) = sc_started_at s"
  "sc_assemblies (set_session k f s) = sc_assemblies s"
  "map fst (sc_sessions (set_session k f s)) = map fst (sc_sessions s)"
  by (simp_all add: set_session_def)

lemma set_session_twice:
  "set_session k f (set_session k g s) = set_session k (\<lambda>x. f (g x)) s"
  by (simp add: set_session_def adjust_adjust)

lemma drop_assembly_fields [simp]:
  "sc_binding (drop_assembly k s) = sc_binding s" "sc_limits (drop_assembly k s) = sc_limits s"
  "sc_generation_state (drop_assembly k s) = sc_generation_state s"
  "sc_terminal_reason (drop_assembly k s) = sc_terminal_reason s"
  "sc_started_at (drop_assembly k s) = sc_started_at s"
  "sc_sessions (drop_assembly k s) = sc_sessions s"
  "sc_assemblies (drop_assembly k s) = AList.delete k (sc_assemblies s)"
  by (simp_all add: drop_assembly_def)

lemma fatal_fields [simp]:
  "sc_binding (fatal why s) = sc_binding s" "sc_limits (fatal why s) = sc_limits s"
  "sc_generation_state (fatal why s) = GEN_TERMINAL"
  "sc_started_at (fatal why s) = sc_started_at s"
  "sc_sessions (fatal why s) = sc_sessions s"
  "sc_assemblies (fatal why s) = sc_assemblies s"
  by (simp_all add: fatal_def)

text \<open>A session becomes ESTABLISHED through the exact acknowledgment and in no other way.\<close>

lemma run_op_established:
  assumes "session_of (run_op H op s) r = Some y" "rs_state y = ESTABLISHED"
  shows "\<exists>x. session_of s r = Some x \<and>
    (rs_state x = ESTABLISHED \<or>
     rs_state x = SNAPSHOT_ACK_PENDING \<and>
       (\<exists>now. op = Acknowledge now r (rs_snapshot_command_id x) (rs_snapshot_id x)
                 (rs_complete_set_hash x) True))"
  using assms
  by (cases op) (auto simp: session_op_defs Let_def is_established_def split: option.splits if_splits prod.splits)

lemma run_op_ack_pending:
  assumes "session_of (run_op H op s) r = Some y" "rs_state y = SNAPSHOT_ACK_PENDING"
  shows "\<exists>x. session_of s r = Some x \<and>
    (rs_state x = SNAPSHOT_ACK_PENDING \<or> (\<exists>now v rc. op = CompleteSnapshot now r v rc))"
  using assms
  by (cases op) (auto simp: session_op_defs Let_def is_established_def split: option.splits if_splits prod.splits)

lemma run_op_generation_started:
  assumes "sc_generation_state (run_op H op s) = STARTED" "sc_generation_state s \<noteq> STARTED"
  shows "op = Start \<and> all_registered s \<and> sc_generation_state s \<noteq> GEN_TERMINAL"
  using assms
  by (cases op) (auto simp: session_op_defs Let_def split: option.splits if_splits prod.splits)

lemma run_op_terminal:
  assumes "sc_generation_state s = GEN_TERMINAL"
  shows "sc_generation_state (run_op H op s) = GEN_TERMINAL"
    "sc_terminal_reason (run_op H op s) = sc_terminal_reason s"
  using assms
  by (cases op; auto simp: session_op_defs fatal_def Let_def split: option.splits if_splits prod.splits)+

lemma run_op_frame [simp]:
  "sc_binding (run_op H op s) = sc_binding s" "sc_limits (run_op H op s) = sc_limits s"
  "map fst (sc_sessions (run_op H op s)) = map fst (sc_sessions s)"
  by (cases op; auto simp: session_op_defs Let_def split: option.splits if_splits prod.splits)+

section \<open>The coordinator invariant\<close>

definition rank_session_ok :: "int \<Rightarrow> rank_session \<Rightarrow> bool" where
  "rank_session_ok r x =
     (rs_rank x = r \<and>
      (rs_state x = ESTABLISHED \<longrightarrow> rs_snapshot_accepted x \<and> rs_last_heartbeat_at x \<noteq> None) \<and>
      (rs_state x = ESTABLISHED \<or> rs_state x = SNAPSHOT_ACK_PENDING \<longrightarrow>
         rs_supervisor_receipt_accepted x \<and> rs_loss_time x = None \<and>
         rs_snapshot_command_id x = snapshot_command_id r (rs_snapshot_id x)) \<and>
      (rs_state x = LOST \<longrightarrow> rs_loss_time x \<noteq> None) \<and>
      (rs_snapshot_accepted x \<longrightarrow> rs_state x \<in> {ESTABLISHED, LOST, TERMINAL}))"

definition sessions_ok :: "'i session_coordinator \<Rightarrow> bool" where
  "sessions_ok s = (\<forall>(r, x) \<in> set (sc_sessions s). rank_session_ok r x)"

definition reason_ok :: "'i session_coordinator \<Rightarrow> bool" where
  "reason_ok s = (sc_terminal_reason s \<noteq> None \<longleftrightarrow> sc_generation_state s = GEN_TERMINAL)"

definition assemblies_ok :: "'i session_coordinator \<Rightarrow> bool" where
  "assemblies_ok s = (distinct (map fst (sc_assemblies s)) \<and>
     (\<forall>(r, a) \<in> set (sc_assemblies s). sa_wf a \<and> sa_limits a = sc_limits s \<and>
        sa_total_chunks a \<le> max_snapshot_chunks (sc_limits s)))"

definition session_inv :: "'i session_coordinator \<Rightarrow> bool" where
  "session_inv s = (map fst (sc_sessions s) = ab_ranks (sc_binding s) \<and> sessions_ok s \<and>
     reason_ok s \<and> assemblies_ok s)"

lemma sessions_okD: "sessions_ok s \<Longrightarrow> session_of s r = Some x \<Longrightarrow> rank_session_ok r x"
  by (auto simp: sessions_ok_def session_of_def dest: map_of_SomeD)

lemma sessions_ok_frame [simp]:
  "sessions_ok (fatal why s) = sessions_ok s"
  "sessions_ok (drop_assembly k s) = sessions_ok s"
  "sessions_ok (s\<lparr>sc_assemblies := A\<rparr>) = sessions_ok s"
  "sessions_ok (s\<lparr>sc_generation_state := g\<rparr>) = sessions_ok s"
  "sessions_ok (s\<lparr>sc_started_at := t\<rparr>) = sessions_ok s"
  "sessions_ok (s\<lparr>sc_drain_requested := q\<rparr>) = sessions_ok s"
  by (simp_all add: sessions_ok_def)

lemma sessions_ok_set_session:
  assumes "sessions_ok s" "\<And>x. session_of s k = Some x \<Longrightarrow> rank_session_ok k x \<Longrightarrow> rank_session_ok k (f x)"
  shows "sessions_ok (set_session k f s)"
  using assms sessions_okD [OF assms(1)]
  by (fastforce simp: sessions_ok_def set_session_def session_of_def dest!: in_set_adjust)

lemma sessions_ok_map:
  assumes "sessions_ok s" "\<And>r x. rank_session_ok r x \<Longrightarrow> rank_session_ok r (f x)"
  shows "sessions_ok (s\<lparr>sc_sessions := map (\<lambda>(r, x). (r, f x)) (sc_sessions s)\<rparr>)"
  using assms by (auto simp: sessions_ok_def)

lemma rank_session_ok_terminal [simp]:
  "rank_session_ok r x \<Longrightarrow> rank_session_ok r (rs_state_update (\<lambda>_. TERMINAL) x)"
  by (simp add: rank_session_ok_def)

lemma register_sessions_ok: "sessions_ok s \<Longrightarrow> sessions_ok (fst (register now r node inst s))"
  by (auto simp: register_def Let_def rank_session_ok_def intro!: sessions_ok_set_session
      split: option.splits)

lemma begin_snapshot_sessions_ok:
  "sessions_ok s \<Longrightarrow> sessions_ok (fst (begin_snapshot now r sid n h s))"
  by (auto simp: begin_snapshot_def rank_session_ok_def intro!: sessions_ok_set_session
      split: option.splits)

lemma complete_snapshot_sessions_ok:
  "sessions_ok s \<Longrightarrow> sessions_ok (fst (complete_snapshot H now r v rc s))"
  by (auto simp: complete_snapshot_def Let_def rank_session_ok_def set_session_twice
      intro!: sessions_ok_set_session split: option.splits)

lemma acknowledge_snapshot_sessions_ok:
  "sessions_ok s \<Longrightarrow> sessions_ok (fst (acknowledge_snapshot now r c sid h ok s))"
  by (auto simp: acknowledge_snapshot_def rank_session_ok_def intro!: sessions_ok_set_session
      split: option.splits)

lemma on_disconnect_sessions_ok: "sessions_ok s \<Longrightarrow> sessions_ok (fst (on_disconnect now r ex s))"
  by (auto simp: on_disconnect_def rank_session_ok_def intro!: sessions_ok_set_session
      split: option.splits)

lemma on_heartbeat_sessions_ok: "sessions_ok s \<Longrightarrow> sessions_ok (on_heartbeat now r s)"
  by (auto simp: on_heartbeat_def rank_session_ok_def intro!: sessions_ok_set_session)

lemma poll_leases_sessions_ok: "sessions_ok s \<Longrightarrow> sessions_ok (fst (poll_leases now s))"
  by (auto simp: poll_leases_def rank_session_ok_def lease_lost_def intro!: sessions_ok_map)

lemma reconnect_sessions_ok: "sessions_ok s \<Longrightarrow> sessions_ok (fst (reconnect now r node inst s))"
  by (auto simp: reconnect_def rank_session_ok_def intro!: sessions_ok_set_session
      split: option.splits)

lemma protocol_violation_sessions_ok: "sessions_ok s \<Longrightarrow> sessions_ok (protocol_violation r why s)"
  by (auto simp: protocol_violation_def intro!: sessions_ok_set_session)

lemma check_grace_sessions_ok: "sessions_ok s \<Longrightarrow> sessions_ok (fst (check_grace_deadlines now s))"
  by (auto simp: check_grace_deadlines_def Let_def rank_session_ok_def intro!: sessions_ok_map)

lemmas op_sessions_ok =
  register_sessions_ok begin_snapshot_sessions_ok complete_snapshot_sessions_ok
  acknowledge_snapshot_sessions_ok on_disconnect_sessions_ok on_heartbeat_sessions_ok
  poll_leases_sessions_ok reconnect_sessions_ok protocol_violation_sessions_ok
  check_grace_sessions_ok

lemma run_op_sessions_ok: "sessions_ok s \<Longrightarrow> sessions_ok (run_op H op s)"
  by (cases op)
    (auto simp: op_sessions_ok begin_registration_def add_snapshot_chunk_def start_def
      check_registration_deadline_def request_drain_def Let_def split: option.splits prod.splits)

lemma run_op_reason_ok: "reason_ok s \<Longrightarrow> reason_ok (run_op H op s)"
  by (cases op)
    (auto simp: session_op_defs Let_def reason_ok_def fatal_def split: option.splits if_splits prod.splits)

lemma assemblies_ok_delete:
  "assemblies_ok s \<Longrightarrow> assemblies_ok (drop_assembly k s)"
  by (auto simp: assemblies_ok_def distinct_delete dest: in_set_delete)

lemma assemblies_ok_update:
  assumes "assemblies_ok s" "sa_wf a" "sa_limits a = sc_limits s"
    "sa_total_chunks a \<le> max_snapshot_chunks (sc_limits s)"
  shows "assemblies_ok (s\<lparr>sc_assemblies := AList.update k a (sc_assemblies s)\<rparr>)"
  using assms by (auto simp: assemblies_ok_def distinct_update dest!: in_set_update)

lemma assemblies_ok_frame [simp]:
  "assemblies_ok (fatal why s) = assemblies_ok s"
  "assemblies_ok (set_session k f s) = assemblies_ok s"
  "assemblies_ok (s\<lparr>sc_sessions := S\<rparr>) = assemblies_ok s"
  "assemblies_ok (s\<lparr>sc_generation_state := g\<rparr>) = assemblies_ok s"
  "assemblies_ok (s\<lparr>sc_started_at := t\<rparr>) = assemblies_ok s"
  "assemblies_ok (s\<lparr>sc_drain_requested := q\<rparr>) = assemblies_ok s"
  by (simp_all add: assemblies_ok_def)

lemma add_snapshot_chunk_assemblies_ok:
  assumes "assemblies_ok s"
  shows "assemblies_ok (fst (add_snapshot_chunk now r i p s))"
proof (cases "map_of (sc_assemblies s) r")
  case (Some a)
  then have "sa_wf a \<and> sa_limits a = sc_limits s \<and> sa_total_chunks a \<le> max_snapshot_chunks (sc_limits s)"
    using assms by (auto simp: assemblies_ok_def dest!: map_of_SomeD)
  moreover obtain a' ok why where "sa_add i p a = (a', ok, why)" by (cases "sa_add i p a")
  ultimately show ?thesis
    using assms Some sa_add_wf [of a i p] sa_add_frame [of i p a]
    by (auto simp: add_snapshot_chunk_def assemblies_ok_delete intro!: assemblies_ok_update)
qed (use assms in \<open>simp add: add_snapshot_chunk_def\<close>)

lemma run_op_assemblies_ok: "assemblies_ok s \<Longrightarrow> assemblies_ok (run_op H op s)"
  by (cases op; (simp only: run_op.simps add_snapshot_chunk_assemblies_ok)?)
    (auto simp: begin_registration_def register_def begin_snapshot_def complete_snapshot_def
      acknowledge_snapshot_def start_def may_start_def check_registration_deadline_def
      on_disconnect_def request_drain_def on_heartbeat_def poll_leases_def reconnect_def
      protocol_violation_def check_grace_deadlines_def Let_def sa_wf_def
      intro!: assemblies_ok_delete assemblies_ok_update
      split: option.splits if_splits prod.splits)

lemma session_inv_init:
  "session_inv (init_coordinator limits b)"
  by (auto simp: session_inv_def init_coordinator_def sessions_ok_def reason_ok_def assemblies_ok_def
      new_rank_session_def rank_session_ok_def o_def)

lemma session_inv_run_op: "session_inv s \<Longrightarrow> session_inv (run_op H op s)"
  by (simp add: session_inv_def run_op_sessions_ok run_op_reason_ok run_op_assemblies_ok)

lemma session_reach_inv: "session_reach H limits b s \<Longrightarrow> session_inv s"
  by (induction rule: session_reach.induct) (auto intro: session_inv_init session_inv_run_op)

lemma session_reach_frame:
  "session_reach H limits b s \<Longrightarrow> sc_binding s = b \<and> sc_limits s = limits"
  by (induction rule: session_reach.induct) (auto simp: init_coordinator_def)

interpretation session_cause: first_cause reason_ok sc_terminal_reason fatal id
  by unfold_locales (auto simp: reason_ok_def fatal_def)

section \<open>Runs of calls\<close>

lemma run_ops_terminal:
  "sc_generation_state s = GEN_TERMINAL \<Longrightarrow>
     sc_generation_state (run_ops H ops s) = GEN_TERMINAL \<and>
     sc_terminal_reason (run_ops H ops s) = sc_terminal_reason s"
  by (induction ops arbitrary: s) (auto simp: run_op_terminal)

lemma run_ops_started:
  assumes "sc_generation_state (run_ops H ops s) = STARTED" "sc_generation_state s \<noteq> STARTED"
  shows "\<exists>ops1 ops2. ops = ops1 @ Start # ops2 \<and> all_registered (run_ops H ops1 s)"
  using assms
proof (induction ops rule: rev_induct)
  case (snoc op ops)
  show ?case
  proof (cases "sc_generation_state (run_ops H ops s) = STARTED")
    case True
    with snoc.IH snoc.prems(2) obtain ops1 ops2
      where "ops = ops1 @ Start # ops2" "all_registered (run_ops H ops1 s)" by blast
    then have "ops @ [op] = ops1 @ Start # (ops2 @ [op])" by simp
    with \<open>all_registered (run_ops H ops1 s)\<close> show ?thesis by blast
  next
    case False
    with snoc.prems have "op = Start \<and> all_registered (run_ops H ops s)"
      using run_op_generation_started by fastforce
    then show ?thesis by blast
  qed
qed simp

lemma run_ops_session_exists:
  "session_of (run_ops H ops s) r = Some y \<Longrightarrow> \<exists>x. session_of s r = Some x"
proof (induction ops arbitrary: s)
  case (Cons op ops)
  then obtain x where "session_of (run_op H op s) r = Some x" by auto
  then have "r \<in> set (map fst (sc_sessions (run_op H op s)))"
    by (metis map_of_eq_None_keys option.distinct(1) session_of_def)
  then have "r \<in> set (map fst (sc_sessions s))" by simp
  then show ?case by (metis map_of_eq_None_keys not_Some_eq session_of_def)
qed simp

text \<open>Reaching SNAPSHOT\_ACK\_PENDING takes a completed snapshot of that rank.\<close>

lemma run_ops_ack_pending:
  assumes "session_of (run_ops H ops s) r = Some y" "rs_state y = SNAPSHOT_ACK_PENDING"
    and "session_of s r = Some x" "rs_state x \<noteq> SNAPSHOT_ACK_PENDING"
  shows "\<exists>pre now v rc post. ops = pre @ CompleteSnapshot now r v rc # post"
  using assms(1,2)
proof (induction ops arbitrary: y rule: rev_induct)
  case Nil
  with assms(3,4) show ?case by simp
next
  case (snoc op ops)
  then obtain z where z: "session_of (run_ops H ops s) r = Some z"
    "rs_state z = SNAPSHOT_ACK_PENDING \<or> (\<exists>now v rc. op = CompleteSnapshot now r v rc)"
    using run_op_ack_pending by fastforce
  from z(2) show ?case
  proof
    assume "rs_state z = SNAPSHOT_ACK_PENDING"
    then obtain pre now v rc post where "ops = pre @ CompleteSnapshot now r v rc # post"
      using snoc.IH z(1) by blast
    then show ?thesis by (metis append.assoc append_Cons)
  qed blast
qed

lemma run_ops_established:
  assumes "session_of (run_ops H ops s) r = Some y" "rs_state y = ESTABLISHED"
    and "session_of s r = Some x" "rs_state x \<noteq> ESTABLISHED" "rs_state x \<noteq> SNAPSHOT_ACK_PENDING"
  shows "\<exists>pre now v rc mid now' c sid h post.
    ops = pre @ CompleteSnapshot now r v rc # mid @ Acknowledge now' r c sid h True # post"
  using assms(1,2)
proof (induction ops arbitrary: y rule: rev_induct)
  case Nil
  with assms(3,4) show ?case by simp
next
  case (snoc op ops)
  then obtain z where z: "session_of (run_ops H ops s) r = Some z"
    and alt: "rs_state z = ESTABLISHED \<or> rs_state z = SNAPSHOT_ACK_PENDING \<and>
      (\<exists>now c sid h. op = Acknowledge now r c sid h True)"
    using run_op_established by fastforce
  from alt show ?case
  proof
    assume "rs_state z = ESTABLISHED"
    from snoc.IH [OF z this] obtain pre now v rc mid now' c sid h post where
      "ops = pre @ CompleteSnapshot now r v rc # mid @ Acknowledge now' r c sid h True # post"
      by (elim exE)
    then have "ops @ [op] = pre @ CompleteSnapshot now r v rc # mid @
      Acknowledge now' r c sid h True # (post @ [op])" by simp
    then show ?thesis by blast
  next
    assume a: "rs_state z = SNAPSHOT_ACK_PENDING \<and> (\<exists>now c sid h. op = Acknowledge now r c sid h True)"
    then obtain pre now v rc post where "ops = pre @ CompleteSnapshot now r v rc # post"
      using run_ops_ack_pending [OF z _ assms(3) assms(5)] by blast
    with a show ?thesis by (metis append.assoc append_Cons)
  qed
qed

lemma session_inv_session_of:
  assumes "session_inv s"
  shows "session_of s r \<noteq> None \<longleftrightarrow> r \<in> set (ab_ranks (sc_binding s))"
  using assms by (simp add: session_inv_def session_of_def map_of_eq_None_keys del: set_map)

lemma all_registeredD:
  "all_registered s \<Longrightarrow> session_of s r = Some x \<Longrightarrow> fully_registered x"
  by (auto simp: all_registered_def session_of_def list_all_iff dest: map_of_SomeD)

lemma session_keys_distinct:
  "session_inv s \<Longrightarrow> allocation_binding_ok (sc_binding s) \<Longrightarrow> distinct (map fst (sc_sessions s))"
  by (simp add: session_inv_def ab_ranks_ok)

lemma not_established_ranks_iff:
  assumes "session_inv s" "allocation_binding_ok (sc_binding s)"
  shows "r \<in> set (not_established_ranks s) \<longleftrightarrow>
    (\<exists>x. session_of s r = Some x \<and> rs_state x \<noteq> ESTABLISHED)"
  using session_keys_distinct [OF assms]
  by (auto simp: not_established_ranks_def is_established_def session_of_def map_of_Some_distinct image_iff)

lemma not_established_ranks_empty:
  assumes "session_inv s" "allocation_binding_ok (sc_binding s)"
  shows "not_established_ranks s = [] \<longleftrightarrow>
    (\<forall>r \<in> set (ab_ranks (sc_binding s)). \<exists>x. session_of s r = Some x \<and> rs_state x = ESTABLISHED)"
proof -
  have "not_established_ranks s = [] \<longleftrightarrow> (\<forall>r. r \<notin> set (not_established_ranks s))"
    by (metis list.set_intros(1) neq_Nil_conv empty_iff empty_set)
  also have "\<dots> \<longleftrightarrow> (\<forall>r x. session_of s r = Some x \<longrightarrow> rs_state x = ESTABLISHED)"
    by (auto simp: not_established_ranks_iff [OF assms])
  also have "\<dots> \<longleftrightarrow> (\<forall>r \<in> set (ab_ranks (sc_binding s)). \<exists>x. session_of s r = Some x \<and> rs_state x = ESTABLISHED)"
    using session_inv_session_of [OF assms(1)] by (metis not_None_eq option.inject)
  finally show ?thesis .
qed

section \<open>A sample generation\<close>

text \<open>Two ranks on two nodes, and the calls that bring both to START.\<close>

definition sample_binding :: allocation_binding where
  "sample_binding =
     \<lparr>ab_schema_version = 3, ab_deployment_id = ''d'', ab_generation = 0,
      ab_deployment_plan_hash = replicate 64 CHR ''a'', ab_site_profile_hash = replicate 64 CHR ''b'',
      ab_scheduler_allocation_id = ''1.pbs'',
      ab_rank_to_node = [(0, ''x1.site''), (1, ''x2.site'')], ab_allocation_binding_hash = []\<rparr>"

definition sample_hash :: "nat list \<Rightarrow> string" where
  "sample_hash items = show_nat (sum_list items)"

definition bring_up :: "int \<Rightarrow> string \<Rightarrow> nat session_op list" where
  "bring_up r node =
     [Register 1 r node ''i'', BeginSnapshot 2 r ''s'' 2 ''6'', AddChunk 3 r 1 [3],
      AddChunk 3 r 0 [1, 2], CompleteSnapshot 4 r None True,
      Acknowledge 5 r (snapshot_command_id r ''s'') ''s'' ''6'' True]"

definition sample_ops :: "nat session_op list" where
  "sample_ops = BeginRegistration 0 # bring_up 0 ''X1'' @ bring_up 1 ''x2.other''"

definition sample_start :: "nat session_coordinator" where
  "sample_start = run_ops sample_hash (sample_ops @ [Start])
     (init_coordinator default_control_limits sample_binding)"

lemma sample_binding_ok: "allocation_binding_ok sample_binding"
  by code_simp

lemma sample_started: "sc_generation_state sample_start = STARTED"
  by code_simp

section \<open>Properties\<close>

text \<open>
  (C2) The START gate. Whatever calls were made, a generation that is STARTED went through a call of
  \<^verbatim>\<open>start\<close> at a moment when every rank of the allocation binding had an established session whose
  complete snapshot was acknowledged under the exact command id of that rank and snapshot and whose
  supervisor receipt was accepted.
\<close>

theorem session_start_gate:
  assumes "sc_generation_state (run_ops H ops (init_coordinator limits b)) = STARTED"
  shows "\<exists>ops1 ops2. ops = ops1 @ Start # ops2 \<and>
    (\<forall>r \<in> set (ab_ranks b). \<exists>x. session_of (run_ops H ops1 (init_coordinator limits b)) r = Some x \<and>
       rs_state x = ESTABLISHED \<and> rs_snapshot_accepted x \<and> rs_supervisor_receipt_accepted x \<and>
       rs_snapshot_command_id x = snapshot_command_id r (rs_snapshot_id x))"
proof -
  have "sc_generation_state (init_coordinator limits b :: 'a session_coordinator) \<noteq> STARTED"
    by (simp add: init_coordinator_def)
  with assms obtain ops1 ops2 where ops: "ops = ops1 @ Start # ops2"
    and all: "all_registered (run_ops H ops1 (init_coordinator limits b))"
    using run_ops_started by blast
  let ?s = "run_ops H ops1 (init_coordinator limits b)"
  have reach: "session_reach H limits b ?s"
    by (simp add: session_reach_run_ops session_reach.init)
  then have inv: "session_inv ?s" and bind: "sc_binding ?s = b"
    using session_reach_inv session_reach_frame by blast+
  have "\<exists>x. session_of ?s r = Some x \<and> fully_registered x \<and> rank_session_ok r x"
    if "r \<in> set (ab_ranks b)" for r
    using that session_inv_session_of [OF inv, of r] bind all_registeredD [OF all]
      inv sessions_okD by (fastforce simp: session_inv_def)
  with ops show ?thesis
    by (auto simp: fully_registered_def is_established_def rank_session_ok_def)
qed

theorem session_start_gate_witness:
  "\<exists>ops1 ops2. sample_ops @ [Start] = ops1 @ Start # ops2 \<and>
    (\<forall>r \<in> set (ab_ranks sample_binding). \<exists>x. session_of (run_ops sample_hash ops1
        (init_coordinator default_control_limits sample_binding)) r = Some x \<and>
       rs_state x = ESTABLISHED \<and> rs_snapshot_accepted x \<and> rs_supervisor_receipt_accepted x \<and>
       rs_snapshot_command_id x = snapshot_command_id r (rs_snapshot_id x))"
  by (rule session_start_gate [OF sample_started [unfolded sample_start_def]])

text \<open>
  (C25) A terminal generation stays terminal under every later sequence of calls, keeps the reason it
  became terminal for, and never starts.
\<close>

theorem session_terminal_absorbing:
  assumes "sc_generation_state s = GEN_TERMINAL"
  shows "sc_generation_state (run_ops H ops s) = GEN_TERMINAL \<and>
    sc_terminal_reason (run_ops H ops s) = sc_terminal_reason s \<and>
    fst (snd (start (run_ops H ops s))) = False"
  using run_ops_terminal [OF assms, of H ops] by (simp add: start_def may_start_def)

theorem session_terminal_absorbing_witness:
  "sc_generation_state (protocol_violation 1 ''bad'' sample_start) = GEN_TERMINAL \<and>
   sc_terminal_reason (run_ops sample_hash sample_ops (protocol_violation 1 ''bad'' sample_start)) =
     Some (ProtocolViolation 1 ''bad'')"
proof -
  let ?s = "protocol_violation 1 ''bad'' sample_start"
  have t: "sc_generation_state ?s = GEN_TERMINAL" and w: "sc_terminal_reason ?s = Some (ProtocolViolation 1 ''bad'')"
    by code_simp+
  show ?thesis using t w session_terminal_absorbing [OF t, of sample_hash sample_ops] by simp
qed

text \<open>
  Recovery replaces the whole projection. A rank whose session is neither established nor
  awaiting its acknowledgment (never connected, lost, terminal, or part-way through registration)
  is established again only after a complete snapshot of that rank and, later, the successful
  acknowledgment of it.
\<close>

lemma session_recovery_needs_full_snapshot:
  assumes "session_of s r = Some x" "rs_state x \<noteq> ESTABLISHED" "rs_state x \<noteq> SNAPSHOT_ACK_PENDING"
    and "session_of (run_ops H ops s) r = Some y" "rs_state y = ESTABLISHED"
  shows "\<exists>pre now v rc mid now' c sid h post.
    ops = pre @ CompleteSnapshot now r v rc # mid @ Acknowledge now' r c sid h True # post"
  by (rule run_ops_established [OF assms(4,5,1,2,3)])

text \<open>
  (C26) The invariant of every reachable coordinator: the sessions are exactly the ranks of the
  binding, an established session has its snapshot, receipt, heartbeat and command id and no pending
  loss, a lost session has its loss time, a terminal generation has its reason, and every snapshot
  in flight is well formed and within the chunk limit.
\<close>

theorem session_reachable_invariant:
  assumes "session_reach H limits b s"
  shows "session_inv s \<and> sc_binding s = b \<and> sc_limits s = limits"
  using assms session_reach_inv session_reach_frame by blast

theorem session_reachable_invariant_witness: "session_inv sample_start"
proof -
  have "session_reach sample_hash default_control_limits sample_binding sample_start"
    unfolding sample_start_def by (intro session_reach_run_ops session_reach.init)
  from session_reachable_invariant [OF this] show ?thesis by blast
qed

text \<open>
  Silent loss is anchored at the last heartbeat. When the lease of an established session has
  run out at a poll, its loss time is the last heartbeat plus the lease timeout (not the time of the
  poll), the cleanup deadline counts one grace and one watchdog period from there, and a later grace
  check makes the rank and the generation terminal exactly when the grace after that loss time has
  passed.
\<close>

lemma session_silent_loss_timing:
  assumes x: "session_of s r = Some x" "rs_state x = ESTABLISHED" "rs_last_heartbeat_at x = Some h"
    and late: "now > h + lease_timeout_s (sc_limits s)"
  shows "(\<exists>y. session_of (fst (poll_leases now s)) r = Some y \<and> rs_state y = LOST \<and>
        rs_loss_time y = Some (h + lease_timeout_s (sc_limits s))) \<and>
    cleanup_deadline_for r (fst (poll_leases now s)) = Some (h + lease_timeout_s (sc_limits s)
      + reconnect_grace_s (sc_limits s) + watchdog_cleanup_deadline_s (sc_limits s)) \<and>
    ((\<exists>z. session_of (fst (check_grace_deadlines later (fst (poll_leases now s)))) r = Some z \<and>
        rs_state z = TERMINAL) \<longleftrightarrow>
      h + lease_timeout_s (sc_limits s) + reconnect_grace_s (sc_limits s) < later) \<and>
    (h + lease_timeout_s (sc_limits s) + reconnect_grace_s (sc_limits s) < later \<longrightarrow>
      sc_generation_state (fst (check_grace_deadlines later (fst (poll_leases now s)))) = GEN_TERMINAL)"
proof -
  let ?s = "fst (poll_leases now s)"
  let ?y = "x\<lparr>rs_state := LOST, rs_loss_time := Some (h + lease_timeout_s (sc_limits s))\<rparr>"
  have y: "session_of ?s r = Some ?y" and lim: "sc_limits ?s = sc_limits s"
    using x late by (auto simp: poll_leases_def lease_lost_def)
  have "cleanup_deadline_for r ?s = Some (h + lease_timeout_s (sc_limits s)
      + reconnect_grace_s (sc_limits s) + watchdog_cleanup_deadline_s (sc_limits s))"
    using y lim by (simp add: cleanup_deadline_for_def)
  moreover have "session_of (fst (check_grace_deadlines later ?s)) r =
      Some (if grace_over (sc_limits s) later ?y then ?y\<lparr>rs_state := TERMINAL\<rparr> else ?y)"
    using y lim by (auto simp: check_grace_deadlines_def Let_def)
  moreover have "sc_generation_state (fst (check_grace_deadlines later ?s)) = GEN_TERMINAL"
    if "h + lease_timeout_s (sc_limits s) + reconnect_grace_s (sc_limits s) < later"
  proof -
    have "(r, ?y) \<in> set (filter (\<lambda>(r, x). grace_over (sc_limits ?s) later x) (sc_sessions ?s))"
      using y lim that by (auto simp: session_of_def grace_over_def dest: map_of_SomeD)
    then have "filter (\<lambda>(r, x). grace_over (sc_limits ?s) later x) (sc_sessions ?s) \<noteq> []"
      by (metis empty_iff empty_set)
    then show ?thesis by (simp add: check_grace_deadlines_def Let_def)
  qed
  ultimately show ?thesis using y by (auto simp: grace_over_def)
qed

text \<open>
  Snapshot reassembly. However the chunks of a snapshot arrive - in any order, with any number
  of repetitions - every chunk is accepted, the assembly is complete, and its items are the
  concatenation of the chunks in index order, provided the chunk and item limits hold.
\<close>

lemma snapshot_reassembly:
  assumes "ps \<noteq> []" "int (length ps) \<le> max_snapshot_chunks limits"
    "int (length (concat ps)) \<le> max_snapshot_items limits"
    "set arrivals = set (zip (int_range (length ps)) ps)"
  shows "snd (sa_feed arrivals (empty_assembly limits sid (int (length ps)) h now)) \<and>
    sa_is_complete (fst (sa_feed arrivals (empty_assembly limits sid (int (length ps)) h now))) \<and>
    sa_items (fst (sa_feed arrivals (empty_assembly limits sid (int (length ps)) h now))) = concat ps"
proof -
  let ?a = "empty_assembly limits sid (int (length ps)) h now"
  have h0: "sa_holds ps ?a"
    using assms(1) by (cases ps) (auto simp: sa_holds_def sa_wf_def empty_assembly_def)
  have arr: "\<forall>(i, c) \<in> set arrivals. 0 \<le> i \<and> i < int (length ps) \<and> c = ps ! nat i"
    by (auto simp: assms(4) set_zip int_range_def)
  have keys: "fst ` set arrivals = {0..<int (length ps)}"
    by (simp add: assms(4) set_map [symmetric] int_range_set del: set_map)
  have "snd (sa_feed arrivals ?a) \<and> sa_holds ps (fst (sa_feed arrivals ?a)) \<and>
    fst ` set (sa_chunks (fst (sa_feed arrivals ?a))) = {0..<int (length ps)}"
    using sa_feed_holds [OF h0 _ _ arr] assms(2,3) keys by (simp add: empty_assembly_def)
  then show ?thesis using sa_holds_complete_items by blast
qed

lemma snapshot_command_id_inject:
  "snapshot_command_id r sid = snapshot_command_id r' sid' \<longleftrightarrow> r = r' \<and> sid = sid'"
proof -
  have "CHR '':'' \<notin> set (show_int i)" for i
    using show_int_chars [of "CHR '':''" i] by (auto simp: is_digit_char_def)
  then show ?thesis
    by (simp add: snapshot_command_id_def append_sep_inject [where c = "CHR '':''"])
qed

text \<open>
  An acknowledgment crosses the barrier for one rank and one snapshot only: a command id that is
  accepted for rank \<open>r\<close> cannot be the command id of another rank or of another snapshot, and the
  accepted acknowledgment names the snapshot and the set hash the session recorded.
\<close>

lemma snapshot_ack_exact:
  assumes "session_reach H limits b s"
    and "fst (snd (acknowledge_snapshot now r (snapshot_command_id r' sid') sid h ok s))"
  shows "r' = r \<and> sid' = sid \<and> ok \<and>
    (\<exists>x. session_of s r = Some x \<and> rs_snapshot_id x = sid \<and> rs_complete_set_hash x = h \<and>
       rs_supervisor_receipt_accepted x)"
proof -
  from assms(2) obtain x where x: "session_of s r = Some x" "rs_state x = SNAPSHOT_ACK_PENDING"
    "snapshot_command_id r' sid' = rs_snapshot_command_id x" "sid = rs_snapshot_id x"
    "h = rs_complete_set_hash x" ok
    by (auto simp: acknowledge_snapshot_def split: option.splits if_splits)
  from session_reach_inv [OF assms(1)] x(1) have "rank_session_ok r x"
    by (auto simp: session_inv_def dest: sessions_okD)
  with x show ?thesis by (auto simp: rank_session_ok_def snapshot_command_id_inject)
qed

end
