(* ===== verification/Status.thy ===== *)
theory Status
  imports Exa_Prelude "HOL-Library.Sublist"
begin

text \<open>
  The durable status record, \<^verbatim>\<open>src/exaserve/state/status.py\<close>, with the JSON publication helpers it
  uses from \<^verbatim>\<open>src/exaserve/state/atomic.py\<close>.

  One record per deployment or run is kept in a file. \<open>stored\<close> is what a strict read of that file
  gives: nothing, something unreadable, or a decoded JSON value. \<open>st_load\<close> is the strict loader with
  all its checks, \<open>initialize\<close>, \<open>transition\<close> and \<open>update\<close> are the three writers; each runs under the
  exclusive lease of the record, so it reads and publishes in one step (\<open>busy\<close> says that the lease
  was not obtained in time). The lifecycle, an enumeration with its transition table, is a parameter
  as in the class and is given twice, for deployments and for runs.
\<close>

section \<open>Lifecycles\<close>

datatype deployment_state =
    D_PLANNED | D_STAGING | D_CLUSTER_STARTING | D_DEPLOYING | D_VALIDATING | D_READY | D_DRAINING
  | D_STOPPED | D_FAILED | D_CANCELLED

datatype run_state =
  R_PLANNED | R_SUBMITTED | R_RUNNING | R_SUCCEEDED | R_PARTIAL | R_FAILED | R_CANCELLED | R_INVALID

fun deployment_value :: "deployment_state \<Rightarrow> string" where
  "deployment_value D_PLANNED = ''PLANNED''"
| "deployment_value D_STAGING = ''STAGING''"
| "deployment_value D_CLUSTER_STARTING = ''CLUSTER_STARTING''"
| "deployment_value D_DEPLOYING = ''DEPLOYING''"
| "deployment_value D_VALIDATING = ''VALIDATING''"
| "deployment_value D_READY = ''READY''"
| "deployment_value D_DRAINING = ''DRAINING''"
| "deployment_value D_STOPPED = ''STOPPED''"
| "deployment_value D_FAILED = ''FAILED''"
| "deployment_value D_CANCELLED = ''CANCELLED''"

definition deployment_members :: "deployment_state list" where
  "deployment_members =
     [D_PLANNED, D_STAGING, D_CLUSTER_STARTING, D_DEPLOYING, D_VALIDATING, D_READY, D_DRAINING,
      D_STOPPED, D_FAILED, D_CANCELLED]"

definition deployment_active :: "deployment_state list" where
  "deployment_active =
     [D_PLANNED, D_STAGING, D_CLUSTER_STARTING, D_DEPLOYING, D_VALIDATING, D_READY, D_DRAINING]"

fun deployment_forward :: "deployment_state \<Rightarrow> deployment_state list" where
  "deployment_forward D_PLANNED = [D_STAGING]"
| "deployment_forward D_STAGING = [D_CLUSTER_STARTING]"
| "deployment_forward D_CLUSTER_STARTING = [D_DEPLOYING]"
| "deployment_forward D_DEPLOYING = [D_VALIDATING]"
| "deployment_forward D_VALIDATING = [D_READY]"
| "deployment_forward D_READY = [D_VALIDATING, D_DRAINING]"
| "deployment_forward D_DRAINING = [D_STOPPED]"
| "deployment_forward D_STOPPED = []"
| "deployment_forward D_FAILED = []"
| "deployment_forward D_CANCELLED = []"

definition deployment_transitions :: "deployment_state \<Rightarrow> deployment_state list" where
  "deployment_transitions s =
     deployment_forward s @ (if s \<in> set deployment_active then [D_FAILED, D_CANCELLED] else [])"

fun run_value :: "run_state \<Rightarrow> string" where
  "run_value R_PLANNED = ''PLANNED''"
| "run_value R_SUBMITTED = ''SUBMITTED''"
| "run_value R_RUNNING = ''RUNNING''"
| "run_value R_SUCCEEDED = ''SUCCEEDED''"
| "run_value R_PARTIAL = ''PARTIAL''"
| "run_value R_FAILED = ''FAILED''"
| "run_value R_CANCELLED = ''CANCELLED''"
| "run_value R_INVALID = ''INVALID''"

definition run_members :: "run_state list" where
  "run_members =
     [R_PLANNED, R_SUBMITTED, R_RUNNING, R_SUCCEEDED, R_PARTIAL, R_FAILED, R_CANCELLED, R_INVALID]"

fun run_transitions :: "run_state \<Rightarrow> run_state list" where
  "run_transitions R_PLANNED = [R_SUBMITTED, R_CANCELLED, R_INVALID]"
| "run_transitions R_SUBMITTED =
     [R_RUNNING, R_FAILED, R_CANCELLED, R_SUCCEEDED, R_PARTIAL, R_INVALID]"
| "run_transitions R_RUNNING = [R_SUCCEEDED, R_PARTIAL, R_FAILED, R_CANCELLED, R_INVALID]"
| "run_transitions R_SUCCEEDED = []"
| "run_transitions R_PARTIAL = []"
| "run_transitions R_FAILED = []"
| "run_transitions R_CANCELLED = []"
| "run_transitions R_INVALID = []"

text \<open>The parameters of a store: its kind, its enumeration by value, its transition table.\<close>

record 's lifecycle =
  lc_kind :: string
  lc_members :: "'s list"
  lc_value :: "'s \<Rightarrow> string"
  lc_transitions :: "'s \<Rightarrow> 's list"
  lc_initial :: 's

definition deployment_lifecycle :: "deployment_state lifecycle" where
  "deployment_lifecycle =
     \<lparr>lc_kind = ''deployment'', lc_members = deployment_members, lc_value = deployment_value,
      lc_transitions = deployment_transitions, lc_initial = D_PLANNED\<rparr>"

definition run_lifecycle :: "run_state lifecycle" where
  "run_lifecycle =
     \<lparr>lc_kind = ''run'', lc_members = run_members, lc_value = run_value,
      lc_transitions = run_transitions, lc_initial = R_PLANNED\<rparr>"

text \<open>\<^verbatim>\<open>self._enum(v)\<close>: the member with that value, or a \<^verbatim>\<open>ValueError\<close>.\<close>

definition enum_of :: "'s lifecycle \<Rightarrow> string \<Rightarrow> 's option" where
  "enum_of lc v = map_of (map (\<lambda>s. (lc_value lc s, s)) (lc_members lc)) v"

definition enum_of_val :: "'s lifecycle \<Rightarrow> pyval \<Rightarrow> 's option" where
  "enum_of_val lc v = (case as_str v of None \<Rightarrow> None | Some x \<Rightarrow> enum_of lc x)"

section \<open>Records and files\<close>

record history_event =
  he_state :: string
  he_at :: real
  he_reason_code :: string

type_synonym payload = "(string \<times> pyval) list"

record status_record =
  st_schema_version :: int
  st_kind :: string
  st_record_id :: string
  st_state :: string
  st_revision :: int
  st_updated_at :: real
  st_reason_code :: "string option"
  st_detail :: "string option"
  st_provenance :: payload
  st_data :: payload
  st_history :: "history_event list"

datatype status_error =
  StatusConflict string | IllegalTransition string string | ValueErr string | NotSerializable | StatusOverflow

datatype stored = Missing | Unreadable | Stored pyval

definition status_schema_version :: int where
  "status_schema_version = 1"

definition max_status_history_events :: nat where
  "max_status_history_events = 256"

definition history_dropped_key :: string where
  "history_dropped_key = ''status_history_events_dropped''"

definition history_omitted_key :: string where
  "history_omitted_key = ''status_history_events_omitted''"

definition internal_data_keys :: "string list" where
  "internal_data_keys = [history_dropped_key, history_omitted_key]"

subsection \<open>JSON publication\<close>

text \<open>
  \<^verbatim>\<open>json.dumps(..., allow_nan=False)\<close> followed by the strict reader: a value with a non-finite
  float or an object of another class is refused, a tuple comes back as a list, every other value
  comes back unchanged. Mappings have text keys here, as the annotations of the payloads say;
  other keys are refused by the model.
\<close>

fun json_ok :: "pyval \<Rightarrow> bool" where
  "json_ok (PFloat x) = (case x of Finite r \<Rightarrow> True | _ \<Rightarrow> False)"
| "json_ok (PList xs) = list_all json_ok xs"
| "json_ok (PTuple xs) = list_all json_ok xs"
| "json_ok (PDict d) =
     (distinct (map fst d) \<and> list_all (\<lambda>(k, v). as_str k \<noteq> None \<and> json_ok v) d)"
| "json_ok (PObj c) = False"
| "json_ok v = True"

fun json_image :: "pyval \<Rightarrow> pyval" where
  "json_image (PList xs) = PList (map json_image xs)"
| "json_image (PTuple xs) = PList (map json_image xs)"
| "json_image (PDict d) = PDict (map (\<lambda>(k, v). (k, json_image v)) d)"
| "json_image v = v"

definition atomic_write_json :: "pyval \<Rightarrow> status_error + stored" where
  "atomic_write_json v = (if json_ok v then Inr (Stored (json_image v)) else Inl NotSerializable)"

text \<open>\<^verbatim>\<open>dataclasses.asdict\<close> of a record and of its history events.\<close>

definition opt_str :: "string option \<Rightarrow> pyval" where
  "opt_str x = (case x of None \<Rightarrow> PNone | Some s \<Rightarrow> PStr s)"

definition payload_dict :: "payload \<Rightarrow> pyval" where
  "payload_dict d = PDict (map (\<lambda>(k, v). (PStr k, v)) d)"

definition event_dict :: "history_event \<Rightarrow> pyval" where
  "event_dict e =
     PDict [(PStr ''state'', PStr (he_state e)), (PStr ''at'', PFloat (Finite (he_at e))),
            (PStr ''reason_code'', PStr (he_reason_code e))]"

definition record_dict :: "status_record \<Rightarrow> pyval" where
  "record_dict r =
     PDict [(PStr ''schema_version'', PInt (st_schema_version r)), (PStr ''kind'', PStr (st_kind r)),
            (PStr ''record_id'', PStr (st_record_id r)), (PStr ''state'', PStr (st_state r)),
            (PStr ''revision'', PInt (st_revision r)),
            (PStr ''updated_at'', PFloat (Finite (st_updated_at r))),
            (PStr ''reason_code'', opt_str (st_reason_code r)), (PStr ''detail'', opt_str (st_detail r)),
            (PStr ''provenance'', payload_dict (st_provenance r)),
            (PStr ''data'', payload_dict (st_data r)),
            (PStr ''history'', PList (map event_dict (st_history r)))]"

definition publish :: "status_record \<Rightarrow> status_error + stored" where
  "publish r = atomic_write_json (record_dict r)"

section \<open>The strict loader\<close>

definition record_fields :: "string list" where
  "record_fields =
     [''schema_version'', ''kind'', ''record_id'', ''state'', ''revision'', ''updated_at'',
      ''reason_code'', ''detail'', ''provenance'', ''data'', ''history'']"

fun dict_items :: "pyval \<Rightarrow> (pyval \<times> pyval) list" where
  "dict_items (PDict d) = d"
| "dict_items _ = []"

fun is_dict :: "pyval \<Rightarrow> bool" where
  "is_dict (PDict d) = True"
| "is_dict _ = False"

fun list_items :: "pyval \<Rightarrow> pyval list" where
  "list_items (PList xs) = xs"
| "list_items _ = []"

fun is_list :: "pyval \<Rightarrow> bool" where
  "is_list (PList xs) = True"
| "is_list _ = False"

text \<open>\<^verbatim>\<open>raw.get(name, default)\<close>.\<close>

definition dget :: "pyval \<Rightarrow> string \<Rightarrow> pyval \<Rightarrow> pyval" where
  "dget raw k dflt = (case map_of (dict_items raw) (PStr k) of None \<Rightarrow> dflt | Some v \<Rightarrow> v)"

definition same_keys :: "pyval \<Rightarrow> string list \<Rightarrow> bool" where
  "same_keys raw ks = (set (map fst (dict_items raw)) = set (map PStr ks))"

fun check_events :: "'s lifecycle \<Rightarrow> real \<Rightarrow> pyval list \<Rightarrow> status_error option" where
  "check_events lc previous_at [] = None"
| "check_events lc previous_at (e # es) =
     (if \<not> is_dict e \<or> \<not> same_keys e [''state'', ''at'', ''reason_code'']
        then Some (StatusConflict ''event shape'')
      else if enum_of_val lc (dget e ''state'' PNone) = None
        then Some (StatusConflict ''event state'')
      else if float_overflows (dget e ''at'' PNone) then Some StatusOverflow
      else case as_number (dget e ''at'' PNone) of
        None \<Rightarrow> Some (StatusConflict ''event timestamp'')
      | Some t \<Rightarrow>
          if t < previous_at then Some (StatusConflict ''event timestamp'')
          else if \<not> nonempty_str (dget e ''reason_code'' PNone)
            then Some (StatusConflict ''event reason_code'')
          else check_events lc t es)"

text \<open>
  The pairs of neighbouring events that must be connected: every pair, or every pair but the first
  when older events were dropped between them.
\<close>

definition event_state :: "'s lifecycle \<Rightarrow> pyval \<Rightarrow> 's option" where
  "event_state lc e = enum_of_val lc (dget e ''state'' PNone)"

definition legal_edge :: "'s lifecycle \<Rightarrow> 's option \<Rightarrow> 's option \<Rightarrow> bool" where
  "legal_edge lc a b =
     (case (a, b) of (Some x, Some y) \<Rightarrow> y = x \<or> y \<in> set (lc_transitions lc x) | _ \<Rightarrow> False)"

fun edges_legal :: "'s lifecycle \<Rightarrow> 's option list \<Rightarrow> bool" where
  "edges_legal lc (a # b # xs) = (legal_edge lc a b \<and> edges_legal lc (b # xs))"
| "edges_legal lc _ = True"

definition read_event :: "pyval \<Rightarrow> history_event" where
  "read_event e =
     \<lparr>he_state = (case as_str (dget e ''state'' PNone) of None \<Rightarrow> [] | Some s \<Rightarrow> s),
      he_at = (case as_number (dget e ''at'' PNone) of None \<Rightarrow> 0 | Some t \<Rightarrow> t),
      he_reason_code = (case as_str (dget e ''reason_code'' PNone) of None \<Rightarrow> [] | Some s \<Rightarrow> s)\<rparr>"

definition read_payload :: "pyval \<Rightarrow> payload" where
  "read_payload v =
     List.map_filter (\<lambda>(k, x). map_option (\<lambda>s. (s, x)) (as_str k)) (dict_items v)"

definition read_record :: "pyval \<Rightarrow> status_record" where
  "read_record raw =
     \<lparr>st_schema_version = (case as_int (dget raw ''schema_version'' PNone) of None \<Rightarrow> 0 | Some i \<Rightarrow> i),
      st_kind = (case as_str (dget raw ''kind'' PNone) of None \<Rightarrow> [] | Some s \<Rightarrow> s),
      st_record_id = (case as_str (dget raw ''record_id'' PNone) of None \<Rightarrow> [] | Some s \<Rightarrow> s),
      st_state = (case as_str (dget raw ''state'' PNone) of None \<Rightarrow> [] | Some s \<Rightarrow> s),
      st_revision = (case as_int (dget raw ''revision'' PNone) of None \<Rightarrow> 0 | Some i \<Rightarrow> i),
      st_updated_at = (case as_number (dget raw ''updated_at'' PNone) of None \<Rightarrow> 0 | Some t \<Rightarrow> t),
      st_reason_code = as_str (dget raw ''reason_code'' PNone),
      st_detail = as_str (dget raw ''detail'' PNone),
      st_provenance = read_payload (dget raw ''provenance'' PNone),
      st_data = read_payload (dget raw ''data'' PNone),
      st_history = map read_event (list_items (dget raw ''history'' PNone))\<rparr>"

definition counter_of :: "string \<Rightarrow> pyval \<Rightarrow> int" where
  "counter_of key d = (case as_int (dget d key (PInt 0)) of None \<Rightarrow> 0 | Some i \<Rightarrow> i)"

definition load_checks :: "'s lifecycle \<Rightarrow> pyval \<Rightarrow> (bool \<times> status_error) list" where
  "load_checks lc raw =
     (let hist = dget raw ''history'' PNone;
          hs = list_items hist;
          dat = dget raw ''data'' PNone;
          revision = (case as_int (dget raw ''revision'' PNone) of None \<Rightarrow> 0 | Some i \<Rightarrow> i);
          dropped = counter_of history_dropped_key dat;
          omitted = counter_of history_omitted_key dat
      in [(\<not> is_dict raw \<or> \<not> same_keys raw record_fields, StatusConflict ''shape''),
          (dget raw ''schema_version'' PNone \<noteq> PInt status_schema_version, StatusConflict ''schema''),
          (dget raw ''kind'' PNone \<noteq> PStr (lc_kind lc), StatusConflict ''kind''),
          (\<not> nonempty_str (dget raw ''record_id'' PNone), StatusConflict ''record_id''),
          (enum_of_val lc (dget raw ''state'' PNone) = None, StatusConflict ''state''),
          (\<not> int_at_least 0 (dget raw ''revision'' PNone), StatusConflict ''revision''),
          (float_overflows (dget raw ''updated_at'' PNone), StatusOverflow),
          (\<not> nonneg_number (dget raw ''updated_at'' PNone), StatusConflict ''updated_at''),
          (\<not> none_or_str (dget raw ''reason_code'' PNone), StatusConflict ''reason_code''),
          (\<not> none_or_str (dget raw ''detail'' PNone), StatusConflict ''detail''),
          (dget raw ''reason_code'' PNone = PStr [], StatusConflict ''reason_code empty''),
          (\<not> is_dict (dget raw ''provenance'' PNone) \<or> \<not> is_dict dat, StatusConflict ''payloads''),
          (\<not> is_list hist \<or> hs = [] \<or> revision + 1 < int (length hs)
             \<or> max_status_history_events < length hs, StatusConflict ''history bounds''),
          (\<not> int_at_least 0 (dget dat history_dropped_key (PInt 0)), StatusConflict ''dropped''),
          (\<not> int_at_least 0 (dget dat history_omitted_key (PInt 0)), StatusConflict ''omitted''),
          (int (length hs) + dropped + omitted \<noteq> revision + 1, StatusConflict ''accounting''),
          (dropped \<noteq> 0 \<and> length hs \<noteq> max_status_history_events, StatusConflict ''window''),
          (check_events lc (- 1) hs \<noteq> None, the (check_events lc (- 1) hs)),
          (hs \<noteq> [] \<and> (dget (hd hs) ''state'' PNone \<noteq> PStr (lc_value lc (lc_initial lc))
              \<or> dget (hd hs) ''reason_code'' PNone \<noteq> PStr ''INIT''), StatusConflict ''initial''),
          (\<not> edges_legal lc (map (event_state lc) (if dropped \<noteq> 0 then tl hs else hs)),
             StatusConflict ''illegal transition in history''),
          (hs \<noteq> [] \<and> dget (last hs) ''state'' PNone \<noteq> dget raw ''state'' PNone,
             StatusConflict ''tail'')])"

definition st_load :: "'s lifecycle \<Rightarrow> stored \<Rightarrow> status_error + status_record option" where
  "st_load lc f =
     (case f of
        Missing \<Rightarrow> Inr None
      | Unreadable \<Rightarrow> Inl (StatusConflict ''unreadable'')
      | Stored raw \<Rightarrow> (case first_failure (load_checks lc raw) of
          Some e \<Rightarrow> Inl e
        | None \<Rightarrow> Inr (Some (read_record raw))))"

section \<open>Writers\<close>

definition validate_data_update :: "payload option \<Rightarrow> (bool \<times> status_error) list" where
  "validate_data_update d =
     [(case d of None \<Rightarrow> False | Some u \<Rightarrow> list_ex (\<lambda>k. k \<in> set internal_data_keys) (map fst u),
       ValueErr ''history accounting keys are owned by StatusStore'')]"

definition validate_reason_detail :: "string \<Rightarrow> (bool \<times> status_error) list" where
  "validate_reason_detail reason = [(reason = [], ValueErr ''reason_code'')]"

definition validate_expected_revision :: "int option \<Rightarrow> (bool \<times> status_error) list" where
  "validate_expected_revision n =
     [(case n of None \<Rightarrow> False | Some i \<Rightarrow> i < 0, ValueErr ''expected_revision'')]"

text \<open>\<^verbatim>\<open>record.data.update(other)\<close>.\<close>

definition payload_update :: "payload \<Rightarrow> payload option \<Rightarrow> payload" where
  "payload_update d u =
     (case u of None \<Rightarrow> d | Some kvs \<Rightarrow> fold (\<lambda>(k, v). AList.update k v) kvs d)"

definition payload_counter :: "string \<Rightarrow> payload \<Rightarrow> pyval" where
  "payload_counter key d = (case map_of d key of None \<Rightarrow> PInt 0 | Some v \<Rightarrow> v)"

text \<open>Add one to an accounting entry, which must be a non-negative integer.\<close>

definition bump_counter :: "string \<Rightarrow> status_record \<Rightarrow> status_error + status_record" where
  "bump_counter key r =
     (case as_int (payload_counter key (st_data r)) of
        None \<Rightarrow> Inl (StatusConflict key)
      | Some i \<Rightarrow> if i < 0 then Inl (StatusConflict key)
          else Inr (r\<lparr>st_data := AList.update key (PInt (i + 1)) (st_data r)\<rparr>))"

definition append_history :: "status_record \<Rightarrow> history_event \<Rightarrow> status_error + status_record" where
  "append_history r e =
     (if max_status_history_events \<le> length (st_history r)
      then (case bump_counter history_dropped_key
                   (r\<lparr>st_history := take 1 (st_history r) @ drop 2 (st_history r)\<rparr>) of
              Inl err \<Rightarrow> Inl err
            | Inr r' \<Rightarrow> Inr (r'\<lparr>st_history := st_history r' @ [e]\<rparr>))
      else Inr (r\<lparr>st_history := st_history r @ [e]\<rparr>))"

text \<open>The result of a writer: the file afterwards, and the error or the record it returns.\<close>

type_synonym write_result = "stored \<times> (status_error + status_record)"

definition commit_record :: "stored \<Rightarrow> status_error + status_record \<Rightarrow> write_result" where
  "commit_record f res =
     (case res of
        Inl e \<Rightarrow> (f, Inl e)
      | Inr r \<Rightarrow> (case publish r of Inl e \<Rightarrow> (f, Inl e) | Inr f' \<Rightarrow> (f', Inr r)))"

definition initialize ::
    "'s lifecycle \<Rightarrow> bool \<Rightarrow> real \<Rightarrow> string \<Rightarrow> string \<Rightarrow> payload option \<Rightarrow> payload option \<Rightarrow> stored
      \<Rightarrow> write_result" where
  "initialize lc busy now record_id state provenance data f =
     (case first_failure ((record_id = [], ValueErr ''record_id'') # validate_data_update data) of
        Some e \<Rightarrow> (f, Inl e)
      | None \<Rightarrow>
        (case enum_of lc state of
           None \<Rightarrow> (f, Inl (ValueErr ''state''))
         | Some s \<Rightarrow>
             if lc_value lc s \<noteq> lc_value lc (lc_initial lc)
               then (f, Inl (IllegalTransition [] (lc_value lc s)))
             else if busy then (f, Inl (StatusConflict ''lease busy''))
             else case st_load lc f of
               Inl e \<Rightarrow> (f, Inl e)
             | Inr (Some r) \<Rightarrow> (f, Inl (StatusConflict ''already initialized''))
             | Inr None \<Rightarrow> commit_record f (Inr
                 \<lparr>st_schema_version = status_schema_version, st_kind = lc_kind lc,
                  st_record_id = record_id, st_state = lc_value lc s, st_revision = 0,
                  st_updated_at = now, st_reason_code = None, st_detail = None,
                  st_provenance = payload_update [] provenance, st_data = payload_update [] data,
                  st_history = [\<lparr>he_state = lc_value lc s, he_at = now,
                                 he_reason_code = ''INIT''\<rparr>]\<rparr>)))"

text \<open>The guarded read both CAS writers share: the record, its state and its revision.\<close>

definition cas_read ::
    "'s lifecycle \<Rightarrow> bool \<Rightarrow> string \<Rightarrow> int option \<Rightarrow> stored \<Rightarrow> status_error + status_record" where
  "cas_read lc busy expected expected_revision f =
     (if busy then Inl (StatusConflict ''lease busy'')
      else case st_load lc f of
        Inl e \<Rightarrow> Inl e
      | Inr None \<Rightarrow> Inl (StatusConflict ''not initialized'')
      | Inr (Some r) \<Rightarrow>
          if st_state r \<noteq> expected then Inl (StatusConflict ''expected state'')
          else if expected_revision \<noteq> None \<and> st_revision r \<noteq> the expected_revision
            then Inl (StatusConflict ''stale writer'')
          else Inr r)"

text \<open>Both CAS writers advance the revision and the nondecreasing timestamp the same way.\<close>

definition advance ::
    "real \<Rightarrow> string \<Rightarrow> string \<Rightarrow> string option \<Rightarrow> payload option \<Rightarrow> status_record \<Rightarrow> status_record" where
  "advance now state reason detail data r =
     r\<lparr>st_state := state, st_revision := st_revision r + 1,
       st_updated_at := max (st_updated_at r) now, st_reason_code := Some reason,
       st_detail := detail, st_data := payload_update (st_data r) data\<rparr>"

definition overlaps :: "payload option \<Rightarrow> payload option \<Rightarrow> bool" where
  "overlaps a b =
     (case (a, b) of (Some x, Some y) \<Rightarrow> list_ex (\<lambda>k. k \<in> set (map fst y)) (map fst x) | _ \<Rightarrow> False)"

text \<open>
  \<open>factory\<close> is \<^verbatim>\<open>commit_data_factory\<close>: it is called with the new revision and either raises or
  returns the data to commit.
\<close>

definition transition ::
    "'s lifecycle \<Rightarrow> bool \<Rightarrow> real \<Rightarrow> string \<Rightarrow> string \<Rightarrow> string \<Rightarrow> string option \<Rightarrow> payload option
      \<Rightarrow> int option \<Rightarrow> (int \<Rightarrow> status_error + payload option) option \<Rightarrow> stored \<Rightarrow> write_result" where
  "transition lc busy now expected new reason detail data expected_revision factory f =
     (case (enum_of lc expected, enum_of lc new) of
        (Some x, Some y) \<Rightarrow>
          (case first_failure (validate_reason_detail reason @
                  validate_expected_revision expected_revision @ validate_data_update data) of
             Some e \<Rightarrow> (f, Inl e)
           | None \<Rightarrow>
               if y \<notin> set (lc_transitions lc x) then (f, Inl (IllegalTransition expected new))
               else case cas_read lc busy (lc_value lc x) expected_revision f of
                 Inl e \<Rightarrow> (f, Inl e)
               | Inr r \<Rightarrow>
                   let r1 = advance now (lc_value lc y) reason detail data r in
                   (case (case factory of None \<Rightarrow> Inr None | Some g \<Rightarrow> g (st_revision r1)) of
                      Inl e \<Rightarrow> (f, Inl e)
                    | Inr commit \<Rightarrow>
                        (case first_failure (validate_data_update commit @
                                [(overlaps commit data, ValueErr ''commit-time data overlaps'')]) of
                           Some e \<Rightarrow> (f, Inl e)
                         | None \<Rightarrow> commit_record f (append_history
                             (r1\<lparr>st_data := payload_update (st_data r1) commit\<rparr>)
                             \<lparr>he_state = lc_value lc y, he_at = st_updated_at r1,
                              he_reason_code = reason\<rparr>))))
      | _ \<Rightarrow> (f, Inl (ValueErr ''state'')))"

definition update ::
    "'s lifecycle \<Rightarrow> bool \<Rightarrow> real \<Rightarrow> string \<Rightarrow> string \<Rightarrow> string option \<Rightarrow> payload option \<Rightarrow> int option
      \<Rightarrow> bool \<Rightarrow> stored \<Rightarrow> write_result" where
  "update lc busy now expected reason detail data expected_revision record_history f =
     (case first_failure (validate_reason_detail reason @
             validate_expected_revision expected_revision @ validate_data_update data) of
        Some e \<Rightarrow> (f, Inl e)
      | None \<Rightarrow>
        (case enum_of lc expected of
           None \<Rightarrow> (f, Inl (ValueErr ''state''))
         | Some x \<Rightarrow>
             (case cas_read lc busy (lc_value lc x) expected_revision f of
                Inl e \<Rightarrow> (f, Inl e)
              | Inr r \<Rightarrow>
                  let r1 = advance now (st_state r) reason detail data r in
                  commit_record f
                    (if record_history
                     then append_history r1 \<lparr>he_state = lc_value lc x, he_at = st_updated_at r1,
                            he_reason_code = reason\<rparr>
                     else bump_counter history_omitted_key r1))))"

section \<open>Calls and reachable files\<close>

datatype status_op =
    OpInitialize bool real string string "payload option" "payload option"
  | OpTransition bool real string string string "string option" "payload option" "int option"
      "(int \<Rightarrow> status_error + payload option) option"
  | OpUpdate bool real string string "string option" "payload option" "int option" bool

fun run_status_op :: "'s lifecycle \<Rightarrow> status_op \<Rightarrow> stored \<Rightarrow> write_result" where
  "run_status_op lc (OpInitialize busy now rid s p d) f = initialize lc busy now rid s p d f"
| "run_status_op lc (OpTransition busy now x y reason detail d n g) f =
     transition lc busy now x y reason detail d n g f"
| "run_status_op lc (OpUpdate busy now x reason detail d n h) f =
     update lc busy now x reason detail d n h f"

fun op_clock :: "status_op \<Rightarrow> real" where
  "op_clock (OpInitialize busy now rid s p d) = now"
| "op_clock (OpTransition busy now x y reason detail d n g) = now"
| "op_clock (OpUpdate busy now x reason detail d n h) = now"

fun op_expected_revision :: "status_op \<Rightarrow> int option" where
  "op_expected_revision (OpInitialize busy now rid s p d) = None"
| "op_expected_revision (OpTransition busy now x y reason detail d n g) = n"
| "op_expected_revision (OpUpdate busy now x reason detail d n h) = n"

text \<open>What a successful call adds to the unbounded log of recorded events.\<close>

fun op_event :: "status_op \<Rightarrow> status_record \<Rightarrow> history_event list" where
  "op_event (OpInitialize busy now rid s p d) r =
     [\<lparr>he_state = st_state r, he_at = st_updated_at r, he_reason_code = ''INIT''\<rparr>]"
| "op_event (OpTransition busy now x y reason detail d n g) r =
     [\<lparr>he_state = st_state r, he_at = st_updated_at r, he_reason_code = reason\<rparr>]"
| "op_event (OpUpdate busy now x reason detail d n h) r =
     (if h then [\<lparr>he_state = st_state r, he_at = st_updated_at r, he_reason_code = reason\<rparr>] else [])"

fun status_trace ::
    "'s lifecycle \<Rightarrow> stored \<Rightarrow> status_op list \<Rightarrow> (status_op \<times> (status_error + status_record)) list" where
  "status_trace lc f [] = []"
| "status_trace lc f (op # ops) =
     (let (f', res) = run_status_op lc op f in (op, res) # status_trace lc f' ops)"

fun status_file :: "'s lifecycle \<Rightarrow> stored \<Rightarrow> status_op list \<Rightarrow> stored" where
  "status_file lc f [] = f"
| "status_file lc f (op # ops) = status_file lc (fst (run_status_op lc op f)) ops"

text \<open>
  The files the store can leave, with the log of all recorded events and the number of unrecorded
  updates: any sequence of calls, successful or not, with any arguments and clock readings.
\<close>

inductive status_reach :: "'s lifecycle \<Rightarrow> stored \<Rightarrow> history_event list \<Rightarrow> nat \<Rightarrow> bool"
  for lc :: "'s lifecycle" where
  missing: "status_reach lc Missing [] 0"
| success: "status_reach lc f evs om \<Longrightarrow> 0 \<le> op_clock op \<Longrightarrow>
    run_status_op lc op f = (f', Inr r) \<Longrightarrow>
    status_reach lc f' (evs @ op_event op r) (if op_event op r = [] then Suc om else om)"
| failure: "status_reach lc f evs om \<Longrightarrow> run_status_op lc op f = (f', Inl e) \<Longrightarrow>
    status_reach lc f' evs om"

text \<open>A call that named a revision and succeeded.\<close>

definition wins :: "int \<Rightarrow> status_op \<times> (status_error + status_record) \<Rightarrow> bool" where
  "wins n p = (case p of (op, res) \<Rightarrow> op_expected_revision op = Some n \<and> \<not> isl res)"

text \<open>The bounded window of the log that a record keeps: the first event and the newest ones.\<close>

definition history_window :: "history_event list \<Rightarrow> history_event list" where
  "history_window evs =
     (if length evs \<le> max_status_history_events then evs
      else take 1 evs @ drop (Suc (length evs - max_status_history_events)) evs)"

fun events_ok :: "'s lifecycle \<Rightarrow> real \<Rightarrow> history_event list \<Rightarrow> bool" where
  "events_ok lc p [] = True"
| "events_ok lc p (e # es) =
     (enum_of lc (he_state e) \<noteq> None \<and> p \<le> he_at e \<and> he_reason_code e \<noteq> [] \<and>
      events_ok lc (he_at e) es)"

definition log_states :: "'s lifecycle \<Rightarrow> history_event list \<Rightarrow> 's option list" where
  "log_states lc es = map (\<lambda>e. enum_of lc (he_state e)) es"

text \<open>A log that the lifecycle allows, and the record that represents it.\<close>

definition log_ok :: "'s lifecycle \<Rightarrow> history_event list \<Rightarrow> bool" where
  "log_ok lc evs =
     (evs \<noteq> [] \<and> he_state (hd evs) = lc_value lc (lc_initial lc) \<and>
      he_reason_code (hd evs) = ''INIT'' \<and> events_ok lc (- 1) evs \<and> edges_legal lc (log_states lc evs))"

definition represents :: "'s lifecycle \<Rightarrow> history_event list \<Rightarrow> nat \<Rightarrow> status_record \<Rightarrow> bool" where
  "represents lc evs om r =
     (st_schema_version r = status_schema_version \<and> st_kind r = lc_kind lc \<and>
      st_record_id r \<noteq> [] \<and> st_state r = he_state (last evs) \<and>
      st_revision r + 1 = int (length evs + om) \<and>
      0 \<le> st_updated_at r \<and> he_at (last evs) \<le> st_updated_at r \<and> st_reason_code r \<noteq> Some [] \<and>
      distinct (map fst (st_provenance r)) \<and> distinct (map fst (st_data r)) \<and>
      st_history r = history_window evs \<and>
      payload_counter history_dropped_key (st_data r) =
        PInt (int (length evs - max_status_history_events)) \<and>
      payload_counter history_omitted_key (st_data r) = PInt (int om))"

section \<open>Round trip of a record through its file\<close>

subsection \<open>Reading what was written\<close>

lemma dget_Cons [simp]:
  "dget (PDict ((PStr a, v) # d)) k dflt = (if k = a then v else dget (PDict d) k dflt)"
  by (simp add: dget_def)

lemma dget_Nil [simp]: "dget (PDict []) k dflt = dflt"
  by (simp add: dget_def)

lemma dget_payload_dict [simp]: "dget (payload_dict d) k dflt = (case map_of d k of None \<Rightarrow> dflt | Some v \<Rightarrow> v)"
  by (induction d) (auto simp: payload_dict_def dget_def)

lemma is_dict_payload_dict [simp]: "is_dict (payload_dict d)"
  by (simp add: payload_dict_def)

lemma read_payload_payload_dict [simp]: "read_payload (payload_dict d) = d"
  by (induction d) (auto simp: payload_dict_def read_payload_def map_filter_simps)

lemma counter_of_payload_dict [simp]:
  "counter_of key (payload_dict d) = (case as_int (payload_counter key d) of None \<Rightarrow> 0 | Some i \<Rightarrow> i)"
  by (simp add: counter_of_def payload_counter_def)

lemma as_str_opt_str [simp]: "as_str (opt_str x) = x"
  by (cases x) (auto simp: opt_str_def)

lemma none_or_str_opt_str [simp]: "none_or_str (opt_str x)"
  by (cases x) (auto simp: opt_str_def none_or_str_def)

lemma opt_str_eq_PStr [simp]: "opt_str x = PStr s \<longleftrightarrow> x = Some s"
  by (cases x) (auto simp: opt_str_def)

lemma read_event_event_dict [simp]: "read_event (event_dict e) = e"
  by (simp add: read_event_def event_dict_def)

lemma dget_event_dict [simp]:
  "dget (event_dict e) ''state'' x = PStr (he_state e)"
  "dget (event_dict e) ''reason_code'' x = PStr (he_reason_code e)"
  "dget (event_dict e) ''at'' x = PFloat (Finite (he_at e))"
  by (simp_all add: event_dict_def)

lemma event_dict_shape [simp]:
  "is_dict (event_dict e)" "same_keys (event_dict e) [''state'', ''at'', ''reason_code'']"
  by (auto simp: event_dict_def same_keys_def)

lemma event_state_event_dict [simp]: "event_state lc (event_dict e) = enum_of lc (he_state e)"
  by (simp add: event_state_def enum_of_val_def)

lemma check_events_event_dict:
  "events_ok lc p es \<Longrightarrow> check_events lc p (map event_dict es) = None"
  by (induction lc p es rule: events_ok.induct) (auto simp: enum_of_val_def nonempty_str_def)

lemma dget_record_dict [simp]:
  "dget (record_dict r) ''schema_version'' x = PInt (st_schema_version r)"
  "dget (record_dict r) ''kind'' x = PStr (st_kind r)"
  "dget (record_dict r) ''record_id'' x = PStr (st_record_id r)"
  "dget (record_dict r) ''state'' x = PStr (st_state r)"
  "dget (record_dict r) ''revision'' x = PInt (st_revision r)"
  "dget (record_dict r) ''updated_at'' x = PFloat (Finite (st_updated_at r))"
  "dget (record_dict r) ''reason_code'' x = opt_str (st_reason_code r)"
  "dget (record_dict r) ''detail'' x = opt_str (st_detail r)"
  "dget (record_dict r) ''provenance'' x = payload_dict (st_provenance r)"
  "dget (record_dict r) ''data'' x = payload_dict (st_data r)"
  "dget (record_dict r) ''history'' x = PList (map event_dict (st_history r))"
  by (simp_all add: record_dict_def)

lemma record_dict_shape [simp]: "is_dict (record_dict r)" "same_keys (record_dict r) record_fields"
  by (auto simp: record_dict_def same_keys_def record_fields_def)

lemma read_record_record_dict [simp]: "read_record (record_dict r) = r"
  by (simp add: read_record_def comp_def)

subsection \<open>The JSON image of a record\<close>

definition image_payload :: "payload \<Rightarrow> payload" where
  "image_payload d = map (\<lambda>(k, v). (k, json_image v)) d"

definition image_record :: "status_record \<Rightarrow> status_record" where
  "image_record r =
     r\<lparr>st_provenance := image_payload (st_provenance r), st_data := image_payload (st_data r)\<rparr>"

lemma json_image_payload_dict [simp]: "json_image (payload_dict d) = payload_dict (image_payload d)"
  by (induction d) (auto simp: payload_dict_def image_payload_def)

lemma json_image_event_dict [simp]: "json_image (event_dict e) = event_dict e"
  by (simp add: event_dict_def)

lemma json_image_opt_str [simp]: "json_image (opt_str x) = opt_str x"
  by (cases x) (auto simp: opt_str_def)

lemma json_image_record_dict [simp]: "json_image (record_dict r) = record_dict (image_record r)"
  by (simp add: record_dict_def image_record_def comp_def)

lemma json_image_eq_PInt [simp]: "json_image v = PInt i \<longleftrightarrow> v = PInt i"
  by (cases v) auto

lemma payload_counter_image [simp]:
  "payload_counter key (image_payload d) = PInt i \<longleftrightarrow> payload_counter key d = PInt i"
  by (auto simp: payload_counter_def image_payload_def map_of_map_snd split: option.splits)

lemma image_payload_keys [simp]: "map fst (image_payload d) = map fst d"
  by (induction d) (auto simp: image_payload_def)

lemma represents_image [simp]: "represents lc evs om (image_record r) \<longleftrightarrow> represents lc evs om r"
  by (simp add: represents_def image_record_def)

lemma publish_Inr: "publish r = Inr f \<Longrightarrow> f = Stored (record_dict (image_record r))"
  by (auto simp: publish_def atomic_write_json_def split: if_splits)

subsection \<open>Logs, windows and edges\<close>

lemma edges_legal_append:
  "edges_legal lc (xs @ [y]) \<longleftrightarrow> edges_legal lc xs \<and> (xs \<noteq> [] \<longrightarrow> legal_edge lc (last xs) y)"
  by (induction lc xs rule: edges_legal.induct) auto

lemma edges_legal_tl: "edges_legal lc xs \<Longrightarrow> edges_legal lc (tl xs)"
  by (induction lc xs rule: edges_legal.induct) auto

lemma edges_legal_drop: "edges_legal lc xs \<Longrightarrow> edges_legal lc (drop n xs)"
  by (induction n arbitrary: xs) (auto simp: drop_Suc edges_legal_tl)

lemma events_ok_append:
  "events_ok lc p (es @ [e]) \<longleftrightarrow>
     events_ok lc p es \<and> enum_of lc (he_state e) \<noteq> None \<and> he_reason_code e \<noteq> [] \<and>
     (if es = [] then p else he_at (last es)) \<le> he_at e"
  by (induction lc p es rule: events_ok.induct) auto

lemma events_ok_states: "events_ok lc p es \<Longrightarrow> e \<in> set es \<Longrightarrow> enum_of lc (he_state e) \<noteq> None"
  by (induction lc p es rule: events_ok.induct) auto

lemma events_ok_mono: "events_ok lc p es \<Longrightarrow> q \<le> p \<Longrightarrow> events_ok lc q es"
  by (cases es) auto

lemma events_ok_drop: "events_ok lc p es \<Longrightarrow> events_ok lc p (drop n es)"
proof (induction n arbitrary: p es)
  case (Suc n)
  show ?case
  proof (cases es)
    case (Cons e es')
    with Suc.prems have "events_ok lc p es'" by (auto intro: events_ok_mono)
    with Cons Suc.IH show ?thesis by simp
  qed simp
qed simp

lemma events_ok_window: "events_ok lc p evs \<Longrightarrow> events_ok lc p (history_window evs)"
  by (cases evs) (auto simp: history_window_def events_ok_drop)

lemma history_window_nonempty [simp]: "history_window evs = [] \<longleftrightarrow> evs = []"
  by (cases evs) (auto simp: history_window_def max_status_history_events_def)

lemma history_window_hd: "evs \<noteq> [] \<Longrightarrow> hd (history_window evs) = hd evs"
  by (cases evs) (auto simp: history_window_def)

lemma history_window_last: "evs \<noteq> [] \<Longrightarrow> last (history_window evs) = last evs"
  by (auto simp: history_window_def last_drop max_status_history_events_def)

lemma history_window_length:
  "length (history_window evs) = min (length evs) max_status_history_events"
  by (auto simp: history_window_def max_status_history_events_def)

lemma history_window_edges:
  assumes "edges_legal lc (log_states lc evs)"
  shows "edges_legal lc (log_states lc
    (if max_status_history_events < length evs then tl (history_window evs) else history_window evs))"
proof (cases "max_status_history_events < length evs")
  case True
  then have "tl (history_window evs) = drop (Suc (length evs - max_status_history_events)) evs"
    by (cases evs) (auto simp: history_window_def)
  with True show ?thesis
    using edges_legal_drop [OF assms] by (simp add: log_states_def drop_map)
next
  case False
  with assms show ?thesis by (simp add: history_window_def)
qed

text \<open>Appending to the window is appending to the log.\<close>

lemma history_window_snoc:
  "history_window (evs @ [e]) =
     (if max_status_history_events \<le> length (history_window evs)
      then take 1 (history_window evs) @ drop 2 (history_window evs) @ [e]
      else history_window evs @ [e])"
proof (cases "length evs < max_status_history_events")
  case True
  then show ?thesis by (simp add: history_window_def)
next
  case False
  then obtain a rest where evs: "evs = a # rest"
    by (cases evs) (auto simp: max_status_history_events_def)
  have "length rest - 254 = Suc (length rest - 255)" if "\<not> length rest < 255" "length rest \<noteq> 255"
    using that by arith
  then show ?thesis
    using False
    by (auto simp: evs history_window_def max_status_history_events_def Suc_diff_le numeral_2_eq_2
        drop_Suc [symmetric] drop_drop)
qed

section \<open>The store's contract\<close>

subsection \<open>Accounting data\<close>

lemma payload_update_distinct: "distinct (map fst d) \<Longrightarrow> distinct (map fst (payload_update d u))"
proof -
  have "distinct (map fst (fold (\<lambda>(k, v). AList.update k v) kvs d))" if "distinct (map fst d)" for kvs
    using that by (induction kvs arbitrary: d) (auto simp: distinct_update)
  then show "distinct (map fst d) \<Longrightarrow> distinct (map fst (payload_update d u))"
    by (simp add: payload_update_def split: option.splits)
qed

lemma payload_update_other:
  "(\<And>kvs. u = Some kvs \<Longrightarrow> key \<notin> set (map fst kvs)) \<Longrightarrow> map_of (payload_update d u) key = map_of d key"
proof -
  have "map_of (fold (\<lambda>(k, v). AList.update k v) kvs d) key = map_of d key"
    if "key \<notin> set (map fst kvs)" for kvs
    using that by (induction kvs arbitrary: d) (auto simp: update_conv')
  then show "(\<And>kvs. u = Some kvs \<Longrightarrow> key \<notin> set (map fst kvs)) \<Longrightarrow>
      map_of (payload_update d u) key = map_of d key"
    by (simp add: payload_update_def split: option.splits)
qed

lemma payload_update_counters:
  assumes "first_failure (validate_data_update u) = None" and "key \<in> set internal_data_keys"
  shows "payload_counter key (payload_update d u) = payload_counter key d"
proof -
  from assms have "key \<notin> set (map fst kvs)" if "u = Some kvs" for kvs
    using that by (auto simp: validate_data_update_def list_ex_iff split: if_splits)
  then have "map_of (payload_update d u) key = map_of d key" by (rule payload_update_other)
  then show ?thesis by (simp add: payload_counter_def)
qed

lemma accounting_keys [simp]:
  "history_dropped_key \<in> set internal_data_keys" "history_omitted_key \<in> set internal_data_keys"
  "history_dropped_key \<noteq> history_omitted_key" "history_omitted_key \<noteq> history_dropped_key"
  by (simp_all add: internal_data_keys_def history_dropped_key_def history_omitted_key_def)

lemma payload_counter_update [simp]:
  "payload_counter key (AList.update k v d) = (if key = k then v else payload_counter key d)"
  by (simp add: payload_counter_def update_conv')

text \<open>Recording an event on a record that represents a log represents the extended log.\<close>

lemma append_history_Inr:
  assumes "append_history r e = Inr r'"
    and "st_history r = history_window evs"
    and "payload_counter history_dropped_key (st_data r) =
      PInt (int (length evs - max_status_history_events))"
  shows "\<exists>d. r' = r\<lparr>st_history := history_window (evs @ [e]), st_data := d\<rparr> \<and>
    payload_counter history_dropped_key d = PInt (int (length (evs @ [e]) - max_status_history_events)) \<and>
    payload_counter history_omitted_key d = payload_counter history_omitted_key (st_data r) \<and>
    (distinct (map fst (st_data r)) \<longrightarrow> distinct (map fst d))"
proof (cases "max_status_history_events \<le> length (st_history r)")
  case True
  with assms(2) have le: "max_status_history_events \<le> length evs"
    by (simp add: history_window_length)
  define n where "n = int (length evs - max_status_history_events)"
  define m where "m = int (length (evs @ [e]) - max_status_history_events)"
  have m: "m = n + 1" "0 \<le> n" using le by (auto simp: n_def m_def)
  let ?d = "AList.update history_dropped_key (PInt m) (st_data r)"
  have "r' = r\<lparr>st_history := history_window (evs @ [e]), st_data := ?d\<rparr>"
    using assms(1,2,3) [folded n_def] True m
    by (auto simp: append_history_def bump_counter_def history_window_snoc)
  then show ?thesis
    by (intro exI [of _ ?d]) (auto simp: distinct_update m_def)
next
  case False
  with assms(2) have "length evs < max_status_history_events"
    by (auto simp: history_window_length min_def split: if_splits)
  with assms False show ?thesis
    by (intro exI [of _ "st_data r"])
      (auto simp: append_history_def history_window_snoc)
qed

lemma advance_fields [simp]:
  "st_schema_version (advance now x reason detail d r) = st_schema_version r"
  "st_kind (advance now x reason detail d r) = st_kind r"
  "st_record_id (advance now x reason detail d r) = st_record_id r"
  "st_state (advance now x reason detail d r) = x"
  "st_revision (advance now x reason detail d r) = st_revision r + 1"
  "st_updated_at (advance now x reason detail d r) = max (st_updated_at r) now"
  "st_reason_code (advance now x reason detail d r) = Some reason"
  "st_provenance (advance now x reason detail d r) = st_provenance r"
  "st_data (advance now x reason detail d r) = payload_update (st_data r) d"
  "st_history (advance now x reason detail d r) = st_history r"
  by (simp_all add: advance_def)

lemma commit_record_Inr:
  "commit_record f res = (f', Inr r) \<Longrightarrow>
     res = Inr r \<and> f' = Stored (record_dict (image_record r))"
  by (auto simp: commit_record_def dest: publish_Inr split: sum.splits)

lemma commit_record_Inl: "commit_record f res = (f', Inl e) \<Longrightarrow> f' = f"
  by (auto simp: commit_record_def split: sum.splits)

text \<open>A refused call leaves the file as it was.\<close>

lemma run_status_op_Inl: "run_status_op lc op f = (f', Inl e) \<Longrightarrow> f' = f"
  by (cases op)
    (auto simp: initialize_def transition_def update_def Let_def dest: commit_record_Inl
      split: option.splits sum.splits if_splits prod.splits)

lemma cas_read_Inr:
  "cas_read lc busy x n f = Inr r \<Longrightarrow>
     st_load lc f = Inr (Some r) \<and> st_state r = x \<and> (n = None \<or> n = Some (st_revision r)) \<and> \<not> busy"
  by (cases n) (auto simp: cas_read_def split: if_splits sum.splits option.splits)

text \<open>
  What a record store promises for any enumeration whose values identify its members; the two
  lifecycles of the module are instances.
\<close>

locale lifecycle_store =
  fixes lc :: "'s lifecycle"
  assumes enum_value: "enum_of lc (lc_value lc s) = Some s"
    and value_enum: "enum_of lc v = Some s \<Longrightarrow> lc_value lc s = v"
begin

lemma load_record_dict:
  assumes ok: "log_ok lc evs" and rep: "represents lc evs om r"
  shows "st_load lc (Stored (record_dict r)) = Inr (Some r)"
proof -
  from ok have evs: "evs \<noteq> []" "he_state (hd evs) = lc_value lc (lc_initial lc)"
      "he_reason_code (hd evs) = ''INIT''" "events_ok lc (- 1) evs"
      "edges_legal lc (log_states lc evs)"
    by (auto simp: log_ok_def)
  have hs: "st_history r = history_window evs" using rep by (simp add: represents_def)
  have drp: "payload_counter history_dropped_key (st_data r)
      = PInt (int (length evs - max_status_history_events))" using rep by (simp add: represents_def)
  have om: "payload_counter history_omitted_key (st_data r) = PInt (int om)"
    using rep by (simp add: represents_def)
  have "enum_of lc (he_state (last evs)) \<noteq> None"
    using evs(1,4) by (metis append_butlast_last_id events_ok_append)
  then have state: "enum_of lc (st_state r) \<noteq> None" using rep by (simp add: represents_def)
  have "edges_legal lc (map (event_state lc) (if length evs - max_status_history_events \<noteq> 0
      then tl (map event_dict (st_history r)) else map event_dict (st_history r)))"
    using history_window_edges [OF evs(5)]
    by (auto simp: hs log_states_def comp_def map_tl [symmetric] split: if_splits)
  moreover have "check_events lc (- 1) (map event_dict (st_history r)) = None"
    by (simp add: hs check_events_event_dict events_ok_window evs(4))
  moreover have "length (st_history r) = min (length evs) max_status_history_events"
    by (simp add: hs history_window_length)
  moreover have "st_history r \<noteq> []" "hd (st_history r) = hd evs" "last (st_history r) = last evs"
    using evs(1) by (simp_all add: hs history_window_hd history_window_last)
  moreover have dgets: "dget (payload_dict (st_data r)) history_dropped_key (PInt 0)
      = PInt (int (length evs - max_status_history_events))"
    "dget (payload_dict (st_data r)) history_omitted_key (PInt 0) = PInt (int om)"
    using drp om by (simp_all add: payload_counter_def split: option.splits)
  moreover have "0 \<le> st_revision r"
    using rep evs(1) by (cases evs) (auto simp: represents_def)
  ultimately have "\<forall>(bad, e) \<in> set (load_checks lc (record_dict r)). \<not> bad"
    using rep state drp om evs(2,3)
    by (auto simp: load_checks_def Let_def represents_def enum_of_val_def nonempty_str_def
        int_at_least_def nonneg_number_def hd_map last_map min_def simp del: dget_payload_dict
        split: if_splits)
  then have "first_failure (load_checks lc (record_dict r)) = None"
    by (simp add: first_failure_None)
  then show ?thesis by (simp add: st_load_def)
qed

text \<open>The file holds a record that represents the log.\<close>

definition holds :: "stored \<Rightarrow> history_event list \<Rightarrow> nat \<Rightarrow> status_record \<Rightarrow> bool" where
  "holds f evs om r \<longleftrightarrow> f = Stored (record_dict r) \<and> log_ok lc evs \<and> represents lc evs om r"

lemma holds_load: "holds f evs om r \<Longrightarrow> st_load lc f = Inr (Some r)"
  by (auto simp: holds_def load_record_dict)

lemma log_ok_snoc:
  assumes "log_ok lc evs" and "enum_of lc (he_state (last evs)) = Some x"
    and "he_state e = lc_value lc y" "y = x \<or> y \<in> set (lc_transitions lc x)"
    and "he_at (last evs) \<le> he_at e" "he_reason_code e \<noteq> []"
  shows "log_ok lc (evs @ [e])"
  using assms
  by (auto simp: log_ok_def events_ok_append log_states_def edges_legal_append last_map
      legal_edge_def enum_value)

lemma append_step:
  assumes holds: "holds f evs om r0"
    and r1: "st_schema_version r1 = st_schema_version r0" "st_kind r1 = st_kind r0"
      "st_record_id r1 = st_record_id r0" "st_revision r1 = st_revision r0 + 1"
      "st_updated_at r1 = max (st_updated_at r0) now" "st_reason_code r1 = Some reason"
      "st_provenance r1 = st_provenance r0" "st_history r1 = st_history r0"
      "distinct (map fst (st_data r1))"
      "\<And>key. key \<in> set internal_data_keys \<Longrightarrow>
         payload_counter key (st_data r1) = payload_counter key (st_data r0)"
    and x: "st_state r0 = lc_value lc x" "st_state r1 = lc_value lc y"
      "y = x \<or> y \<in> set (lc_transitions lc x)" "reason \<noteq> []"
    and app: "append_history r1 e = Inr r"
    and e: "e = \<lparr>he_state = lc_value lc y, he_at = st_updated_at r1, he_reason_code = reason\<rparr>"
  shows "holds (Stored (record_dict (image_record r))) (evs @ [e]) om (image_record r) \<and>
    st_state r = lc_value lc y \<and> st_updated_at r = st_updated_at r1 \<and>
    st_revision r = st_revision r0 + 1"
proof -
  from holds have rep: "represents lc evs om r0" and ok: "log_ok lc evs" by (auto simp: holds_def)
  have "enum_of lc (he_state (last evs)) = Some x"
    using rep x(1) enum_value [of x] by (auto simp: represents_def)
  moreover have "he_at (last evs) \<le> he_at e" using rep r1(5) by (auto simp: represents_def e)
  ultimately have ok': "log_ok lc (evs @ [e])"
    using ok x(3,4) by (intro log_ok_snoc [where x = x and y = y]) (auto simp: e)
  from append_history_Inr [OF app, of evs] rep r1(8,10) obtain d where
    r: "r = r1\<lparr>st_history := history_window (evs @ [e]), st_data := d\<rparr>"
    and d: "payload_counter history_dropped_key d
        = PInt (int (length (evs @ [e]) - max_status_history_events))"
      "payload_counter history_omitted_key d = payload_counter history_omitted_key (st_data r1)"
      "distinct (map fst (st_data r1)) \<longrightarrow> distinct (map fst d)"
    by (auto simp: represents_def)
  have "represents lc (evs @ [e]) om r"
    using rep r1 x d by (auto simp: represents_def r e)
  with ok' show ?thesis using r1 x by (simp add: holds_def r)
qed

lemma omit_step:
  assumes holds: "holds f evs om r0"
    and r1: "r1 = advance now (st_state r0) reason detail data r0" and reason: "reason \<noteq> []"
    and data: "first_failure (validate_data_update data) = None"
    and bump: "bump_counter history_omitted_key r1 = Inr r"
  shows "holds (Stored (record_dict (image_record r))) evs (Suc om) (image_record r) \<and>
    st_state r = st_state r0 \<and> st_revision r = st_revision r0 + 1"
proof -
  from holds have rep: "represents lc evs om r0" and ok: "log_ok lc evs" by (auto simp: holds_def)
  have counters: "payload_counter key (st_data r1) = payload_counter key (st_data r0)"
    if "key \<in> set internal_data_keys" for key
    using payload_update_counters [OF data that] by (simp add: r1 advance_def)
  have omit: "payload_counter history_omitted_key (st_data r1) = PInt (int om)"
    using rep by (simp add: counters represents_def)
  with bump have r: "r = r1\<lparr>st_data := AList.update history_omitted_key (PInt (int om + 1)) (st_data r1)\<rparr>"
    by (auto simp: bump_counter_def split: if_splits)
  have fields: "st_schema_version r1 = st_schema_version r0" "st_kind r1 = st_kind r0"
      "st_record_id r1 = st_record_id r0" "st_state r1 = st_state r0"
      "st_revision r1 = st_revision r0 + 1" "st_updated_at r1 = max (st_updated_at r0) now"
      "st_reason_code r1 = Some reason" "st_provenance r1 = st_provenance r0"
      "st_history r1 = st_history r0" "st_data r1 = payload_update (st_data r0) data"
    by (simp_all add: r1)
  have "represents lc evs (Suc om) r"
    using rep reason counters [of history_dropped_key] fields(1-9)
    by (auto simp: represents_def r fields(10) distinct_update payload_update_distinct)
  with ok show ?thesis by (simp add: holds_def r fields)
qed

lemma transition_step:
  assumes holds: "holds f evs om r0"
    and run: "transition lc busy now a b reason detail data n g f = (f', Inr r)"
  shows "holds f' (evs @ [\<lparr>he_state = st_state r, he_at = st_updated_at r, he_reason_code = reason\<rparr>]) om
      (image_record r) \<and> st_revision r = st_revision r0 + 1 \<and> (n = None \<or> n = Some (st_revision r0)) \<and>
    (\<exists>x y. st_state r0 = lc_value lc x \<and> st_state r = lc_value lc y \<and> y \<in> set (lc_transitions lc x))"
proof -
  from run obtain x y r1 commit where x: "enum_of lc a = Some x" "enum_of lc b = Some y"
      "y \<in> set (lc_transitions lc x)"
    and valid: "first_failure (validate_reason_detail reason @ validate_expected_revision n @
        validate_data_update data) = None"
    and cas: "cas_read lc busy (lc_value lc x) n f = Inr r1"
    and commit: "first_failure (validate_data_update commit @
        [(overlaps commit data, ValueErr ''commit-time data overlaps'')]) = None"
    and wr: "commit_record f (append_history
        ((advance now (lc_value lc y) reason detail data r1)\<lparr>st_data :=
           payload_update (payload_update (st_data r1) data) commit\<rparr>)
        \<lparr>he_state = lc_value lc y, he_at = max (st_updated_at r1) now, he_reason_code = reason\<rparr>) = (f', Inr r)"
    by (auto simp: transition_def Let_def split: option.splits if_splits sum.splits)
  from cas_read_Inr [OF cas] holds_load [OF holds] have r1: "r1 = r0" "st_state r0 = lc_value lc x"
      "n = None \<or> n = Some (st_revision r0)" by auto
  from commit_record_Inr [OF wr] have app: "append_history
        ((advance now (lc_value lc y) reason detail data r0)\<lparr>st_data :=
           payload_update (payload_update (st_data r0) data) commit\<rparr>)
        \<lparr>he_state = lc_value lc y, he_at = max (st_updated_at r0) now, he_reason_code = reason\<rparr> = Inr r"
    and f': "f' = Stored (record_dict (image_record r))" by (auto simp: r1(1))
  from valid have reason: "reason \<noteq> []" and data: "first_failure (validate_data_update data) = None"
    by (auto simp: validate_reason_detail_def split: if_splits)
  from commit have cdata: "first_failure (validate_data_update commit) = None"
    by simp
  have dist: "distinct (map fst (st_data r0))" using holds by (simp add: holds_def represents_def)
  have "holds (Stored (record_dict (image_record r))) (evs @ [\<lparr>he_state = lc_value lc y,
      he_at = max (st_updated_at r0) now, he_reason_code = reason\<rparr>]) om (image_record r) \<and>
    st_state r = lc_value lc y \<and> st_updated_at r = max (st_updated_at r0) now \<and>
    st_revision r = st_revision r0 + 1"
    by (rule append_step [OF holds _ _ _ _ _ _ _ _ _ _ r1(2) _ _ _ app, simplified])
      (use x reason in \<open>simp_all add: payload_update_distinct dist
        payload_update_counters [OF data] payload_update_counters [OF cdata]\<close>)
  with f' r1 x show ?thesis by auto
qed

lemma update_step:
  assumes holds: "holds f evs om r0"
    and run: "update lc busy now a reason detail data n h f = (f', Inr r)"
  shows "holds f' (evs @ op_event (OpUpdate busy now a reason detail data n h) r)
      (if h then om else Suc om) (image_record r) \<and>
    st_revision r = st_revision r0 + 1 \<and> (n = None \<or> n = Some (st_revision r0)) \<and>
    st_state r = st_state r0"
proof -
  from run obtain x r1 where x: "enum_of lc a = Some x"
    and valid: "first_failure (validate_reason_detail reason @ validate_expected_revision n @
        validate_data_update data) = None"
    and cas: "cas_read lc busy (lc_value lc x) n f = Inr r1"
    and wr: "commit_record f (if h then append_history (advance now (st_state r1) reason detail data r1)
        \<lparr>he_state = lc_value lc x,
          he_at = st_updated_at (advance now (st_state r1) reason detail data r1), he_reason_code = reason\<rparr>
        else bump_counter history_omitted_key (advance now (st_state r1) reason detail data r1)) = (f', Inr r)"
    by (auto simp: update_def Let_def split: option.splits sum.splits)
  from cas_read_Inr [OF cas] holds_load [OF holds] have r1: "r1 = r0" "st_state r0 = lc_value lc x"
      "n = None \<or> n = Some (st_revision r0)" by auto
  from valid have reason: "reason \<noteq> []" and data: "first_failure (validate_data_update data) = None"
    by (auto simp: validate_reason_detail_def split: if_splits)
  have dist: "distinct (map fst (st_data r0))" using holds by (simp add: holds_def represents_def)
  from commit_record_Inr [OF wr] have f': "f' = Stored (record_dict (image_record r))" by auto
  show ?thesis
  proof (cases h)
    case True
    with commit_record_Inr [OF wr]
    have app: "append_history (advance now (st_state r0) reason detail data r0)
        \<lparr>he_state = lc_value lc x, he_at = max (st_updated_at r0) now, he_reason_code = reason\<rparr> = Inr r"
      by (auto simp: r1(1))
    have "holds (Stored (record_dict (image_record r))) (evs @ [\<lparr>he_state = lc_value lc x,
        he_at = max (st_updated_at r0) now, he_reason_code = reason\<rparr>]) om (image_record r) \<and>
      st_state r = lc_value lc x \<and> st_updated_at r = max (st_updated_at r0) now \<and>
      st_revision r = st_revision r0 + 1"
      by (rule append_step [OF holds _ _ _ _ _ _ _ _ _ _ r1(2) _ _ _ app, simplified])
        (use r1 reason in \<open>simp_all add: payload_update_distinct dist
          payload_update_counters [OF data]\<close>)
    with True f' r1 show ?thesis by simp
  next
    case False
    with commit_record_Inr [OF wr]
    have "bump_counter history_omitted_key (advance now (st_state r0) reason detail data r0) = Inr r"
      by (auto simp: r1(1))
    from omit_step [OF holds refl reason data this] False f' r1 show ?thesis by simp
  qed
qed

lemma initialize_step:
  assumes run: "initialize lc busy now rid x p d f = (f', Inr r)" and now: "0 \<le> now"
  shows "st_load lc f = Inr None \<and>
    holds f' (op_event (OpInitialize busy now rid x p d) r) 0 (image_record r) \<and>
    st_revision r = 0 \<and> st_state r = lc_value lc (lc_initial lc)"
proof -
  from run obtain y where y: "enum_of lc x = Some y" "lc_value lc y = lc_value lc (lc_initial lc)"
      "rid \<noteq> []" "st_load lc f = Inr None"
    and valid: "first_failure (validate_data_update d) = None"
    and wr: "commit_record f (Inr
        \<lparr>st_schema_version = status_schema_version, st_kind = lc_kind lc, st_record_id = rid,
         st_state = lc_value lc y, st_revision = 0, st_updated_at = now, st_reason_code = None,
         st_detail = None, st_provenance = payload_update [] p, st_data = payload_update [] d,
         st_history = [\<lparr>he_state = lc_value lc y, he_at = now, he_reason_code = ''INIT''\<rparr>]\<rparr>) = (f', Inr r)"
    by (auto simp: initialize_def split: option.splits if_splits sum.splits)
  from commit_record_Inr [OF wr] have f': "f' = Stored (record_dict (image_record r))"
    and r: "r = \<lparr>st_schema_version = status_schema_version, st_kind = lc_kind lc, st_record_id = rid,
         st_state = lc_value lc y, st_revision = 0, st_updated_at = now, st_reason_code = None,
         st_detail = None, st_provenance = payload_update [] p, st_data = payload_update [] d,
         st_history = [\<lparr>he_state = lc_value lc y, he_at = now, he_reason_code = ''INIT''\<rparr>]\<rparr>"
    by auto
  have "represents lc (op_event (OpInitialize busy now rid x p d) r) 0 r"
    using y now
    by (auto simp: represents_def r history_window_def max_status_history_events_def
        payload_update_distinct payload_update_counters [OF valid] payload_counter_def [of _ "[]"])
  moreover have "log_ok lc (op_event (OpInitialize busy now rid x p d) r)"
    using y now by (auto simp: log_ok_def r log_states_def enum_value)
  ultimately show ?thesis using y f' by (simp add: holds_def r)
qed

lemma op_step:
  assumes holds: "holds f evs om r0" and run: "run_status_op lc op f = (f', Inr r)"
    and clock: "0 \<le> op_clock op"
  shows "holds f' (evs @ op_event op r) (if op_event op r = [] then Suc om else om) (image_record r) \<and>
    st_revision r = st_revision r0 + 1 \<and>
    (op_expected_revision op = None \<or> op_expected_revision op = Some (st_revision r0)) \<and>
    (st_state r = st_state r0 \<or>
      (\<exists>x y. st_state r0 = lc_value lc x \<and> st_state r = lc_value lc y \<and> y \<in> set (lc_transitions lc x)))"
proof (cases op)
  case (OpInitialize busy now rid x p d)
  with run clock holds_load [OF holds] show ?thesis by (auto dest!: initialize_step)
next
  case (OpTransition busy now x y reason detail d n g)
  with transition_step [OF holds, of busy now x y reason detail d n g f' r] run show ?thesis by simp
next
  case (OpUpdate busy now x reason detail d n h)
  with update_step [OF holds, of busy now x reason detail d n h f' r] run show ?thesis
    by (cases h) auto
qed

lemma reach_holds:
  "status_reach lc f evs om \<Longrightarrow> f = Missing \<and> evs = [] \<and> om = 0 \<or> (\<exists>r. holds f evs om r)"
proof (induction rule: status_reach.induct)
  case missing
  show ?case by simp
next
  case (success f evs om op f' r)
  from success.IH show ?case
  proof
    assume f: "f = Missing \<and> evs = [] \<and> om = 0"
    then obtain busy now rid x p d where op: "op = OpInitialize busy now rid x p d"
      using success.hyps(3)
      by (cases op) (auto simp: transition_def update_def cas_read_def st_load_def Let_def
          split: option.splits if_splits)
    with initialize_step [of busy now rid x p d f f' r] success.hyps(2,3) f show ?case by auto
  next
    assume "\<exists>r. holds f evs om r"
    then obtain r0 where "holds f evs om r0" ..
    from op_step [OF this success.hyps(3,2)] show ?case by blast
  qed
next
  case (failure f evs om op f' e)
  then show ?case using run_status_op_Inl by metis
qed

lemma run_loads:
  assumes "status_reach lc f evs om" "0 \<le> op_clock op" "run_status_op lc op f = (f', Inr r)"
  shows "st_load lc f' = Inr (Some (image_record r))"
proof -
  from reach_holds [OF assms(1)] show ?thesis
  proof
    assume f: "f = Missing \<and> evs = [] \<and> om = 0"
    then obtain busy now rid x p d where op: "op = OpInitialize busy now rid x p d"
      using assms(3)
      by (cases op) (auto simp: transition_def update_def cas_read_def st_load_def Let_def
          split: option.splits if_splits)
    with assms initialize_step [of busy now rid x p d f f' r] show ?thesis by (auto intro: holds_load)
  next
    assume "\<exists>r. holds f evs om r"
    then obtain r0 where "holds f evs om r0" ..
    from op_step [OF this assms(3,2)] show ?thesis by (auto intro: holds_load)
  qed
qed

text \<open>The stored revision passes each value once.\<close>

lemma no_winner_beyond:
  assumes "holds f evs om r0" "n < st_revision r0" "\<forall>op \<in> set ops. 0 \<le> op_clock op"
  shows "filter (wins n) (status_trace lc f ops) = []"
  using assms
proof (induction ops arbitrary: f evs om r0)
  case (Cons op ops)
  obtain f' res where run: "run_status_op lc op f = (f', res)" by fastforce
  show ?case
  proof (cases res)
    case (Inl e)
    with run have "f' = f" by (simp add: run_status_op_Inl)
    with Cons run Inl show ?thesis by (simp add: wins_def)
  next
    case (Inr r)
    from op_step [OF Cons.prems(1)] run Inr Cons.prems(3) have
      step: "holds f' (evs @ op_event op r) (if op_event op r = [] then Suc om else om) (image_record r)"
        "st_revision r = st_revision r0 + 1"
        "op_expected_revision op = None \<or> op_expected_revision op = Some (st_revision r0)" by auto
    from step(2) Cons.prems(2) have "n < st_revision (image_record r)" by (simp add: image_record_def)
    from Cons.IH [OF step(1) this] Cons.prems(2,3) step(3) run show ?thesis by (auto simp: wins_def)
  qed
qed simp

lemma one_winner:
  assumes "status_reach lc f evs om" "\<forall>op \<in> set ops. 0 \<le> op_clock op"
  shows "length (filter (wins n) (status_trace lc f ops)) \<le> 1"
  using assms
proof (induction ops arbitrary: f evs om)
  case (Cons op ops)
  obtain f' res where run: "run_status_op lc op f = (f', res)" by fastforce
  show ?case
  proof (cases res)
    case (Inl e)
    with run have "f' = f" by (simp add: run_status_op_Inl)
    with Cons run Inl show ?thesis by (simp add: wins_def)
  next
    case (Inr r)
    with Cons.prems run have reach: "status_reach lc f' (evs @ op_event op r)
        (if op_event op r = [] then Suc om else om)"
      using status_reach.success [OF Cons.prems(1)] by simp
    show ?thesis
    proof (cases "wins n (op, res)")
      case True
      from reach_holds [OF Cons.prems(1)] obtain r0 where r0: "holds f evs om r0"
      proof
        assume "f = Missing \<and> evs = [] \<and> om = 0"
        with run Inr True have False
          by (cases op) (auto simp: wins_def transition_def update_def cas_read_def st_load_def Let_def
              split: option.splits if_splits)
        then show ?thesis ..
      qed (use that in blast)
      from op_step [OF r0] run Inr Cons.prems(2) have
        step: "holds f' (evs @ op_event op r) (if op_event op r = [] then Suc om else om) (image_record r)"
          "st_revision r = st_revision r0 + 1"
          "op_expected_revision op = None \<or> op_expected_revision op = Some (st_revision r0)" by auto
      with True have "n < st_revision (image_record r)" by (auto simp: wins_def image_record_def)
      from no_winner_beyond [OF step(1) this] Cons.prems(2) run show ?thesis by simp
    next
      case False
      with Cons.IH [OF reach] Cons.prems(2) run show ?thesis by simp
    qed
  qed
qed simp

text \<open>A state with no successors is never left.\<close>

lemma terminal_kept:
  assumes "holds f evs om r0" "st_state r0 = lc_value lc x" "lc_transitions lc x = []"
    "\<forall>op \<in> set ops. 0 \<le> op_clock op"
  shows "\<exists>evs' om' r. holds (status_file lc f ops) evs' om' r \<and> st_state r = st_state r0 \<and>
    st_revision r0 \<le> st_revision r"
  using assms
proof (induction ops arbitrary: f evs om r0)
  case Nil
  then show ?case by auto
next
  case (Cons op ops)
  obtain f' res where run: "run_status_op lc op f = (f', res)" by fastforce
  show ?case
  proof (cases res)
    case (Inl e)
    with run have "f' = f" by (simp add: run_status_op_Inl)
    with Cons run show ?thesis by simp
  next
    case (Inr r)
    from op_step [OF Cons.prems(1)] run Inr Cons.prems(4) have
      step: "holds f' (evs @ op_event op r) (if op_event op r = [] then Suc om else om) (image_record r)"
        "st_revision r = st_revision r0 + 1"
        "st_state r = st_state r0 \<or> (\<exists>x y. st_state r0 = lc_value lc x \<and> st_state r = lc_value lc y \<and>
           y \<in> set (lc_transitions lc x))" by auto
    have "st_state r = st_state r0"
      using step(3) Cons.prems(2,3) enum_value by (metis empty_iff list.set(1) option.inject)
    then have "st_state (image_record r) = st_state r0" "st_revision (image_record r) = st_revision r0 + 1"
      using step(2) by (auto simp: image_record_def)
    with Cons.IH [OF step(1)] Cons.prems(2-4) run show ?thesis by fastforce
  qed
qed

end

subsection \<open>The two lifecycles\<close>

interpretation deployment_store: lifecycle_store deployment_lifecycle
proof
  show "enum_of deployment_lifecycle (lc_value deployment_lifecycle s) = Some s" for s
    by (cases s) (auto simp: enum_of_def deployment_lifecycle_def deployment_members_def)
  show "lc_value deployment_lifecycle s = v" if "enum_of deployment_lifecycle v = Some s" for v s
    using that
    by (auto simp: enum_of_def deployment_lifecycle_def deployment_members_def split: if_splits)
qed

interpretation run_store: lifecycle_store run_lifecycle
proof
  show "enum_of run_lifecycle (lc_value run_lifecycle s) = Some s" for s
    by (cases s) (auto simp: enum_of_def run_lifecycle_def run_members_def)
  show "lc_value run_lifecycle s = v" if "enum_of run_lifecycle v = Some s" for v s
    using that by (auto simp: enum_of_def run_lifecycle_def run_members_def split: if_splits)
qed

text \<open>The states a deployment must have passed before it is in a given forward state.\<close>

fun deployment_path :: "deployment_state \<Rightarrow> deployment_state list" where
  "deployment_path D_PLANNED = [D_PLANNED]"
| "deployment_path D_STAGING = [D_PLANNED, D_STAGING]"
| "deployment_path D_CLUSTER_STARTING = [D_PLANNED, D_STAGING, D_CLUSTER_STARTING]"
| "deployment_path D_DEPLOYING = [D_PLANNED, D_STAGING, D_CLUSTER_STARTING, D_DEPLOYING]"
| "deployment_path D_VALIDATING = [D_PLANNED, D_STAGING, D_CLUSTER_STARTING, D_DEPLOYING, D_VALIDATING]"
| "deployment_path D_READY =
     [D_PLANNED, D_STAGING, D_CLUSTER_STARTING, D_DEPLOYING, D_VALIDATING, D_READY]"
| "deployment_path D_DRAINING =
     [D_PLANNED, D_STAGING, D_CLUSTER_STARTING, D_DEPLOYING, D_VALIDATING, D_READY, D_DRAINING]"
| "deployment_path D_STOPPED =
     [D_PLANNED, D_STAGING, D_CLUSTER_STARTING, D_DEPLOYING, D_VALIDATING, D_READY, D_DRAINING, D_STOPPED]"
| "deployment_path D_FAILED = [D_PLANNED, D_FAILED]"
| "deployment_path D_CANCELLED = [D_PLANNED, D_CANCELLED]"

lemma deployment_path_last: "\<exists>xs. deployment_path s = xs @ [s]"
  by (cases s) auto

text \<open>One legal step extends the path of its source to the path of its target.\<close>

lemma deployment_path_step:
  assumes "legal_edge deployment_lifecycle (Some x) (Some y)" "subseq (deployment_path x) xs"
    "subseq [D_PLANNED] xs"
  shows "subseq (deployment_path y) (xs @ [y])"
proof (cases "y = x")
  case True
  with assms(2) show ?thesis by (auto intro: subseq_order.trans)
next
  case False
  with assms(1) have "y \<in> set (deployment_transitions x)"
    by (auto simp: legal_edge_def deployment_lifecycle_def)
  then consider "deployment_path y = deployment_path x @ [y]" | "x = D_READY" "y = D_VALIDATING"
    | "deployment_path y = [D_PLANNED, y]"
    by (cases x) (auto simp: deployment_transitions_def deployment_active_def)
  then show ?thesis
  proof cases
    case 1
    with assms(2) show ?thesis by (simp add: list_emb_append_mono)
  next
    case 2
    then have "subseq (deployment_path y) (deployment_path x)" by simp
    with assms(2) show ?thesis by (meson subseq_order.trans subseq_rev_drop_many subseq_order.refl)
  next
    case 3
    with assms(3) list_emb_append_mono [of "(=)" "[D_PLANNED]" xs "[y]" "[y]"] show ?thesis by simp
  qed
qed

lemma deployment_path_log:
  assumes "edges_legal deployment_lifecycle (map Some xs)" "xs \<noteq> []" "hd xs = D_PLANNED"
  shows "subseq (deployment_path (last xs)) xs \<and> subseq [D_PLANNED] xs"
  using assms
proof (induction xs rule: rev_induct)
  case (snoc y xs)
  show ?case
  proof (cases "xs = []")
    case True
    with snoc.prems show ?thesis by simp
  next
    case False
    with snoc.prems have "edges_legal deployment_lifecycle (map Some xs)"
        "legal_edge deployment_lifecycle (Some (last xs)) (Some y)" "hd xs = D_PLANNED"
      by (auto simp: edges_legal_append last_map)
    with snoc.IH False show ?thesis
      by (auto intro: deployment_path_step)
  qed
qed simp

section \<open>Properties\<close>

lemma reach_status_file:
  "status_reach lc f evs om \<Longrightarrow> list_all (\<lambda>op. 0 \<le> op_clock op) ops \<Longrightarrow>
     \<exists>evs' om'. status_reach lc (status_file lc f ops) evs' om'"
proof (induction ops arbitrary: f evs om)
  case (Cons op ops)
  obtain f' res where run: "run_status_op lc op f = (f', res)" by fastforce
  have "\<exists>evs' om'. status_reach lc f' evs' om'"
    using run Cons.prems status_reach.success [of lc f evs om op f'] status_reach.failure [of lc f evs om op f']
    by (cases res) auto
  with Cons run show ?case by auto
qed auto

definition sample_deployment_ops :: "status_op list" where
  "sample_deployment_ops =
     [OpInitialize False 10 ''d1'' ''PLANNED'' None (Some [(''note'', PTuple [PInt 1])]),
      OpTransition False 11 ''PLANNED'' ''STAGING'' ''GO'' None None (Some 0) None,
      OpTransition False 9 ''STAGING'' ''CLUSTER_STARTING'' ''GO'' None None (Some 1) None,
      OpUpdate False 12 ''CLUSTER_STARTING'' ''PROGRESS'' None (Some [(''ranks'', PInt 4)]) None False,
      OpTransition False 13 ''CLUSTER_STARTING'' ''DEPLOYING'' ''GO'' None None (Some 2) None,
      OpTransition False 14 ''CLUSTER_STARTING'' ''DEPLOYING'' ''GO'' None None (Some 3) None,
      OpTransition False 15 ''DEPLOYING'' ''VALIDATING'' ''GO'' None None None None,
      OpTransition False 16 ''VALIDATING'' ''READY'' ''GO'' None None None
        (Some (\<lambda>rev. Inr (Some [(''committed'', PInt rev)])))]"

lemma sample_deployment_clock: "list_all (\<lambda>op. 0 \<le> op_clock op) sample_deployment_ops"
  by (simp add: sample_deployment_ops_def)

text \<open>
  (C15) Durability of the deployment status: whatever calls came before, a call that is refused leaves
  the file untouched, and after a call that succeeds the strict loader accepts the new file and
  returns the record the call returned (its payloads as JSON reads them back). So no sequence of
  calls, with any data, clock steps or stale expectations, can make the record unreadable.
\<close>

theorem deployment_status_durable:
  assumes "status_reach deployment_lifecycle f evs om" and "0 \<le> op_clock op"
  shows "case run_status_op deployment_lifecycle op f of
      (f', Inl e) \<Rightarrow> f' = f
    | (f', Inr r) \<Rightarrow> st_load deployment_lifecycle f' = Inr (Some (image_record r))"
  using deployment_store.run_loads [OF assms] run_status_op_Inl
  by (auto split: prod.splits sum.splits)

theorem deployment_status_durable_witness:
  "\<exists>f' r. run_status_op deployment_lifecycle (hd sample_deployment_ops) Missing = (f', Inr r) \<and>
     st_load deployment_lifecycle f' = Inr (Some (image_record r)) \<and>
     st_data r = [(''note'', PTuple [PInt 1])] \<and> st_data (image_record r) = [(''note'', PList [PInt 1])]"
proof -
  let ?res = "run_status_op deployment_lifecycle (hd sample_deployment_ops) Missing"
  have "(case snd ?res of Inl e \<Rightarrow> False | Inr r \<Rightarrow> st_data r = [(''note'', PTuple [PInt 1])] \<and>
      st_data (image_record r) = [(''note'', PList [PInt 1])])"
    by code_simp
  then obtain r where r: "?res = (fst ?res, Inr r)" "st_data r = [(''note'', PTuple [PInt 1])]"
      "st_data (image_record r) = [(''note'', PList [PInt 1])]"
    by (cases ?res) (auto split: sum.splits)
  from deployment_status_durable [OF status_reach.missing, of "hd sample_deployment_ops"] r
  show ?thesis by (auto simp: sample_deployment_ops_def)
qed

text \<open>
  (C27) The bounded history is a faithful window of the unbounded log: the loaded record of a reachable
  file holds the first event and the newest ones up to 256 in all, its state is the state of the
  newest event, and the revision counts every recorded and every unrecorded update, with the number
  of dropped and omitted events kept in the accounting entries.
\<close>

theorem deployment_history_window:
  assumes "status_reach deployment_lifecycle f evs om" and "f \<noteq> Missing"
  shows "\<exists>r. st_load deployment_lifecycle f = Inr (Some r) \<and> st_history r = history_window evs \<and>
    length (st_history r) \<le> max_status_history_events \<and> st_state r = he_state (last evs) \<and>
    st_revision r + 1 = int (length evs + om) \<and> he_at (last evs) \<le> st_updated_at r \<and>
    payload_counter history_dropped_key (st_data r) =
      PInt (int (length evs - max_status_history_events)) \<and>
    payload_counter history_omitted_key (st_data r) = PInt (int om)"
proof -
  from deployment_store.reach_holds [OF assms(1)] assms(2) obtain r where
    r: "deployment_store.holds f evs om r" by auto
  then have "represents deployment_lifecycle evs om r" by (simp add: deployment_store.holds_def)
  with deployment_store.holds_load [OF r] show ?thesis
    by (auto simp: represents_def history_window_length)
qed

theorem deployment_history_window_witness:
  "\<exists>evs om r. status_reach deployment_lifecycle
      (status_file deployment_lifecycle Missing sample_deployment_ops) evs om \<and>
     st_load deployment_lifecycle (status_file deployment_lifecycle Missing sample_deployment_ops) = Inr (Some r) \<and>
     st_history r = history_window evs \<and> st_revision r = 6 \<and> length evs = 6 \<and> om = 1"
proof -
  let ?f = "status_file deployment_lifecycle Missing sample_deployment_ops"
  from reach_status_file [OF status_reach.missing sample_deployment_clock, of deployment_lifecycle]
  obtain evs om where reach: "status_reach deployment_lifecycle ?f evs om" by blast
  have eval: "(case st_load deployment_lifecycle ?f of Inr (Some r) \<Rightarrow> st_revision r = 6 \<and>
      payload_counter history_omitted_key (st_data r) = PInt 1 | _ \<Rightarrow> False)"
    by code_simp
  then have "?f \<noteq> Missing" by (auto simp: st_load_def)
  from deployment_history_window [OF reach this] eval reach show ?thesis by fastforce
qed

text \<open>
  (C16) Compare-and-set elects at most one writer per revision: among any sequence of calls issued
  after any reachable file, at most one that names revision \<open>n\<close> succeeds, however the state cycles in
  between (no ABA).
\<close>

theorem deployment_cas_single_winner:
  assumes "status_reach deployment_lifecycle f evs om" and "\<forall>op \<in> set ops. 0 \<le> op_clock op"
  shows "length (filter (wins n) (status_trace deployment_lifecycle f ops)) \<le> 1"
  using assms by (rule deployment_store.one_winner)

theorem deployment_cas_single_winner_witness:
  "length (filter (wins 3) (status_trace deployment_lifecycle Missing
      (sample_deployment_ops @ sample_deployment_ops))) = 1"
proof -
  have "wins 3 (status_trace deployment_lifecycle Missing sample_deployment_ops ! 5)"
    by code_simp
  moreover have "length (status_trace deployment_lifecycle Missing (sample_deployment_ops)) = 8"
    by code_simp
  ultimately have "\<exists>p \<in> set (status_trace deployment_lifecycle Missing sample_deployment_ops). wins 3 p"
    by (intro bexI [of _ "status_trace deployment_lifecycle Missing sample_deployment_ops ! 5"]) auto
  moreover have "set (status_trace lc f xs) \<subseteq> set (status_trace lc f (xs @ ys))" for lc f xs ys
    by (induction xs arbitrary: f) (auto split: prod.splits)
  ultimately have "filter (wins 3) (status_trace deployment_lifecycle Missing
      (sample_deployment_ops @ sample_deployment_ops)) \<noteq> []"
    unfolding filter_empty_conv by blast
  moreover have "\<forall>op \<in> set (sample_deployment_ops @ sample_deployment_ops). 0 \<le> op_clock op"
    using sample_deployment_clock by (simp add: list_all_iff)
  ultimately show ?thesis
    using deployment_cas_single_winner [OF status_reach.missing, of "sample_deployment_ops @ sample_deployment_ops" 3]
    by (simp add: le_Suc_eq)
qed

text \<open>
  READY cannot be fabricated: a reachable deployment record that is READY was published, in this
  order, as PLANNED, STAGING, CLUSTER_STARTING, DEPLOYING, VALIDATING and READY.
\<close>

lemma deployment_ready_path:
  assumes "status_reach deployment_lifecycle f evs om"
    and "st_load deployment_lifecycle f = Inr (Some r)" and "st_state r = ''READY''"
  shows "subseq [''PLANNED'', ''STAGING'', ''CLUSTER_STARTING'', ''DEPLOYING'', ''VALIDATING'', ''READY'']
    (map he_state evs)"
proof -
  from deployment_store.reach_holds [OF assms(1)] assms(2)
  have holds: "deployment_store.holds f evs om r"
    using deployment_store.holds_load by (fastforce simp: st_load_def)
  then have ok: "log_ok deployment_lifecycle evs" and state: "he_state (last evs) = ''READY''"
    using assms(3) by (auto simp: deployment_store.holds_def represents_def)
  from ok have evok: "events_ok deployment_lifecycle (- 1) evs" by (simp add: log_ok_def)
  define h where "h e = the (enum_of deployment_lifecycle (he_state e))" for e :: history_event
  have h: "enum_of deployment_lifecycle (he_state e) = Some (h e)" if "e \<in> set evs" for e
    using events_ok_states [OF evok that] by (simp add: h_def)
  have hv: "he_state e = deployment_value (h e)" if "e \<in> set evs" for e
    using deployment_store.value_enum [OF h [OF that]] by (simp add: deployment_lifecycle_def)
  have evs: "evs \<noteq> []" using ok by (simp add: log_ok_def)
  let ?xs = "map h evs"
  have "edges_legal deployment_lifecycle (map Some ?xs)"
    using ok h by (simp add: log_ok_def log_states_def comp_def cong: map_cong)
  moreover have "hd ?xs = D_PLANNED"
    using ok evs hv [of "hd evs"] deployment_store.enum_value [of "h (hd evs)"]
      deployment_store.enum_value [of D_PLANNED]
    by (auto simp: log_ok_def hd_map deployment_lifecycle_def)
  ultimately have "subseq (deployment_path (last ?xs)) ?xs"
    using evs deployment_path_log by blast
  moreover have "last ?xs = D_READY"
    using evs state hv [of "last evs"] deployment_store.enum_value [of "h (last evs)"]
      deployment_store.enum_value [of D_READY]
    by (auto simp: last_map deployment_lifecycle_def)
  ultimately have "subseq (map deployment_value (deployment_path D_READY)) (map deployment_value ?xs)"
    by (metis subseq_map)
  moreover have "map deployment_value ?xs = map he_state evs"
    using hv by simp
  ultimately show ?thesis by (simp del: map_map)
qed

text \<open>
  A finished run is final: once the loaded record of a run is SUCCEEDED, PARTIAL, FAILED,
  CANCELLED or INVALID, every later sequence of calls leaves a loadable record in the same state.
\<close>

lemma run_terminal_absorbing:
  assumes "status_reach run_lifecycle f evs om" and "st_load run_lifecycle f = Inr (Some r)"
    and "st_state r \<in> {''SUCCEEDED'', ''PARTIAL'', ''FAILED'', ''CANCELLED'', ''INVALID''}"
    and "\<forall>op \<in> set ops. 0 \<le> op_clock op"
  shows "\<exists>r'. st_load run_lifecycle (status_file run_lifecycle f ops) = Inr (Some r') \<and>
    st_state r' = st_state r \<and> st_revision r \<le> st_revision r'"
proof -
  from run_store.reach_holds [OF assms(1)] assms(2) have holds: "run_store.holds f evs om r"
    using run_store.holds_load by (fastforce simp: st_load_def)
  from assms(3) obtain x where "st_state r = lc_value run_lifecycle x" "lc_transitions run_lifecycle x = []"
    by (auto simp: run_lifecycle_def intro: that [of R_SUCCEEDED] that [of R_PARTIAL]
        that [of R_FAILED] that [of R_CANCELLED] that [of R_INVALID])
  from run_store.terminal_kept [OF holds this assms(4)] show ?thesis
    using run_store.holds_load by blast
qed

end
