(* ===== verification/Plan_Contracts.thy ===== *)
theory Plan_Contracts
  imports Plan_Binding
begin

text \<open>
  The deployment contract of \<^verbatim>\<open>src/exaserve/plan/contracts.py\<close>: the nested plan records (gateway,
  exposure, readiness limits, scale envelope, receipt slots, replicas, models, runtime policy), the
  derivation of the receipt slots from a topology, and \<^verbatim>\<open>DeploymentPlan\<close> with the checks of its
  validating constructor and its queries.

  Every \<^verbatim>\<open>__post_init__\<close> is a validation chain, in the order of the source, of (condition, error)
  pairs; a plan record satisfies its \<open>..._ok\<close> predicate exactly if the constructor returns. The
  type checks of the source are the types of the fields.
\<close>

section \<open>Values and names\<close>

definition is_abs_path :: "string \<Rightarrow> bool" where
  "is_abs_path s = starts_with s ''/''"

text \<open>\<^verbatim>\<open>PurePath(value).parts\<close> holds a \<^verbatim>\<open>..\<close> exactly if a slash-separated segment is one.\<close>

definition require_absolute_path :: "string \<Rightarrow> string \<Rightarrow> (bool \<times> plan_error) list" where
  "require_absolute_path v path =
     [(\<not> is_abs_path v, PlanError path),
      (''..'' \<in> set (split_on (CHR ''/'') v), PlanError path)]"

definition is_alnum :: "char \<Rightarrow> bool" where
  "is_alnum c = (let n = (of_char c :: nat) in
     is_digit_char c \<or> (65 \<le> n \<and> n \<le> 90) \<or> (97 \<le> n \<and> n \<le> 122))"

text \<open>The pattern \<^verbatim>\<open>[A-Za-z0-9][A-Za-z0-9._-]*\<close> of a model-id segment.\<close>

definition model_id_segment :: "string \<Rightarrow> bool" where
  "model_id_segment s =
     (case s of [] \<Rightarrow> False
      | c # cs \<Rightarrow> is_alnum c \<and> list_all (\<lambda>x. is_alnum x \<or> x \<in> set ''._-'') cs)"

definition require_model_id :: "string \<Rightarrow> string \<Rightarrow> (bool \<times> plan_error) list" where
  "require_model_id v path =
     [(v = [] \<or> 512 < length v, PlanError path),
      (CHR 0x00 \<in> set v \<or> CHR 0x5C \<in> set v \<or> starts_with v ''~'' \<or> is_abs_path v \<or> has_sub v ''://'',
        PlanError path),
      (list_ex (\<lambda>s. s \<in> {[], ''.'', ''..''} \<or> \<not> model_id_segment s) (split_on (CHR ''/'') v),
        PlanError path)]"

text \<open>
  \<^verbatim>\<open>deep_freeze\<close>: which JSON-family values it accepts, and the immutable copy it returns (mappings
  become tuples of pairs sorted by key).
\<close>

fun freezable :: "pyval \<Rightarrow> bool" where
  "freezable (PFloat x) = (case x of Finite r \<Rightarrow> True | _ \<Rightarrow> False)"
| "freezable (PDict d) = list_all (\<lambda>(k, v). as_str k \<noteq> None \<and> freezable v) d"
| "freezable (PList xs) = list_all freezable xs"
| "freezable (PTuple xs) = list_all freezable xs"
| "freezable (PObj c) = False"
| "freezable v = True"

definition key_text :: "pyval \<Rightarrow> string" where
  "key_text k = (case as_str k of None \<Rightarrow> [] | Some s \<Rightarrow> s)"

fun deep_freeze :: "pyval \<Rightarrow> pyval" where
  "deep_freeze (PDict d) =
     PTuple (map (\<lambda>(k, v). PTuple [k, v])
       (sort_key (\<lambda>(k, v). key_text k) (map (\<lambda>(k, v). (k, deep_freeze v)) d)))"
| "deep_freeze (PList xs) = PTuple (map deep_freeze xs)"
| "deep_freeze (PTuple xs) = PTuple (map deep_freeze xs)"
| "deep_freeze v = v"

definition freeze_mapping_checks :: "(string \<times> pyval) list \<Rightarrow> string \<Rightarrow> (bool \<times> plan_error) list" where
  "freeze_mapping_checks items path =
     [(\<not> distinct (map fst items), PlanError path),
      (\<not> list_all (\<lambda>(k, v). freezable v) items, PlanError path)]"

definition freeze_mapping :: "(string \<times> pyval) list \<Rightarrow> (string \<times> pyval) list" where
  "freeze_mapping items = sort_key fst (map (\<lambda>(k, v). (k, deep_freeze v)) items)"

definition port_ok :: "int \<Rightarrow> bool" where
  "port_ok p = (1 \<le> p \<and> p \<le> 65535)"

section \<open>Gateway, exposure and limits\<close>

datatype gateway_kind = HAPROXY | LITELLM | NGINX | ENVOY | PINGORA

fun gateway_kind_value :: "gateway_kind \<Rightarrow> string" where
  "gateway_kind_value HAPROXY = ''haproxy''"
| "gateway_kind_value LITELLM = ''litellm''"
| "gateway_kind_value NGINX = ''nginx''"
| "gateway_kind_value ENVOY = ''envoy''"
| "gateway_kind_value PINGORA = ''pingora''"

definition gateway_kinds :: "string list" where
  "gateway_kinds = map gateway_kind_value [HAPROXY, LITELLM, NGINX, ENVOY, PINGORA]"

datatype exposure_mode = PROXIED_INTERNAL | DIRECT_VALIDATION | RAY_SERVE_HEAD_ONLY

fun exposure_mode_value :: "exposure_mode \<Rightarrow> string" where
  "exposure_mode_value PROXIED_INTERNAL = ''PROXIED_INTERNAL''"
| "exposure_mode_value DIRECT_VALIDATION = ''DIRECT_VALIDATION''"
| "exposure_mode_value RAY_SERVE_HEAD_ONLY = ''RAY_SERVE_HEAD_ONLY''"

definition exposure_modes :: "string list" where
  "exposure_modes =
     map exposure_mode_value [PROXIED_INTERNAL, DIRECT_VALIDATION, RAY_SERVE_HEAD_ONLY]"

record gateway_plan =
  gw_kind :: string
  gw_port :: int
  gw_backend_port :: int
  gw_executable_ref :: string
  gw_worker_count :: int
  gw_options :: "(string \<times> pyval) list"

definition safe_executable :: "string \<Rightarrow> bool" where
  "safe_executable s = (s \<noteq> [] \<and> list_all (\<lambda>c. is_alnum c \<or> c \<in> set ''_.+-'') s)"

definition gateway_plan_checks :: "gateway_plan \<Rightarrow> (bool \<times> plan_error) list" where
  "gateway_plan_checks g =
     [(gw_kind g \<notin> set gateway_kinds, PlanError ''gateway.kind''),
      (\<not> port_ok (gw_port g), PlanError ''gateway.port''),
      (\<not> port_ok (gw_backend_port g), PlanError ''gateway.backend_port''),
      (gw_worker_count g < 1, PlanError ''gateway.worker_count''),
      (gw_executable_ref g = [], PlanError ''gateway.executable_ref''),
      (if starts_with (gw_executable_ref g) ''PATH:''
       then \<not> safe_executable (drop 5 (gw_executable_ref g))
       else \<not> is_abs_path (gw_executable_ref g), PlanError ''gateway.executable_ref'')] @
     freeze_mapping_checks (gw_options g) ''gateway.options''"

text \<open>The constructor also replaces the options by their frozen copy.\<close>

definition new_gateway_plan :: "gateway_plan \<Rightarrow> plan_error + gateway_plan" where
  "new_gateway_plan g =
     checked (gateway_plan_checks g) (g\<lparr>gw_options := freeze_mapping (gw_options g)\<rparr>)"

record exposure_plan =
  ex_mode :: string
  ex_advertised_scheme :: string
  ex_advertised_path :: string
  ex_network_boundary :: string
  ex_auth_policy_ref :: "string option"
  ex_request_body_limit_bytes :: "int option"
  ex_serve_port :: int

definition exposure_plan_checks :: "exposure_plan \<Rightarrow> (bool \<times> plan_error) list" where
  "exposure_plan_checks e =
     [(ex_mode e = [], PlanError ''exposure.mode''),
      (ex_advertised_scheme e = [], PlanError ''exposure.advertised_scheme''),
      (ex_advertised_path e = [], PlanError ''exposure.advertised_path''),
      (ex_network_boundary e = [], PlanError ''exposure.network_boundary''),
      (ex_auth_policy_ref e \<noteq> None, PlanError ''exposure.auth_policy_ref''),
      (ex_mode e \<notin> set exposure_modes, PlanError ''exposure.mode''),
      (ex_advertised_scheme e \<noteq> ''http'', PlanError ''exposure.advertised_scheme''),
      (ex_advertised_path e \<noteq> ''/v1'', PlanError ''exposure.advertised_path''),
      (ex_network_boundary e \<noteq> ''trusted_allocation'', PlanError ''exposure.network_boundary''),
      (\<not> port_ok (ex_serve_port e), PlanError ''exposure.serve_port''),
      (case ex_request_body_limit_bytes e of None \<Rightarrow> False | Some n \<Rightarrow> n < 1 \<or> 1099511627776 < n,
        PlanError ''exposure.request_body_limit_bytes'')]"

record readiness_limits =
  rl_initial_deadline_s :: real
  rl_recovery_deadline_s :: real
  rl_validation_interval_s :: real
  rl_observation_freshness_s :: real
  rl_gateway_start_deadline_s :: real
  rl_canary_timeout_s :: real
  rl_serve_start_proxy_timeout_s :: real
  rl_serve_proxy_health_check_timeout_s :: real
  rl_serve_proxy_ready_check_timeout_s :: real
  rl_serve_replica_health_check_period_s :: real
  rl_serve_replica_health_check_timeout_s :: real
  rl_allow_excess_resources :: bool
  rl_evidence_backed :: bool

definition default_readiness_limits :: readiness_limits where
  "default_readiness_limits =
     \<lparr>rl_initial_deadline_s = 3600, rl_recovery_deadline_s = 60, rl_validation_interval_s = 5,
      rl_observation_freshness_s = 30, rl_gateway_start_deadline_s = 30, rl_canary_timeout_s = 60,
      rl_serve_start_proxy_timeout_s = 3600, rl_serve_proxy_health_check_timeout_s = 3600,
      rl_serve_proxy_ready_check_timeout_s = 60, rl_serve_replica_health_check_period_s = 30,
      rl_serve_replica_health_check_timeout_s = 120, rl_allow_excess_resources = True,
      rl_evidence_backed = False\<rparr>"

definition readiness_limits_checks :: "readiness_limits \<Rightarrow> (bool \<times> plan_error) list" where
  "readiness_limits_checks r =
     [(rl_initial_deadline_s r \<le> 0, PlanError ''readiness.initial_deadline_s''),
      (rl_recovery_deadline_s r \<le> 0, PlanError ''readiness.recovery_deadline_s''),
      (rl_validation_interval_s r \<le> 0, PlanError ''readiness.validation_interval_s''),
      (rl_observation_freshness_s r \<le> 0, PlanError ''readiness.observation_freshness_s''),
      (rl_gateway_start_deadline_s r \<le> 0, PlanError ''readiness.gateway_start_deadline_s''),
      (rl_canary_timeout_s r \<le> 0, PlanError ''readiness.canary_timeout_s''),
      (rl_serve_start_proxy_timeout_s r \<le> 0, PlanError ''readiness.serve_start_proxy_timeout_s''),
      (rl_serve_proxy_health_check_timeout_s r \<le> 0,
        PlanError ''readiness.serve_proxy_health_check_timeout_s''),
      (rl_serve_proxy_ready_check_timeout_s r \<le> 0,
        PlanError ''readiness.serve_proxy_ready_check_timeout_s''),
      (rl_serve_replica_health_check_period_s r \<le> 0,
        PlanError ''readiness.serve_replica_health_check_period_s''),
      (rl_serve_replica_health_check_timeout_s r \<le> 0,
        PlanError ''readiness.serve_replica_health_check_timeout_s''),
      (rl_observation_freshness_s r < 3 * rl_validation_interval_s r,
        PlanError ''readiness.observation_freshness_s''),
      (rl_serve_proxy_health_check_timeout_s r < rl_initial_deadline_s r,
        PlanError ''readiness.serve_proxy_health_check_timeout_s'')]"

section \<open>Scale envelope\<close>

record scale_envelope =
  se_schema_version :: int
  se_envelope_id :: string
  se_site_id :: string
  se_scheduler_type :: string
  se_vendor :: string
  se_accelerator :: string
  se_engine :: string
  se_compatibility_profile_ref :: string
  se_gateway_kind :: "string option"
  se_exposure_mode :: string
  se_request_mode :: string
  se_streaming_mode :: string
  se_min_nodes :: int
  se_supported_max_nodes :: int
  se_qualification_target_nodes :: int
  se_qualification_target_approved :: bool
  se_max_replicas_per_model :: int
  se_max_total_replicas :: int
  se_max_models :: int
  se_validation_tier :: string
  se_validation_mode :: bool
  se_evidence_refs :: "string list"

definition gateway_free_modes :: "string list" where
  "gateway_free_modes = map exposure_mode_value [DIRECT_VALIDATION, RAY_SERVE_HEAD_ONLY]"

text \<open>The rule that couples gateway, exposure and validation mode, shared by envelope and plan.\<close>

definition gateway_exposure_checks ::
    "string \<Rightarrow> string option \<Rightarrow> string \<Rightarrow> bool \<Rightarrow> (bool \<times> plan_error) list" where
  "gateway_exposure_checks path kind mode validation =
     (case kind of
        None \<Rightarrow> [(mode \<notin> set gateway_free_modes, PlanError path), (\<not> validation, PlanError path)]
      | Some k \<Rightarrow>
          [(mode \<noteq> exposure_mode_value PROXIED_INTERNAL, PlanError path),
           (\<not> validation \<and> k \<noteq> gateway_kind_value HAPROXY, PlanError path)])"

definition scale_envelope_checks :: "scale_envelope \<Rightarrow> (bool \<times> plan_error) list" where
  "scale_envelope_checks e =
     require_schema_version (se_schema_version e) ''scale_envelope.schema_version'' @
     [(list_ex (\<lambda>r. r = []) (se_evidence_refs e), PlanError ''scale_envelope.evidence_refs''),
      (list_ex (\<lambda>t. t = [])
         [se_envelope_id e, se_site_id e, se_scheduler_type e, se_vendor e, se_accelerator e,
          se_engine e, se_compatibility_profile_ref e, se_exposure_mode e, se_request_mode e,
          se_streaming_mode e, se_validation_tier e], PlanError ''scale_envelope text''),
      (se_exposure_mode e \<notin> set exposure_modes, PlanError ''scale_envelope.exposure_mode''),
      (case se_gateway_kind e of None \<Rightarrow> False | Some k \<Rightarrow> k \<notin> set gateway_kinds,
        PlanError ''scale_envelope.gateway_kind'')] @
     gateway_exposure_checks ''scale_envelope'' (se_gateway_kind e) (se_exposure_mode e)
       (se_validation_mode e) @
     [(list_ex (\<lambda>n. n < 1)
         [se_min_nodes e, se_supported_max_nodes e, se_qualification_target_nodes e,
          se_max_replicas_per_model e, se_max_total_replicas e, se_max_models e],
        PlanError ''scale_envelope counts''),
      (se_supported_max_nodes e < se_min_nodes e, PlanError ''scale_envelope.supported_max_nodes''),
      (se_qualification_target_nodes e < se_supported_max_nodes e,
        PlanError ''scale_envelope.qualification_target_nodes''),
      (se_max_total_replicas e < se_max_replicas_per_model e,
        PlanError ''scale_envelope.max_total_replicas'')]"

definition check_nodes :: "scale_envelope \<Rightarrow> int \<Rightarrow> (bool \<times> plan_error) list" where
  "check_nodes e n =
     [(n < se_min_nodes e, PlanError ''below envelope minimum''),
      (se_qualification_target_nodes e < n, PlanError ''exceeds candidate qualification target''),
      (se_supported_max_nodes e < n \<and> \<not> se_validation_mode e,
        PlanError ''exceeds evidence-backed supported maximum'')]"

section \<open>Receipt slots, replicas and models\<close>

record receipt_requirement =
  rq_id :: string
  rq_role :: string
  rq_component_slot :: string
  rq_owner_scope :: string
  rq_planned_rank :: "int option"
  rq_placement :: string
  rq_attestation_type :: string

definition receipt_requirement_checks :: "receipt_requirement \<Rightarrow> (bool \<times> plan_error) list" where
  "receipt_requirement_checks q =
     [(rq_id q = [], PlanError ''receipt.receipt_requirement_id''),
      (rq_role q = [], PlanError ''receipt.role''),
      (rq_component_slot q = [], PlanError ''receipt.component_slot''),
      (rq_owner_scope q = [], PlanError ''receipt.owner_scope''),
      (rq_attestation_type q = [], PlanError ''receipt.attestation_type''),
      (rq_owner_scope q \<notin> {''GLOBAL'', ''RANK''}, PlanError ''receipt owner_scope''),
      (rq_owner_scope q = ''RANK'' \<and> rq_planned_rank q = None, PlanError ''RANK needs planned_rank''),
      (rq_owner_scope q = ''GLOBAL'' \<and> rq_planned_rank q \<noteq> None, PlanError ''GLOBAL must not pin a rank''),
      (case rq_planned_rank q of None \<Rightarrow> False | Some r \<Rightarrow> r < 0, PlanError ''planned_rank''),
      (rq_attestation_type q \<notin> {''SELF'', ''SUPERVISOR''}, PlanError ''attestation_type''),
      (rq_attestation_type q = ''SUPERVISOR'' \<and> rq_owner_scope q \<noteq> ''GLOBAL'',
        PlanError ''SUPERVISOR attestation must be GLOBAL'')]"

record replica_plan =
  rp_replica_id :: string
  rp_replica_index :: int
  rp_planned_ranks :: "int list"
  rp_planned_device_ids :: "int list list"
  rp_tensor_parallel_size :: int
  rp_pipeline_parallel_size :: int
  rp_gpu_demand :: int
  rp_cpu_demand :: int

definition replica_plan_checks :: "replica_plan \<Rightarrow> (bool \<times> plan_error) list" where
  "replica_plan_checks r =
     [(rp_replica_id r = [], PlanError ''replica.replica_id''),
      (rp_replica_index r < 0, PlanError ''replica.replica_index''),
      (rp_tensor_parallel_size r < 1, PlanError ''replica.tensor_parallel_size''),
      (rp_pipeline_parallel_size r < 1, PlanError ''replica.pipeline_parallel_size''),
      (rp_gpu_demand r < 1, PlanError ''replica.gpu_demand''),
      (rp_cpu_demand r < 0, PlanError ''replica.cpu_demand''),
      (list_ex (\<lambda>k. k < 0) (rp_planned_ranks r), PlanError ''replica.planned_ranks''),
      (list_ex (list_ex (\<lambda>d. d < 0)) (rp_planned_device_ids r), PlanError ''replica.planned_device_ids''),
      (rp_planned_ranks r = [] \<or> \<not> distinct (rp_planned_ranks r), PlanError ''replica.planned_ranks''),
      (int (length (rp_planned_ranks r)) \<noteq> rp_pipeline_parallel_size r,
        PlanError ''rank count must equal pipeline_parallel_size''),
      (length (rp_planned_device_ids r) \<noteq> length (rp_planned_ranks r),
        PlanError ''device groups must align with planned ranks''),
      (list_ex (\<lambda>g. int (length g) \<noteq> rp_tensor_parallel_size r \<or> \<not> distinct g) (rp_planned_device_ids r),
        PlanError ''every stage needs tensor_parallel_size unique device ids''),
      (rp_gpu_demand r \<noteq> rp_tensor_parallel_size r * rp_pipeline_parallel_size r,
        PlanError ''gpu_demand does not equal TP*PP'')]"

record model_plan =
  mp_model_id :: string
  mp_storage_name :: string
  mp_route_name :: string
  mp_tensor_parallel_size :: int
  mp_pipeline_parallel_size :: int
  mp_max_model_len :: int
  mp_size_b :: int
  mp_gpu_memory_utilization :: real
  mp_enforce_eager :: bool
  mp_enable_log_requests :: bool
  mp_max_num_seqs :: "int option"
  mp_num_cpus_per_replica :: int
  mp_num_replicas :: int
  mp_replicas :: "replica_plan list"

text \<open>\<^verbatim>\<open>model_id.replace("/", "--")\<close>.\<close>

definition storage_name :: "string \<Rightarrow> string" where
  "storage_name model_id = concat (map (\<lambda>c. if c = CHR ''/'' then ''--'' else [c]) model_id)"

definition model_plan_checks :: "model_plan \<Rightarrow> (bool \<times> plan_error) list" where
  "model_plan_checks m =
     require_model_id (mp_model_id m) ''model.model_id'' @
     [(mp_model_id m = [] \<or> mp_storage_name m = [] \<or> mp_route_name m = [],
        PlanError ''model identity fields''),
      (mp_storage_name m \<noteq> storage_name (mp_model_id m), PlanError ''model.storage_name''),
      (mp_tensor_parallel_size m < 1, PlanError ''model.tensor_parallel_size''),
      (mp_pipeline_parallel_size m < 1, PlanError ''model.pipeline_parallel_size''),
      (mp_max_model_len m < 1, PlanError ''model.max_model_len''),
      (mp_size_b m < 1, PlanError ''model.size_b''),
      (mp_num_cpus_per_replica m < 1, PlanError ''model.num_cpus_per_replica''),
      (mp_num_replicas m < 1, PlanError ''model.num_replicas''),
      (case mp_max_num_seqs m of None \<Rightarrow> False | Some n \<Rightarrow> n < 1, PlanError ''model.max_num_seqs''),
      (\<not> (0 < mp_gpu_memory_utilization m \<and> mp_gpu_memory_utilization m \<le> 1),
        PlanError ''model.gpu_memory_utilization''),
      (int (length (mp_replicas m)) \<noteq> mp_num_replicas m, PlanError ''model.num_replicas'')]"

record runtime_policy =
  rt_null_compute :: bool
  rt_null_compute_latency_s :: real
  rt_instrumentation :: bool
  rt_pp_shard_aware :: bool
  rt_clean_stage :: bool
  rt_stats_retention :: int
  rt_stats_push_period_s :: real
  rt_stats_sample_cap :: int

definition default_runtime_policy :: runtime_policy where
  "default_runtime_policy =
     \<lparr>rt_null_compute = False, rt_null_compute_latency_s = 1, rt_instrumentation = False,
      rt_pp_shard_aware = False, rt_clean_stage = False, rt_stats_retention = 2000,
      rt_stats_push_period_s = 10, rt_stats_sample_cap = 1500\<rparr>"

definition runtime_policy_checks :: "runtime_policy \<Rightarrow> (bool \<times> plan_error) list" where
  "runtime_policy_checks r =
     [(rt_null_compute_latency_s r < 0, PlanError ''runtime.null_compute_latency_s''),
      (\<not> (1 \<le> rt_stats_retention r \<and> rt_stats_retention r \<le> 10000), PlanError ''runtime.stats_retention''),
      (\<not> (1 \<le> rt_stats_sample_cap r \<and> rt_stats_sample_cap r \<le> 10000), PlanError ''runtime.stats_sample_cap''),
      (rt_stats_push_period_s r \<le> 0, PlanError ''runtime.stats_push_period_s'')]"

section \<open>The receipt slots of a topology\<close>

definition global_requirement :: "string \<Rightarrow> string \<Rightarrow> string \<Rightarrow> string \<Rightarrow> receipt_requirement" where
  "global_requirement rid role slot att =
     \<lparr>rq_id = rid, rq_role = role, rq_component_slot = slot, rq_owner_scope = ''GLOBAL'',
      rq_planned_rank = None, rq_placement = [], rq_attestation_type = att\<rparr>"

definition rank_requirement ::
    "string \<Rightarrow> string \<Rightarrow> string \<Rightarrow> int \<Rightarrow> string \<Rightarrow> receipt_requirement" where
  "rank_requirement rid role slot rank placement =
     \<lparr>rq_id = rid, rq_role = role, rq_component_slot = slot, rq_owner_scope = ''RANK'',
      rq_planned_rank = Some rank, rq_placement = placement, rq_attestation_type = ''SELF''\<rparr>"

definition rank_text :: "int \<Rightarrow> string" where
  "rank_text r = ''rank:'' @ show_int r"

definition rank_requirements :: "int \<Rightarrow> receipt_requirement list" where
  "rank_requirements r =
     (let role = (if r = 0 then ''ray_head'' else ''ray_worker'') in
      [rank_requirement (''rank'' @ show_int r @ ''/'' @ role) role ''ray'' r (rank_text r),
       rank_requirement (''rank'' @ show_int r @ ''/node_supervisor'') ''node_supervisor''
         ''node_supervisor'' r (rank_text r)])"

definition replica_base :: "string \<Rightarrow> int \<Rightarrow> string" where
  "replica_base route k = ''model/'' @ route @ ''/replica/'' @ show_int k"

definition worker_suffix :: "nat \<Rightarrow> int \<Rightarrow> string" where
  "worker_suffix stage device =
     ''/engine/worker/stage'' @ show_nat stage @ ''/device'' @ show_int device"

definition worker_requirements :: "string \<Rightarrow> replica_plan \<Rightarrow> receipt_requirement list" where
  "worker_requirements base p =
     concat (map (\<lambda>(stage, rank, devices). map (\<lambda>d.
         rank_requirement (base @ worker_suffix stage d) ''engine_worker''
           (rp_replica_id p @ worker_suffix stage d) rank (rank_text rank @ ''/device:'' @ show_int d))
         devices)
       (zip [0..<length (rp_planned_ranks p)] (zip (rp_planned_ranks p) (rp_planned_device_ids p))))"

definition replica_requirements :: "bool \<Rightarrow> model_plan \<Rightarrow> replica_plan \<Rightarrow> receipt_requirement list" where
  "replica_requirements include_engine m p =
     (let owner = hd (rp_planned_ranks p);
          base = replica_base (mp_route_name m) (rp_replica_index p)
      in rank_requirement base ''replica'' (rp_replica_id p) owner (rank_text owner) #
         (if \<not> include_engine then []
          else rank_requirement (base @ ''/engine/core'') ''engine_core'' (rp_replica_id p @ ''/engine/core'')
                 owner (rank_text owner) #
               (if sum_list (map length (rp_planned_device_ids p)) \<le> 1 then []
                else worker_requirements base p)))"

definition build_receipt_requirements ::
    "int \<Rightarrow> model_plan list \<Rightarrow> gateway_plan option \<Rightarrow> bool \<Rightarrow> receipt_requirement list" where
  "build_receipt_requirements num_nodes models gateway include_engine =
     [global_requirement ''global/supervisor'' ''supervisor'' ''supervisor'' ''SELF''] @
     (case gateway of
        None \<Rightarrow> []
      | Some g \<Rightarrow> [global_requirement (''global/gateway/'' @ gw_kind g) ''gateway''
                     (''gateway/'' @ gw_kind g) ''SUPERVISOR'']) @
     concat (map rank_requirements (int_range (nat num_nodes))) @
     concat (map (\<lambda>m. concat (map (replica_requirements include_engine m) (mp_replicas m))) models)"

section \<open>The deployment plan\<close>

record deployment_plan =
  dp_schema_version :: int
  dp_deployment_id :: string
  dp_site_profile_id :: string
  dp_site_profile_hash :: string
  dp_compatibility_profile_hash :: string
  dp_manifest_hash :: string
  dp_scale_envelope :: scale_envelope
  dp_num_nodes :: int
  dp_num_gpus_per_node :: int
  dp_node_cpus :: int
  dp_ray_port :: int
  dp_vendor :: string
  dp_engine :: string
  dp_model_storage_path :: string
  dp_local_stage_path :: string
  dp_deployment_name :: string
  dp_replica_max_ongoing_requests :: int
  dp_collect_stats :: bool
  dp_models :: "model_plan list"
  dp_exposure :: exposure_plan
  dp_gateway :: "gateway_plan option"
  dp_receipt_requirements :: "receipt_requirement list"
  dp_control :: control_limits
  dp_readiness :: readiness_limits
  dp_runtime :: runtime_policy
  dp_validation_mode :: bool
  dp_deployment_plan_hash :: string

subsection \<open>Queries\<close>

definition requirement_keys :: "deployment_plan \<Rightarrow> string set" where
  "requirement_keys d = set (map rq_id (dp_receipt_requirements d))"

definition requirements_for_rank :: "deployment_plan \<Rightarrow> int \<Rightarrow> receipt_requirement list" where
  "requirements_for_rank d r =
     filter (\<lambda>q. rq_owner_scope q = ''RANK'' \<and> rq_planned_rank q = Some r) (dp_receipt_requirements d)"

definition global_requirements :: "deployment_plan \<Rightarrow> receipt_requirement list" where
  "global_requirements d = filter (\<lambda>q. rq_owner_scope q = ''GLOBAL'') (dp_receipt_requirements d)"

definition is_production_exposure :: "deployment_plan \<Rightarrow> bool" where
  "is_production_exposure d = (ex_mode (dp_exposure d) = exposure_mode_value PROXIED_INTERNAL)"

definition uses_head_only_serve_proxy :: "deployment_plan \<Rightarrow> bool" where
  "uses_head_only_serve_proxy d = (ex_mode (dp_exposure d) = exposure_mode_value RAY_SERVE_HEAD_ONLY)"

subsection \<open>Topology\<close>

definition replica_slots :: "replica_plan \<Rightarrow> (int \<times> int) list" where
  "replica_slots p =
     concat (map (\<lambda>(rank, devices). map (Pair rank) devices)
       (zip (rp_planned_ranks p) (rp_planned_device_ids p)))"

definition topology_slots :: "model_plan list \<Rightarrow> (int \<times> int) list" where
  "topology_slots ms = concat (map (\<lambda>m. concat (map replica_slots (mp_replicas m))) ms)"

fun book_devices :: "int \<Rightarrow> (int \<times> int) list \<Rightarrow> (int \<times> int) list \<Rightarrow> plan_error option" where
  "book_devices gpus occupied [] = None"
| "book_devices gpus occupied ((rank, device) # slots) =
     (if gpus \<le> device then Some (PlanError ''device outside rank capacity'')
      else if (rank, device) \<in> set occupied then Some (PlanError ''topology double-books rank/device'')
      else book_devices gpus ((rank, device) # occupied) slots)"

text \<open>\<^verbatim>\<open>cpu_by_rank\<close>: CPU demand is charged to the primary rank of a replica.\<close>

definition charge_cpu :: "replica_plan \<Rightarrow> (int \<times> int) list \<Rightarrow> (int \<times> int) list" where
  "charge_cpu p d =
     (let primary = hd (rp_planned_ranks p)
      in AList.update primary
           ((case map_of d primary of None \<Rightarrow> 0 | Some n \<Rightarrow> n) + rp_cpu_demand p) d)"

definition all_replicas :: "model_plan list \<Rightarrow> replica_plan list" where
  "all_replicas ms = concat (map mp_replicas ms)"

definition cpu_by_rank :: "model_plan list \<Rightarrow> (int \<times> int) list" where
  "cpu_by_rank ms = fold charge_cpu (all_replicas ms) []"

definition topology_checks :: "int \<Rightarrow> int \<Rightarrow> int \<Rightarrow> model_plan list \<Rightarrow> (bool \<times> plan_error) list" where
  "topology_checks num_nodes gpus cpus ms =
     [(\<not> distinct (map mp_model_id ms), PlanError ''duplicate model_id values''),
      (\<not> distinct (map mp_route_name ms), PlanError ''duplicate route_name values''),
      (list_ex (\<lambda>p. list_ex (\<lambda>r. num_nodes \<le> r) (rp_planned_ranks p)) (all_replicas ms),
        PlanError ''replica placement names an unplanned rank''),
      (book_devices gpus [] (topology_slots ms) \<noteq> None, the (book_devices gpus [] (topology_slots ms))),
      (list_ex (\<lambda>(rank, demand). cpus < demand) (cpu_by_rank ms),
        PlanError ''topology exceeds per-rank CPU capacity'')]"

subsection \<open>The validating constructor\<close>

definition gateway_kind_of :: "deployment_plan \<Rightarrow> string option" where
  "gateway_kind_of d = map_option gw_kind (dp_gateway d)"

definition deployment_identity_checks :: "deployment_plan \<Rightarrow> (bool \<times> plan_error) list" where
  "deployment_identity_checks d =
     require_schema_version (dp_schema_version d) ''deployment.schema_version'' @
     [(list_ex (\<lambda>t. t = [])
         [dp_deployment_id d, dp_site_profile_id d, dp_site_profile_hash d,
          dp_compatibility_profile_hash d, dp_manifest_hash d, dp_vendor d, dp_engine d,
          dp_model_storage_path d, dp_local_stage_path d, dp_deployment_name d],
        PlanError ''deployment text fields'')] @
     require_absolute_path (dp_model_storage_path d) ''deployment.model_storage_path'' @
     require_absolute_path (dp_local_stage_path d) ''deployment.local_stage_path'' @
     [(list_ex (\<lambda>n. n < 1) [dp_num_nodes d, dp_num_gpus_per_node d, dp_node_cpus d,
         dp_replica_max_ongoing_requests d], PlanError ''deployment counts''),
      (\<not> port_ok (dp_ray_port d), PlanError ''deployment.ray_port''),
      (dp_models d = [], PlanError ''deployment.models'')] @
     (if uses_head_only_serve_proxy d
      then [(length (dp_models d) \<noteq> 1, PlanError ''RAY_SERVE_HEAD_ONLY supports exactly one model''),
            (mp_pipeline_parallel_size (hd (dp_models d)) \<noteq> 1,
              PlanError ''RAY_SERVE_HEAD_ONLY supports tensor-parallel replicas only'')]
      else [])"

definition deployment_gateway_checks :: "deployment_plan \<Rightarrow> (bool \<times> plan_error) list" where
  "deployment_gateway_checks d =
     gateway_exposure_checks ''deployment'' (gateway_kind_of d) (ex_mode (dp_exposure d))
       (dp_validation_mode d) @
     [(if gateway_kind_of d = Some (gateway_kind_value HAPROXY)
       then ex_request_body_limit_bytes (dp_exposure d) = None
       else ex_request_body_limit_bytes (dp_exposure d) \<noteq> None,
        PlanError ''exposure.request_body_limit_bytes'')]"

definition deployment_envelope_checks :: "deployment_plan \<Rightarrow> (bool \<times> plan_error) list" where
  "deployment_envelope_checks d =
     (let e = dp_scale_envelope d in
      [(se_site_id e \<noteq> dp_site_profile_id d, PlanError ''deployment.site_id''),
       (se_vendor e \<noteq> dp_vendor d, PlanError ''deployment.vendor''),
       (se_engine e \<noteq> dp_engine d, PlanError ''deployment.engine''),
       (se_compatibility_profile_ref e \<noteq> dp_compatibility_profile_hash d,
         PlanError ''deployment.compatibility_profile_ref''),
       (se_gateway_kind e \<noteq> gateway_kind_of d, PlanError ''deployment.gateway_kind''),
       (se_exposure_mode e \<noteq> ex_mode (dp_exposure d), PlanError ''deployment.exposure_mode'')] @
      check_nodes e (dp_num_nodes d) @
      [(se_validation_mode e \<noteq> dp_validation_mode d, PlanError ''deployment.validation_mode'')])"

definition deployment_runtime_checks :: "deployment_plan \<Rightarrow> (bool \<times> plan_error) list" where
  "deployment_runtime_checks d =
     [((rt_null_compute (dp_runtime d) \<or> rt_instrumentation (dp_runtime d)) \<and> \<not> dp_validation_mode d,
        PlanError ''diagnostic runtime policies require validation_mode''),
      (dp_collect_stats d \<and> (dp_engine d \<noteq> ''vllm'' \<or> rt_null_compute (dp_runtime d)),
        PlanError ''collect_stats requires the real vllm engine''),
      (list_ex (\<lambda>m. 1 < mp_pipeline_parallel_size m) (dp_models d) \<noteq> rt_pp_shard_aware (dp_runtime d),
        PlanError ''runtime.pp_shard_aware must be enabled exactly for PP models'')]"

definition deployment_plan_checks :: "deployment_plan \<Rightarrow> (bool \<times> plan_error) list" where
  "deployment_plan_checks d =
     deployment_identity_checks d @
     [(\<not> distinct (map rq_id (dp_receipt_requirements d)), PlanError ''duplicate slots'')] @
     deployment_gateway_checks d @
     deployment_envelope_checks d @
     [(dp_receipt_requirements d \<noteq>
         build_receipt_requirements (dp_num_nodes d) (dp_models d) (dp_gateway d)
           (\<not> rt_null_compute (dp_runtime d)),
        PlanError ''receipt_requirements disagrees with derived runtime topology'')] @
     require_sha256 False (dp_site_profile_hash d) ''deployment.site_profile_hash'' @
     require_sha256 False (dp_compatibility_profile_hash d) ''deployment.compatibility_profile_hash'' @
     require_sha256 False (dp_manifest_hash d) ''deployment.manifest_hash'' @
     require_sha256 True (dp_deployment_plan_hash d) ''deployment.deployment_plan_hash'' @
     topology_checks (dp_num_nodes d) (dp_num_gpus_per_node d) (dp_node_cpus d) (dp_models d) @
     deployment_runtime_checks d"

definition deployment_plan_ok :: "deployment_plan \<Rightarrow> bool" where
  "deployment_plan_ok d = (first_failure (deployment_plan_checks d) = None)"

text \<open>The nested records of a plan were built by their own constructors.\<close>

definition nested_plans_ok :: "deployment_plan \<Rightarrow> bool" where
  "nested_plans_ok d =
     (list_all (\<lambda>m. first_failure (model_plan_checks m) = None \<and>
        list_all (\<lambda>p. first_failure (replica_plan_checks p) = None) (mp_replicas m)) (dp_models d) \<and>
      first_failure (scale_envelope_checks (dp_scale_envelope d)) = None \<and>
      first_failure (exposure_plan_checks (dp_exposure d)) = None \<and>
      (case dp_gateway d of None \<Rightarrow> True | Some g \<Rightarrow> first_failure (gateway_plan_checks g) = None) \<and>
      control_limits_ok (dp_control d) \<and>
      first_failure (readiness_limits_checks (dp_readiness d)) = None \<and>
      first_failure (runtime_policy_checks (dp_runtime d)) = None)"

definition finalize_plan :: "(deployment_plan \<Rightarrow> string) \<Rightarrow> deployment_plan \<Rightarrow> deployment_plan" where
  "finalize_plan H d =
     d\<lparr>dp_deployment_plan_hash := H (d\<lparr>dp_deployment_plan_hash := []\<rparr>)\<rparr>"

subsection \<open>Grouped diagnostic applications\<close>

text \<open>
  \<^verbatim>\<open>node_grouped_null_application_groups\<close>: the replica indices and the devices collected by rank, in
  the order of the replicas.
\<close>

definition append_at :: "int \<Rightarrow> 'a list \<Rightarrow> (int \<times> 'a list) list \<Rightarrow> (int \<times> 'a list) list" where
  "append_at k xs d =
     AList.update k ((case map_of d k of None \<Rightarrow> [] | Some ys \<Rightarrow> ys) @ xs) d"

definition indices_by_rank :: "replica_plan list \<Rightarrow> (int \<times> int list) list" where
  "indices_by_rank ps =
     fold (\<lambda>p. append_at (hd (rp_planned_ranks p)) [rp_replica_index p]) ps []"

definition devices_by_rank :: "replica_plan list \<Rightarrow> (int \<times> int list) list" where
  "devices_by_rank ps =
     fold (\<lambda>p. append_at (hd (rp_planned_ranks p)) (hd (rp_planned_device_ids p))) ps []"

definition grouping_applies :: "deployment_plan \<Rightarrow> model_plan \<Rightarrow> bool" where
  "grouping_applies d m =
     (rt_null_compute (dp_runtime d) \<and> \<not> uses_head_only_serve_proxy d \<and>
      gateway_kind_of d = Some (gateway_kind_value HAPROXY) \<and> length (dp_models d) = 1 \<and>
      m \<in> set (dp_models d) \<and> 1 < mp_num_replicas m \<and>
      mp_num_replicas m = dp_num_nodes d * dp_num_gpus_per_node d \<and>
      mp_tensor_parallel_size m = 1 \<and> mp_pipeline_parallel_size m = 1)"

definition null_application_groups ::
    "deployment_plan \<Rightarrow> model_plan \<Rightarrow> plan_error + (int \<times> int list) list" where
  "null_application_groups d m =
     (if \<not> grouping_applies d m then Inr []
      else if list_ex (\<lambda>p. length (rp_planned_ranks p) \<noteq> 1 \<or> length (rp_planned_device_ids p) \<noteq> 1)
                (mp_replicas m)
        then Inl (PlanError ''node-grouped null replica must occupy one planned rank'')
      else
        let groups = map (\<lambda>(r, is). (r, sort is)) (sort_key fst (indices_by_rank (mp_replicas m)));
            devices = devices_by_rank (mp_replicas m);
            expected = set (int_range (nat (dp_num_gpus_per_node d)))
        in if map fst groups \<noteq> int_range (nat (dp_num_nodes d))
              \<or> list_ex (\<lambda>(r, is). int (length is) \<noteq> dp_num_gpus_per_node d) groups
              \<or> list_ex (\<lambda>(r, is). set (case map_of devices r of None \<Rightarrow> [] | Some ds \<Rightarrow> ds) \<noteq> expected)
                  groups
           then Inr []
           else if sort (concat (map snd groups)) \<noteq> int_range (nat (mp_num_replicas m))
             then Inl (PlanError ''node-grouped null applications do not cover exact replica slots'')
           else Inr groups)"

section \<open>Receipt slots are distinct\<close>

text \<open>A structured form of the slot identifiers; \<open>slot_text\<close> is the text of the source.\<close>

datatype slot =
    SupervisorSlot | GatewaySlot string | RaySlot int | NodeSlot int
  | ReplicaSlot string int | CoreSlot string int | WorkerSlot string int nat int

fun slot_text :: "slot \<Rightarrow> string" where
  "slot_text SupervisorSlot = ''global/supervisor''"
| "slot_text (GatewaySlot k) = ''global/gateway/'' @ k"
| "slot_text (RaySlot r) =
     ''rank'' @ show_int r @ ''/'' @ (if r = 0 then ''ray_head'' else ''ray_worker'')"
| "slot_text (NodeSlot r) = ''rank'' @ show_int r @ ''/node_supervisor''"
| "slot_text (ReplicaSlot m k) = replica_base m k"
| "slot_text (CoreSlot m k) = replica_base m k @ ''/engine/core''"
| "slot_text (WorkerSlot m k s d) = replica_base m k @ worker_suffix s d"

fun slot_ok :: "slot \<Rightarrow> bool" where
  "slot_ok (ReplicaSlot m k) = (CHR ''/'' \<notin> set m)"
| "slot_ok (CoreSlot m k) = (CHR ''/'' \<notin> set m)"
| "slot_ok (WorkerSlot m k s d) = (CHR ''/'' \<notin> set m)"
| "slot_ok _ = True"

lemma replica_base_inject:
  assumes "CHR ''/'' \<notin> set m" "CHR ''/'' \<notin> set m'"
    and "x = [] \<or> hd x = CHR ''/''" "y = [] \<or> hd y = CHR ''/''"
  shows "replica_base m k @ x = replica_base m' k' @ y \<longleftrightarrow> m = m' \<and> k = k' \<and> x = y"
  using append_sep_inject [OF assms(1,2)] append_tail_inject [OF slash_not_in_show(1,1) assms(3,4), of k k']
  by (simp add: replica_base_def)

lemma worker_suffix_inject: "worker_suffix s d = worker_suffix s' d' \<longleftrightarrow> s = s' \<and> d = d'"
  by (simp add: worker_suffix_def append_sep_inject [where c = "CHR ''/''"])

lemma slot_text_inject:
  assumes "slot_ok a" "slot_ok b" "slot_text a = slot_text b"
  shows "a = b"
proof -
  have worker_ne: "''/engine/core'' \<noteq> worker_suffix s d" "worker_suffix s d \<noteq> ''/engine/core''"
    "worker_suffix s d \<noteq> []" "[] \<noteq> worker_suffix s d" "hd (worker_suffix s d) = CHR ''/''" for s d
    by (simp_all add: worker_suffix_def)
  note base = replica_base_inject [where x = "[]" and y = "[]", simplified]
    replica_base_inject [where x = "[]", simplified] replica_base_inject [where y = "[]", simplified]
    replica_base_inject
  show ?thesis
    using assms
    by (cases a; cases b)
      (simp_all add: base worker_ne worker_suffix_inject append_sep_inject [where c = "CHR ''/''"]
        split: if_splits, simp_all add: replica_base_def)
qed

fun slot_route :: "slot \<Rightarrow> string" where
  "slot_route (ReplicaSlot m k) = m"
| "slot_route (CoreSlot m k) = m"
| "slot_route (WorkerSlot m k s d) = m"
| "slot_route _ = []"

fun slot_index :: "slot \<Rightarrow> int" where
  "slot_index (RaySlot r) = r"
| "slot_index (NodeSlot r) = r"
| "slot_index (ReplicaSlot m k) = k"
| "slot_index (CoreSlot m k) = k"
| "slot_index (WorkerSlot m k s d) = k"
| "slot_index _ = 0"

fun slot_stage :: "slot \<Rightarrow> nat" where
  "slot_stage (WorkerSlot m k s d) = s"
| "slot_stage _ = 0"

definition worker_slots :: "model_plan \<Rightarrow> replica_plan \<Rightarrow> slot list" where
  "worker_slots m p =
     concat (map (\<lambda>(stage, rank, devices).
         map (WorkerSlot (mp_route_name m) (rp_replica_index p) stage) devices)
       (zip [0..<length (rp_planned_ranks p)] (zip (rp_planned_ranks p) (rp_planned_device_ids p))))"

definition replica_slot_ids :: "bool \<Rightarrow> model_plan \<Rightarrow> replica_plan \<Rightarrow> slot list" where
  "replica_slot_ids incl m p =
     ReplicaSlot (mp_route_name m) (rp_replica_index p) #
     (if \<not> incl then []
      else CoreSlot (mp_route_name m) (rp_replica_index p) #
           (if sum_list (map length (rp_planned_device_ids p)) \<le> 1 then [] else worker_slots m p))"

definition plan_slots :: "int \<Rightarrow> model_plan list \<Rightarrow> gateway_plan option \<Rightarrow> bool \<Rightarrow> slot list" where
  "plan_slots n ms g incl =
     [SupervisorSlot] @ (case g of None \<Rightarrow> [] | Some x \<Rightarrow> [GatewaySlot (gw_kind x)]) @
     concat (map (\<lambda>r. [RaySlot r, NodeSlot r]) (int_range (nat n))) @
     concat (map (\<lambda>m. concat (map (replica_slot_ids incl m) (mp_replicas m))) ms)"

lemma rq_id_simps [simp]:
  "rq_id (rank_requirement rid role slot rank pl) = rid"
  "rq_id (global_requirement rid role slot att) = rid"
  by (simp_all add: rank_requirement_def global_requirement_def)

lemma rq_id_replica_requirements:
  "map rq_id (replica_requirements incl m p) = map slot_text (replica_slot_ids incl m p)"
  by (simp add: replica_requirements_def replica_slot_ids_def worker_requirements_def worker_slots_def
      Let_def map_concat comp_def case_prod_unfold)

lemma rq_id_build:
  "map rq_id (build_receipt_requirements n ms g incl) = map slot_text (plan_slots n ms g incl)"
  by (auto simp: build_receipt_requirements_def plan_slots_def map_concat comp_def
      rq_id_replica_requirements rank_requirements_def Let_def split: option.splits)

text \<open>What makes the slots distinct: distinct routes without slash, distinct replica indices and
  distinct devices within a stage.\<close>

definition slots_separable :: "model_plan list \<Rightarrow> bool" where
  "slots_separable ms =
     (distinct (map mp_route_name ms) \<and> list_all (\<lambda>m. CHR ''/'' \<notin> set (mp_route_name m) \<and>
        distinct (map rp_replica_index (mp_replicas m)) \<and>
        list_all (\<lambda>p. list_all distinct (rp_planned_device_ids p)) (mp_replicas m)) ms)"

lemma worker_slots_in:
  "s \<in> set (worker_slots m p) \<Longrightarrow>
     \<exists>stage d. s = WorkerSlot (mp_route_name m) (rp_replica_index p) stage d"
  by (auto simp: worker_slots_def)

lemma distinct_worker_slots:
  assumes "list_all distinct (rp_planned_device_ids p)"
  shows "distinct (worker_slots m p)"
  unfolding worker_slots_def
proof (rule distinct_concat_by_key [where k = fst and g = slot_stage])
  show "distinct (map fst (zip [0..<length (rp_planned_ranks p)]
      (zip (rp_planned_ranks p) (rp_planned_device_ids p))))"
    by (simp add: map_fst_zip_take)
next
  fix x assume "x \<in> set (zip [0..<length (rp_planned_ranks p)]
      (zip (rp_planned_ranks p) (rp_planned_device_ids p)))"
  then have "snd (snd x) \<in> set (rp_planned_device_ids p)"
    by (metis in_set_zipE prod.collapse)
  with assms show "distinct (case x of (stage, rank, devices) \<Rightarrow>
      map (WorkerSlot (mp_route_name m) (rp_replica_index p) stage) devices)"
    by (auto simp: list_all_iff distinct_map inj_on_def split: prod.splits)
qed auto

lemma replica_slot_ids_in:
  "s \<in> set (replica_slot_ids incl m p) \<Longrightarrow>
     slot_route s = mp_route_name m \<and> slot_index s = rp_replica_index p \<and>
     (CHR ''/'' \<notin> set (mp_route_name m) \<longrightarrow> slot_ok s)"
  by (auto simp: replica_slot_ids_def dest: worker_slots_in split: if_splits)

lemma distinct_replica_slot_ids:
  "list_all distinct (rp_planned_device_ids p) \<Longrightarrow> distinct (replica_slot_ids incl m p)"
  by (auto simp: replica_slot_ids_def distinct_worker_slots dest: worker_slots_in)

lemma distinct_plan_slots:
  assumes "slots_separable ms"
  shows "distinct (plan_slots n ms g incl)"
proof -
  have "distinct (concat (map (replica_slot_ids incl m) (mp_replicas m)))" if "m \<in> set ms" for m
    using assms that
    by (intro distinct_concat_by_key [where k = rp_replica_index and g = slot_index])
      (auto simp: slots_separable_def list_all_iff distinct_replica_slot_ids dest: replica_slot_ids_in)
  then have models: "distinct (concat (map (\<lambda>m. concat (map (replica_slot_ids incl m) (mp_replicas m))) ms))"
    using assms
    by (intro distinct_concat_by_key [where k = mp_route_name and g = slot_route])
      (auto simp: slots_separable_def dest: replica_slot_ids_in)
  have "distinct (concat (map (\<lambda>r. [RaySlot r, NodeSlot r]) (int_range (nat n))))"
    by (intro distinct_concat_by_key [where k = id and g = slot_index]) auto
  with models show ?thesis
    by (auto simp: plan_slots_def replica_slot_ids_def dest: worker_slots_in split: option.splits if_splits)
qed

lemma plan_slots_ok:
  assumes "slots_separable ms" "s \<in> set (plan_slots n ms g incl)"
  shows "slot_ok s"
  using assms
  by (auto simp: plan_slots_def slots_separable_def list_all_iff dest: replica_slot_ids_in
      split: option.splits)

lemma distinct_receipt_ids:
  assumes "slots_separable ms"
  shows "distinct (map rq_id (build_receipt_requirements n ms g incl))"
  unfolding rq_id_build distinct_map
  using distinct_plan_slots [OF assms] plan_slots_ok [OF assms] slot_text_inject
  by (auto intro!: inj_onI)

section \<open>Capacity of a valid plan\<close>

lemma book_devices_None:
  "book_devices gpus occ slots = None \<longleftrightarrow>
     distinct slots \<and> set slots \<inter> set occ = {} \<and> (\<forall>(r, d) \<in> set slots. d < gpus)"
  by (induction gpus occ slots rule: book_devices.induct) auto

definition cpu_charged :: "int \<Rightarrow> replica_plan list \<Rightarrow> int" where
  "cpu_charged r ps = sum_list (map rp_cpu_demand (filter (\<lambda>p. hd (rp_planned_ranks p) = r) ps))"

definition charged_at :: "(int \<times> int) list \<Rightarrow> int \<Rightarrow> int" where
  "charged_at d r = (case map_of d r of None \<Rightarrow> 0 | Some n \<Rightarrow> n)"

lemma charged_at_charge_cpu:
  "charged_at (charge_cpu p d) r =
     charged_at d r + (if hd (rp_planned_ranks p) = r then rp_cpu_demand p else 0)"
  by (simp add: charged_at_def charge_cpu_def Let_def update_conv')

lemma charged_at_fold: "charged_at (fold charge_cpu ps d) r = charged_at d r + cpu_charged r ps"
  by (induction ps arbitrary: d) (auto simp: charged_at_charge_cpu cpu_charged_def)

lemma charged_at_cpu_by_rank: "charged_at (cpu_by_rank ms) r = cpu_charged r (all_replicas ms)"
  by (simp add: cpu_by_rank_def charged_at_fold) (simp add: charged_at_def)

lemma topology_checks_None:
  assumes "first_failure (topology_checks n gpus cpus ms) = None" "0 \<le> cpus"
  shows "distinct (map mp_model_id ms)" "distinct (map mp_route_name ms)"
    "\<forall>p \<in> set (all_replicas ms). \<forall>r \<in> set (rp_planned_ranks p). r < n"
    "distinct (topology_slots ms)" "\<forall>(r, d) \<in> set (topology_slots ms). d < gpus"
    "cpu_charged r (all_replicas ms) \<le> cpus"
proof -
  from assms(1) have "\<forall>(rank, demand) \<in> set (cpu_by_rank ms). demand \<le> cpus"
    by (auto simp: topology_checks_def list_ex_iff not_less split: if_splits)
  then have "charged_at (cpu_by_rank ms) r \<le> cpus"
    using assms(2) by (auto simp: charged_at_def dest: map_of_SomeD split: option.splits)
  then show "cpu_charged r (all_replicas ms) \<le> cpus" by (simp add: charged_at_cpu_by_rank)
qed (use assms(1) in \<open>auto simp: topology_checks_def list_ex_iff not_le book_devices_None split: if_splits\<close>)

lemma length_slot_pairs:
  "length ds = length rs \<Longrightarrow>
     length (concat (map (\<lambda>(r, g). map (Pair r) g) (zip rs ds))) = sum_list (map length ds)"
  by (induction ds rs rule: list_induct2) auto

lemma replica_plan_checks_None:
  assumes "first_failure (replica_plan_checks p) = None"
  shows "rp_planned_ranks p \<noteq> []" "distinct (rp_planned_ranks p)" "\<forall>r \<in> set (rp_planned_ranks p). 0 \<le> r"
    "\<forall>g \<in> set (rp_planned_device_ids p). distinct g \<and> (\<forall>d \<in> set g. 0 \<le> d)"
    "length (rp_planned_device_ids p) = length (rp_planned_ranks p)"
    "int (length (replica_slots p)) = rp_gpu_demand p"
proof -
  show ranks: "rp_planned_ranks p \<noteq> []" "distinct (rp_planned_ranks p)" "\<forall>r \<in> set (rp_planned_ranks p). 0 \<le> r"
    "\<forall>g \<in> set (rp_planned_device_ids p). distinct g \<and> (\<forall>d \<in> set g. 0 \<le> d)"
    and len: "length (rp_planned_device_ids p) = length (rp_planned_ranks p)"
    using assms by (auto simp: replica_plan_checks_def list_ex_iff not_less split: if_splits)
  from assms have tp: "\<forall>g \<in> set (rp_planned_device_ids p). int (length g) = rp_tensor_parallel_size p"
    and pp: "int (length (rp_planned_ranks p)) = rp_pipeline_parallel_size p"
    and gd: "rp_gpu_demand p = rp_tensor_parallel_size p * rp_pipeline_parallel_size p"
    by (auto simp: replica_plan_checks_def list_ex_iff split: if_splits)
  have "int (sum_list (map length gs)) = int (length gs) * t" if "\<forall>g \<in> set gs. int (length g) = t"
    for gs :: "int list list" and t
    using that by (induction gs) (auto simp: algebra_simps)
  moreover have "length (replica_slots p) = sum_list (map length (rp_planned_device_ids p))"
    using len by (simp add: replica_slots_def length_slot_pairs)
  ultimately have "int (length (replica_slots p)) = int (length (rp_planned_device_ids p)) * rp_tensor_parallel_size p"
    using tp by metis
  then show "int (length (replica_slots p)) = rp_gpu_demand p"
    using pp len gd by (simp add: mult.commute)
qed

text \<open>What the constructors of a plan and of its nested records establish together.\<close>

lemma nested_replicas_ok:
  assumes "nested_plans_ok d" "p \<in> set (all_replicas (dp_models d))"
  shows "first_failure (replica_plan_checks p) = None"
  using assms by (auto simp: nested_plans_ok_def all_replicas_def list_all_iff)

lemma deployment_plan_okD:
  assumes "deployment_plan_ok d"
  shows "first_failure (topology_checks (dp_num_nodes d) (dp_num_gpus_per_node d) (dp_node_cpus d)
      (dp_models d)) = None"
    and "1 \<le> dp_num_nodes d" "1 \<le> dp_num_gpus_per_node d" "1 \<le> dp_node_cpus d"
    and "distinct (map rq_id (dp_receipt_requirements d))"
    and "dp_receipt_requirements d = build_receipt_requirements (dp_num_nodes d) (dp_models d)
      (dp_gateway d) (\<not> rt_null_compute (dp_runtime d))"
  using assms
  by (auto simp: deployment_plan_ok_def deployment_plan_checks_def deployment_identity_checks_def
      split: if_splits)

lemma length_concat_int:
  "int (length (concat (map f xs))) = sum_list (map (\<lambda>x. int (length (f x))) xs)"
  by (induction xs) auto

lemma topology_slots_replicas: "topology_slots ms = concat (map replica_slots (all_replicas ms))"
  by (induction ms) (auto simp: topology_slots_def all_replicas_def)

lemma slot_in_replica:
  assumes "(r, dev) \<in> set (replica_slots p)"
  shows "r \<in> set (rp_planned_ranks p) \<and> (\<exists>g \<in> set (rp_planned_device_ids p). dev \<in> set g)"
  using assms by (auto simp: replica_slots_def dest: set_zip_leftD set_zip_rightD)

section \<open>Properties of valid plans\<close>

text \<open>
  (C9) A plan that its constructors accept fits the hardware: no device of a rank is booked twice,
  every booked slot is a planned rank and an existing device, the GPU demand of all replicas together
  is at most the number of devices, and no rank is charged more CPUs than a node has.
\<close>

theorem plan_fits_hardware:
  assumes ok: "deployment_plan_ok d" and nested: "nested_plans_ok d"
  shows "distinct (topology_slots (dp_models d)) \<and>
    set (topology_slots (dp_models d)) \<subseteq> {0..<dp_num_nodes d} \<times> {0..<dp_num_gpus_per_node d} \<and>
    sum_list (map rp_gpu_demand (all_replicas (dp_models d))) \<le> dp_num_nodes d * dp_num_gpus_per_node d \<and>
    (\<forall>r. cpu_charged r (all_replicas (dp_models d)) \<le> dp_node_cpus d)"
proof -
  note D = deployment_plan_okD [OF ok]
  have cpus: "0 \<le> dp_node_cpus d" using D(4) by simp
  note T = topology_checks_None [OF D(1) cpus]
  let ?S = "topology_slots (dp_models d)"
  have sub: "set ?S \<subseteq> {0..<dp_num_nodes d} \<times> {0..<dp_num_gpus_per_node d}"
  proof (intro subrelI)
    fix r dev assume in_S: "(r, dev) \<in> set ?S"
    then obtain p where p: "p \<in> set (all_replicas (dp_models d))" "(r, dev) \<in> set (replica_slots p)"
      by (auto simp: topology_slots_replicas)
    note P = replica_plan_checks_None [OF nested_replicas_ok [OF nested p(1)]]
    from slot_in_replica [OF p(2)] P(3,4) T(3,5) p(1) in_S
    show "(r, dev) \<in> {0..<dp_num_nodes d} \<times> {0..<dp_num_gpus_per_node d}" by fastforce
  qed
  have "sum_list (map rp_gpu_demand (all_replicas (dp_models d)))
      = sum_list (map (\<lambda>p. int (length (replica_slots p))) (all_replicas (dp_models d)))"
    using replica_plan_checks_None(6) nested_replicas_ok [OF nested]
    by (metis (no_types, lifting) map_eq_conv)
  also have "\<dots> = int (length ?S)"
    by (simp add: topology_slots_replicas length_concat_int)
  also have "\<dots> = int (card (set ?S))" using distinct_card [OF T(4)] by simp
  also have "\<dots> \<le> int (card ({0..<dp_num_nodes d} \<times> {0..<dp_num_gpus_per_node d}))"
    using card_mono [OF _ sub] by (intro of_nat_mono) simp
  also have "\<dots> = dp_num_nodes d * dp_num_gpus_per_node d" using D(2,3) by simp
  finally show ?thesis using T(4,6) sub by simp
qed

section \<open>Sample\<close>

text \<open>A valid two-node plan with one two-stage model, used as a witness.\<close>

definition sample_sha :: string where
  "sample_sha = replicate 64 (CHR ''0'')"

definition sample_replica :: replica_plan where
  "sample_replica =
     \<lparr>rp_replica_id = ''m/replica-0'', rp_replica_index = 0, rp_planned_ranks = [0, 1],
      rp_planned_device_ids = [[0, 1], [0, 1]], rp_tensor_parallel_size = 2,
      rp_pipeline_parallel_size = 2, rp_gpu_demand = 4, rp_cpu_demand = 4\<rparr>"

definition sample_model :: model_plan where
  "sample_model =
     \<lparr>mp_model_id = ''m'', mp_storage_name = ''m'', mp_route_name = ''m'',
      mp_tensor_parallel_size = 2, mp_pipeline_parallel_size = 2, mp_max_model_len = 4096,
      mp_size_b = 8, mp_gpu_memory_utilization = 9 / 10, mp_enforce_eager = True,
      mp_enable_log_requests = True, mp_max_num_seqs = None, mp_num_cpus_per_replica = 4,
      mp_num_replicas = 1, mp_replicas = [sample_replica]\<rparr>"

definition sample_gateway :: gateway_plan where
  "sample_gateway =
     \<lparr>gw_kind = ''haproxy'', gw_port = 8080, gw_backend_port = 8000,
      gw_executable_ref = ''PATH:haproxy'', gw_worker_count = 1, gw_options = []\<rparr>"

definition sample_exposure :: exposure_plan where
  "sample_exposure =
     \<lparr>ex_mode = ''PROXIED_INTERNAL'', ex_advertised_scheme = ''http'', ex_advertised_path = ''/v1'',
      ex_network_boundary = ''trusted_allocation'', ex_auth_policy_ref = None,
      ex_request_body_limit_bytes = Some 1048576, ex_serve_port = 8000\<rparr>"

definition sample_envelope :: scale_envelope where
  "sample_envelope =
     \<lparr>se_schema_version = 3, se_envelope_id = ''e'', se_site_id = ''s'', se_scheduler_type = ''pbs'',
      se_vendor = ''intel'', se_accelerator = ''pvc'', se_engine = ''vllm'',
      se_compatibility_profile_ref = sample_sha, se_gateway_kind = Some ''haproxy'',
      se_exposure_mode = ''PROXIED_INTERNAL'', se_request_mode = ''chat'',
      se_streaming_mode = ''streaming'', se_min_nodes = 1, se_supported_max_nodes = 4,
      se_qualification_target_nodes = 8, se_qualification_target_approved = True,
      se_max_replicas_per_model = 8, se_max_total_replicas = 16, se_max_models = 4,
      se_validation_tier = ''t1'', se_validation_mode = False, se_evidence_refs = []\<rparr>"

definition sample_plan :: deployment_plan where
  "sample_plan =
     \<lparr>dp_schema_version = 3, dp_deployment_id = ''d1'', dp_site_profile_id = ''s'',
      dp_site_profile_hash = sample_sha, dp_compatibility_profile_hash = sample_sha,
      dp_manifest_hash = sample_sha, dp_scale_envelope = sample_envelope, dp_num_nodes = 2,
      dp_num_gpus_per_node = 2, dp_node_cpus = 8, dp_ray_port = 6379, dp_vendor = ''intel'',
      dp_engine = ''vllm'', dp_model_storage_path = ''/models'', dp_local_stage_path = ''/tmp/x'',
      dp_deployment_name = ''n'', dp_replica_max_ongoing_requests = 100, dp_collect_stats = True,
      dp_models = [sample_model], dp_exposure = sample_exposure, dp_gateway = Some sample_gateway,
      dp_receipt_requirements = build_receipt_requirements 2 [sample_model] (Some sample_gateway) True,
      dp_control = default_control_limits, dp_readiness = default_readiness_limits,
      dp_runtime = default_runtime_policy\<lparr>rt_pp_shard_aware := True\<rparr>, dp_validation_mode = False,
      dp_deployment_plan_hash = []\<rparr>"

lemma sample_plan_ok: "deployment_plan_ok sample_plan" "nested_plans_ok sample_plan"
  by code_simp+

theorem plan_fits_hardware_witness:
  "topology_slots (dp_models sample_plan) = [(0, 0), (0, 1), (1, 0), (1, 1)] \<and>
   sum_list (map rp_gpu_demand (all_replicas (dp_models sample_plan))) \<le> 2 * 2 \<and>
   cpu_charged 0 (all_replicas (dp_models sample_plan)) \<le> 8"
proof -
  have "dp_num_nodes sample_plan = 2" "dp_num_gpus_per_node sample_plan = 2" "dp_node_cpus sample_plan = 8"
    "topology_slots (dp_models sample_plan) = [(0, 0), (0, 1), (1, 0), (1, 1)]"
    by code_simp+
  with plan_fits_hardware [OF sample_plan_ok] show ?thesis by metis
qed

section \<open>Ownership of the receipt slots\<close>

lemma rank_requirement_fields [simp]:
  "rq_owner_scope (rank_requirement rid role slot rank pl) = ''RANK''"
  "rq_planned_rank (rank_requirement rid role slot rank pl) = Some rank"
  "rq_owner_scope (global_requirement rid role slot att) = ''GLOBAL''"
  "rq_planned_rank (global_requirement rid role slot att) = None"
  by (simp_all add: rank_requirement_def global_requirement_def)

definition owned_within :: "int \<Rightarrow> receipt_requirement \<Rightarrow> bool" where
  "owned_within n q =
     (case rq_planned_rank q of
        None \<Rightarrow> rq_owner_scope q = ''GLOBAL''
      | Some r \<Rightarrow> rq_owner_scope q = ''RANK'' \<and> 0 \<le> r \<and> r < n)"

lemma owned_withinD:
  assumes "owned_within n q"
  shows "rq_owner_scope q = ''GLOBAL'' \<longleftrightarrow> rq_planned_rank q = None"
    and "rq_owner_scope q = ''RANK'' \<longleftrightarrow> rq_planned_rank q \<noteq> None"
    and "rq_planned_rank q = Some r \<Longrightarrow> 0 \<le> r \<and> r < n"
  using assms by (auto simp: owned_within_def split: option.splits)

lemma in_zip_stages: "(i, r, g) \<in> set (zip is (zip rs gs)) \<Longrightarrow> r \<in> set rs \<and> g \<in> set gs"
  by (meson in_set_zipE)

lemma replica_requirements_owned:
  assumes "first_failure (replica_plan_checks p) = None" "\<forall>r \<in> set (rp_planned_ranks p). r < n"
    and "q \<in> set (replica_requirements incl m p)"
  shows "owned_within n q"
proof -
  note P = replica_plan_checks_None [OF assms(1)]
  have "\<exists>r \<in> set (rp_planned_ranks p). rq_owner_scope q = ''RANK'' \<and> rq_planned_rank q = Some r"
    using assms(3) P(1)
    by (auto simp: replica_requirements_def worker_requirements_def Let_def split: if_splits
        dest: in_zip_stages)
  with P(3) assms(2) show ?thesis by (auto simp: owned_within_def)
qed

lemma receipts_owned:
  assumes ok: "deployment_plan_ok d" and nested: "nested_plans_ok d"
    and q: "q \<in> set (dp_receipt_requirements d)"
  shows "owned_within (dp_num_nodes d) q"
proof -
  note D = deployment_plan_okD [OF ok]
  have "0 \<le> dp_node_cpus d" using D(4) by simp
  note T = topology_checks_None [OF D(1) this]
  have "owned_within (dp_num_nodes d) q"
    if "m \<in> set (dp_models d)" "p \<in> set (mp_replicas m)"
      "q \<in> set (replica_requirements incl m p)" for incl m p
  proof -
    have p: "p \<in> set (all_replicas (dp_models d))" using that by (auto simp: all_replicas_def)
    with T(3) that(3) nested_replicas_ok [OF nested p] show ?thesis
      by (auto intro: replica_requirements_owned)
  qed
  with q D(2) show ?thesis
    by (auto simp: D(6) build_receipt_requirements_def rank_requirements_def Let_def owned_within_def
        int_range_set split: option.splits if_splits)
qed

text \<open>
  (C28) Every receipt slot of a valid plan has exactly one authority: the slots are the global ones and,
  disjointly, the slots of each planned rank, no two slots share an identifier, and every planned
  rank owns a Ray slot and a node-supervisor slot.
\<close>

theorem receipt_slots_partition:
  assumes ok: "deployment_plan_ok d" and nested: "nested_plans_ok d"
  shows "mset (dp_receipt_requirements d) = mset (global_requirements d) +
      (\<Sum>r\<in>{0..<dp_num_nodes d}. mset (requirements_for_rank d r)) \<and>
    distinct (map rq_id (dp_receipt_requirements d)) \<and>
    (\<forall>r \<in> {0..<dp_num_nodes d}. {''ray'', ''node_supervisor''} \<subseteq>
       set (map rq_component_slot (requirements_for_rank d r)))"
proof (intro conjI)
  note D = deployment_plan_okD [OF ok]
  let ?q = "dp_receipt_requirements d"
  have own: "owned_within (dp_num_nodes d) q" if "q \<in> set ?q" for q
    by (rule receipts_owned [OF ok nested that])
  have global: "global_requirements d = filter (\<lambda>q. rq_planned_rank q = None) ?q"
    unfolding global_requirements_def
    using owned_withinD(1) [OF own] by (intro filter_cong) auto
  have ranked: "requirements_for_rank d r = filter (\<lambda>q. rq_planned_rank q = Some r) ?q" for r
    unfolding requirements_for_rank_def
    using owned_withinD(2) [OF own] by (intro filter_cong) auto
  have "\<And>q. q \<in> set ?q \<Longrightarrow> rq_planned_rank q = None \<or> (\<exists>r \<in> {0..<dp_num_nodes d}. rq_planned_rank q = Some r)"
    using owned_withinD(3) [OF own] by (metis atLeastLessThan_iff not_None_eq)
  from mset_split_by_owner [OF _ this] show "mset ?q = mset (global_requirements d) +
      (\<Sum>r\<in>{0..<dp_num_nodes d}. mset (requirements_for_rank d r))"
    by (simp add: global ranked)
  show "distinct (map rq_id ?q)" by (rule D(5))
  show "\<forall>r \<in> {0..<dp_num_nodes d}. {''ray'', ''node_supervisor''} \<subseteq>
       set (map rq_component_slot (requirements_for_rank d r))"
  proof
    fix r assume r: "r \<in> {0..<dp_num_nodes d}"
    then have "set (rank_requirements r) \<subseteq> set ?q"
      by (auto simp: D(6) build_receipt_requirements_def int_range_set)
    then have "set (rank_requirements r) \<subseteq> set (requirements_for_rank d r)"
      by (auto simp: ranked rank_requirements_def Let_def)
    then have "rq_component_slot ` set (rank_requirements r) \<subseteq>
        rq_component_slot ` set (requirements_for_rank d r)"
      by (rule image_mono)
    moreover have "rq_component_slot ` set (rank_requirements r) = {''ray'', ''node_supervisor''}"
      by (auto simp: rank_requirements_def Let_def rank_requirement_def)
    ultimately show "{''ray'', ''node_supervisor''} \<subseteq>
       set (map rq_component_slot (requirements_for_rank d r))" by simp
  qed
qed

theorem receipt_slots_partition_witness:
  "mset (dp_receipt_requirements sample_plan) = mset (global_requirements sample_plan) +
      (\<Sum>r\<in>{0..<2}. mset (requirements_for_rank sample_plan r)) \<and>
   length (dp_receipt_requirements sample_plan) = 12"
proof -
  have "dp_num_nodes sample_plan = 2" "length (dp_receipt_requirements sample_plan) = 12"
    by code_simp+
  with receipt_slots_partition [OF sample_plan_ok] show ?thesis by simp
qed

end
