(* ===== verification/Placement.thy ===== *)
theory Placement
  imports Plan_Contracts "HOL-Library.Product_Lexorder"
begin

text \<open>
  Model intents and replica placement of the plan compiler, \<^verbatim>\<open>src/exaserve/plan/compiler.py\<close>:
  \<^verbatim>\<open>_compile_model_intents\<close> with the field readers it uses, and \<^verbatim>\<open>_resolve_models\<close>, which books
  devices and CPUs of homogeneous ranks for the replicas of every model.

  The mutable lists of \<^verbatim>\<open>_resolve_models\<close> are the record \<open>placement_state\<close>, indexed by rank and by
  model. Its last loop runs until a round makes no progress; it is a partial function whose value is
  \<open>None\<close> if it never ends, and it is proved to end.
\<close>

section \<open>Reading fields\<close>

definition read_integer ::
    "pyval \<Rightarrow> string \<Rightarrow> int option \<Rightarrow> int option \<Rightarrow> int option \<Rightarrow> plan_error + int" where
  "read_integer v path dflt minimum maximum =
     (case (if v = PNone then map_option PInt dflt else Some v) of
        None \<Rightarrow> Inl (PlanError path)
      | Some w \<Rightarrow> (case as_int w of
          None \<Rightarrow> Inl (PlanError path)
        | Some i \<Rightarrow>
            if (case minimum of None \<Rightarrow> False | Some m \<Rightarrow> i < m) then Inl (PlanError path)
            else if (case maximum of None \<Rightarrow> False | Some m \<Rightarrow> m < i) then Inl (PlanError path)
            else Inr i))"

definition read_number ::
    "pyval \<Rightarrow> string \<Rightarrow> real option \<Rightarrow> real option \<Rightarrow> real option \<Rightarrow> plan_error + real" where
  "read_number v path dflt minimum maximum =
     (case (if v = PNone then map_option (\<lambda>r. PFloat (Finite r)) dflt else Some v) of
        None \<Rightarrow> Inl (PlanError path)
      | Some w \<Rightarrow> if float_overflows w then Inl (PlanOverflow path) else (case as_number w of
          None \<Rightarrow> Inl (PlanError path)
        | Some r \<Rightarrow>
            if (case minimum of None \<Rightarrow> False | Some m \<Rightarrow> r < m) then Inl (PlanError path)
            else if (case maximum of None \<Rightarrow> False | Some m \<Rightarrow> m < r) then Inl (PlanError path)
            else Inr r))"

definition read_boolean :: "pyval \<Rightarrow> string \<Rightarrow> bool option \<Rightarrow> plan_error + bool" where
  "read_boolean v path dflt =
     (if v = PNone \<and> dflt \<noteq> None then Inr (the dflt)
      else case as_bool v of Some b \<Rightarrow> Inr b | None \<Rightarrow> Inl (PlanError path))"

definition read_string :: "pyval \<Rightarrow> string \<Rightarrow> plan_error + string" where
  "read_string v path =
     (case as_str v of
        None \<Rightarrow> Inl (PlanError path)
      | Some s \<Rightarrow> if strip s = [] then Inl (PlanError path) else Inr (strip s))"

section \<open>Model intents\<close>

definition route_char :: "char \<Rightarrow> char" where
  "route_char c = (if is_alnum c \<or> c \<in> set ''_-'' then c else CHR ''-'')"

definition strip_dashes :: "string \<Rightarrow> string" where
  "strip_dashes s =
     rev (dropWhile (\<lambda>c. c = CHR ''-'') (rev (dropWhile (\<lambda>c. c = CHR ''-'') s)))"

definition route_name :: "string \<Rightarrow> string" where
  "route_name s = map lower_char (strip_dashes (map route_char s))"

definition model_keys :: "string list" where
  "model_keys =
     [''model_id'', ''tensor_parallel_size'', ''pipeline_parallel_size'', ''max_model_len'', ''size'',
      ''gpu_memory_utilization'', ''enforce_eager'', ''enable_log_requests'', ''max_num_seqs'',
      ''num_replicas'', ''num_cpus_per_replica'']"

record model_intent =
  mi_model_id :: string
  mi_storage_name :: string
  mi_route_name :: string
  mi_tensor_parallel_size :: int
  mi_pipeline_parallel_size :: int
  mi_max_model_len :: int
  mi_size_b :: int
  mi_gpu_memory_utilization :: real
  mi_enforce_eager :: bool
  mi_enable_log_requests :: bool
  mi_max_num_seqs :: "int option"
  mi_num_cpus_per_replica :: int
  mi_requested_replicas :: "int option"

definition raw_get :: "(string \<times> pyval) list \<Rightarrow> string \<Rightarrow> pyval" where
  "raw_get raw k = (case map_of raw k of None \<Rightarrow> PNone | Some v \<Rightarrow> v)"

definition optional_integer :: "pyval \<Rightarrow> string \<Rightarrow> plan_error + int option" where
  "optional_integer v path =
     (if v = PNone then Inr None else and_then (read_integer v path None (Some 1) None) (\<lambda>i. Inr (Some i)))"

text \<open>
  One raw model, given the intents compiled so far (the source keeps their identities in three
  dictionaries). A raw model is a mapping with text keys; other values are refused by
  \<^verbatim>\<open>_mapping\<close>, which is the argument being \<open>None\<close>.
\<close>

definition compile_identity ::
    "model_intent list \<Rightarrow> (string \<times> pyval) list \<Rightarrow> plan_error + string" where
  "compile_identity seen raw =
     (if list_ex (\<lambda>k. k \<notin> set model_keys) (map fst raw) then Inl (PlanError ''unknown key(s)'')
      else and_then (read_string (raw_get raw ''model_id'') ''model_id'') (\<lambda>model_id.
        and_then (checked (require_model_id model_id ''model_id'') model_id) (\<lambda>model_id.
        checked
          [(model_id \<in> set (map mi_model_id seen), PlanError ''collision (model_id)''),
           (storage_name model_id \<in> set (map mi_storage_name seen), PlanError ''collision (storage_name)''),
           (route_name (storage_name model_id) \<in> set (map mi_route_name seen),
             PlanError ''collision (route_name)'')] model_id)))"

definition compile_parallelism ::
    "int \<Rightarrow> int \<Rightarrow> (string \<times> pyval) list \<Rightarrow> plan_error + int \<times> int" where
  "compile_parallelism num_nodes gpus_per_node raw =
     and_then (read_integer (raw_get raw ''tensor_parallel_size'') ''tensor_parallel_size'' (Some 1) (Some 1) None) (\<lambda>tp.
     and_then (read_integer (raw_get raw ''pipeline_parallel_size'') ''pipeline_parallel_size'' (Some 1) (Some 1) None) (\<lambda>pp.
     checked
       [(gpus_per_node < tp, PlanError ''tensor_parallel_size exceeds gpus_per_node''),
        (num_nodes < pp, PlanError ''pipeline_parallel_size exceeds deployment nodes'')] (tp, pp)))"

definition compile_model_intent ::
    "int \<Rightarrow> int \<Rightarrow> model_intent list \<Rightarrow> (string \<times> pyval) list option \<Rightarrow> plan_error + model_intent" where
  "compile_model_intent num_nodes gpus_per_node seen item =
     (case item of
        None \<Rightarrow> Inl (PlanError ''must be a mapping'')
      | Some raw \<Rightarrow>
        and_then (compile_identity seen raw) (\<lambda>model_id.
        and_then (compile_parallelism num_nodes gpus_per_node raw) (\<lambda>(tp, pp).
        and_then (optional_integer (raw_get raw ''num_replicas'') ''num_replicas'') (\<lambda>requested.
        and_then (optional_integer (raw_get raw ''max_num_seqs'') ''max_num_seqs'') (\<lambda>seqs.
        and_then (read_integer (raw_get raw ''max_model_len'') ''max_model_len'' (Some 4096) (Some 1) None) (\<lambda>mlen.
        and_then (read_integer (raw_get raw ''size'') ''size'' (Some 8) (Some 1) None) (\<lambda>size.
        and_then (read_number (raw_get raw ''gpu_memory_utilization'') ''gpu_memory_utilization''
          (Some (9 / 10)) (Some (1 / 10000000)) (Some 1)) (\<lambda>util.
        and_then (read_boolean (raw_get raw ''enforce_eager'') ''enforce_eager'' (Some True)) (\<lambda>eager.
        and_then (read_boolean (raw_get raw ''enable_log_requests'') ''enable_log_requests'' (Some True)) (\<lambda>logs.
        and_then (read_integer (raw_get raw ''num_cpus_per_replica'') ''num_cpus_per_replica'' (Some 4) (Some 1) None) (\<lambda>cpus.
        Inr \<lparr>mi_model_id = model_id, mi_storage_name = storage_name model_id,
             mi_route_name = route_name (storage_name model_id),
             mi_tensor_parallel_size = tp, mi_pipeline_parallel_size = pp, mi_max_model_len = mlen,
             mi_size_b = size, mi_gpu_memory_utilization = util, mi_enforce_eager = eager,
             mi_enable_log_requests = logs, mi_max_num_seqs = seqs, mi_num_cpus_per_replica = cpus,
             mi_requested_replicas = requested\<rparr>)))))))))))"

fun compile_intents_from ::
    "int \<Rightarrow> int \<Rightarrow> model_intent list \<Rightarrow> (string \<times> pyval) list option list \<Rightarrow> plan_error + model_intent list" where
  "compile_intents_from n g seen [] = Inr seen"
| "compile_intents_from n g seen (item # items) =
     and_then (compile_model_intent n g seen item) (\<lambda>i. compile_intents_from n g (seen @ [i]) items)"

definition compile_model_intents ::
    "int \<Rightarrow> int \<Rightarrow> (string \<times> pyval) list option list \<Rightarrow> plan_error + model_intent list" where
  "compile_model_intents n g raw_models =
     (if raw_models = [] then Inl (PlanError ''deployment.models must be a non-empty list'')
      else compile_intents_from n g [] raw_models)"

section \<open>Placement\<close>

record placement_state =
  ps_devices :: "int list list"
  ps_cpus :: "int list"
  ps_placements :: "replica_plan list list"

definition init_placement :: "nat \<Rightarrow> int \<Rightarrow> int \<Rightarrow> nat \<Rightarrow> placement_state" where
  "init_placement n gpus cpus models =
     \<lparr>ps_devices = replicate n (int_range (nat gpus)), ps_cpus = replicate n cpus,
      ps_placements = replicate models []\<rparr>"

definition rank_key :: "placement_state \<Rightarrow> nat \<Rightarrow> nat \<times> int \<times> nat" where
  "rank_key st r = (length (ps_devices st ! r), ps_cpus st ! r, r)"

definition pp_ranks_in_use :: "placement_state \<Rightarrow> nat \<Rightarrow> model_intent \<Rightarrow> int set" where
  "pp_ranks_in_use st k i =
     (if 1 < mi_pipeline_parallel_size i
      then set (concat (map rp_planned_ranks (ps_placements st ! k))) else {})"

definition has_devices :: "placement_state \<Rightarrow> model_intent \<Rightarrow> nat \<Rightarrow> bool" where
  "has_devices st i r = (mi_tensor_parallel_size i \<le> int (length (ps_devices st ! r)))"

definition eligible_primary :: "nat \<Rightarrow> placement_state \<Rightarrow> nat \<Rightarrow> model_intent \<Rightarrow> nat list" where
  "eligible_primary n st k i =
     sort_key (rank_key st) (filter (\<lambda>r. int r \<notin> pp_ranks_in_use st k i \<and> has_devices st i r \<and>
       mi_num_cpus_per_replica i \<le> ps_cpus st ! r) [0..<n])"

definition other_ranks :: "nat \<Rightarrow> placement_state \<Rightarrow> nat \<Rightarrow> model_intent \<Rightarrow> nat \<Rightarrow> nat list" where
  "other_ranks n st k i primary =
     sort_key (rank_key st) (filter (\<lambda>r. r \<noteq> primary \<and> int r \<notin> pp_ranks_in_use st k i \<and>
       has_devices st i r) [0..<n])"

definition select_ranks :: "nat \<Rightarrow> placement_state \<Rightarrow> nat \<Rightarrow> model_intent \<Rightarrow> nat list" where
  "select_ranks n st k i =
     (case find (\<lambda>p. mi_pipeline_parallel_size i - 1 \<le> int (length (other_ranks n st k i p)))
             (eligible_primary n st k i) of
        None \<Rightarrow> []
      | Some p \<Rightarrow> p # take (nat (mi_pipeline_parallel_size i - 1)) (other_ranks n st k i p))"

fun take_devices :: "nat \<Rightarrow> nat list \<Rightarrow> int list list \<Rightarrow> int list list \<times> int list list" where
  "take_devices tp [] devs = ([], devs)"
| "take_devices tp (r # rs) devs =
     (case take_devices tp rs (devs[r := drop tp (devs ! r)]) of
        (groups, devs') \<Rightarrow> (take tp (devs ! r) # groups, devs'))"

definition new_replica :: "model_intent \<Rightarrow> nat \<Rightarrow> nat list \<Rightarrow> int list list \<Rightarrow> replica_plan" where
  "new_replica i index ranks groups =
     \<lparr>rp_replica_id = mi_route_name i @ ''/replica-'' @ show_nat index, rp_replica_index = int index,
      rp_planned_ranks = map int ranks, rp_planned_device_ids = groups,
      rp_tensor_parallel_size = mi_tensor_parallel_size i,
      rp_pipeline_parallel_size = mi_pipeline_parallel_size i,
      rp_gpu_demand = mi_tensor_parallel_size i * mi_pipeline_parallel_size i,
      rp_cpu_demand = mi_num_cpus_per_replica i\<rparr>"

text \<open>\<^verbatim>\<open>reserve\<close>: \<open>None\<close> is the result \<^verbatim>\<open>False\<close>, which changes nothing.\<close>

definition reserve :: "nat \<Rightarrow> model_intent list \<Rightarrow> nat \<Rightarrow> placement_state \<Rightarrow> placement_state option" where
  "reserve n intents k st =
     (let i = intents ! k; selected = select_ranks n st k i in
      if selected = [] then None
      else case take_devices (nat (mi_tensor_parallel_size i)) selected (ps_devices st) of
        (groups, devs) \<Rightarrow>
          let primary = hd selected; placed = ps_placements st ! k
          in Some \<lparr>ps_devices = devs,
               ps_cpus = (ps_cpus st)[primary := ps_cpus st ! primary - mi_num_cpus_per_replica i],
               ps_placements = (ps_placements st)[k := placed @ [new_replica i (length placed) selected groups]]\<rparr>)"

fun reserve_times :: "nat \<Rightarrow> model_intent list \<Rightarrow> nat \<Rightarrow> nat \<Rightarrow> placement_state \<Rightarrow> placement_state option" where
  "reserve_times n intents k 0 st = Some st"
| "reserve_times n intents k (Suc m) st =
     (case reserve n intents k st of None \<Rightarrow> None | Some st' \<Rightarrow> reserve_times n intents k m st')"

text \<open>The explicit reservations, then one replica for every automatic pipeline-parallel model.\<close>

fun place_requested ::
    "nat \<Rightarrow> scale_envelope \<Rightarrow> model_intent list \<Rightarrow> nat list \<Rightarrow> placement_state \<Rightarrow> plan_error + placement_state" where
  "place_requested n env intents [] st = Inr st"
| "place_requested n env intents (k # ks) st =
     (case mi_requested_replicas (intents ! k) of
        None \<Rightarrow> place_requested n env intents ks st
      | Some m \<Rightarrow>
          if se_max_replicas_per_model env < m then Inl (PlanError ''num_replicas exceeds envelope maximum'')
          else case reserve_times n intents k (nat m) st of
            None \<Rightarrow> Inl (PlanError ''num_replicas cannot be placed'')
          | Some st' \<Rightarrow> place_requested n env intents ks st')"

fun place_auto_pp ::
    "nat \<Rightarrow> model_intent list \<Rightarrow> nat list \<Rightarrow> placement_state \<Rightarrow> plan_error + placement_state" where
  "place_auto_pp n intents [] st = Inr st"
| "place_auto_pp n intents (k # ks) st =
     (case reserve n intents k st of
        None \<Rightarrow> Inl (PlanError ''cannot place the required default single PP replica'')
      | Some st' \<Rightarrow> place_auto_pp n intents ks st')"

definition auto_models :: "(model_intent \<Rightarrow> bool) \<Rightarrow> model_intent list \<Rightarrow> nat list" where
  "auto_models P intents =
     filter (\<lambda>k. mi_requested_replicas (intents ! k) = None \<and> P (intents ! k)) [0..<length intents]"

text \<open>One round over the automatic tensor-parallel models, and the rounds until none progresses.\<close>

fun auto_round ::
    "nat \<Rightarrow> scale_envelope \<Rightarrow> model_intent list \<Rightarrow> nat list \<Rightarrow> placement_state \<Rightarrow> placement_state \<times> bool" where
  "auto_round n env intents [] st = (st, False)"
| "auto_round n env intents (k # ks) st =
     (if se_max_replicas_per_model env \<le> int (length (ps_placements st ! k))
      then auto_round n env intents ks st
      else case reserve n intents k st of
        None \<Rightarrow> auto_round n env intents ks st
      | Some st' \<Rightarrow> (fst (auto_round n env intents ks st'), True))"

partial_function (option) auto_rounds ::
    "nat \<Rightarrow> scale_envelope \<Rightarrow> model_intent list \<Rightarrow> nat list \<Rightarrow> placement_state \<Rightarrow> placement_state option" where
  "auto_rounds n env intents ks st =
     (case auto_round n env intents ks st of
        (st', progressed) \<Rightarrow> if progressed then auto_rounds n env intents ks st' else Some st')"

declare auto_rounds.simps [code]

definition model_of_intent :: "model_intent \<Rightarrow> replica_plan list \<Rightarrow> model_plan" where
  "model_of_intent i ps =
     \<lparr>mp_model_id = mi_model_id i, mp_storage_name = mi_storage_name i, mp_route_name = mi_route_name i,
      mp_tensor_parallel_size = mi_tensor_parallel_size i,
      mp_pipeline_parallel_size = mi_pipeline_parallel_size i, mp_max_model_len = mi_max_model_len i,
      mp_size_b = mi_size_b i, mp_gpu_memory_utilization = mi_gpu_memory_utilization i,
      mp_enforce_eager = mi_enforce_eager i, mp_enable_log_requests = mi_enable_log_requests i,
      mp_max_num_seqs = mi_max_num_seqs i, mp_num_cpus_per_replica = mi_num_cpus_per_replica i,
      mp_num_replicas = int (length ps), mp_replicas = ps\<rparr>"

definition finish_placement ::
    "scale_envelope \<Rightarrow> model_intent list \<Rightarrow> placement_state \<Rightarrow> plan_error + model_plan list" where
  "finish_placement env intents st =
     checked
       [(list_ex (\<lambda>g. g = []) (ps_placements st), PlanError ''no feasible replica placement''),
        (se_max_total_replicas env < int (sum_list (map length (ps_placements st))),
          PlanError ''resolved replica count exceeds envelope maximum''),
        (se_max_models env < int (length intents), PlanError ''model count exceeds envelope maximum'')]
       (map2 model_of_intent intents (ps_placements st))"

definition resolve_models ::
    "int \<Rightarrow> int \<Rightarrow> int \<Rightarrow> scale_envelope \<Rightarrow> model_intent list \<Rightarrow> (plan_error + model_plan list) option" where
  "resolve_models num_nodes gpus cpus env intents =
     (let n = nat num_nodes in
      case and_then (place_requested n env intents [0..<length intents]
                       (init_placement n gpus cpus (length intents)))
             (place_auto_pp n intents (auto_models (\<lambda>i. 1 < mi_pipeline_parallel_size i) intents)) of
        Inl e \<Rightarrow> Some (Inl e)
      | Inr st \<Rightarrow>
          map_option (finish_placement env intents)
            (auto_rounds n env intents (auto_models (\<lambda>i. mi_pipeline_parallel_size i = 1) intents) st))"

section \<open>One reservation\<close>

subsection \<open>The selected ranks\<close>

lemma in_eligible_primary:
  "r \<in> set (eligible_primary n st k i) \<longleftrightarrow>
     r < n \<and> int r \<notin> pp_ranks_in_use st k i \<and> has_devices st i r \<and>
     mi_num_cpus_per_replica i \<le> ps_cpus st ! r"
  by (auto simp: eligible_primary_def)

lemma in_other_ranks:
  "r \<in> set (other_ranks n st k i p) \<longleftrightarrow>
     r < n \<and> r \<noteq> p \<and> int r \<notin> pp_ranks_in_use st k i \<and> has_devices st i r"
  by (auto simp: other_ranks_def)

lemma distinct_other_ranks [simp]: "distinct (other_ranks n st k i p)"
  by (simp add: other_ranks_def)

lemma select_ranks_cases:
  assumes "select_ranks n st k i \<noteq> []"
  obtains p where "select_ranks n st k i = p # take (nat (mi_pipeline_parallel_size i - 1)) (other_ranks n st k i p)"
    and "p \<in> set (eligible_primary n st k i)"
    and "mi_pipeline_parallel_size i - 1 \<le> int (length (other_ranks n st k i p))"
  using assms by (auto simp: select_ranks_def find_Some_iff in_set_conv_nth split: option.splits)

lemma select_ranks_props:
  assumes ne: "select_ranks n st k i \<noteq> []" and pp: "1 \<le> mi_pipeline_parallel_size i"
  shows "distinct (select_ranks n st k i)"
    and "int (length (select_ranks n st k i)) = mi_pipeline_parallel_size i"
    and "r \<in> set (select_ranks n st k i) \<Longrightarrow> r < n \<and> has_devices st i r \<and> int r \<notin> pp_ranks_in_use st k i"
    and "mi_num_cpus_per_replica i \<le> ps_cpus st ! hd (select_ranks n st k i)"
    and "hd (select_ranks n st k i) < n"
proof -
  from ne obtain p where
    sel: "select_ranks n st k i = p # take (nat (mi_pipeline_parallel_size i - 1)) (other_ranks n st k i p)"
    and p: "p \<in> set (eligible_primary n st k i)"
    and len: "mi_pipeline_parallel_size i - 1 \<le> int (length (other_ranks n st k i p))"
    by (rule select_ranks_cases)
  let ?o = "take (nat (mi_pipeline_parallel_size i - 1)) (other_ranks n st k i p)"
  have sub: "r \<in> set (other_ranks n st k i p)" if "r \<in> set ?o" for r
    using that by (rule in_set_takeD)
  then have "p \<notin> set ?o" by (auto simp: in_other_ranks)
  then show "distinct (select_ranks n st k i)" by (simp add: sel)
  show "int (length (select_ranks n st k i)) = mi_pipeline_parallel_size i"
    using len pp by (simp add: sel min_def) linarith
  show "r < n \<and> has_devices st i r \<and> int r \<notin> pp_ranks_in_use st k i"
    if "r \<in> set (select_ranks n st k i)"
    using that sub p by (auto simp: sel in_other_ranks in_eligible_primary)
  show "mi_num_cpus_per_replica i \<le> ps_cpus st ! hd (select_ranks n st k i)"
    "hd (select_ranks n st k i) < n"
    using p by (auto simp: sel in_eligible_primary)
qed

text \<open>For one stage, a rank is found exactly if some rank has the devices and the CPUs.\<close>

lemma select_ranks_single:
  assumes "mi_pipeline_parallel_size i = 1"
  shows "select_ranks n st k i = [] \<longleftrightarrow>
    (\<forall>r < n. has_devices st i r \<longrightarrow> ps_cpus st ! r < mi_num_cpus_per_replica i)"
proof -
  have "select_ranks n st k i = [] \<longleftrightarrow> eligible_primary n st k i = []"
    using assms by (cases "eligible_primary n st k i") (auto simp: select_ranks_def)
  also have "\<dots> \<longleftrightarrow> (\<forall>r. r \<notin> set (eligible_primary n st k i))" by auto
  finally show ?thesis
    using assms by (auto simp: in_eligible_primary pp_ranks_in_use_def not_le)
qed

subsection \<open>The booked devices\<close>

lemma take_devices_length: "length (snd (take_devices tp rs devs)) = length devs"
  by (induction tp rs devs rule: take_devices.induct) (auto split: prod.splits)

lemma take_devices_groups:
  "distinct rs \<Longrightarrow> (\<And>r. r \<in> set rs \<Longrightarrow> r < length devs) \<Longrightarrow>
     fst (take_devices tp rs devs) = map (\<lambda>r. take tp (devs ! r)) rs"
proof (induction tp rs devs rule: take_devices.induct)
  case (2 tp r rs devs)
  let ?d = "devs[r := drop tp (devs ! r)]"
  have "fst (take_devices tp rs ?d) = map (\<lambda>r. take tp (?d ! r)) rs"
    using 2 by simp
  also have "\<dots> = map (\<lambda>r. take tp (devs ! r)) rs"
    using "2.prems" by (intro map_cong) (auto simp: nth_list_update)
  finally show ?case by (auto split: prod.splits)
qed simp

lemma take_devices_rest:
  "r < length devs \<Longrightarrow> \<exists>m. snd (take_devices tp rs devs) ! r = drop m (devs ! r)"
proof (induction tp rs devs rule: take_devices.induct)
  case (2 tp q rs devs)
  then obtain m where "snd (take_devices tp rs (devs[q := drop tp (devs ! q)])) ! r
      = drop m (devs[q := drop tp (devs ! q)] ! r)"
    by fastforce
  then show ?case
    using 2(2) by (cases "r = q") (auto split: prod.splits)
qed (auto intro: exI [of _ 0])

definition free_slots :: "int list list \<Rightarrow> (int \<times> int) multiset" where
  "free_slots devs = (\<Sum>r<length devs. image_mset (Pair (int r)) (mset (devs ! r)))"

lemma free_slots_update:
  assumes "r < length devs"
  shows "free_slots (devs[r := xs]) + image_mset (Pair (int r)) (mset (devs ! r)) =
    free_slots devs + image_mset (Pair (int r)) (mset xs)"
proof -
  let ?f = "\<lambda>d q. image_mset (Pair (int q)) (mset (d ! q))"
  have split: "sum (?f d) {..<length devs} = ?f d r + sum (?f d) ({..<length devs} - {r})" for d
    using assms by (intro sum.remove) auto
  have "sum (?f (devs[r := xs])) ({..<length devs} - {r}) = sum (?f devs) ({..<length devs} - {r})"
    by (intro sum.cong) auto
  then show ?thesis
    using assms by (simp add: free_slots_def split ac_simps)
qed

definition pair_slots :: "int list \<Rightarrow> int list list \<Rightarrow> (int \<times> int) list" where
  "pair_slots rs gs = concat (map (\<lambda>(r, g). map (Pair r) g) (zip rs gs))"

lemma take_devices_free:
  "(\<And>r. r \<in> set rs \<Longrightarrow> r < length devs) \<Longrightarrow>
     free_slots (snd (take_devices tp rs devs)) +
       mset (pair_slots (map int rs) (fst (take_devices tp rs devs))) = free_slots devs"
proof (induction tp rs devs rule: take_devices.induct)
  case (1 tp devs)
  show ?case by (simp add: pair_slots_def)
next
  case (2 tp r rs devs)
  let ?d = "devs[r := drop tp (devs ! r)]"
  have r: "r < length devs" using 2 by simp
  obtain gs d' where td: "take_devices tp rs ?d = (gs, d')" by fastforce
  have IH: "free_slots d' + mset (pair_slots (map int rs) gs) = free_slots ?d"
    using 2 td by simp
  have "mset (devs ! r) = mset (take tp (devs ! r)) + mset (drop tp (devs ! r))"
    by (metis append_take_drop_id mset_append)
  with free_slots_update [OF r, of "drop tp (devs ! r)"]
  have step: "free_slots devs = free_slots ?d + image_mset (Pair (int r)) (mset (take tp (devs ! r)))"
    by (simp add: add.assoc [symmetric])
  have "mset (pair_slots (map int (r # rs)) (take tp (devs ! r) # gs)) =
      image_mset (Pair (int r)) (mset (take tp (devs ! r))) + mset (pair_slots (map int rs) gs)"
    by (simp add: pair_slots_def)
  then show ?case by (simp add: td step flip: IH)
qed

section \<open>The placement invariant\<close>

definition intent_ok :: "nat \<Rightarrow> int \<Rightarrow> model_intent \<Rightarrow> bool" where
  "intent_ok n gpus i =
     (1 \<le> mi_tensor_parallel_size i \<and> mi_tensor_parallel_size i \<le> gpus \<and>
      1 \<le> mi_pipeline_parallel_size i \<and> mi_pipeline_parallel_size i \<le> int n \<and>
      1 \<le> mi_num_cpus_per_replica i \<and> mi_route_name i \<noteq> [])"

definition used_slots :: "placement_state \<Rightarrow> (int \<times> int) multiset" where
  "used_slots st = (\<Sum>p\<in>#mset (concat (ps_placements st)). mset (replica_slots p))"

definition all_slots :: "nat \<Rightarrow> int \<Rightarrow> (int \<times> int) multiset" where
  "all_slots n gpus = free_slots (replicate n (int_range (nat gpus)))"

text \<open>What is placed for one model follows its intent, in order, on disjoint ranks if it has stages.\<close>

definition model_placed :: "model_intent \<Rightarrow> replica_plan list \<Rightarrow> bool" where
  "model_placed i ps =
     (map rp_replica_index ps = map int [0..<length ps] \<and>
      list_all (\<lambda>p. first_failure (replica_plan_checks p) = None \<and>
        rp_tensor_parallel_size p = mi_tensor_parallel_size i \<and>
        rp_pipeline_parallel_size p = mi_pipeline_parallel_size i \<and>
        rp_cpu_demand p = mi_num_cpus_per_replica i) ps \<and>
      (1 < mi_pipeline_parallel_size i \<longrightarrow> distinct (concat (map rp_planned_ranks ps))))"

definition placement_inv ::
    "nat \<Rightarrow> int \<Rightarrow> int \<Rightarrow> model_intent list \<Rightarrow> placement_state \<Rightarrow> bool" where
  "placement_inv n gpus cpus intents st =
     (length (ps_devices st) = n \<and> length (ps_cpus st) = n \<and>
      length (ps_placements st) = length intents \<and>
      used_slots st + free_slots (ps_devices st) = all_slots n gpus \<and>
      (\<forall>r < n. distinct (ps_devices st ! r) \<and> set (ps_devices st ! r) \<subseteq> {0..<gpus}) \<and>
      (\<forall>r < n. ps_cpus st ! r + cpu_charged (int r) (concat (ps_placements st)) = cpus \<and>
         0 \<le> ps_cpus st ! r) \<and>
      (\<forall>k < length intents. model_placed (intents ! k) (ps_placements st ! k)))"

lemma mset_concat_snoc_at:
  "k < length xss \<Longrightarrow> mset (concat (xss[k := xss ! k @ [x]])) = mset (concat xss) + {#x#}"
proof (induction xss arbitrary: k)
  case (Cons xs xss)
  then show ?case by (cases k) auto
qed simp

lemma cpu_charged_mset: "cpu_charged r ps = (\<Sum>p\<in>#filter_mset (\<lambda>p. hd (rp_planned_ranks p) = r) (mset ps). rp_cpu_demand p)"
  by (simp add: cpu_charged_def sum_mset_sum_list [symmetric])

lemma placement_inv_init: "0 \<le> cpus \<Longrightarrow> placement_inv n gpus cpus intents (init_placement n gpus cpus (length intents))"
  by (auto simp: placement_inv_def init_placement_def used_slots_def all_slots_def model_placed_def
      cpu_charged_mset int_range_set concat_replicate_trivial split: if_splits)

text \<open>The replica a successful reservation adds.\<close>

lemma reserve_Some:
  assumes res: "reserve n intents k st = Some st'" and inv: "placement_inv n gpus cpus intents st"
    and i: "intent_ok n gpus (intents ! k)"
  obtains p where
    "ps_placements st' = (ps_placements st)[k := ps_placements st ! k @ [p]]"
    and "first_failure (replica_plan_checks p) = None"
    and "rp_replica_index p = int (length (ps_placements st ! k))"
    and "rp_tensor_parallel_size p = mi_tensor_parallel_size (intents ! k)"
    and "rp_pipeline_parallel_size p = mi_pipeline_parallel_size (intents ! k)"
    and "rp_cpu_demand p = mi_num_cpus_per_replica (intents ! k)"
    and "1 < mi_pipeline_parallel_size (intents ! k) \<Longrightarrow>
      set (rp_planned_ranks p) \<inter> set (concat (map rp_planned_ranks (ps_placements st ! k))) = {}"
    and "free_slots (ps_devices st') + mset (replica_slots p) = free_slots (ps_devices st)"
    and "length (ps_devices st') = length (ps_devices st)"
    and "\<And>r. r < n \<Longrightarrow> \<exists>m. ps_devices st' ! r = drop m (ps_devices st ! r)"
    and "hd (rp_planned_ranks p) = int (hd (select_ranks n st k (intents ! k)))"
    and "ps_cpus st' = (ps_cpus st)[hd (select_ranks n st k (intents ! k)) :=
      ps_cpus st ! hd (select_ranks n st k (intents ! k)) - mi_num_cpus_per_replica (intents ! k)]"
    and "mi_num_cpus_per_replica (intents ! k) \<le> ps_cpus st ! hd (select_ranks n st k (intents ! k))"
    and "hd (select_ranks n st k (intents ! k)) < n"
proof -
  define i where "i = intents ! k"
  define sel where "sel = select_ranks n st k i"
  define tp where "tp = nat (mi_tensor_parallel_size i)"
  define gd where "gd = take_devices tp sel (ps_devices st)"
  define p where "p = new_replica i (length (ps_placements st ! k)) sel (fst gd)"
  note I = inv [unfolded placement_inv_def]
  have io: "1 \<le> mi_tensor_parallel_size i" "1 \<le> mi_pipeline_parallel_size i" "1 \<le> mi_num_cpus_per_replica i"
    using assms(3) by (auto simp: intent_ok_def i_def)
  have ne: "sel \<noteq> []" using res by (auto simp: reserve_def Let_def sel_def i_def split: if_splits)
  note S = select_ranks_props [OF ne [unfolded sel_def] io(2), folded sel_def]
  have lt: "r < length (ps_devices st)" if "r \<in> set sel" for r using S(3) [OF that] I by simp
  have st': "st' = \<lparr>ps_devices = snd gd, ps_cpus = (ps_cpus st)[hd sel := ps_cpus st ! hd sel - mi_num_cpus_per_replica i],
      ps_placements = (ps_placements st)[k := ps_placements st ! k @ [p]]\<rparr>"
    using res ne by (auto simp: reserve_def Let_def sel_def i_def gd_def tp_def p_def split: prod.splits)
  have groups: "fst gd = map (\<lambda>r. take tp (ps_devices st ! r)) sel"
    unfolding gd_def using S(1) lt by (rule take_devices_groups)
  have group: "int (length g) = mi_tensor_parallel_size i \<and> distinct g \<and> (\<forall>d \<in> set g. 0 \<le> d)"
    if g: "g \<in> set (fst gd)" for g
  proof -
    from g obtain r where r: "r \<in> set sel" "g = take tp (ps_devices st ! r)" by (auto simp: groups)
    then have "tp \<le> length (ps_devices st ! r)" "r < n"
      using S(3) [OF r(1)] by (auto simp: has_devices_def tp_def)
    moreover from \<open>r < n\<close> have "distinct (ps_devices st ! r)" "set (ps_devices st ! r) \<subseteq> {0..<gpus}"
      using I by auto
    ultimately show ?thesis using r(2) io(1) by (auto simp: tp_def distinct_take dest!: in_set_takeD)
  qed
  have "1 \<le> mi_tensor_parallel_size i * mi_pipeline_parallel_size i"
    using io mult_mono [of 1 "mi_tensor_parallel_size i" 1 "mi_pipeline_parallel_size i"] by simp
  then have check: "first_failure (replica_plan_checks p) = None"
    using group S(1,2) ne io
    by (auto simp: replica_plan_checks_def p_def new_replica_def list_ex_iff distinct_map groups
        not_less)
  have slots: "replica_slots p = pair_slots (map int sel) (fst gd)"
    by (simp add: replica_slots_def pair_slots_def p_def new_replica_def)
  show thesis
  proof (rule that [of p])
    show "free_slots (ps_devices st') + mset (replica_slots p) = free_slots (ps_devices st)"
      using take_devices_free [of sel "ps_devices st" tp] lt by (simp add: st' slots gd_def)
    show "\<exists>m. ps_devices st' ! r = drop m (ps_devices st ! r)" if "r < n" for r
      using take_devices_rest [of r "ps_devices st" tp sel] that I by (simp add: st' gd_def)
    show "set (rp_planned_ranks p) \<inter> set (concat (map rp_planned_ranks (ps_placements st ! k))) = {}"
      if "1 < mi_pipeline_parallel_size (intents ! k)"
      using S(3) that by (fastforce simp: p_def new_replica_def pp_ranks_in_use_def i_def)
    show "hd (rp_planned_ranks p) = int (hd (select_ranks n st k (intents ! k)))"
      using ne by (simp add: p_def new_replica_def hd_map sel_def i_def)
  qed (use S(4,5) check in \<open>auto simp: st' p_def new_replica_def sel_def i_def gd_def take_devices_length\<close>)
qed

lemma placement_inv_reserve:
  assumes res: "reserve n intents k st = Some st'" and inv: "placement_inv n gpus cpus intents st"
    and i: "intent_ok n gpus (intents ! k)" and k: "k < length intents"
  shows "placement_inv n gpus cpus intents st' \<and>
    length (ps_placements st' ! k) = Suc (length (ps_placements st ! k)) \<and>
    (\<forall>j. j \<noteq> k \<longrightarrow> ps_placements st' ! j = ps_placements st ! j) \<and>
    size (free_slots (ps_devices st')) < size (free_slots (ps_devices st))"
proof -
  note I = inv [unfolded placement_inv_def]
  define h where "h = hd (select_ranks n st k (intents ! k))"
  obtain p where p: "ps_placements st' = (ps_placements st)[k := ps_placements st ! k @ [p]]"
      "first_failure (replica_plan_checks p) = None"
      "rp_replica_index p = int (length (ps_placements st ! k))"
      "rp_tensor_parallel_size p = mi_tensor_parallel_size (intents ! k)"
      "rp_pipeline_parallel_size p = mi_pipeline_parallel_size (intents ! k)"
      "rp_cpu_demand p = mi_num_cpus_per_replica (intents ! k)"
      "1 < mi_pipeline_parallel_size (intents ! k) \<Longrightarrow>
        set (rp_planned_ranks p) \<inter> set (concat (map rp_planned_ranks (ps_placements st ! k))) = {}"
    and free: "free_slots (ps_devices st') + mset (replica_slots p) = free_slots (ps_devices st)"
    and len: "length (ps_devices st') = length (ps_devices st)"
    and devs: "\<And>r. r < n \<Longrightarrow> \<exists>m. ps_devices st' ! r = drop m (ps_devices st ! r)"
    and hd: "hd (rp_planned_ranks p) = int h"
    and cpus: "ps_cpus st' = (ps_cpus st)[h := ps_cpus st ! h - mi_num_cpus_per_replica (intents ! k)]"
      "mi_num_cpus_per_replica (intents ! k) \<le> ps_cpus st ! h" "h < n"
    using reserve_Some [OF res inv i, folded h_def] by metis
  have k': "k < length (ps_placements st)" using I k by simp
  note conc = mset_concat_snoc_at [OF k', of p, folded p(1)]
  have used: "used_slots st' = used_slots st + mset (replica_slots p)"
    by (simp add: used_slots_def conc)
  have charged: "cpu_charged r (concat (ps_placements st'))
      = cpu_charged r (concat (ps_placements st)) + (if int h = r then mi_num_cpus_per_replica (intents ! k) else 0)" for r
    by (simp add: cpu_charged_mset conc hd p(6))
  have placed: "model_placed (intents ! k) (ps_placements st ! k @ [p])"
    using I k p(2-7) replica_plan_checks_None(2) [OF p(2)]
    by (auto simp: model_placed_def)
  have "placement_inv n gpus cpus intents st'"
    unfolding placement_inv_def
  proof (intro conjI allI impI)
    show "used_slots st' + free_slots (ps_devices st') = all_slots n gpus"
      using I by (simp add: used flip: free) (simp add: ac_simps)
    fix r assume r: "r < n"
    then obtain m where m: "ps_devices st' ! r = drop m (ps_devices st ! r)" using devs by blast
    have "set (drop m (ps_devices st ! r)) \<subseteq> set (ps_devices st ! r)" by (rule set_drop_subset)
    also have "\<dots> \<subseteq> {0..<gpus}" using I r by blast
    finally show "set (ps_devices st' ! r) \<subseteq> {0..<gpus}" by (simp add: m)
    show "distinct (ps_devices st' ! r)" using I r by (simp add: m)
  next
    show "ps_cpus st' ! r + cpu_charged (int r) (concat (ps_placements st')) = cpus" "0 \<le> ps_cpus st' ! r"
      if "r < n" for r
      using I that cpus by (auto simp: charged nth_list_update)
    show "model_placed (intents ! j) (ps_placements st' ! j)" if "j < length intents" for j
      using I that placed k' by (auto simp: p(1) nth_list_update)
  qed (use I len cpus in \<open>auto simp: p(1)\<close>)
  moreover have "0 < length (replica_slots p)"
  proof -
    have "0 < rp_gpu_demand p"
      using p(2) by (simp add: replica_plan_checks_def split: if_splits)
    with replica_plan_checks_None(6) [OF p(2)] show ?thesis by linarith
  qed
  then have "size (free_slots (ps_devices st')) < size (free_slots (ps_devices st))"
    by (simp flip: free)
  ultimately show ?thesis using k' by (simp add: p(1))
qed

section \<open>The phases of the placement\<close>

definition placed_count :: "placement_state \<Rightarrow> nat \<Rightarrow> nat" where
  "placed_count st k = length (ps_placements st ! k)"

definition intents_ok :: "nat \<Rightarrow> int \<Rightarrow> model_intent list \<Rightarrow> bool" where
  "intents_ok n gpus intents = list_all (intent_ok n gpus) intents"

lemma intents_okD: "intents_ok n gpus intents \<Longrightarrow> k < length intents \<Longrightarrow> intent_ok n gpus (intents ! k)"
  by (simp add: intents_ok_def list_all_length)

text \<open>What the steps keep and count, for a fixed cluster and fixed intents.\<close>

lemma reserve_step:
  assumes "intents_ok n gpus intents" "placement_inv n gpus cpus intents st" "k < length intents"
    and "reserve n intents k st = Some st'"
  shows "placement_inv n gpus cpus intents st'"
    and "placed_count st' j = placed_count st j + (if j = k then 1 else 0)"
    and "size (free_slots (ps_devices st')) < size (free_slots (ps_devices st))"
  using placement_inv_reserve [OF assms(4,2) intents_okD [OF assms(1,3)] assms(3)]
  by (auto simp: placed_count_def)

lemma reserve_times_step:
  assumes "intents_ok n gpus intents" "placement_inv n gpus cpus intents st" "k < length intents"
    and "reserve_times n intents k m st = Some st'"
  shows "placement_inv n gpus cpus intents st' \<and>
    placed_count st' j = placed_count st j + (if j = k then m else 0)"
  using assms
proof (induction m arbitrary: st)
  case (Suc m)
  then obtain st1 where st1: "reserve n intents k st = Some st1" "reserve_times n intents k m st1 = Some st'"
    by (auto split: option.splits)
  from Suc.IH [OF Suc.prems(1) _ Suc.prems(3) st1(2)] reserve_step [OF Suc.prems(1,2,3) st1(1)]
  show ?case by simp
qed simp

definition requested_count :: "model_intent \<Rightarrow> nat" where
  "requested_count i = (case mi_requested_replicas i of None \<Rightarrow> 0 | Some m \<Rightarrow> nat m)"

lemma place_requested_step:
  assumes "intents_ok n gpus intents" "placement_inv n gpus cpus intents st"
    and "distinct ks" "\<forall>k \<in> set ks. k < length intents"
    and "place_requested n env intents ks st = Inr st'"
  shows "placement_inv n gpus cpus intents st' \<and>
    placed_count st' j = placed_count st j + (if j \<in> set ks then requested_count (intents ! j) else 0) \<and>
    (j \<in> set ks \<longrightarrow> mi_requested_replicas (intents ! j) \<noteq> None \<longrightarrow>
      the (mi_requested_replicas (intents ! j)) \<le> se_max_replicas_per_model env)"
  using assms
proof (induction ks arbitrary: st)
  case (Cons k ks)
  show ?case
  proof (cases "mi_requested_replicas (intents ! k)")
    case None
    with Cons.IH [of st] Cons.prems show ?thesis by (auto simp: requested_count_def)
  next
    case (Some m)
    with Cons.prems obtain st1 where st1: "reserve_times n intents k (nat m) st = Some st1"
        "place_requested n env intents ks st1 = Inr st'" "m \<le> se_max_replicas_per_model env"
      by (auto split: if_splits option.splits)
    have "k < length intents" using Cons.prems(4) by simp
    note R = reserve_times_step [OF Cons.prems(1,2) this st1(1)]
    from Cons.IH [of st1] R Cons.prems st1 Some show ?thesis by (auto simp: requested_count_def)
  qed
qed simp

lemma place_auto_pp_step:
  assumes "intents_ok n gpus intents" "placement_inv n gpus cpus intents st"
    and "distinct ks" "\<forall>k \<in> set ks. k < length intents"
    and "place_auto_pp n intents ks st = Inr st'"
  shows "placement_inv n gpus cpus intents st' \<and>
    placed_count st' j = placed_count st j + (if j \<in> set ks then 1 else 0)"
  using assms
proof (induction ks arbitrary: st)
  case (Cons k ks)
  then obtain st1 where st1: "reserve n intents k st = Some st1" "place_auto_pp n intents ks st1 = Inr st'"
    by (auto split: option.splits)
  have "k < length intents" using Cons.prems(4) by simp
  note R = reserve_step [OF Cons.prems(1,2) this st1(1)]
  from Cons.IH [OF Cons.prems(1) R(1) _ _ st1(2)] R(2) Cons.prems(3,4) show ?case by auto
qed simp

text \<open>The state in which no automatic model can progress.\<close>

definition settled ::
    "nat \<Rightarrow> scale_envelope \<Rightarrow> model_intent list \<Rightarrow> nat list \<Rightarrow> placement_state \<Rightarrow> bool" where
  "settled n env intents ks st =
     (\<forall>k \<in> set ks. se_max_replicas_per_model env \<le> int (placed_count st k) \<or>
        reserve n intents k st = None)"

lemma auto_round_step:
  assumes "intents_ok n gpus intents" "placement_inv n gpus cpus intents st"
    and "\<forall>k \<in> set ks. k < length intents"
    and "auto_round n env intents ks st = (st', progressed)"
  shows "placement_inv n gpus cpus intents st' \<and>
    placed_count st j \<le> placed_count st' j \<and> (j \<notin> set ks \<longrightarrow> placed_count st' j = placed_count st j) \<and>
    int (placed_count st' j) \<le> max (int (placed_count st j)) (se_max_replicas_per_model env) \<and>
    (if progressed then size (free_slots (ps_devices st')) < size (free_slots (ps_devices st))
     else st' = st \<and> settled n env intents ks st)"
  using assms
proof (induction ks arbitrary: st st' progressed)
  case (Cons k ks)
  have k: "k < length intents" using Cons.prems(3) by simp
  show ?case
  proof (cases "se_max_replicas_per_model env \<le> int (length (ps_placements st ! k)) \<or> reserve n intents k st = None")
    case True
    with Cons.prems(4) have "auto_round n env intents ks st = (st', progressed)"
      by (auto split: if_splits)
    from Cons.IH [OF Cons.prems(1,2) _ this] Cons.prems(3) True show ?thesis
      by (auto simp: settled_def placed_count_def split: if_splits)
  next
    case False
    then obtain st1 where st1: "reserve n intents k st = Some st1" by auto
    obtain st2 b where st2: "auto_round n env intents ks st1 = (st2, b)" by fastforce
    with Cons.prems(4) False st1 have eq: "st' = st2" "progressed" by auto
    note R = reserve_step [OF Cons.prems(1,2) k st1]
    note IH = Cons.IH [OF Cons.prems(1) R(1) _ st2]
    from IH R(2,3) Cons.prems(3) False eq show ?thesis
      by (auto simp: placed_count_def [of st k, symmetric] split: if_splits)
  qed
qed (simp add: settled_def)

text \<open>The rounds end, because every round that makes progress uses up devices.\<close>

lemma auto_rounds_total:
  assumes "intents_ok n gpus intents" "placement_inv n gpus cpus intents st"
    and "\<forall>k \<in> set ks. k < length intents"
  shows "\<exists>st'. auto_rounds n env intents ks st = Some st' \<and> placement_inv n gpus cpus intents st' \<and>
    settled n env intents ks st' \<and>
    (\<forall>j. placed_count st j \<le> placed_count st' j \<and> (j \<notin> set ks \<longrightarrow> placed_count st' j = placed_count st j) \<and>
      int (placed_count st' j) \<le> max (int (placed_count st j)) (se_max_replicas_per_model env))"
  using assms
proof (induction "size (free_slots (ps_devices st))" arbitrary: st rule: less_induct)
  case less
  obtain st1 b where st1: "auto_round n env intents ks st = (st1, b)" by fastforce
  note R = auto_round_step [OF less.prems st1]
  show ?case
  proof (cases b)
    case True
    with R have "size (free_slots (ps_devices st1)) < size (free_slots (ps_devices st))"
        "placement_inv n gpus cpus intents st1" by auto
    from less.hyps [OF this(1) less.prems(1) this(2) less.prems(3)] obtain st2 where
      st2: "auto_rounds n env intents ks st1 = Some st2" "placement_inv n gpus cpus intents st2"
        "settled n env intents ks st2"
        "\<And>j. placed_count st1 j \<le> placed_count st2 j \<and> (j \<notin> set ks \<longrightarrow> placed_count st2 j = placed_count st1 j) \<and>
          int (placed_count st2 j) \<le> max (int (placed_count st1 j)) (se_max_replicas_per_model env)" by blast
    have "auto_rounds n env intents ks st = Some st2"
      using st1 st2(1) True by (subst auto_rounds.simps) simp
    moreover have "placed_count st j \<le> placed_count st2 j \<and> (j \<notin> set ks \<longrightarrow> placed_count st2 j = placed_count st j) \<and>
        int (placed_count st2 j) \<le> max (int (placed_count st j)) (se_max_replicas_per_model env)" for j
      using st2(4) [of j] R [of j] by auto
    ultimately show ?thesis using st2(2,3) by blast
  next
    case False
    with R have "st1 = st" "settled n env intents ks st" by auto
    with False st1 less.prems show ?thesis
      by (intro exI [of _ st]) (subst auto_rounds.simps, auto)
  qed
qed

section \<open>The result of the placement\<close>

definition auto_tp_models :: "model_intent list \<Rightarrow> nat list" where
  "auto_tp_models intents = auto_models (\<lambda>i. mi_pipeline_parallel_size i = 1) intents"

definition auto_pp_models :: "model_intent list \<Rightarrow> nat list" where
  "auto_pp_models intents = auto_models (\<lambda>i. 1 < mi_pipeline_parallel_size i) intents"

lemma auto_models_props:
  "distinct (auto_models P intents)" "\<forall>k \<in> set (auto_models P intents). k < length intents"
  "k \<in> set (auto_models P intents) \<longleftrightarrow>
     k < length intents \<and> mi_requested_replicas (intents ! k) = None \<and> P (intents ! k)"
  by (auto simp: auto_models_def)

text \<open>The number of replicas the compiler promises for an intent.\<close>

definition promised_count :: "scale_envelope \<Rightarrow> model_intent \<Rightarrow> nat \<Rightarrow> bool" where
  "promised_count env i m =
     (case mi_requested_replicas i of
        Some q \<Rightarrow> m = nat q \<and> q \<le> se_max_replicas_per_model env
      | None \<Rightarrow> if 1 < mi_pipeline_parallel_size i then m = 1
                else 1 \<le> m \<and> int m \<le> se_max_replicas_per_model env)"

lemma resolve_models_total:
  assumes ok: "intents_ok (nat n) gpus intents" and cpus: "0 \<le> cpus"
  shows "\<exists>res. resolve_models n gpus cpus env intents = Some res \<and>
    (\<forall>ms. res = Inr ms \<longrightarrow> (\<exists>st. ms = map2 model_of_intent intents (ps_placements st) \<and>
       placement_inv (nat n) gpus cpus intents st \<and>
       settled (nat n) env intents (auto_tp_models intents) st \<and>
       (\<forall>k < length intents. promised_count env (intents ! k) (placed_count st k))))"
proof (cases "and_then (place_requested (nat n) env intents [0..<length intents]
      (init_placement (nat n) gpus cpus (length intents)))
      (place_auto_pp (nat n) intents (auto_pp_models intents))")
  case (Inl e)
  then show ?thesis by (simp add: resolve_models_def auto_pp_models_def Let_def)
next
  case (Inr st2)
  then obtain st1 where st1: "place_requested (nat n) env intents [0..<length intents]
        (init_placement (nat n) gpus cpus (length intents)) = Inr st1"
    and st2: "place_auto_pp (nat n) intents (auto_pp_models intents) st1 = Inr st2"
    by (auto simp: and_then_Inr)
  note P1 = place_requested_step [OF ok placement_inv_init [OF cpus] distinct_upt _ st1, simplified]
  note P2 = place_auto_pp_step [OF ok _ _ _ st2, of cpus, unfolded auto_pp_models_def,
      OF _ auto_models_props(1,2)]
  have inv1: "placement_inv (nat n) gpus cpus intents st1" using P1 by blast
  note Q2 = P2 [OF inv1]
  have inv2: "placement_inv (nat n) gpus cpus intents st2" using Q2 by blast
  obtain st3 where st3: "auto_rounds (nat n) env intents (auto_tp_models intents) st2 = Some st3"
      "placement_inv (nat n) gpus cpus intents st3" "settled (nat n) env intents (auto_tp_models intents) st3"
      "\<And>j. (j \<notin> set (auto_tp_models intents) \<longrightarrow> placed_count st3 j = placed_count st2 j) \<and>
        int (placed_count st3 j) \<le> max (int (placed_count st2 j)) (se_max_replicas_per_model env)"
    using auto_rounds_total [OF ok inv2, of "auto_tp_models intents" env] auto_models_props(2)
    unfolding auto_tp_models_def by metis
  have res: "resolve_models n gpus cpus env intents = Some (finish_placement env intents st3)"
    using Inr st3(1) by (simp add: resolve_models_def auto_pp_models_def auto_tp_models_def Let_def)
  have "promised_count env (intents ! k) (placed_count st3 k)"
    if k: "k < length intents" and fin: "finish_placement env intents st3 = Inr ms" for k ms
  proof -
    have init: "placed_count (init_placement (nat n) gpus cpus (length intents)) k = 0"
      using k by (simp add: placed_count_def init_placement_def)
    have "placed_count st3 k \<noteq> 0"
      using fin k st3(2)
      by (auto simp: finish_placement_def check_simps list_ex_iff placement_inv_def placed_count_def
          in_set_conv_nth)
    moreover have "1 \<le> mi_pipeline_parallel_size (intents ! k)"
      using intents_okD [OF ok k] by (simp add: intent_ok_def)
    ultimately show ?thesis
      using P1 [of k] Q2 [of k] st3(4) [of k] k init
      by (auto simp: promised_count_def requested_count_def auto_tp_models_def auto_models_props(3)
          split: option.splits if_splits)
  qed
  with st3(2,3) res show ?thesis
    by (auto simp: finish_placement_def check_simps)
qed

subsection \<open>A finished placement is a valid topology\<close>

lemma all_replicas_placed:
  "length pss = length intents \<Longrightarrow> all_replicas (map2 model_of_intent intents pss) = concat pss"
proof (induction pss intents rule: list_induct2)
  case (Cons ps pss i intents)
  then show ?case by (simp add: all_replicas_def model_of_intent_def)
qed (simp add: all_replicas_def)

lemma map_placed:
  assumes "length pss = length intents"
  shows "map mp_model_id (map2 model_of_intent intents pss) = map mi_model_id intents"
    and "map mp_route_name (map2 model_of_intent intents pss) = map mi_route_name intents"
  using assms by (induction pss intents rule: list_induct2) (simp_all add: model_of_intent_def)

lemma all_slots_list:
  "all_slots n gpus = mset (concat (map (\<lambda>r. map (Pair (int r)) (int_range (nat gpus))) [0..<n]))"
  by (simp add: all_slots_def free_slots_def mset_concat comp_def sum_list_distinct_conv_sum_set
      atLeast0LessThan sum_set_upt_conv_sum_list_nat [symmetric])

lemma distinct_all_slots:
  "distinct (concat (map (\<lambda>r. map (Pair (int r)) (int_range (nat gpus))) [0..<n]))"
  by (rule distinct_concat_by_key [where k = int and g = fst])
    (auto simp: distinct_map inj_on_def)

lemma in_all_slots: "(r, d) \<in># all_slots n gpus \<longleftrightarrow> 0 \<le> r \<and> r < int n \<and> 0 \<le> d \<and> d < gpus"
proof -
  have "(r, d) \<in># all_slots n gpus \<longleftrightarrow> r \<in> int ` {0..<n} \<and> d \<in> {0..<int (nat gpus)}"
    unfolding all_slots_list set_mset_mset set_concat set_map int_range_set [symmetric] by force
  then show ?thesis by (auto simp: image_int_atLeastLessThan)
qed

lemma distinct_submset:
  assumes "mset xs \<subseteq># mset ys" "distinct ys"
  shows "distinct xs"
proof -
  have "count (mset xs) a \<le> 1" for a
    using mset_subset_eq_count [OF assms(1), of a] assms(2)
    by (metis distinct_count_atmost_1 le_trans le_numeral_extra(4) zero_le_one)
  then have "count (mset xs) a = (if a \<in> set xs then 1 else 0)" for a
    using count_greater_zero_iff [of "mset xs" a]
    by (metis One_nat_def Suc_leI le_antisym not_in_iff set_mset_mset)
  then show ?thesis by (simp add: distinct_count_atmost_1)
qed

lemma used_slots_list: "used_slots st = mset (concat (map replica_slots (concat (ps_placements st))))"
  by (simp add: used_slots_def mset_concat sum_mset_sum_list [symmetric] comp_def)

lemma rank_has_slot:
  assumes "first_failure (replica_plan_checks p) = None" "r \<in> set (rp_planned_ranks p)"
  shows "\<exists>d. (r, d) \<in> set (replica_slots p)"
proof -
  from assms(2) obtain j where j: "j < length (rp_planned_ranks p)" "r = rp_planned_ranks p ! j"
    by (auto simp: in_set_conv_nth)
  let ?g = "rp_planned_device_ids p ! j"
  have len: "length (rp_planned_device_ids p) = length (rp_planned_ranks p)"
    by (rule replica_plan_checks_None(5) [OF assms(1)])
  then have "?g \<in> set (rp_planned_device_ids p)" using j by simp
  then have "?g \<noteq> []"
    using assms(1) by (auto simp: replica_plan_checks_def list_ex_iff split: if_splits)
  then obtain d where "d \<in> set ?g" by (cases ?g) auto
  moreover have "(r, ?g) \<in> set (zip (rp_planned_ranks p) (rp_planned_device_ids p))"
    using j len by (auto simp: set_zip)
  ultimately show ?thesis by (force simp: replica_slots_def)
qed

lemma charge_cpu_distinct: "distinct (map fst d) \<Longrightarrow> distinct (map fst (fold charge_cpu ps d))"
  by (induction ps arbitrary: d) (simp_all add: charge_cpu_def Let_def distinct_update)

lemma topology_checks_intro:
  assumes "distinct (map mp_model_id ms)" "distinct (map mp_route_name ms)"
    and "\<And>p r. p \<in> set (all_replicas ms) \<Longrightarrow> r \<in> set (rp_planned_ranks p) \<Longrightarrow> r < n"
    and "distinct (topology_slots ms)" "\<And>r d. (r, d) \<in> set (topology_slots ms) \<Longrightarrow> d < gpus"
    and "\<And>r. cpu_charged r (all_replicas ms) \<le> cpus"
  shows "first_failure (topology_checks n gpus cpus ms) = None"
proof -
  have "demand \<le> cpus" if "(rank, demand) \<in> set (cpu_by_rank ms)" for rank demand
  proof -
    have "distinct (map fst (cpu_by_rank ms))" unfolding cpu_by_rank_def by (rule charge_cpu_distinct) simp
    with that have "charged_at (cpu_by_rank ms) rank = demand" by (simp add: charged_at_def)
    with assms(6) [of rank] show ?thesis by (simp add: charged_at_cpu_by_rank)
  qed
  moreover have "book_devices gpus [] (topology_slots ms) = None"
    using assms(4,5) by (auto simp: book_devices_None)
  ultimately show ?thesis
    using assms(1,2,3) by (fastforce simp: topology_checks_def list_ex_iff)
qed

lemma placement_topology:
  assumes inv: "placement_inv n gpus cpus intents st" and cpus: "0 \<le> cpus"
    and d: "distinct (map mi_model_id intents)" "distinct (map mi_route_name intents)"
  defines "ms \<equiv> map2 model_of_intent intents (ps_placements st)"
  shows "first_failure (topology_checks (int n) gpus cpus ms) = None"
proof -
  note I = inv [unfolded placement_inv_def]
  have len: "length (ps_placements st) = length intents" using I by blast
  have reps: "all_replicas ms = concat (ps_placements st)"
    unfolding ms_def by (rule all_replicas_placed [OF len])
  have slots: "mset (topology_slots ms) = used_slots st"
    by (simp add: topology_slots_replicas reps used_slots_list)
  have sub: "mset (topology_slots ms) \<subseteq># all_slots n gpus"
    using I by (metis slots mset_subset_eq_add_left)
  have ok: "first_failure (replica_plan_checks p) = None" if "p \<in> set (all_replicas ms)" for p
  proof -
    from that obtain ps where "ps \<in> set (ps_placements st)" "p \<in> set ps" by (auto simp: reps)
    then obtain k where "k < length intents" "p \<in> set (ps_placements st ! k)"
      using len by (metis in_set_conv_nth)
    with I show ?thesis by (auto simp: model_placed_def list_all_iff)
  qed
  have range: "0 \<le> r \<and> r < int n \<and> 0 \<le> d \<and> d < gpus" if "(r, d) \<in> set (topology_slots ms)" for r d
    using that sub by (metis in_all_slots mset_subset_eqD set_mset_mset)
  have rank: "0 \<le> r \<and> r < int n" if p: "p \<in> set (all_replicas ms)" and r: "r \<in> set (rp_planned_ranks p)" for p r
    using rank_has_slot [OF ok [OF p] r] p range by (fastforce simp: topology_slots_replicas)
  show ?thesis
  proof (rule topology_checks_intro)
    show "distinct (map mp_model_id ms)" "distinct (map mp_route_name ms)"
      unfolding ms_def map_placed [OF len] by (rule d)+
    show "distinct (topology_slots ms)"
      using sub distinct_all_slots by (metis all_slots_list distinct_submset)
    show "cpu_charged r (all_replicas ms) \<le> cpus" for r
    proof (cases "0 \<le> r \<and> r < int n")
      case True
      then have "nat r < n" "int (nat r) = r" by auto
      with I have "ps_cpus st ! nat r + cpu_charged r (all_replicas ms) = cpus" "0 \<le> ps_cpus st ! nat r"
        by (auto simp: reps dest: spec [of _ "nat r"])
      then show ?thesis by simp
    next
      case False
      then have "hd (rp_planned_ranks p) \<noteq> r" if "p \<in> set (all_replicas ms)" for p
        using rank [OF that] replica_plan_checks_None(1) [OF ok [OF that]] by (metis hd_in_set)
      then show ?thesis using cpus by (simp add: cpu_charged_def filter_False)
    qed
  qed (use rank range in auto)
qed

section \<open>Compiled intents\<close>

lemma read_integer_Inr: "read_integer v path d (Some m) mx = Inr i \<Longrightarrow> m \<le> i"
  by (auto simp: read_integer_def split: option.splits if_splits)

lemma read_number_Inr: "read_number v path d (Some lo) (Some hi) = Inr r \<Longrightarrow> lo \<le> r \<and> r \<le> hi"
  by (auto simp: read_number_def split: option.splits if_splits)

lemma optional_integer_Inr: "optional_integer v path = Inr (Some i) \<Longrightarrow> 1 \<le> i"
  by (auto simp: optional_integer_def and_then_Inr dest: read_integer_Inr split: if_splits)

lemma lower_char_slash: "lower_char c = CHR ''/'' \<longleftrightarrow> c = CHR ''/''"
proof -
  have "lower_char c \<noteq> CHR ''/''" if "65 \<le> (of_char c :: nat)" "(of_char c :: nat) \<le> 90"
  proof
    assume "lower_char c = CHR ''/''"
    then have "char_of (of_char c + 32 :: nat) = CHR ''/''" using that by (simp add: lower_char_def)
    then have "(of_char (char_of (of_char c + 32 :: nat)) :: nat) = 47" by simp
    then show False using that by simp
  qed
  moreover have "lower_char c = c" if "\<not> (65 \<le> (of_char c :: nat) \<and> (of_char c :: nat) \<le> 90)"
    using that by (auto simp: lower_char_def Let_def)
  moreover have "lower_char (CHR ''/'') = CHR ''/''" by (simp add: lower_char_def)
  ultimately show ?thesis by metis
qed

lemma route_char_slash: "route_char c \<noteq> CHR ''/''"
  by (auto simp: route_char_def is_alnum_def is_digit_char_def)

lemma strip_dashes_subset: "set (strip_dashes s) \<subseteq> set s"
  by (auto simp: strip_dashes_def dest!: set_dropWhileD)

lemma route_name_slash: "CHR ''/'' \<notin> set (route_name s)"
proof
  assume "CHR ''/'' \<in> set (route_name s)"
  then obtain c where "c \<in> set (strip_dashes (map route_char s))" "lower_char c = CHR ''/''"
    by (auto simp: route_name_def)
  then have "CHR ''/'' \<in> set (map route_char s)"
    using strip_dashes_subset [of "map route_char s"] by (auto simp: lower_char_slash)
  then show False using route_char_slash by (auto dest: sym)
qed

lemma in_dropWhile: "c \<in> set s \<Longrightarrow> \<not> P c \<Longrightarrow> c \<in> set (dropWhile P s)"
  by (induction s) auto

lemma strip_dashes_nonempty:
  assumes "c \<in> set s" "c \<noteq> CHR ''-''"
  shows "strip_dashes s \<noteq> []"
proof -
  have "c \<in> set (strip_dashes s)"
    using assms by (simp add: strip_dashes_def in_dropWhile)
  then show ?thesis by auto
qed

lemma model_id_head:
  assumes "first_failure (require_model_id v path) = None"
  shows "\<exists>c cs. v = c # cs \<and> is_alnum c"
proof (cases v)
  case Nil
  with assms show ?thesis by (simp add: require_model_id_def)
next
  case (Cons c cs)
  have "\<forall>s \<in> set (split_on (CHR ''/'') v). s \<noteq> [] \<and> model_id_segment s"
    using assms by (auto simp: require_model_id_def list_ex_iff split: if_splits)
  with Cons show ?thesis
    by (auto simp: model_id_segment_def split: if_splits list.splits)
qed

lemma alnum_not_dash: "is_alnum c \<Longrightarrow> c \<noteq> CHR ''-'' \<and> c \<noteq> CHR ''/''"
  by (auto simp: is_alnum_def is_digit_char_def)

lemma route_name_nonempty:
  assumes "first_failure (require_model_id v path) = None"
  shows "route_name (storage_name v) \<noteq> []"
proof -
  from model_id_head [OF assms] obtain c cs where v: "v = c # cs" "is_alnum c" by blast
  then have "c \<in> set (map route_char (storage_name v))" "c \<noteq> CHR ''-''"
    using alnum_not_dash [OF v(2)] by (auto simp: storage_name_def route_char_def)
  then have "strip_dashes (map route_char (storage_name v)) \<noteq> []"
    by (rule strip_dashes_nonempty)
  then show ?thesis by (simp add: route_name_def)
qed

text \<open>What a compiled intent satisfies, alone and with respect to the earlier ones.\<close>

definition intent_valid :: "int \<Rightarrow> int \<Rightarrow> model_intent \<Rightarrow> bool" where
  "intent_valid n gpus i =
     (first_failure (require_model_id (mi_model_id i) ''model.model_id'') = None \<and>
      mi_storage_name i = storage_name (mi_model_id i) \<and>
      mi_route_name i = route_name (mi_storage_name i) \<and>
      1 \<le> mi_tensor_parallel_size i \<and> mi_tensor_parallel_size i \<le> gpus \<and>
      1 \<le> mi_pipeline_parallel_size i \<and> mi_pipeline_parallel_size i \<le> n \<and>
      1 \<le> mi_max_model_len i \<and> 1 \<le> mi_size_b i \<and> 1 \<le> mi_num_cpus_per_replica i \<and>
      0 < mi_gpu_memory_utilization i \<and> mi_gpu_memory_utilization i \<le> 1 \<and>
      (case mi_max_num_seqs i of None \<Rightarrow> True | Some m \<Rightarrow> 1 \<le> m) \<and>
      (case mi_requested_replicas i of None \<Rightarrow> True | Some m \<Rightarrow> 1 \<le> m))"

lemma require_model_id_path:
  "first_failure (require_model_id v p) = None \<longleftrightarrow> first_failure (require_model_id v q) = None"
  by (simp add: require_model_id_def)

lemma compile_identity_Inr:
  assumes "compile_identity seen raw = Inr v"
  shows "first_failure (require_model_id v path) = None" "v \<notin> set (map mi_model_id seen)"
    "route_name (storage_name v) \<notin> set (map mi_route_name seen)"
proof -
  from assms have "first_failure (require_model_id v ''model_id'') = None"
    by (auto simp: compile_identity_def and_then_Inr checked_Inr first_failure_None split: if_splits)
  then show "first_failure (require_model_id v path) = None"
    by (simp add: require_model_id_path [of v path "''model_id''"])
  from assms show "v \<notin> set (map mi_model_id seen)" "route_name (storage_name v) \<notin> set (map mi_route_name seen)"
    by (auto simp: compile_identity_def and_then_Inr checked_Inr split: if_splits)
qed

lemma compile_parallelism_Inr:
  assumes "compile_parallelism n gpus raw = Inr (tp, pp)"
  shows "1 \<le> tp \<and> tp \<le> gpus \<and> 1 \<le> pp \<and> pp \<le> n"
  using assms by (auto simp: compile_parallelism_def and_then_Inr checked_Inr dest: read_integer_Inr)

lemma compile_model_intent_Inr:
  assumes "compile_model_intent n gpus seen item = Inr i"
  shows "intent_valid n gpus i" "mi_model_id i \<notin> set (map mi_model_id seen)"
    "mi_route_name i \<notin> set (map mi_route_name seen)"
proof -
  from assms obtain raw v tp pp requested seqs mlen size util cpus where
    v: "compile_identity seen raw = Inr v" and p: "compile_parallelism n gpus raw = Inr (tp, pp)"
    and o: "optional_integer (raw_get raw ''num_replicas'') ''num_replicas'' = Inr requested"
      "optional_integer (raw_get raw ''max_num_seqs'') ''max_num_seqs'' = Inr seqs"
    and r: "read_integer (raw_get raw ''max_model_len'') ''max_model_len'' (Some 4096) (Some 1) None = Inr mlen"
      "read_integer (raw_get raw ''size'') ''size'' (Some 8) (Some 1) None = Inr size"
      "read_integer (raw_get raw ''num_cpus_per_replica'') ''num_cpus_per_replica'' (Some 4) (Some 1) None = Inr cpus"
      "read_number (raw_get raw ''gpu_memory_utilization'') ''gpu_memory_utilization''
        (Some (9 / 10)) (Some (1 / 10000000)) (Some 1) = Inr util"
    and i: "mi_model_id i = v" "mi_storage_name i = storage_name v"
      "mi_route_name i = route_name (storage_name v)" "mi_tensor_parallel_size i = tp"
      "mi_pipeline_parallel_size i = pp" "mi_max_model_len i = mlen" "mi_size_b i = size"
      "mi_gpu_memory_utilization i = util" "mi_num_cpus_per_replica i = cpus"
      "mi_max_num_seqs i = seqs" "mi_requested_replicas i = requested"
    by (cases item) (auto simp: compile_model_intent_def and_then_Inr)
  note V = compile_identity_Inr [OF v]
  show "intent_valid n gpus i"
    using V(1) [of "''model.model_id''"] compile_parallelism_Inr [OF p]
      read_integer_Inr [OF r(1)] read_integer_Inr [OF r(2)] read_integer_Inr [OF r(3)]
      read_number_Inr [OF r(4)] o optional_integer_Inr
    by (auto simp: intent_valid_def i split: option.splits)
  show "mi_model_id i \<notin> set (map mi_model_id seen)" "mi_route_name i \<notin> set (map mi_route_name seen)"
    using V(2,3) by (simp_all add: i)
qed

lemma compile_intents_from_Inr:
  assumes "compile_intents_from n gpus seen items = Inr intents"
    and "list_all (intent_valid n gpus) seen" "distinct (map mi_model_id seen)" "distinct (map mi_route_name seen)"
  shows "list_all (intent_valid n gpus) intents \<and> distinct (map mi_model_id intents) \<and>
    distinct (map mi_route_name intents) \<and> length intents = length seen + length items"
  using assms
proof (induction n gpus seen items rule: compile_intents_from.induct)
  case (2 n gpus seen item items)
  then obtain i where i: "compile_model_intent n gpus seen item = Inr i"
      "compile_intents_from n gpus (seen @ [i]) items = Inr intents"
    by (auto simp: and_then_Inr)
  from compile_model_intent_Inr [OF i(1)] "2.IH" [OF i(2)] "2.prems" show ?case by simp
qed simp

lemma intent_valid_ok: "intent_valid n gpus i \<Longrightarrow> intent_ok (nat n) gpus i"
  by (auto simp: intent_valid_def intent_ok_def route_name_nonempty)

lemma compile_model_intents_Inr:
  assumes "compile_model_intents n gpus raws = Inr intents"
  shows "list_all (intent_valid n gpus) intents" "intents_ok (nat n) gpus intents"
    "distinct (map mi_model_id intents)" "distinct (map mi_route_name intents)" "intents \<noteq> []"
proof -
  from assms have ne: "raws \<noteq> []" and "compile_intents_from n gpus [] raws = Inr intents"
    by (auto simp: compile_model_intents_def split: if_splits)
  from compile_intents_from_Inr [OF this(2)] ne
  show all: "list_all (intent_valid n gpus) intents" "distinct (map mi_model_id intents)"
    "distinct (map mi_route_name intents)" "intents \<noteq> []" by auto
  show "intents_ok (nat n) gpus intents"
    using all(1) by (auto simp: intents_ok_def list_all_iff intro: intent_valid_ok)
qed

section \<open>Properties\<close>

text \<open>Two nodes of four devices: a requested model, a two-stage model and an automatic one.\<close>

definition sample_raw_models :: "(string \<times> pyval) list option list" where
  "sample_raw_models =
     [Some [(''model_id'', PStr ''org/Big.1''), (''tensor_parallel_size'', PInt 2), (''num_replicas'', PInt 1)],
      Some [(''model_id'', PStr ''staged''), (''pipeline_parallel_size'', PInt 2)],
      Some [(''model_id'', PStr ''small''), (''num_cpus_per_replica'', PInt 1)]]"

definition sample_intents :: "model_intent list" where
  "sample_intents = (case compile_model_intents 2 4 sample_raw_models of Inl e \<Rightarrow> [] | Inr is \<Rightarrow> is)"

definition sample_models :: "model_plan list" where
  "sample_models =
     (case resolve_models 2 4 8 sample_envelope sample_intents of Some (Inr ms) \<Rightarrow> ms | _ \<Rightarrow> [])"

lemma sample_intents_compiled: "compile_model_intents 2 4 sample_raw_models = Inr sample_intents"
proof -
  have "\<not> isl (compile_model_intents 2 4 sample_raw_models)" by code_simp
  then show ?thesis by (cases "compile_model_intents 2 4 sample_raw_models") (auto simp: sample_intents_def)
qed

lemma sample_models_resolved: "resolve_models 2 4 8 sample_envelope sample_intents = Some (Inr sample_models)"
proof -
  have "case resolve_models 2 4 8 sample_envelope sample_intents of Some (Inr ms) \<Rightarrow> True | _ \<Rightarrow> False"
    by code_simp
  then show ?thesis by (auto simp: sample_models_def split: option.splits sum.splits)
qed

text \<open>
  (C10) The compiler's placement always is a topology that the plan's own validator accepts: for
  intents compiled from any raw models and any cluster, the resolved models have distinct identities
  and routes, name planned ranks only, book every device at most once and stay within the CPUs of
  every rank; every replica and model passes its constructor, and the receipt slots derived from them
  are distinct.
\<close>

theorem compiled_placement_valid:
  assumes "compile_model_intents n gpus raws = Inr intents"
    and "resolve_models n gpus cpus env intents = Some (Inr ms)" and "0 \<le> cpus"
  shows "first_failure (topology_checks n gpus cpus ms) = None \<and>
    list_all (\<lambda>m. first_failure (model_plan_checks m) = None \<and>
      list_all (\<lambda>p. first_failure (replica_plan_checks p) = None) (mp_replicas m)) ms \<and>
    distinct (map rq_id (build_receipt_requirements n ms gateway include_engine))"
proof -
  note C = compile_model_intents_Inr [OF assms(1)]
  from resolve_models_total [OF C(2) assms(3), of env] assms(2) obtain st where
    ms: "ms = map2 model_of_intent intents (ps_placements st)"
    and inv: "placement_inv (nat n) gpus cpus intents st"
    and count: "\<forall>k < length intents. promised_count env (intents ! k) (placed_count st k)" by auto
  note I = inv [unfolded placement_inv_def]
  have len: "length (ps_placements st) = length intents" using I by blast
  have "0 \<le> n" using C(1,5) by (cases intents) (auto simp: intent_valid_def)
  then have topo: "first_failure (topology_checks n gpus cpus ms) = None"
    using placement_topology [OF inv assms(3) C(3,4)] by (simp add: ms)
  have at: "ms ! k = model_of_intent (intents ! k) (ps_placements st ! k)" "intent_valid n gpus (intents ! k)"
    "model_placed (intents ! k) (ps_placements st ! k)" "ps_placements st ! k \<noteq> []" if "k < length ms" for k
  proof -
    have k: "k < length intents" using that len by (simp add: ms)
    then show "ms ! k = model_of_intent (intents ! k) (ps_placements st ! k)" using len by (simp add: ms)
    show valid: "intent_valid n gpus (intents ! k)" using C(1) k by (simp add: list_all_length)
    show "model_placed (intents ! k) (ps_placements st ! k)" using I k by blast
    have "promised_count env (intents ! k) (placed_count st k)" using count k by blast
    then have "placed_count st k \<noteq> 0"
      using valid by (auto simp: promised_count_def intent_valid_def split: option.splits if_splits)
    then show "ps_placements st ! k \<noteq> []" by (auto simp: placed_count_def)
  qed
  have slots: "slots_separable ms"
  proof -
    have "map mp_route_name ms = map mi_route_name intents"
      unfolding ms by (rule map_placed [OF len])
    moreover have "distinct (map rp_replica_index (mp_replicas m)) \<and> CHR ''/'' \<notin> set (mp_route_name m) \<and>
        list_all (\<lambda>p. list_all distinct (rp_planned_device_ids p)) (mp_replicas m)" if "m \<in> set ms" for m
    proof -
      from that obtain k where k: "k < length ms" "m = ms ! k" by (auto simp: in_set_conv_nth)
      show ?thesis
        using at [OF k(1)]
        by (auto simp: k(2) model_of_intent_def intent_valid_def route_name_slash model_placed_def
            list_all_iff distinct_map inj_on_def dest!: replica_plan_checks_None(4))
    qed
    ultimately show ?thesis using C(4) by (simp add: slots_separable_def list_all_iff)
  qed
  have "first_failure (model_plan_checks (ms ! k)) = None \<and>
      list_all (\<lambda>p. first_failure (replica_plan_checks p) = None) (mp_replicas (ms ! k))" if "k < length ms" for k
    using at [OF that] model_id_head [of "mi_model_id (intents ! k)" "''model.model_id''"]
      route_name_nonempty [of "mi_model_id (intents ! k)" "''model.model_id''"]
    by (auto simp: model_plan_checks_def model_of_intent_def intent_valid_def model_placed_def
        list_all_iff storage_name_def Suc_le_eq split: option.splits if_splits)
  with topo distinct_receipt_ids [OF slots] show ?thesis by (simp add: list_all_length)
qed

theorem compiled_placement_valid_witness:
  "first_failure (topology_checks 2 4 8 sample_models) = None \<and>
   map mp_route_name sample_models = [''org--big-1'', ''staged'', ''small''] \<and>
   distinct (map rq_id (build_receipt_requirements 2 sample_models None True))"
proof -
  have "map mp_route_name sample_models = [''org--big-1'', ''staged'', ''small'']" by code_simp
  with compiled_placement_valid [OF sample_intents_compiled sample_models_resolved] show ?thesis by simp
qed

text \<open>
  (C29) The placement always returns, with models or an error, and the models it returns keep the
  compiler's promises: a requested number of replicas is met exactly and lies within the envelope, an
  automatic pipeline-parallel model gets exactly one replica, and an automatic tensor-parallel model
  gets between one and the envelope's maximum.
\<close>

theorem placement_terminates_as_promised:
  assumes "compile_model_intents n gpus raws = Inr intents" and "0 \<le> cpus"
  shows "\<exists>res. resolve_models n gpus cpus env intents = Some res \<and>
    (case res of Inl e \<Rightarrow> True
     | Inr ms \<Rightarrow> length ms = length intents \<and>
         (\<forall>k < length intents. promised_count env (intents ! k) (length (mp_replicas (ms ! k)))))"
proof -
  note C = compile_model_intents_Inr [OF assms(1)]
  from resolve_models_total [OF C(2) assms(2), of env] obtain res where
    res: "resolve_models n gpus cpus env intents = Some res"
    and spec: "\<forall>ms. res = Inr ms \<longrightarrow> (\<exists>st. ms = map2 model_of_intent intents (ps_placements st) \<and>
       placement_inv (nat n) gpus cpus intents st \<and> settled (nat n) env intents (auto_tp_models intents) st \<and>
       (\<forall>k < length intents. promised_count env (intents ! k) (placed_count st k)))" by blast
  have "length ms = length intents \<and>
      (\<forall>k < length intents. promised_count env (intents ! k) (length (mp_replicas (ms ! k))))"
    if "res = Inr ms" for ms
    using spec that by (auto simp: placement_inv_def placed_count_def model_of_intent_def)
  with res show ?thesis by (auto split: sum.splits)
qed

theorem placement_terminates_as_promised_witness:
  "promised_count sample_envelope (sample_intents ! 2) (length (mp_replicas (sample_models ! 2))) \<and>
   map (\<lambda>m. length (mp_replicas m)) sample_models = [1, 1, 3]"
proof -
  have "length sample_intents = 3" "map (\<lambda>m. length (mp_replicas m)) sample_models = [1, 1, 3]"
    by code_simp+
  with placement_terminates_as_promised [OF sample_intents_compiled, of 8 sample_envelope] sample_models_resolved
  show ?thesis by simp
qed

text \<open>
  A shard-aware pipeline-parallel model never has two stages on one node: the ranks of all stages
  of all its replicas are pairwise different.
\<close>

lemma pipeline_ranks_disjoint:
  assumes "compile_model_intents n gpus raws = Inr intents"
    and "resolve_models n gpus cpus env intents = Some (Inr ms)" and "0 \<le> cpus"
    and "m \<in> set ms" and "1 < mp_pipeline_parallel_size m"
  shows "distinct (concat (map rp_planned_ranks (mp_replicas m)))"
proof -
  note C = compile_model_intents_Inr [OF assms(1)]
  from resolve_models_total [OF C(2) assms(3), of env] assms(2) obtain st where
    ms: "ms = map2 model_of_intent intents (ps_placements st)"
    and inv: "placement_inv (nat n) gpus cpus intents st" by auto
  from assms(4) obtain k where k: "k < length ms" "m = ms ! k" by (auto simp: in_set_conv_nth)
  then have "model_placed (intents ! k) (ps_placements st ! k)"
    using inv by (simp add: ms placement_inv_def)
  with assms(5) k show ?thesis by (simp add: ms model_of_intent_def model_placed_def)
qed

definition booked_devices :: "int \<Rightarrow> model_plan list \<Rightarrow> nat" where
  "booked_devices r ms = length (filter (\<lambda>(q, d). q = r) (topology_slots ms))"

lemma free_on_rank_upto:
  "size (filter_mset (\<lambda>(q, d). q = int r) (\<Sum>q<m. image_mset (Pair (int q)) (mset (devs ! q)))) =
     (if r < m then length (devs ! r) else 0)"
  by (induction m) (auto simp: filter_mset_image_mset comp_def less_Suc_eq)

lemma free_on_rank:
  "r < length devs \<Longrightarrow> size (filter_mset (\<lambda>(q, d). q = int r) (free_slots devs)) = length (devs ! r)"
  by (simp add: free_slots_def free_on_rank_upto)

lemma devices_left:
  assumes inv: "placement_inv n gpus cpus intents st" and r: "r < n" and gpus: "0 \<le> gpus"
  shows "int (length (ps_devices st ! r)) =
    gpus - int (booked_devices (int r) (map2 model_of_intent intents (ps_placements st)))"
proof -
  note I = inv [unfolded placement_inv_def]
  let ?on = "\<lambda>X. size (filter_mset (\<lambda>(q, d). q = int r) X)"
  have "?on (used_slots st) + ?on (free_slots (ps_devices st)) = ?on (all_slots n gpus)"
    using I by (metis filter_union_mset size_union)
  moreover have "?on (all_slots n gpus) = nat gpus"
    using r by (simp add: all_slots_def free_on_rank)
  moreover have "?on (free_slots (ps_devices st)) = length (ps_devices st ! r)"
    using I r by (simp add: free_on_rank)
  moreover have "?on (used_slots st) =
      booked_devices (int r) (map2 model_of_intent intents (ps_placements st))"
    using I by (simp add: used_slots_list booked_devices_def topology_slots_replicas all_replicas_placed
        flip: mset_filter)
  ultimately show ?thesis using gpus by linarith
qed

text \<open>
  The automatic placement leaves nothing usable idle: if an automatic tensor-parallel model got
  fewer replicas than the envelope allows, then on every rank its remaining devices or its remaining
  CPUs, counted from what the resolved models book there, do not suffice for one more.
\<close>

lemma auto_placement_exhaustive:
  assumes "compile_model_intents n gpus raws = Inr intents"
    and "resolve_models n gpus cpus env intents = Some (Inr ms)" and "0 \<le> cpus"
    and "k < length intents" and "mi_requested_replicas (intents ! k) = None"
    and "mi_pipeline_parallel_size (intents ! k) = 1"
    and "int (length (mp_replicas (ms ! k))) < se_max_replicas_per_model env"
    and "0 \<le> r" "r < n"
  shows "gpus - int (booked_devices r ms) < mi_tensor_parallel_size (intents ! k) \<or>
    cpus - cpu_charged r (all_replicas ms) < mi_num_cpus_per_replica (intents ! k)"
proof -
  note C = compile_model_intents_Inr [OF assms(1)]
  from resolve_models_total [OF C(2) assms(3), of env] assms(2) obtain st where
    ms: "ms = map2 model_of_intent intents (ps_placements st)"
    and inv: "placement_inv (nat n) gpus cpus intents st"
    and settled: "settled (nat n) env intents (auto_tp_models intents) st" by auto
  note I = inv [unfolded placement_inv_def]
  have len: "length (ps_placements st) = length intents" using I by blast
  have "k \<in> set (auto_tp_models intents)"
    using assms(4-6) by (simp add: auto_tp_models_def auto_models_props(3))
  moreover have "int (placed_count st k) < se_max_replicas_per_model env"
    using assms(4,7) len by (simp add: ms model_of_intent_def placed_count_def)
  ultimately have "reserve (nat n) intents k st = None"
    using settled by (auto simp: settled_def)
  then have "select_ranks (nat n) st k (intents ! k) = []"
    by (auto simp: reserve_def Let_def split: if_splits prod.splits)
  then have full: "has_devices st (intents ! k) (nat r) \<longrightarrow>
      ps_cpus st ! nat r < mi_num_cpus_per_replica (intents ! k)"
    using assms(6,8,9) by (auto simp: select_ranks_single)
  have "0 \<le> gpus" using C(1,5) by (cases intents) (auto simp: intent_valid_def)
  from devices_left [OF inv _ this, of "nat r"] assms(8,9)
  have "int (length (ps_devices st ! nat r)) = gpus - int (booked_devices r ms)" by (simp add: ms)
  moreover have "ps_cpus st ! nat r = cpus - cpu_charged r (all_replicas ms)"
    using I assms(8,9) by (auto simp: ms all_replicas_placed [OF len] dest!: spec [of _ "nat r"])
  ultimately show ?thesis using full by (auto simp: has_devices_def)
qed

end
