(* ===== verification/Receipts.thy ===== *)
theory Receipts
  imports Plan_Contracts
begin

text \<open>
  Compatibility receipts, \<^verbatim>\<open>src/exaserve/compat/receipt_v2.py\<close>: the evidence record, its canonical
  form and \<^verbatim>\<open>validate_receipt\<close>; with the parts of the compatibility profile
  (\<^verbatim>\<open>src/exaserve/compat/profile.py\<close>) and of the patch requirements of a slot
  (\<^verbatim>\<open>src/exaserve/compat/producers.py\<close>) that the head uses to judge a receipt.

  \<open>H\<close> is \<^verbatim>\<open>canonical_hash\<close> of a canonical receipt and \<open>utc\<close> says that \<^verbatim>\<open>datetime.fromisoformat\<close> reads
  a text as a UTC time; both are arbitrary. A type error that \<^verbatim>\<open>isinstance\<close> detects is excluded by the
  types of the fields.
\<close>

section \<open>Compatibility profile\<close>

record patch_spec =
  pt_patch_id :: string
  pt_roles :: "string list"
  pt_capability :: string
  pt_required :: bool
  pt_env_gate :: string
  pt_target_source_hash :: string
  pt_patch_artifact_hash :: string
  pt_delivery_artifact_hash :: string

record model_seed =
  ms_architecture :: string
  ms_target_sha256 :: string
  ms_seed_sha256 :: string

record support_source =
  ss_target_file :: string
  ss_target_sha256 :: string

record compatibility_profile =
  cp_profile_id :: string
  cp_python :: string
  cp_ray :: string
  cp_vllm :: string
  cp_mpi4py :: string
  cp_patches :: "patch_spec list"
  cp_seed_manifest_hash :: string
  cp_installer_hash :: string
  cp_support_sources :: "support_source list"
  cp_seeds :: "model_seed list"

definition capabilities :: "compatibility_profile \<Rightarrow> string list" where
  "capabilities f =
     sort (remdups (filter (\<lambda>c. c \<noteq> []) (map pt_capability (cp_patches f)) @
       (if cp_seeds f \<noteq> [] then [''vllm_modelinfo_cache_seed''] else [])))"

definition required_patch_ids :: "compatibility_profile \<Rightarrow> string \<Rightarrow> (string \<times> string) list \<Rightarrow> string list" where
  "required_patch_ids f role env =
     sort (map pt_patch_id (filter (\<lambda>p. pt_required p \<and> role \<in> set (pt_roles p) \<and>
       (pt_env_gate p = [] \<or> map_of env (pt_env_gate p) = Some ''1'')) (cp_patches f)))"

definition gated_out :: "compatibility_profile \<Rightarrow> string \<Rightarrow> (string \<times> string) list \<Rightarrow> string list" where
  "gated_out f role env =
     sort (map pt_patch_id (filter (\<lambda>p. role \<in> set (pt_roles p) \<and> pt_env_gate p \<noteq> [] \<and>
       map_of env (pt_env_gate p) \<noteq> Some ''1'') (cp_patches f)))"

section \<open>Receipts\<close>

datatype receipt_error = ReceiptError string

record patch_result =
  pr_status :: string
  pr_postcondition_passed :: bool
  pr_evidence_hash :: "string option"

record receipt =
  rc_schema_version :: int
  rc_deployment_id :: string
  rc_generation :: int
  rc_deployment_plan_hash :: string
  rc_site_profile_hash :: string
  rc_allocation_binding_hash :: string
  rc_compatibility_profile_hash :: string
  rc_manifest_hash :: string
  rc_requirement_id :: string
  rc_role :: string
  rc_component_id :: string
  rc_instance_id :: string
  rc_owner_scope :: string
  rc_owner_rank :: "int option"
  rc_node_id :: string
  rc_pid :: "int option"
  rc_actor_id :: "string option"
  rc_executable_hash :: string
  rc_argv_hash :: "string option"
  rc_prepared_environment_hash :: string
  rc_observed_versions :: "(string \<times> string) list"
  rc_observed_package_hashes :: "(string \<times> string) list"
  rc_observed_source_hashes :: "(string \<times> string) list"
  rc_patch_results :: "(string \<times> patch_result) list"
  rc_capabilities :: "string list"
  rc_attestation_type :: string
  rc_attested_at :: string
  rc_receipt_hash :: string

text \<open>
  \<^verbatim>\<open>_SHA256.match\<close> with the pattern \<^verbatim>\<open>^[0-9a-f]{64}$\<close>: in Python the dollar also matches before a
  newline that ends the text.
\<close>

definition sha_match :: "string \<Rightarrow> bool" where
  "sha_match s = (is_sha256 s \<or> (s \<noteq> [] \<and> last s = CHR 0x0A \<and> is_sha256 (butlast s)))"

definition require_sha :: "string option \<Rightarrow> string \<Rightarrow> bool \<Rightarrow> (bool \<times> receipt_error) list" where
  "require_sha v name allow_none =
     [(case v of None \<Rightarrow> \<not> allow_none | Some s \<Rightarrow> \<not> sha_match s, ReceiptError name)]"

definition patch_result_checks :: "patch_result \<Rightarrow> (bool \<times> receipt_error) list" where
  "patch_result_checks p =
     [(pr_status p \<notin> {''APPLIED'', ''NOT_REQUIRED'', ''FAILED''}, ReceiptError ''patch status''),
      (pr_status p = ''APPLIED'' \<and> \<not> pr_postcondition_passed p, ReceiptError ''APPLIED postcondition'')] @
     require_sha (pr_evidence_hash p) ''evidence_hash'' True"

text \<open>The canonical form: no hash field, maps in key order, capabilities as a sorted set.\<close>

definition receipt_canonical :: "receipt \<Rightarrow> receipt" where
  "receipt_canonical r =
     r\<lparr>rc_receipt_hash := [], rc_patch_results := sort_key fst (rc_patch_results r),
       rc_observed_versions := sort_key fst (rc_observed_versions r),
       rc_observed_package_hashes := sort_key fst (rc_observed_package_hashes r),
       rc_observed_source_hashes := sort_key fst (rc_observed_source_hashes r),
       rc_capabilities := sort (remdups (rc_capabilities r))\<rparr>"

definition receipt_compute_hash :: "(receipt \<Rightarrow> string) \<Rightarrow> receipt \<Rightarrow> string" where
  "receipt_compute_hash H r = H (receipt_canonical r)"

definition receipt_finalize :: "(receipt \<Rightarrow> string) \<Rightarrow> receipt \<Rightarrow> receipt" where
  "receipt_finalize H r = r\<lparr>rc_receipt_hash := receipt_compute_hash H r\<rparr>"

text \<open>\<^verbatim>\<open>receipt_from_dict(receipt.to_dict())\<close> of a validated receipt: a private copy in canonical form.\<close>

definition receipt_snapshot :: "(receipt \<Rightarrow> string) \<Rightarrow> receipt \<Rightarrow> receipt" where
  "receipt_snapshot H r =
     (receipt_canonical r)\<lparr>rc_receipt_hash :=
       (if rc_receipt_hash r \<noteq> [] then rc_receipt_hash r else receipt_compute_hash H r)\<rparr>"

definition identity_checks :: "receipt \<Rightarrow> (bool \<times> receipt_error) list" where
  "identity_checks r =
     [(rc_schema_version r \<noteq> 2, ReceiptError ''schema_version''),
      (list_ex (\<lambda>t. t = []) [rc_deployment_id r, rc_requirement_id r, rc_role r, rc_component_id r,
         rc_instance_id r, rc_node_id r, rc_attested_at r], ReceiptError ''text fields''),
      (rc_generation r < 0, ReceiptError ''generation'')] @
     concat (map (\<lambda>h. require_sha (Some h) ''hash'' False)
       [rc_deployment_plan_hash r, rc_site_profile_hash r, rc_allocation_binding_hash r,
        rc_compatibility_profile_hash r, rc_manifest_hash r, rc_executable_hash r,
        rc_prepared_environment_hash r]) @
     require_sha (rc_argv_hash r) ''argv_hash'' True @
     require_sha (Some (rc_receipt_hash r)) ''receipt_hash'' False"

definition owner_checks :: "receipt \<Rightarrow> (bool \<times> receipt_error) list" where
  "owner_checks r =
     [(rc_owner_scope r \<notin> {''GLOBAL'', ''RANK''}, ReceiptError ''owner_scope''),
      (if rc_owner_scope r = ''GLOBAL'' then rc_owner_rank r \<noteq> None
       else (case rc_owner_rank r of None \<Rightarrow> True | Some k \<Rightarrow> k < 0), ReceiptError ''owner_rank''),
      (rc_pid r = None \<and> (case rc_actor_id r of None \<Rightarrow> True | Some a \<Rightarrow> a = []), ReceiptError ''pid or actor_id''),
      (case rc_pid r of None \<Rightarrow> False | Some p \<Rightarrow> p \<le> 0, ReceiptError ''pid''),
      (rc_actor_id r = Some [], ReceiptError ''actor_id''),
      (rc_attestation_type r \<notin> {''SELF'', ''SUPERVISOR''}, ReceiptError ''attestation_type'')]"

definition observation_checks :: "(string \<Rightarrow> bool) \<Rightarrow> receipt \<Rightarrow> (bool \<times> receipt_error) list" where
  "observation_checks utc r =
     [(list_ex (\<lambda>(k, v). k = []) (rc_observed_versions r), ReceiptError ''observed_versions''),
      (list_ex (\<lambda>(k, v). k = [] \<or> \<not> sha_match v) (rc_observed_package_hashes r), ReceiptError ''observed_package_hashes''),
      (list_ex (\<lambda>(k, v). k = [] \<or> \<not> sha_match v) (rc_observed_source_hashes r), ReceiptError ''observed_source_hashes''),
      (list_ex (\<lambda>c. c = []) (rc_capabilities r) \<or> sort (remdups (rc_capabilities r)) \<noteq> rc_capabilities r,
        ReceiptError ''capabilities''),
      (\<not> utc (rc_attested_at r), ReceiptError ''attested_at'')]"

definition patch_checks :: "string list \<Rightarrow> string list \<Rightarrow> receipt \<Rightarrow> (bool \<times> receipt_error) list" where
  "patch_checks required excluded r =
     (let results = rc_patch_results r in
      [(list_ex (\<lambda>(k, v). first_failure (patch_result_checks v) \<noteq> None) results, ReceiptError ''patch_results''),
       (list_ex (\<lambda>(k, v). k = []) results, ReceiptError ''patch_results keys''),
       (list_ex (\<lambda>(k, v). k \<notin> set required \<and> k \<notin> set excluded) results, ReceiptError ''unknown patch key''),
       (list_ex (\<lambda>k. k \<notin> set (map fst results)) required, ReceiptError ''missing required patch key''),
       (list_ex (\<lambda>(k, v). pr_status v = ''FAILED'' \<or>
          \<not> (pr_postcondition_passed v \<or> pr_status v = ''NOT_REQUIRED'')) results, ReceiptError ''failed patch''),
       (list_ex (\<lambda>(k, v). pr_status v = ''NOT_REQUIRED'' \<and> k \<in> set required \<and> k \<notin> set excluded) results,
         ReceiptError ''cannot be reported NOT_REQUIRED'')])"

definition validate_receipt ::
    "(receipt \<Rightarrow> string) \<Rightarrow> (string \<Rightarrow> bool) \<Rightarrow> string list \<Rightarrow> string list \<Rightarrow> bool \<Rightarrow> receipt
      \<Rightarrow> receipt_error option" where
  "validate_receipt H utc required excluded strict r =
     first_failure (identity_checks r @ owner_checks r @ observation_checks utc r @
       patch_checks required excluded r @
       [(strict \<and> rc_receipt_hash r \<noteq> receipt_compute_hash H r, ReceiptError ''receipt_hash mismatch'')])"

section \<open>Patch requirements of a slot\<close>

definition pp_patch_gate :: string where
  "pp_patch_gate = ''EXASERVE_VLLM_PATCH_PP_LAYER_FILTER''"

definition ray_worker_patch_gate :: string where
  "ray_worker_patch_gate = ''EXASERVE_VLLM_PATCH_RAY_WORKERS''"

definition multiproc_worker_patch_gate :: string where
  "multiproc_worker_patch_gate = ''EXASERVE_VLLM_PATCH_MULTIPROC_WORKERS''"

definition slot_of :: "deployment_plan \<Rightarrow> string \<Rightarrow> receipt_requirement option" where
  "slot_of d rid = find (\<lambda>q. rq_id q = rid) (dp_receipt_requirements d)"

definition gate_text :: "bool \<Rightarrow> string" where
  "gate_text b = (if b then ''1'' else ''0'')"

definition gate_environment :: "bool \<Rightarrow> bool \<Rightarrow> (string \<times> string) list" where
  "gate_environment pp multiproc =
     [(pp_patch_gate, gate_text pp), (ray_worker_patch_gate, gate_text pp),
      (multiproc_worker_patch_gate, gate_text multiproc)]"

definition requirement_patch_environment ::
    "deployment_plan \<Rightarrow> string \<Rightarrow> receipt_error + (string \<times> string) list" where
  "requirement_patch_environment d rid =
     (case slot_of d rid of
        None \<Rightarrow> Inl (ReceiptError ''no planned receipt requirement'')
      | Some q \<Rightarrow>
          if rq_role q \<in> {''replica'', ''engine_core'', ''engine_worker''} then
            (case filter (\<lambda>m. starts_with rid (''model/'' @ mp_route_name m @ ''/replica/'')) (dp_models d) of
               [m] \<Rightarrow> Inr (gate_environment (1 < mp_pipeline_parallel_size m)
                       (mp_pipeline_parallel_size m = 1 \<and> 1 < mp_tensor_parallel_size m))
             | _ \<Rightarrow> Inl (ReceiptError ''maps to several planned models''))
          else Inr (gate_environment (list_ex (\<lambda>m. 1 < mp_pipeline_parallel_size m) (dp_models d))
                 (list_ex (\<lambda>m. mp_pipeline_parallel_size m = 1 \<and> 1 < mp_tensor_parallel_size m) (dp_models d))))"

definition patch_requirements_for_plan ::
    "deployment_plan \<Rightarrow> string \<Rightarrow> compatibility_profile \<Rightarrow> receipt_error + (string list \<times> string list)" where
  "patch_requirements_for_plan d rid f =
     (case slot_of d rid of
        None \<Rightarrow> Inl (ReceiptError ''no planned receipt requirement'')
      | Some q \<Rightarrow> and_then (requirement_patch_environment d rid)
          (\<lambda>env. Inr (required_patch_ids f (rq_role q) env, gated_out f (rq_role q) env)))"

section \<open>What a valid receipt proves\<close>

lemma validate_receipt_patches:
  assumes "validate_receipt H utc required excluded strict r = None"
  shows "\<forall>k \<in> set required. \<exists>v. (k, v) \<in> set (rc_patch_results r)"
    and "\<forall>(k, v) \<in> set (rc_patch_results r). k \<in> set required \<longrightarrow> k \<notin> set excluded \<longrightarrow>
      pr_status v = ''APPLIED'' \<and> pr_postcondition_passed v"
    and "\<forall>(k, v) \<in> set (rc_patch_results r). k \<in> set required \<union> set excluded"
proof -
  from assms have ok: "first_failure (patch_checks required excluded r) = None"
    by (simp add: validate_receipt_def)
  then show "\<forall>k \<in> set required. \<exists>v. (k, v) \<in> set (rc_patch_results r)"
    "\<forall>(k, v) \<in> set (rc_patch_results r). k \<in> set required \<union> set excluded"
    by (fastforce simp: patch_checks_def Let_def list_ex_iff split: if_splits)+
  have "pr_status v = ''APPLIED'' \<and> pr_postcondition_passed v"
    if "(k, v) \<in> set (rc_patch_results r)" "k \<in> set required" "k \<notin> set excluded" for k v
  proof -
    have "first_failure (patch_result_checks v) = None" "pr_status v \<noteq> ''FAILED''"
      "pr_postcondition_passed v \<or> pr_status v = ''NOT_REQUIRED''" "pr_status v \<noteq> ''NOT_REQUIRED''"
      using ok that by (fastforce simp: patch_checks_def Let_def list_ex_iff split: if_splits)+
    then show ?thesis by (auto simp: patch_result_checks_def split: if_splits)
  qed
  then show "\<forall>(k, v) \<in> set (rc_patch_results r). k \<in> set required \<longrightarrow> k \<notin> set excluded \<longrightarrow>
      pr_status v = ''APPLIED'' \<and> pr_postcondition_passed v" by blast
qed

text \<open>A patch of a profile with distinct ids is never both required and excluded for a slot.\<close>

lemma required_not_gated:
  assumes "distinct (map pt_patch_id (cp_patches f))"
  shows "set (required_patch_ids f role env) \<inter> set (gated_out f role env) = {}"
proof -
  have "inj_on pt_patch_id (set (cp_patches f))" using assms by (simp add: distinct_map)
  then show ?thesis
    by (auto simp: required_patch_ids_def gated_out_def dest: inj_onD)
qed

end
