(* ===== verification/Bindings.thy ===== *)
theory Bindings
  imports Receipts
begin

text \<open>
  The durable store of live component instances, \<^verbatim>\<open>src/exaserve/state/bindings.py\<close>, with
  \<^verbatim>\<open>ComponentInstanceBinding\<close> of \<^verbatim>\<open>src/exaserve/plan/contracts.py\<close>.

  Every change is an event with the next sequence number; events are group-committed into immutable
  batch files, and \<^verbatim>\<open>current.json\<close> is a projection that can be rebuilt from them. The model keeps the
  in-memory fields together with what is on disk: the batch files in the order of their names (which
  start with the zero-padded first sequence) and the published projection. The lease of the writer
  and failures of the file system are outside the model. \<open>H\<close> is \<^verbatim>\<open>canonical_hash\<close> of an event or of a
  batch. \<open>bind_receipt\<close> builds its event with the constructor of \<^verbatim>\<open>ComponentInstanceBinding\<close>, which raises
  for a malformed receipt; the model covers the receipts of \<open>bindable\<close>, for which \<open>active_event_ok\<close> shows
  that the constructor accepts, and the receipts that pass \<open>validate_receipt\<close> are such.
\<close>

section \<open>Events\<close>

record instance_binding =
  ib_schema_version :: int
  ib_deployment_id :: string
  ib_generation :: int
  ib_deployment_plan_hash :: string
  ib_site_profile_hash :: string
  ib_allocation_binding_hash :: string
  ib_requirement_id :: string
  ib_component_id :: string
  ib_instance_id :: string
  ib_owner_scope :: string
  ib_owner_rank :: "int option"
  ib_node_id :: string
  ib_bound_at :: real
  ib_state :: string
  ib_binding_sequence :: int
  ib_supersedes_instance_id :: "string option"
  ib_hash :: string

definition instance_binding_checks :: "instance_binding \<Rightarrow> (bool \<times> plan_error) list" where
  "instance_binding_checks b =
     require_schema_version (ib_schema_version b) ''instance_binding.schema_version'' @
     [(list_ex (\<lambda>t. t = []) [ib_deployment_id b, ib_requirement_id b, ib_component_id b,
         ib_instance_id b, ib_node_id b], PlanError ''instance_binding text fields'')] @
     require_sha256 False (ib_deployment_plan_hash b) ''instance_binding.deployment_plan_hash'' @
     require_sha256 False (ib_site_profile_hash b) ''instance_binding.site_profile_hash'' @
     require_sha256 False (ib_allocation_binding_hash b) ''instance_binding.allocation_binding_hash'' @
     require_sha256 True (ib_hash b) ''instance_binding.component_instance_binding_hash'' @
     [(ib_generation b < 0, PlanError ''instance_binding.generation''),
      (ib_binding_sequence b < 0, PlanError ''instance_binding.binding_sequence''),
      (ib_bound_at b < 0, PlanError ''instance_binding.bound_at''),
      (ib_owner_scope b \<notin> {''GLOBAL'', ''RANK''}, PlanError ''instance_binding.owner_scope''),
      (if ib_owner_scope b = ''GLOBAL'' then ib_owner_rank b \<noteq> None
       else (case ib_owner_rank b of None \<Rightarrow> True | Some r \<Rightarrow> r < 0), PlanError ''instance_binding.owner_rank''),
      (ib_state b \<notin> {''ACTIVE'', ''SUPERSEDED'', ''REVOKED''}, PlanError ''instance_binding.state''),
      (case ib_supersedes_instance_id b of None \<Rightarrow> False | Some i \<Rightarrow> i = [] \<or> i = ib_instance_id b,
        PlanError ''instance_binding.supersedes_instance_id'')]"

text \<open>A batch file: the identity of the store, the range of sequences, the events and their hash.\<close>

record batch_file =
  bf_deployment_id :: string
  bf_generation :: int
  bf_plan_hash :: string
  bf_site_hash :: string
  bf_binding_hash :: string
  bf_start_sequence :: int
  bf_end_sequence :: int
  bf_events :: "instance_binding list"
  bf_hash :: string

datatype binding_payload = EventPayload instance_binding | BatchPayload batch_file

type_synonym payload_hash = "binding_payload \<Rightarrow> string"

definition ib_compute_hash :: "payload_hash \<Rightarrow> instance_binding \<Rightarrow> string" where
  "ib_compute_hash H b = H (EventPayload (b\<lparr>ib_hash := []\<rparr>))"

definition ib_finalize :: "payload_hash \<Rightarrow> instance_binding \<Rightarrow> instance_binding" where
  "ib_finalize H b = b\<lparr>ib_hash := ib_compute_hash H b\<rparr>"

text \<open>\<^verbatim>\<open>component_instance_binding_from_dict\<close>: the constructor's checks and the declared hash.\<close>

definition event_ok :: "payload_hash \<Rightarrow> instance_binding \<Rightarrow> bool" where
  "event_ok H e = (first_failure (instance_binding_checks e) = None \<and> ib_hash e = ib_compute_hash H e)"

text \<open>A file of the event directory: a batch, or one event as older runs wrote it.\<close>

datatype event_file = BatchFile batch_file | SingleFile instance_binding

fun file_events :: "event_file \<Rightarrow> instance_binding list" where
  "file_events (BatchFile f) = bf_events f"
| "file_events (SingleFile e) = [e]"

definition files_log :: "event_file list \<Rightarrow> instance_binding list" where
  "files_log fs = concat (map file_events fs)"

section \<open>The store\<close>

record binding_store =
  cb_deployment_id :: string
  cb_generation :: int
  cb_plan_hash :: string
  cb_site_hash :: string
  cb_binding_hash :: string
  cb_event_batch :: nat
  cb_current_batch :: nat
  cb_current :: "(string \<times> instance_binding) list"
  cb_sequence :: int
  cb_published_sequence :: int
  cb_pending :: "instance_binding list"
  cb_batches :: "event_file list"
  cb_projection :: "(string \<times> instance_binding) list"

definition new_store ::
    "deployment_plan \<Rightarrow> allocation_binding \<Rightarrow> nat \<Rightarrow> nat \<Rightarrow> binding_store" where
  "new_store d b event_batch current_batch =
     \<lparr>cb_deployment_id = dp_deployment_id d, cb_generation = ab_generation b,
      cb_plan_hash = dp_deployment_plan_hash d, cb_site_hash = dp_site_profile_hash d,
      cb_binding_hash = ab_allocation_binding_hash b, cb_event_batch = event_batch,
      cb_current_batch = current_batch, cb_current = [], cb_sequence = 0,
      cb_published_sequence = 0, cb_pending = [], cb_batches = [], cb_projection = []\<rparr>"

definition same_identity :: "binding_store \<Rightarrow> instance_binding \<Rightarrow> bool" where
  "same_identity s e =
     (ib_deployment_id e = cb_deployment_id s \<and> ib_generation e = cb_generation s \<and>
      ib_deployment_plan_hash e = cb_plan_hash s \<and> ib_site_profile_hash e = cb_site_hash s \<and>
      ib_allocation_binding_hash e = cb_binding_hash s)"

text \<open>The effect of one event on the current bindings.\<close>

definition apply_event ::
    "instance_binding \<Rightarrow> (string \<times> instance_binding) list \<Rightarrow> (string \<times> instance_binding) list" where
  "apply_event e cur =
     (if ib_state e = ''ACTIVE'' then AList.update (ib_requirement_id e) e cur
      else case map_of cur (ib_requirement_id e) of
        Some c \<Rightarrow> if ib_instance_id c = ib_instance_id e
                  then AList.delete (ib_requirement_id e) cur else cur
      | None \<Rightarrow> cur)"

definition publish_current :: "binding_store \<Rightarrow> binding_store" where
  "publish_current s = s\<lparr>cb_projection := cb_current s, cb_published_sequence := cb_sequence s\<rparr>"

definition new_batch :: "payload_hash \<Rightarrow> binding_store \<Rightarrow> instance_binding list \<Rightarrow> batch_file" where
  "new_batch H s events =
     (let f = \<lparr>bf_deployment_id = cb_deployment_id s, bf_generation = cb_generation s,
               bf_plan_hash = cb_plan_hash s, bf_site_hash = cb_site_hash s, bf_binding_hash = cb_binding_hash s,
               bf_start_sequence = ib_binding_sequence (hd events),
               bf_end_sequence = ib_binding_sequence (last events), bf_events = events, bf_hash = []\<rparr>
      in f\<lparr>bf_hash := H (BatchPayload f)\<rparr>)"

definition publish_pending_events :: "payload_hash \<Rightarrow> binding_store \<Rightarrow> binding_store" where
  "publish_pending_events H s =
     (if cb_pending s = [] then s
      else s\<lparr>cb_batches := cb_batches s @ [BatchFile (new_batch H s (cb_pending s))], cb_pending := []\<rparr>)"

definition publish_barrier :: "payload_hash \<Rightarrow> bool \<Rightarrow> binding_store \<Rightarrow> binding_store" where
  "publish_barrier H with_current s =
     (let s' = publish_pending_events H s
      in if with_current \<and> cb_published_sequence s' \<noteq> cb_sequence s' then publish_current s' else s')"

definition append_event :: "payload_hash \<Rightarrow> binding_store \<Rightarrow> instance_binding \<Rightarrow> binding_store" where
  "append_event H s e =
     (let s1 = s\<lparr>cb_current := apply_event e (cb_current s), cb_sequence := ib_binding_sequence e,
                 cb_pending := cb_pending s @ [e]\<rparr>;
          with_current = (int (cb_current_batch s) \<le> cb_sequence s1 - cb_published_sequence s1)
      in if cb_event_batch s \<le> length (cb_pending s1) \<or> with_current
         then publish_barrier H with_current s1 else s1)"

definition flush :: "payload_hash \<Rightarrow> binding_store \<Rightarrow> binding_store" where
  "flush H s = publish_barrier H True s"

text \<open>An event that ends the current binding of a slot.\<close>

definition closing_event ::
    "payload_hash \<Rightarrow> binding_store \<Rightarrow> string \<Rightarrow> instance_binding \<Rightarrow> instance_binding" where
  "closing_event H s state c =
     ib_finalize H (c\<lparr>ib_state := state, ib_binding_sequence := cb_sequence s + 1, ib_hash := []\<rparr>)"

definition active_event ::
    "payload_hash \<Rightarrow> binding_store \<Rightarrow> real \<Rightarrow> string option \<Rightarrow> receipt \<Rightarrow> instance_binding" where
  "active_event H s now supersedes r =
     ib_finalize H
       \<lparr>ib_schema_version = plan_schema_version, ib_deployment_id = cb_deployment_id s,
        ib_generation = cb_generation s, ib_deployment_plan_hash = cb_plan_hash s,
        ib_site_profile_hash = cb_site_hash s, ib_allocation_binding_hash = cb_binding_hash s,
        ib_requirement_id = rc_requirement_id r, ib_component_id = rc_component_id r,
        ib_instance_id = rc_instance_id r, ib_owner_scope = rc_owner_scope r,
        ib_owner_rank = rc_owner_rank r, ib_node_id = rc_node_id r, ib_bound_at = now,
        ib_state = ''ACTIVE'', ib_binding_sequence = cb_sequence s + 1,
        ib_supersedes_instance_id = supersedes, ib_hash = []\<rparr>"

definition bind_receipt ::
    "payload_hash \<Rightarrow> real \<Rightarrow> receipt \<Rightarrow> binding_store \<Rightarrow> binding_store" where
  "bind_receipt H now r s =
     (case map_of (cb_current s) (rc_requirement_id r) of
        None \<Rightarrow> append_event H s (active_event H s now None r)
      | Some c \<Rightarrow>
          if ib_instance_id c = rc_instance_id r then s
          else let s1 = append_event H s (closing_event H s ''SUPERSEDED'' c)
               in append_event H s1 (active_event H s1 now (Some (ib_instance_id c)) r))"

definition revoke_slot ::
    "payload_hash \<Rightarrow> string \<Rightarrow> binding_store \<Rightarrow> binding_store \<times> bool" where
  "revoke_slot H slot s =
     (case map_of (cb_current s) slot of
        None \<Rightarrow> (s, False)
      | Some c \<Rightarrow> (append_event H s (closing_event H s ''REVOKED'' c), True))"

section \<open>Recovery\<close>

datatype store_error = BindingStoreError string

text \<open>
  \<^verbatim>\<open>_decode_batch\<close> and \<^verbatim>\<open>_apply_recovered_event\<close>: a batch must be non-empty with contiguous sequences, an
  event must carry the identity of the store, a hash that fits and the next sequence number.
\<close>

fun contiguous_from :: "int \<Rightarrow> instance_binding list \<Rightarrow> bool" where
  "contiguous_from n [] = True"
| "contiguous_from n (e # es) = (ib_binding_sequence e = n \<and> contiguous_from (n + 1) es)"

definition batch_identity :: "binding_store \<Rightarrow> batch_file \<Rightarrow> bool" where
  "batch_identity s f =
     (bf_deployment_id f = cb_deployment_id s \<and> bf_generation f = cb_generation s \<and>
      bf_plan_hash f = cb_plan_hash s \<and> bf_site_hash f = cb_site_hash s \<and> bf_binding_hash f = cb_binding_hash s)"

definition decode_batch :: "payload_hash \<Rightarrow> binding_store \<Rightarrow> batch_file \<Rightarrow> store_error + instance_binding list" where
  "decode_batch H s f =
     (let es = bf_events f in
      checked
        [(\<not> batch_identity s f, BindingStoreError ''wrong identity''),
         (bf_hash f \<noteq> H (BatchPayload (f\<lparr>bf_hash := []\<rparr>)), BindingStoreError ''hash mismatch''),
         (es = [], BindingStoreError ''batch is empty''),
         (\<not> list_all (event_ok H) es, BindingStoreError ''contains an invalid event''),
         (\<not> contiguous_from (ib_binding_sequence (hd es)) es \<or>
            bf_start_sequence f \<noteq> ib_binding_sequence (hd es) \<or>
            bf_end_sequence f \<noteq> ib_binding_sequence (last es), BindingStoreError ''batch sequence range'')] es)"

fun decode_file :: "payload_hash \<Rightarrow> binding_store \<Rightarrow> event_file \<Rightarrow> store_error + instance_binding list" where
  "decode_file H s (BatchFile f) = decode_batch H s f"
| "decode_file H s (SingleFile e) =
     (if event_ok H e then Inr [e] else Inl (BindingStoreError ''event is invalid''))"

fun apply_recovered :: "binding_store \<Rightarrow> instance_binding list \<Rightarrow> store_error + binding_store" where
  "apply_recovered s [] = Inr s"
| "apply_recovered s (e # es) =
     (if \<not> same_identity s e then Inl (BindingStoreError ''identity mismatch'')
      else if ib_binding_sequence e \<noteq> cb_sequence s + 1 then Inl (BindingStoreError ''not contiguous'')
      else apply_recovered (s\<lparr>cb_sequence := ib_binding_sequence e,
                              cb_current := apply_event e (cb_current s)\<rparr>) es)"

fun recover_batches ::
    "payload_hash \<Rightarrow> binding_store \<Rightarrow> event_file list \<Rightarrow> store_error + binding_store" where
  "recover_batches H s [] = Inr s"
| "recover_batches H s (b # bs) =
     and_then (decode_file H s b) (\<lambda>es. and_then (apply_recovered s es) (\<lambda>s'. recover_batches H s' bs))"

text \<open>A new process opens the store on the files that an earlier one left.\<close>

definition recover ::
    "payload_hash \<Rightarrow> deployment_plan \<Rightarrow> allocation_binding \<Rightarrow> nat \<Rightarrow> nat \<Rightarrow> event_file list
      \<Rightarrow> store_error + binding_store" where
  "recover H d b event_batch current_batch files =
     and_then (recover_batches H ((new_store d b event_batch current_batch)\<lparr>cb_batches := files\<rparr>) files)
       (\<lambda>s. Inr (publish_current s))"

section \<open>The invariant\<close>

text \<open>What the code relies on of SHA-256: its result is a text of 64 hexadecimal digits.\<close>

definition digest :: "payload_hash \<Rightarrow> bool" where
  "digest H = (\<forall>p. is_sha256 (H p))"

definition store_log :: "binding_store \<Rightarrow> instance_binding list" where
  "store_log s = files_log (cb_batches s) @ cb_pending s"

text \<open>The identity fields of a compiled plan and its allocation.\<close>

definition identity_valid :: "binding_store \<Rightarrow> bool" where
  "identity_valid s =
     (cb_deployment_id s \<noteq> [] \<and> 0 \<le> cb_generation s \<and> is_sha256 (cb_plan_hash s) \<and>
      is_sha256 (cb_site_hash s) \<and> is_sha256 (cb_binding_hash s))"

definition bindable :: "receipt \<Rightarrow> bool" where
  "bindable r =
     (rc_requirement_id r \<noteq> [] \<and> rc_component_id r \<noteq> [] \<and> rc_instance_id r \<noteq> [] \<and> rc_node_id r \<noteq> [] \<and>
      rc_owner_scope r \<in> {''GLOBAL'', ''RANK''} \<and>
      (if rc_owner_scope r = ''GLOBAL'' then rc_owner_rank r = None
       else (case rc_owner_rank r of None \<Rightarrow> False | Some k \<Rightarrow> 0 \<le> k)))"

lemma validate_bindable: "validate_receipt H utc required excluded strict r = None \<Longrightarrow> bindable r"
  by (auto simp: validate_receipt_def identity_checks_def owner_checks_def bindable_def
      split: if_splits option.splits)

definition current_ok :: "payload_hash \<Rightarrow> binding_store \<Rightarrow> bool" where
  "current_ok H s =
     (distinct (map fst (cb_current s)) \<and>
      (\<forall>(k, e) \<in> set (cb_current s). ib_requirement_id e = k \<and> same_identity s e \<and> event_ok H e))"

definition file_ok :: "payload_hash \<Rightarrow> binding_store \<Rightarrow> event_file \<Rightarrow> bool" where
  "file_ok H s f = (decode_file H s f = Inr (file_events f))"

definition store_inv :: "payload_hash \<Rightarrow> binding_store \<Rightarrow> bool" where
  "store_inv H s =
     (cb_current s = fold apply_event (store_log s) [] \<and>
      cb_sequence s = int (length (store_log s)) \<and>
      contiguous_from 1 (store_log s) \<and>
      (\<forall>e \<in> set (store_log s). same_identity s e \<and> event_ok H e) \<and>
      list_all (file_ok H s) (cb_batches s) \<and> current_ok H s \<and> identity_valid s)"

lemma contiguous_from_append:
  "contiguous_from n (es @ fs) \<longleftrightarrow> contiguous_from n es \<and> contiguous_from (n + int (length es)) fs"
  by (induction n es rule: contiguous_from.induct) (auto simp: algebra_simps)

lemma contiguous_from_hd: "es \<noteq> [] \<Longrightarrow> contiguous_from n es \<Longrightarrow> contiguous_from (ib_binding_sequence (hd es)) es"
  by (cases es) auto

text \<open>A step that keeps the identity keeps what depends on the identity only.\<close>

definition identity_of :: "binding_store \<Rightarrow> string \<times> int \<times> string \<times> string \<times> string" where
  "identity_of s = (cb_deployment_id s, cb_generation s, cb_plan_hash s, cb_site_hash s, cb_binding_hash s)"

lemma identity_cong:
  assumes "identity_of s = identity_of t"
  shows "same_identity s = same_identity t" "identity_valid s = identity_valid t" "file_ok H s = file_ok H t"
proof -
  have id: "same_identity s = same_identity t" "batch_identity s = batch_identity t"
    using assms by (auto simp: identity_of_def same_identity_def batch_identity_def fun_eq_iff)
  then show "same_identity s = same_identity t" by simp
  show "identity_valid s = identity_valid t" using assms by (auto simp: identity_of_def identity_valid_def)
  have "decode_file H s f = decode_file H t f" for f
    using id by (cases f) (auto simp: decode_batch_def)
  then show "file_ok H s = file_ok H t" by (simp add: file_ok_def fun_eq_iff)
qed

lemma publish_identity [simp]:
  "identity_of (publish_pending_events H s) = identity_of s"
  "identity_of (publish_current s) = identity_of s"
  "identity_of (publish_barrier H c s) = identity_of s"
  "identity_of (append_event H s e) = identity_of s"
  by (auto simp: identity_of_def publish_pending_events_def publish_current_def publish_barrier_def
      append_event_def Let_def)

text \<open>Publishing moves events to files without changing the log or the current bindings.\<close>

lemma publish_fields [simp]:
  "store_log (publish_pending_events H s) = store_log s"
  "cb_current (publish_pending_events H s) = cb_current s"
  "cb_sequence (publish_pending_events H s) = cb_sequence s"
  "cb_pending (publish_pending_events H s) = []"
  "store_log (publish_current s) = store_log s"
  "cb_current (publish_current s) = cb_current s"
  "cb_sequence (publish_current s) = cb_sequence s"
  "cb_batches (publish_current s) = cb_batches s"
  "cb_pending (publish_current s) = cb_pending s"
  by (auto simp: publish_pending_events_def publish_current_def store_log_def files_log_def new_batch_def Let_def)

lemma publish_barrier_fields [simp]:
  "store_log (publish_barrier H c s) = store_log s"
  "cb_current (publish_barrier H c s) = cb_current s"
  "cb_sequence (publish_barrier H c s) = cb_sequence s"
  "cb_pending (publish_barrier H c s) = []"
  "cb_batches (publish_barrier H c s) = cb_batches (publish_pending_events H s)"
  by (auto simp: publish_barrier_def Let_def)

lemma new_batch_ok:
  assumes "es \<noteq> []" "contiguous_from n es" "list_all (event_ok H) es"
  shows "file_ok H s (BatchFile (new_batch H s es))"
  using assms contiguous_from_hd [of es n]
  by (simp add: file_ok_def decode_batch_def new_batch_def batch_identity_def Let_def checked_def)

lemma publish_barrier_inv:
  assumes "store_inv H s"
  shows "store_inv H (publish_barrier H c s)"
proof -
  have "file_ok H s (BatchFile (new_batch H s (cb_pending s)))" if "cb_pending s \<noteq> []"
    using assms that
    by (intro new_batch_ok [where n = "1 + int (length (files_log (cb_batches s)))"])
      (auto simp: store_inv_def store_log_def contiguous_from_append list_all_iff)
  with assms have "list_all (file_ok H s) (cb_batches (publish_barrier H c s))"
    by (auto simp: publish_pending_events_def store_inv_def)
  with assms show ?thesis
    using identity_cong [of "publish_barrier H c s" s] by (auto simp: store_inv_def current_ok_def)
qed

lemma apply_event_ok:
  assumes "distinct (map fst cur)" "\<forall>(k, c) \<in> set cur. ib_requirement_id c = k \<and> P c" "P e"
  shows "distinct (map fst (apply_event e cur)) \<and>
    (\<forall>(k, c) \<in> set (apply_event e cur). ib_requirement_id c = k \<and> P c)"
  using assms
  by (auto simp: apply_event_def distinct_update AList.distinct_delete dest!: in_set_update in_set_delete
      split: option.splits if_splits)

text \<open>\<^verbatim>\<open>_append\<close> before it decides whether to publish.\<close>

definition record_event :: "binding_store \<Rightarrow> instance_binding \<Rightarrow> binding_store" where
  "record_event s e = s\<lparr>cb_current := apply_event e (cb_current s), cb_sequence := ib_binding_sequence e,
     cb_pending := cb_pending s @ [e]\<rparr>"

lemma append_event_record:
  "append_event H s e = record_event s e \<or> (\<exists>c. append_event H s e = publish_barrier H c (record_event s e))"
  by (auto simp: append_event_def record_event_def Let_def)

lemma append_event_fields [simp]:
  "store_log (append_event H s e) = store_log s @ [e]"
  "cb_current (append_event H s e) = apply_event e (cb_current s)"
  "cb_sequence (append_event H s e) = ib_binding_sequence e"
  "same_identity (append_event H s e) x = same_identity s x"
proof -
  have rec: "store_log (record_event s e) = store_log s @ [e]"
    "cb_current (record_event s e) = apply_event e (cb_current s)"
    "cb_sequence (record_event s e) = ib_binding_sequence e"
    by (simp_all add: record_event_def store_log_def)
  then show "store_log (append_event H s e) = store_log s @ [e]"
    "cb_current (append_event H s e) = apply_event e (cb_current s)"
    "cb_sequence (append_event H s e) = ib_binding_sequence e"
    using append_event_record [of H s e] by auto
  show "same_identity (append_event H s e) x = same_identity s x"
    using identity_cong(1) [of "append_event H s e" s] by simp
qed

lemma append_event_inv:
  assumes "store_inv H s" "same_identity s e" "event_ok H e" "ib_binding_sequence e = cb_sequence s + 1"
  shows "store_inv H (append_event H s e)"
proof -
  let ?r = "record_event s e"
  have id: "identity_of ?r = identity_of s" by (simp add: record_event_def identity_of_def)
  have log: "store_log ?r = store_log s @ [e]" by (simp add: record_event_def store_log_def)
  have "distinct (map fst (apply_event e (cb_current s))) \<and>
      (\<forall>(k, c) \<in> set (apply_event e (cb_current s)). ib_requirement_id c = k \<and> same_identity s c \<and> event_ok H c)"
    using assms(1-3) by (intro apply_event_ok) (auto simp: store_inv_def current_ok_def)
  then have "current_ok H ?r" using identity_cong(1) [OF id] by (simp add: current_ok_def record_event_def)
  moreover have "list_all (file_ok H ?r) (cb_batches ?r)"
    using assms(1) identity_cong(3) [OF id] by (simp add: store_inv_def record_event_def)
  moreover have "cb_current ?r = fold apply_event (store_log ?r) []"
    using assms(1) log by (simp add: store_inv_def) (simp add: record_event_def)
  ultimately have "store_inv H ?r"
    using assms identity_cong(1,2) [OF id] log
    by (auto simp: store_inv_def contiguous_from_append record_event_def)
  then show ?thesis using append_event_record [of H s e] publish_barrier_inv by metis
qed

text \<open>The events the store builds carry its identity, the next sequence number and a fitting hash.\<close>

lemma active_event_fields [simp]:
  "same_identity s (active_event H s now prev r)"
  "ib_binding_sequence (active_event H s now prev r) = cb_sequence s + 1"
  "ib_requirement_id (active_event H s now prev r) = rc_requirement_id r"
  "ib_instance_id (active_event H s now prev r) = rc_instance_id r"
  "ib_state (active_event H s now prev r) = ''ACTIVE''"
  by (auto simp: active_event_def ib_finalize_def same_identity_def)

lemma closing_event_fields [simp]:
  "same_identity s (closing_event H s x c) = same_identity s c"
  "ib_binding_sequence (closing_event H s x c) = cb_sequence s + 1"
  "ib_requirement_id (closing_event H s x c) = ib_requirement_id c"
  "ib_instance_id (closing_event H s x c) = ib_instance_id c"
  "ib_state (closing_event H s x c) = x"
  by (auto simp: closing_event_def ib_finalize_def same_identity_def)

lemma active_event_ok:
  assumes "digest H" "identity_valid s" "0 \<le> cb_sequence s" "0 \<le> now" "bindable r"
    and "\<And>i. prev = Some i \<Longrightarrow> i \<noteq> [] \<and> i \<noteq> rc_instance_id r"
  shows "event_ok H (active_event H s now prev r)"
  using assms
  by (auto simp: event_ok_def active_event_def ib_finalize_def ib_compute_hash_def instance_binding_checks_def
      require_schema_version_def require_sha256_def digest_def identity_valid_def bindable_def
      split: option.splits if_splits)

lemma closing_event_ok:
  assumes "digest H" "0 \<le> cb_sequence s" "event_ok H c" "x \<in> {''SUPERSEDED'', ''REVOKED''}"
  shows "event_ok H (closing_event H s x c)"
  using assms
  by (auto simp: event_ok_def closing_event_def ib_finalize_def ib_compute_hash_def instance_binding_checks_def
      require_schema_version_def require_sha256_def digest_def split: option.splits if_splits)

lemma event_ok_instance: "event_ok H e \<Longrightarrow> ib_instance_id e \<noteq> []"
  by (auto simp: event_ok_def instance_binding_checks_def split: if_splits)

text \<open>The instance a slot is bound to.\<close>

definition bound_instance :: "binding_store \<Rightarrow> string \<Rightarrow> string option" where
  "bound_instance s slot = map_option ib_instance_id (map_of (cb_current s) slot)"

lemma store_inv_current:
  assumes "store_inv H s" "map_of (cb_current s) slot = Some c"
  shows "ib_requirement_id c = slot" "same_identity s c" "event_ok H c"
  using assms by (auto simp: store_inv_def current_ok_def dest!: map_of_SomeD)

lemma store_inv_sequence: "store_inv H s \<Longrightarrow> 0 \<le> cb_sequence s" "store_inv H s \<Longrightarrow> identity_valid s"
  by (simp_all add: store_inv_def)

lemma new_store_inv: "identity_valid (new_store d b k m) \<Longrightarrow> store_inv H (new_store d b k m)"
  by (auto simp: store_inv_def new_store_def store_log_def files_log_def current_ok_def)

lemma close_inv:
  assumes "digest H" "store_inv H s" "map_of (cb_current s) slot = Some c" "x \<in> {''SUPERSEDED'', ''REVOKED''}"
  shows "store_inv H (append_event H s (closing_event H s x c))"
  using assms store_inv_current [OF assms(2,3)] store_inv_sequence [OF assms(2)]
  by (intro append_event_inv closing_event_ok) simp_all

lemma bind_receipt_inv:
  assumes "digest H" "store_inv H s" "0 \<le> now" "bindable r"
  shows "store_inv H (bind_receipt H now r s)"
proof (cases "map_of (cb_current s) (rc_requirement_id r)")
  case None
  then show ?thesis
    using assms store_inv_sequence [OF assms(2)]
    by (auto simp: bind_receipt_def intro!: append_event_inv active_event_ok)
next
  case (Some c)
  let ?s1 = "append_event H s (closing_event H s ''SUPERSEDED'' c)"
  have s1: "store_inv H ?s1" by (rule close_inv [OF assms(1,2) Some]) simp
  have "ib_instance_id c \<noteq> []" using store_inv_current(3) [OF assms(2) Some] by (rule event_ok_instance)
  then have "ib_instance_id c \<noteq> rc_instance_id r \<Longrightarrow>
      store_inv H (append_event H ?s1 (active_event H ?s1 now (Some (ib_instance_id c)) r))"
    using assms store_inv_sequence [OF s1] by (intro append_event_inv [OF s1] active_event_ok) auto
  with Some assms(2) show ?thesis by (simp add: bind_receipt_def Let_def)
qed

lemma revoke_slot_inv: "digest H \<Longrightarrow> store_inv H s \<Longrightarrow> store_inv H (fst (revoke_slot H slot s))"
  by (auto simp: revoke_slot_def intro: close_inv split: option.splits)

lemma map_of_delete: "map_of (AList.delete k d) x = (if x = k then None else map_of d x)"
  by (simp add: delete_conv')

lemma bound_instance_bind:
  assumes "store_inv H s"
  shows "bound_instance (bind_receipt H now r s) slot =
    (if slot = rc_requirement_id r then Some (rc_instance_id r) else bound_instance s slot)"
  using store_inv_current [OF assms]
  by (auto simp: bind_receipt_def bound_instance_def Let_def apply_event_def update_conv' map_of_delete
      split: option.splits)

lemma bound_instance_revoke:
  assumes "store_inv H s"
  shows "bound_instance (fst (revoke_slot H slot s)) x = (if x = slot then None else bound_instance s x)"
  using store_inv_current [OF assms]
  by (auto simp: revoke_slot_def bound_instance_def apply_event_def map_of_delete split: option.splits)

section \<open>Recovery rebuilds the bindings\<close>

lemma apply_recovered_Inr:
  assumes "contiguous_from (cb_sequence s + 1) es" "\<forall>e \<in> set es. same_identity s e"
  shows "apply_recovered s es = Inr (s\<lparr>cb_sequence := cb_sequence s + int (length es),
    cb_current := fold apply_event es (cb_current s)\<rparr>)"
  using assms
proof (induction s es rule: apply_recovered.induct)
  case (2 s e es)
  then have "\<forall>x \<in> set es. same_identity (s\<lparr>cb_sequence := ib_binding_sequence e,
      cb_current := apply_event e (cb_current s)\<rparr>) x"
    by (simp add: same_identity_def)
  with 2 show ?case by (simp add: algebra_simps)
qed simp

lemma recover_batches_Inr:
  assumes "contiguous_from (cb_sequence s + 1) (files_log bs)" "\<forall>e \<in> set (files_log bs). same_identity s e"
    and "list_all (file_ok H s) bs"
  shows "recover_batches H s bs = Inr (s\<lparr>cb_sequence := cb_sequence s + int (length (files_log bs)),
    cb_current := fold apply_event (files_log bs) (cb_current s)\<rparr>)"
  using assms
proof (induction bs arbitrary: s)
  case (Cons b bs)
  let ?es = "file_events b"
  have log: "files_log (b # bs) = ?es @ files_log bs" by (simp add: files_log_def)
  have b: "contiguous_from (cb_sequence s + 1) ?es" "\<forall>e \<in> set ?es. same_identity s e"
    "decode_file H s b = Inr ?es"
    using Cons.prems by (auto simp: log contiguous_from_append file_ok_def)
  let ?s = "s\<lparr>cb_sequence := cb_sequence s + int (length ?es), cb_current := fold apply_event ?es (cb_current s)\<rparr>"
  have id: "identity_of ?s = identity_of s" by (simp add: identity_of_def)
  have "recover_batches H ?s bs = Inr (?s\<lparr>cb_sequence := cb_sequence ?s + int (length (files_log bs)),
      cb_current := fold apply_event (files_log bs) (cb_current ?s)\<rparr>)"
    using Cons.prems identity_cong(1,3) [OF id]
    by (intro Cons.IH) (auto simp: log contiguous_from_append algebra_simps)
  then show ?case by (simp add: b(3) log apply_recovered_Inr [OF b(1,2)])
qed (simp add: files_log_def)

section \<open>Reachable stores\<close>

datatype store_op = StoreBind real receipt | StoreRevoke string | StoreFlush

fun run_store_op :: "payload_hash \<Rightarrow> store_op \<Rightarrow> binding_store \<Rightarrow> binding_store" where
  "run_store_op H (StoreBind now r) s = bind_receipt H now r s"
| "run_store_op H (StoreRevoke slot) s = fst (revoke_slot H slot s)"
| "run_store_op H StoreFlush s = flush H s"

fun store_op_ok :: "store_op \<Rightarrow> bool" where
  "store_op_ok (StoreBind now r) = (0 \<le> now \<and> bindable r)"
| "store_op_ok _ = True"

definition run_store_ops :: "payload_hash \<Rightarrow> store_op list \<Rightarrow> binding_store \<Rightarrow> binding_store" where
  "run_store_ops H ops s = fold (run_store_op H) ops s"

text \<open>The identity and the batch limits of a store do not change, and fewer events than the limit
  wait in memory.\<close>

definition store_shape :: "deployment_plan \<Rightarrow> allocation_binding \<Rightarrow> nat \<Rightarrow> nat \<Rightarrow> binding_store \<Rightarrow> bool" where
  "store_shape d b k m s =
     (identity_of s = identity_of (new_store d b k m) \<and> cb_event_batch s = k \<and>
      cb_current_batch s = m \<and> length (cb_pending s) < k)"

lemma append_event_shape: "0 < k \<Longrightarrow> store_shape d b k m s \<Longrightarrow> store_shape d b k m (append_event H s e)"
  by (auto simp: store_shape_def) (auto simp: append_event_def publish_barrier_def publish_pending_events_def
      publish_current_def Let_def)

lemma run_store_op_shape: "0 < k \<Longrightarrow> store_shape d b k m s \<Longrightarrow> store_shape d b k m (run_store_op H op s)"
proof (cases op)
  case StoreFlush
  assume "0 < k" "store_shape d b k m s"
  with StoreFlush show ?thesis
    by (auto simp: store_shape_def flush_def)
      (auto simp: publish_barrier_def publish_pending_events_def publish_current_def Let_def)
qed (auto simp: bind_receipt_def revoke_slot_def Let_def append_event_shape split: option.splits)

lemma run_store_op_inv:
  "digest H \<Longrightarrow> store_op_ok op \<Longrightarrow> store_inv H s \<Longrightarrow> store_inv H (run_store_op H op s)"
  by (cases op) (auto simp: bind_receipt_inv revoke_slot_inv flush_def publish_barrier_inv)

lemma run_store_ops_inv:
  assumes "digest H" "identity_valid (new_store d b k m)" "list_all store_op_ok ops" "0 < k"
  shows "store_inv H (run_store_ops H ops (new_store d b k m)) \<and>
    store_shape d b k m (run_store_ops H ops (new_store d b k m))"
proof -
  have "store_inv H (fold (run_store_op H) ops s) \<and> store_shape d b k m (fold (run_store_op H) ops s)"
    if "store_inv H s" "store_shape d b k m s" for s
    using that assms(1,3,4)
    by (induction ops arbitrary: s) (auto simp: run_store_op_inv run_store_op_shape)
  moreover have "store_shape d b k m (new_store d b k m)" using assms by (simp add: store_shape_def new_store_def)
  ultimately show ?thesis by (simp add: run_store_ops_def new_store_inv assms(2))
qed

lemma store_files_valid:
  assumes "store_inv H s" "store_shape d b k m s"
  shows "recover H d b k' m' (cb_batches s) =
    Inr (publish_current ((new_store d b k' m')\<lparr>cb_batches := cb_batches s,
      cb_sequence := int (length (files_log (cb_batches s))),
      cb_current := fold apply_event (files_log (cb_batches s)) []\<rparr>))"
proof -
  let ?n = "(new_store d b k' m')\<lparr>cb_batches := cb_batches s\<rparr>"
  have id: "identity_of ?n = identity_of s"
    using assms(2) by (simp add: identity_of_def new_store_def store_shape_def)
  have "recover_batches H ?n (cb_batches s) = Inr (?n\<lparr>cb_sequence := cb_sequence ?n + int (length (files_log (cb_batches s))),
      cb_current := fold apply_event (files_log (cb_batches s)) (cb_current ?n)\<rparr>)"
    using assms(1) identity_cong(1,3) [OF id]
    by (intro recover_batches_Inr) (auto simp: store_inv_def store_log_def contiguous_from_append new_store_def)
  then show ?thesis by (simp add: recover_def new_store_def)
qed

lemma flush_log: "files_log (cb_batches (flush H s)) = store_log s"
  using publish_barrier_fields(1,4) [of H True s] by (simp add: flush_def store_log_def del: publish_barrier_fields)

section \<open>Property\<close>

text \<open>
  (C33) Crash recovery: after any sequence of bindings, revocations and flushes, opening the store on
  the files that are on disk succeeds (every hash, identity and sequence check passes) and gives
  exactly the bindings of the committed events; fewer events than the batch limit can be missing, and
  after a flush none is missing, so the recovered bindings, sequence and projection are those of the
  store that crashed.
\<close>

theorem binding_store_recovery:
  assumes s_def: "s = run_store_ops H ops (new_store d b k m)" and "0 < k"
    and "digest H" and "identity_valid (new_store d b k m)" and "list_all store_op_ok ops"
  shows "\<exists>s'. recover H d b k' m' (cb_batches s) = Inr s' \<and>
    cb_current s' = fold apply_event (files_log (cb_batches s)) [] \<and>
    cb_current s = fold apply_event (cb_pending s) (cb_current s') \<and>
    length (cb_pending s) < k \<and>
    (let t = flush H s in \<exists>t'. recover H d b k' m' (cb_batches t) = Inr t' \<and> cb_current t' = cb_current s \<and>
       cb_sequence t' = cb_sequence s \<and> cb_projection t' = cb_current s)"
proof -
  have inv: "store_inv H s" "store_shape d b k m s"
    using run_store_ops_inv [OF assms(3-5,2)] by (auto simp: s_def)
  let ?t = "flush H s"
  have t: "store_inv H ?t" "store_shape d b k m ?t"
    using run_store_op_inv [OF assms(3) _ inv(1), of StoreFlush] run_store_op_shape [OF assms(2) inv(2), of H StoreFlush]
    by simp_all
  have rec_t: "\<exists>t'. recover H d b k' m' (cb_batches ?t) = Inr t' \<and> cb_current t' = cb_current s \<and>
      cb_sequence t' = cb_sequence s \<and> cb_projection t' = cb_current s"
    using store_files_valid [OF t, of k' m'] inv(1)
    by (simp add: publish_current_def store_inv_def flush_log)
  have "cb_current s = fold apply_event (cb_pending s) (fold apply_event (files_log (cb_batches s)) [])"
    using inv(1) by (simp add: store_inv_def store_log_def)
  with rec_t store_files_valid [OF inv, of k' m'] inv(2) show ?thesis
    by (simp add: publish_current_def store_shape_def Let_def)
qed

text \<open>A receipt and a store used as a witness here and in the ledger.\<close>

definition sample_receipt :: "string \<Rightarrow> string \<Rightarrow> receipt" where
  "sample_receipt rid inst =
     \<lparr>rc_schema_version = 2, rc_deployment_id = ''d1'', rc_generation = 0,
      rc_deployment_plan_hash = sample_sha, rc_site_profile_hash = sample_sha,
      rc_allocation_binding_hash = sample_sha, rc_compatibility_profile_hash = sample_sha,
      rc_manifest_hash = sample_sha, rc_requirement_id = rid, rc_role = ''node_supervisor'',
      rc_component_id = ''node_supervisor'', rc_instance_id = inst, rc_owner_scope = ''RANK'',
      rc_owner_rank = Some 1, rc_node_id = ''n1'', rc_pid = Some 7, rc_actor_id = None,
      rc_executable_hash = sample_sha, rc_argv_hash = None, rc_prepared_environment_hash = sample_sha,
      rc_observed_versions = [(''python'', ''3''), (''ray'', ''2''), (''vllm'', ''1'')],
      rc_observed_package_hashes = [], rc_observed_source_hashes = [], rc_patch_results = [],
      rc_capabilities = [], rc_attestation_type = ''SELF'', rc_attested_at = ''2026-01-01T00:00:00Z'',
      rc_receipt_hash = sample_sha\<rparr>"

definition sample_allocation :: allocation_binding where
  "sample_allocation =
     \<lparr>ab_schema_version = 3, ab_deployment_id = ''d1'', ab_generation = 0,
      ab_deployment_plan_hash = sample_sha, ab_site_profile_hash = sample_sha,
      ab_scheduler_allocation_id = ''job'', ab_rank_to_node = [(0, ''n0.site''), (1, ''n1.site'')],
      ab_allocation_binding_hash = sample_sha\<rparr>"

definition sample_store_ops :: "store_op list" where
  "sample_store_ops =
     [StoreBind 1 (sample_receipt ''a'' ''i1''), StoreBind 2 (sample_receipt ''b'' ''i2''),
      StoreBind 3 (sample_receipt ''a'' ''i3''), StoreRevoke ''b'']"

definition finalized_plan :: deployment_plan where
  "finalized_plan = sample_plan\<lparr>dp_deployment_plan_hash := sample_sha\<rparr>"

lemma sample_digest: "digest (\<lambda>p. sample_sha)"
proof -
  have "is_sha256 sample_sha" by code_simp
  then show ?thesis by (simp add: digest_def)
qed

theorem binding_store_recovery_witness:
  "\<exists>s'. recover (\<lambda>p. sample_sha) finalized_plan sample_allocation 2 9
       (cb_batches (run_store_ops (\<lambda>p. sample_sha) sample_store_ops (new_store finalized_plan sample_allocation 2 9))) = Inr s' \<and>
     length (cb_pending (run_store_ops (\<lambda>p. sample_sha) sample_store_ops (new_store finalized_plan sample_allocation 2 9))) = 1 \<and>
     length (cb_current s') = 2 \<and>
     length (cb_current (run_store_ops (\<lambda>p. sample_sha) sample_store_ops (new_store finalized_plan sample_allocation 2 9))) = 1"
proof -
  let ?s = "run_store_ops (\<lambda>p. sample_sha) sample_store_ops (new_store finalized_plan sample_allocation 2 9)"
  have "identity_valid (new_store finalized_plan sample_allocation 2 9)" "list_all store_op_ok sample_store_ops"
    by code_simp+
  then obtain s' where "recover (\<lambda>p. sample_sha) finalized_plan sample_allocation 2 9 (cb_batches ?s) = Inr s'"
      "cb_current s' = fold apply_event (files_log (cb_batches ?s)) []"
    using binding_store_recovery [where H = "\<lambda>p. sample_sha" and ops = sample_store_ops and d = finalized_plan
      and b = sample_allocation and k = 2 and m = 9 and k' = 2 and m' = 9, OF refl _ sample_digest] by auto
  moreover have "length (fold apply_event (files_log (cb_batches ?s)) []) = 2" "length (cb_pending ?s) = 1"
    "length (cb_current ?s) = 1" by code_simp+
  ultimately show ?thesis by auto
qed

end
