(* ===== verification/Ledger.thy ===== *)
theory Ledger
  imports Bindings
begin

text \<open>
  The ledger of accepted receipts, \<^verbatim>\<open>ExactReceiptLedger\<close> in \<^verbatim>\<open>src/exaserve/compat/receipt_v2.py\<close>.

  \<open>ledger\<close> is the state of the class with its optional binding store; the lock makes each method one
  step. The patch lists of a receipt are re-derived from its slot unless the caller gives them
  (\<open>patches\<close>). The replies are a datatype with one constructor per reason of the source. The clock is
  read only by the binding store.
\<close>

section \<open>State\<close>

datatype ledger_reply =
    Invalid receipt_error
  | PlanHashMismatch | DeploymentIdMismatch | SiteProfileMismatch | ProfileMismatch | ManifestMismatch
  | VersionMismatch | SourceMismatch | CapabilityMismatch | BindingMismatch | StaleGeneration
  | NoSuchSlot | RoleMismatch | ScopeMismatch | ComponentMismatch | AttestationMismatch
  | NotGlobalAuthority | NotHeadNode | NoSession | NotOwnRank | NotSlotRank | NotBoundNode
  | NotSessionNode | ConflictingInstance | DuplicateReceipt | ReceiptAccepted

record ledger =
  lg_plan :: deployment_plan
  lg_binding :: allocation_binding
  lg_profile :: compatibility_profile
  lg_by_slot :: "(string \<times> receipt) list"
  lg_superseded :: "string list"
  lg_rejected :: "(string \<times> ledger_reply) list"
  lg_store :: "binding_store option"

text \<open>
  The constructor: \<open>profile\<close> and \<open>manifest\<close> are the locally resolved profile of the plan's vendor and
  the hash of its manifest.
\<close>

definition new_ledger ::
    "deployment_plan \<Rightarrow> allocation_binding \<Rightarrow> compatibility_profile \<Rightarrow> string \<Rightarrow> binding_store option
      \<Rightarrow> receipt_error + ledger" where
  "new_ledger d b profile manifest store =
     checked
       [(ab_deployment_id b \<noteq> dp_deployment_id d, ReceiptError ''deployment_id disagrees''),
        (ab_deployment_plan_hash b \<noteq> dp_deployment_plan_hash d, ReceiptError ''plan hash disagrees''),
        (ab_site_profile_hash b \<noteq> dp_site_profile_hash d, ReceiptError ''site hash disagrees''),
        (int (length (ab_rank_to_node b)) \<noteq> dp_num_nodes d, ReceiptError ''rank count disagrees''),
        (cp_profile_id profile \<noteq> dp_compatibility_profile_hash d, ReceiptError ''profile does not match''),
        (manifest \<noteq> dp_manifest_hash d, ReceiptError ''manifest does not match'')]
       \<lparr>lg_plan = d, lg_binding = b, lg_profile = profile, lg_by_slot = [], lg_superseded = [],
        lg_rejected = [], lg_store = store\<rparr>"

section \<open>Acceptance\<close>

definition expected_versions :: "compatibility_profile \<Rightarrow> (string \<times> string) list" where
  "expected_versions f =
     [(''python'', cp_python f), (''ray'', cp_ray f), (''vllm'', cp_vllm f)] @
     (if cp_mpi4py f \<noteq> [] then [(''mpi4py'', cp_mpi4py f)] else [])"

definition expected_sources :: "compatibility_profile \<Rightarrow> (string \<times> string) list" where
  "expected_sources f =
     fold (\<lambda>(k, v). AList.update k v)
       (concat (map (\<lambda>p. [(''target:'' @ pt_patch_id p, pt_target_source_hash p),
            (''artifact:'' @ pt_patch_id p, pt_patch_artifact_hash p),
            (''delivery:'' @ pt_patch_id p, pt_delivery_artifact_hash p)]) (cp_patches f)) @
        (if cp_seeds f = [] then []
         else [(''vllm_modelinfo:manifest'', cp_seed_manifest_hash f),
               (''vllm_modelinfo:installer'', cp_installer_hash f)] @
              map (\<lambda>s. (''vllm_modelinfo:support:'' @ ss_target_file s, ss_target_sha256 s)) (cp_support_sources f) @
              concat (map (\<lambda>s. [(''vllm_modelinfo:target:'' @ ms_architecture s, ms_target_sha256 s),
                 (''vllm_modelinfo:seed:'' @ ms_architecture s, ms_seed_sha256 s)]) (cp_seeds f)))) []"

definition agrees_with :: "(string \<times> string) list \<Rightarrow> (string \<times> string) list \<Rightarrow> bool" where
  "agrees_with observed expected = list_all (\<lambda>(k, v). map_of observed k = Some v) expected"

definition provenance_checks :: "ledger \<Rightarrow> receipt \<Rightarrow> (bool \<times> ledger_reply) list" where
  "provenance_checks L r =
     [(rc_deployment_plan_hash r \<noteq> dp_deployment_plan_hash (lg_plan L), PlanHashMismatch),
      (rc_deployment_id r \<noteq> dp_deployment_id (lg_plan L), DeploymentIdMismatch),
      (rc_site_profile_hash r \<noteq> dp_site_profile_hash (lg_plan L), SiteProfileMismatch),
      (rc_compatibility_profile_hash r \<noteq> dp_compatibility_profile_hash (lg_plan L), ProfileMismatch),
      (rc_manifest_hash r \<noteq> dp_manifest_hash (lg_plan L), ManifestMismatch),
      (\<not> agrees_with (rc_observed_versions r) (expected_versions (lg_profile L)), VersionMismatch),
      (\<not> agrees_with (rc_observed_source_hashes r) (expected_sources (lg_profile L)), SourceMismatch),
      (rc_attestation_type r = ''SELF'' \<and> rc_capabilities r \<noteq> capabilities (lg_profile L), CapabilityMismatch),
      (rc_allocation_binding_hash r \<noteq> ab_allocation_binding_hash (lg_binding L), BindingMismatch),
      (rc_generation r \<noteq> ab_generation (lg_binding L), StaleGeneration)]"

definition slot_checks :: "receipt_requirement \<Rightarrow> receipt \<Rightarrow> (bool \<times> ledger_reply) list" where
  "slot_checks q r =
     [(rq_role q \<noteq> rc_role r, RoleMismatch),
      (rq_owner_scope q \<noteq> rc_owner_scope r, ScopeMismatch),
      (rq_component_slot q \<noteq> rc_component_id r, ComponentMismatch),
      (rq_attestation_type q \<noteq> rc_attestation_type r, AttestationMismatch)]"

text \<open>Who may submit: the in-process authority for a global slot, the session of the rank otherwise.\<close>

definition authority_checks ::
    "ledger \<Rightarrow> receipt_requirement \<Rightarrow> int option \<Rightarrow> string option \<Rightarrow> bool \<Rightarrow> receipt
      \<Rightarrow> (bool \<times> ledger_reply) list" where
  "authority_checks L q session_rank session_node from_global r =
     (if rc_owner_scope r = ''GLOBAL''
      then [(\<not> from_global, NotGlobalAuthority),
            (case node_for (lg_binding L) 0 of None \<Rightarrow> True | Some h \<Rightarrow> \<not> same_node h (rc_node_id r), NotHeadNode)]
      else case session_rank of
        None \<Rightarrow> [(True, NoSession)]
      | Some k \<Rightarrow>
          [(rc_owner_rank r \<noteq> Some k, NotOwnRank),
           (rq_planned_rank q \<noteq> Some k, NotSlotRank),
           (case node_for (lg_binding L) k of None \<Rightarrow> False | Some n \<Rightarrow> \<not> same_node n (rc_node_id r), NotBoundNode),
           (case session_node of None \<Rightarrow> False | Some n \<Rightarrow> \<not> same_node n (rc_node_id r), NotSessionNode)])"

definition reject :: "ledger \<Rightarrow> receipt \<Rightarrow> ledger_reply \<Rightarrow> ledger \<times> bool \<times> ledger_reply" where
  "reject L r why = (L\<lparr>lg_rejected := lg_rejected L @ [(rc_requirement_id r, why)]\<rparr>, False, why)"

text \<open>All judgements of \<^verbatim>\<open>_accept\<close> that come before the look at the slot's present evidence.\<close>

definition judge ::
    "(receipt \<Rightarrow> string) \<Rightarrow> (string \<Rightarrow> bool) \<Rightarrow> ledger \<Rightarrow> (string list \<times> string list) option
      \<Rightarrow> int option \<Rightarrow> string option \<Rightarrow> bool \<Rightarrow> receipt \<Rightarrow> ledger_reply option" where
  "judge H utc L patches session_rank session_node from_global r =
     (case (case patches of Some p \<Rightarrow> Inr p
            | None \<Rightarrow> patch_requirements_for_plan (lg_plan L) (rc_requirement_id r) (lg_profile L)) of
        Inl e \<Rightarrow> Some (Invalid e)
      | Inr (required, excluded) \<Rightarrow>
        (case validate_receipt H utc required excluded True r of
           Some e \<Rightarrow> Some (Invalid e)
         | None \<Rightarrow>
           (let r = receipt_snapshot H r in
            case first_failure (provenance_checks L r) of
              Some why \<Rightarrow> Some why
            | None \<Rightarrow> (case slot_of (lg_plan L) (rc_requirement_id r) of
                None \<Rightarrow> Some NoSuchSlot
              | Some q \<Rightarrow> first_failure (slot_checks q r @
                  authority_checks L q session_rank session_node from_global r)))))"

definition accept ::
    "(receipt \<Rightarrow> string) \<Rightarrow> payload_hash \<Rightarrow> (string \<Rightarrow> bool) \<Rightarrow> real
      \<Rightarrow> (string list \<times> string list) option \<Rightarrow> int option \<Rightarrow> string option \<Rightarrow> bool \<Rightarrow> receipt \<Rightarrow> ledger
      \<Rightarrow> ledger \<times> bool \<times> ledger_reply" where
  "accept H HB utc now patches session_rank session_node from_global r L =
     (case judge H utc L patches session_rank session_node from_global r of
        Some why \<Rightarrow> reject L r why
      | None \<Rightarrow>
        (let r = receipt_snapshot H r;
             store = (\<lambda>L. L\<lparr>lg_store := map_option (bind_receipt HB now r) (lg_store L),
                            lg_by_slot := AList.update (rc_requirement_id r) r (lg_by_slot L)\<rparr>)
         in case map_of (lg_by_slot L) (rc_requirement_id r) of
              None \<Rightarrow> (store L, True, ReceiptAccepted)
            | Some x \<Rightarrow>
                if rc_instance_id x = rc_instance_id r
                then if rc_receipt_hash x = rc_receipt_hash r then (L, True, DuplicateReceipt)
                     else reject L r ConflictingInstance
                else (store (L\<lparr>lg_superseded := lg_superseded L @ [rc_instance_id x]\<rparr>), True, ReceiptAccepted)))"

section \<open>Revocation and snapshots\<close>

definition revoke_in :: "payload_hash \<Rightarrow> string \<Rightarrow> binding_store option \<Rightarrow> binding_store option" where
  "revoke_in HB slot st = map_option (\<lambda>s. fst (revoke_slot HB slot s)) st"

definition drop_slot :: "payload_hash \<Rightarrow> string \<Rightarrow> ledger \<Rightarrow> ledger" where
  "drop_slot HB slot L =
     L\<lparr>lg_store := revoke_in HB slot (lg_store L), lg_by_slot := AList.delete slot (lg_by_slot L)\<rparr>"

definition supersede_instance ::
    "payload_hash \<Rightarrow> string \<Rightarrow> string \<Rightarrow> ledger \<Rightarrow> ledger" where
  "supersede_instance HB slot inst L =
     (case map_of (lg_by_slot L) slot of
        Some r \<Rightarrow> if rc_instance_id r = inst
                  then (drop_slot HB slot L)\<lparr>lg_superseded := lg_superseded L @ [inst]\<rparr> else L
      | None \<Rightarrow> L)"

definition rank_items :: "int \<Rightarrow> (string \<times> receipt) list \<Rightarrow> (string \<times> receipt) list" where
  "rank_items k d = filter (\<lambda>(slot, r). rc_owner_rank r = Some k) d"

definition drop_rank :: "payload_hash \<Rightarrow> int \<Rightarrow> ledger \<Rightarrow> ledger" where
  "drop_rank HB k L = fold (drop_slot HB) (map fst (rank_items k (lg_by_slot L))) L"

fun accept_all ::
    "(receipt \<Rightarrow> string) \<Rightarrow> payload_hash \<Rightarrow> (string \<Rightarrow> bool) \<Rightarrow> real \<Rightarrow> int \<Rightarrow> string
      \<Rightarrow> receipt list \<Rightarrow> ledger \<Rightarrow> ledger_reply + ledger" where
  "accept_all H HB utc now k node [] L = Inr L"
| "accept_all H HB utc now k node (r # rs) L =
     (case accept H HB utc now None (Some k) (Some node) False r L of
        (L', ok, why) \<Rightarrow> if ok then accept_all H HB utc now k node rs L' else Inl why)"

definition stage_rank_snapshot ::
    "(receipt \<Rightarrow> string) \<Rightarrow> payload_hash \<Rightarrow> (string \<Rightarrow> bool) \<Rightarrow> real \<Rightarrow> int \<Rightarrow> string
      \<Rightarrow> receipt list \<Rightarrow> ledger \<Rightarrow> ledger_reply + ledger" where
  "stage_rank_snapshot H HB utc now k node rs L =
     accept_all H HB utc now k node rs (drop_rank HB k (L\<lparr>lg_store := None\<rparr>))"

definition rebind ::
    "payload_hash \<Rightarrow> real \<Rightarrow> (string \<times> receipt) list \<Rightarrow> (string \<times> receipt) list
      \<Rightarrow> binding_store option \<Rightarrow> binding_store option" where
  "rebind HB now before after st =
     fold (\<lambda>(slot, r) st.
         case map_of before slot of
           Some prior \<Rightarrow> if rc_instance_id prior = rc_instance_id r then st
                         else map_option (bind_receipt HB now r) st
         | None \<Rightarrow> map_option (bind_receipt HB now r) st) after
       (fold (revoke_in HB) (filter (\<lambda>slot. map_of after slot = None) (map fst before)) st)"

definition commit_staged ::
    "payload_hash \<Rightarrow> real \<Rightarrow> ledger \<Rightarrow> ledger \<Rightarrow> ledger" where
  "commit_staged HB now candidate L =
     L\<lparr>lg_store := rebind HB now (lg_by_slot L) (lg_by_slot candidate) (lg_store L),
       lg_by_slot := lg_by_slot candidate, lg_superseded := lg_superseded candidate,
       lg_rejected := lg_rejected candidate\<rparr>"

definition commit_rank_snapshot ::
    "payload_hash \<Rightarrow> real \<Rightarrow> int \<Rightarrow> ledger \<Rightarrow> ledger \<Rightarrow> ledger" where
  "commit_rank_snapshot HB now k candidate L =
     (let before = rank_items k (lg_by_slot L); after = rank_items k (lg_by_slot candidate)
      in L\<lparr>lg_store := rebind HB now before after (lg_store L),
           lg_by_slot := fold (\<lambda>(slot, r). AList.update slot r) after
             (fold (\<lambda>slot. AList.delete slot) (map fst before) (lg_by_slot L)),
           lg_superseded := lg_superseded candidate, lg_rejected := lg_rejected candidate\<rparr>)"

section \<open>Reconciliation\<close>

definition satisfied :: "ledger \<Rightarrow> bool" where
  "satisfied L =
     (let planned = requirement_keys (lg_plan L); accepted = set (map fst (lg_by_slot L))
      in planned - accepted = {} \<and> accepted - planned = {})"

definition missing_slots :: "ledger \<Rightarrow> string list" where
  "missing_slots L =
     sort (remdups (filter (\<lambda>k. k \<notin> set (map fst (lg_by_slot L))) (map rq_id (dp_receipt_requirements (lg_plan L)))))"

definition unexpected_slots :: "ledger \<Rightarrow> string list" where
  "unexpected_slots L = sort (filter (\<lambda>k. k \<notin> requirement_keys (lg_plan L)) (remdups (map fst (lg_by_slot L))))"

definition accepted_count :: "ledger \<Rightarrow> nat" where
  "accepted_count L = length (lg_by_slot L)"

lemma sort_empty_iff [simp]: "sort xs = [] \<longleftrightarrow> xs = []"
  by (metis length_0_conv length_sort)

lemma satisfied_iff: "satisfied L \<longleftrightarrow> missing_slots L = [] \<and> unexpected_slots L = []"
  by (auto simp: satisfied_def missing_slots_def unexpected_slots_def requirement_keys_def Let_def filter_empty_conv)

definition accepted_receipts :: "ledger \<Rightarrow> receipt list" where
  "accepted_receipts L = map (\<lambda>k. the (map_of (lg_by_slot L) k)) (sort (map fst (lg_by_slot L)))"

section \<open>Reachable ledgers\<close>

text \<open>
  Calls in any order: receipts from rank sessions and from the in-process authority, restarts, lost
  ranks, and snapshots of a rank that were staged on an earlier state and are committed now.
\<close>

inductive ledger_reach ::
    "(receipt \<Rightarrow> string) \<Rightarrow> payload_hash \<Rightarrow> (string \<Rightarrow> bool) \<Rightarrow> ledger \<Rightarrow> ledger \<Rightarrow> bool"
  for H HB utc L0 where
  init: "ledger_reach H HB utc L0 L0"
| accept: "ledger_reach H HB utc L0 L \<Longrightarrow> 0 \<le> now \<Longrightarrow>
    ledger_reach H HB utc L0 (fst (accept H HB utc now None session_rank session_node from_global r L))"
| supersede: "ledger_reach H HB utc L0 L \<Longrightarrow> ledger_reach H HB utc L0 (supersede_instance HB slot inst L)"
| drop: "ledger_reach H HB utc L0 L \<Longrightarrow> ledger_reach H HB utc L0 (drop_rank HB k L)"
| commit: "ledger_reach H HB utc L0 L \<Longrightarrow> ledger_reach H HB utc L0 L1 \<Longrightarrow>
    stage_rank_snapshot H HB utc now k node rs L1 = Inr C \<Longrightarrow> 0 \<le> now' \<Longrightarrow>
    ledger_reach H HB utc L0 (commit_rank_snapshot HB now' k C L)"

text \<open>What the ledger knows of a receipt it holds for a slot.\<close>

definition owner_ok :: "ledger \<Rightarrow> receipt_requirement \<Rightarrow> receipt \<Rightarrow> bool" where
  "owner_ok L q r =
     (if rc_owner_scope r = ''GLOBAL''
      then rc_owner_rank r = None \<and> (\<exists>h. node_for (lg_binding L) 0 = Some h \<and> same_node h (rc_node_id r))
      else \<exists>k. rc_owner_rank r = Some k \<and> rq_planned_rank q = Some k \<and>
             (\<forall>n. node_for (lg_binding L) k = Some n \<longrightarrow> same_node n (rc_node_id r)))"

definition credible :: "(receipt \<Rightarrow> string) \<Rightarrow> (string \<Rightarrow> bool) \<Rightarrow> ledger \<Rightarrow> string \<Rightarrow> receipt \<Rightarrow> bool" where
  "credible H utc L slot r =
     (rc_requirement_id r = slot \<and>
      (\<exists>q orig required excluded. slot_of (lg_plan L) slot = Some q \<and>
         patch_requirements_for_plan (lg_plan L) slot (lg_profile L) = Inr (required, excluded) \<and>
         validate_receipt H utc required excluded True orig = None \<and> r = receipt_snapshot H orig \<and>
         first_failure (provenance_checks L r) = None \<and> first_failure (slot_checks q r) = None \<and>
         owner_ok L q r))"

definition same_scope :: "ledger \<Rightarrow> ledger \<Rightarrow> bool" where
  "same_scope L M = (lg_plan L = lg_plan M \<and> lg_binding L = lg_binding M \<and> lg_profile L = lg_profile M)"

lemma credible_scope: "same_scope L M \<Longrightarrow> credible H utc L slot r = credible H utc M slot r"
  by (simp add: credible_def same_scope_def provenance_checks_def owner_ok_def)

definition evidence_ok :: "(receipt \<Rightarrow> string) \<Rightarrow> (string \<Rightarrow> bool) \<Rightarrow> ledger \<Rightarrow> (string \<times> receipt) list \<Rightarrow> bool" where
  "evidence_ok H utc L d =
     (distinct (map fst d) \<and> (\<forall>(slot, r) \<in> set d. credible H utc L slot r))"

definition ledger_inv :: "(receipt \<Rightarrow> string) \<Rightarrow> (string \<Rightarrow> bool) \<Rightarrow> ledger \<Rightarrow> ledger \<Rightarrow> bool" where
  "ledger_inv H utc L0 L = (same_scope L0 L \<and> evidence_ok H utc L0 (lg_by_slot L))"

lemma receipt_snapshot_fields [simp]:
  "rc_requirement_id (receipt_snapshot H r) = rc_requirement_id r"
  "rc_component_id (receipt_snapshot H r) = rc_component_id r"
  "rc_instance_id (receipt_snapshot H r) = rc_instance_id r"
  "rc_owner_rank (receipt_snapshot H r) = rc_owner_rank r"
  "rc_owner_scope (receipt_snapshot H r) = rc_owner_scope r"
  "rc_node_id (receipt_snapshot H r) = rc_node_id r"
  "set (rc_patch_results (receipt_snapshot H r)) = set (rc_patch_results r)"
  by (simp_all add: receipt_snapshot_def receipt_canonical_def)

lemma validate_owner:
  assumes "validate_receipt H utc required excluded strict r = None"
  shows "rc_owner_scope r = ''GLOBAL'' \<Longrightarrow> rc_owner_rank r = None"
    and "rc_owner_scope r \<in> {''GLOBAL'', ''RANK''}"
  using assms by (auto simp: validate_receipt_def owner_checks_def split: if_splits)

lemma judge_credible:
  assumes "judge H utc L None session_rank session_node from_global r = None"
  shows "credible H utc L (rc_requirement_id r) (receipt_snapshot H r)"
    and "(if rc_owner_scope r = ''GLOBAL'' then from_global else rc_owner_rank r = session_rank)"
proof -
  let ?s = "receipt_snapshot H r"
  from assms obtain required excluded q where
    req: "patch_requirements_for_plan (lg_plan L) (rc_requirement_id r) (lg_profile L) = Inr (required, excluded)"
    and valid: "validate_receipt H utc required excluded True r = None"
    and prov: "first_failure (provenance_checks L ?s) = None"
    and q: "slot_of (lg_plan L) (rc_requirement_id r) = Some q"
    and slot: "first_failure (slot_checks q ?s) = None"
    and auth: "first_failure (authority_checks L q session_rank session_node from_global ?s) = None"
    by (auto simp: judge_def Let_def split: sum.splits prod.splits option.splits)
  have "owner_ok L q ?s"
    using auth validate_owner(1) [OF valid]
    by (auto simp: owner_ok_def authority_checks_def split: if_splits option.splits)
  with req valid prov q slot show "credible H utc L (rc_requirement_id r) ?s"
    unfolding credible_def by (auto intro!: exI [of _ q] exI [of _ r])
  show "(if rc_owner_scope r = ''GLOBAL'' then from_global else rc_owner_rank r = session_rank)"
    using auth by (auto simp: authority_checks_def split: if_splits option.splits)
qed

lemma judge_scope:
  assumes "same_scope L M"
  shows "judge H utc L p session_rank session_node g r = judge H utc M p session_rank session_node g r"
proof -
  from assms have eq: "lg_plan L = lg_plan M" "lg_binding L = lg_binding M" "lg_profile L = lg_profile M"
    by (simp_all add: same_scope_def)
  show ?thesis unfolding judge_def provenance_checks_def authority_checks_def eq ..
qed

subsection \<open>Every operation keeps the invariant\<close>

lemma evidence_update:
  "evidence_ok H utc L d \<Longrightarrow> credible H utc L slot r \<Longrightarrow> evidence_ok H utc L (AList.update slot r d)"
  by (auto simp: evidence_ok_def distinct_update dest!: in_set_update)

lemma evidence_delete: "evidence_ok H utc L d \<Longrightarrow> evidence_ok H utc L (AList.delete slot d)"
  by (auto simp: evidence_ok_def AList.distinct_delete dest!: in_set_delete)

lemma evidence_updates:
  "evidence_ok H utc L d \<Longrightarrow> \<forall>(slot, r) \<in> set xs. credible H utc L slot r \<Longrightarrow>
     evidence_ok H utc L (fold (\<lambda>(slot, r). AList.update slot r) xs d)"
  by (induction xs arbitrary: d) (auto intro: evidence_update)

lemma evidence_deletes:
  "evidence_ok H utc L d \<Longrightarrow> evidence_ok H utc L (fold (\<lambda>slot. AList.delete slot) ks d)"
  by (induction ks arbitrary: d) (auto intro: evidence_delete)

lemma same_scope_trans: "same_scope A B \<Longrightarrow> same_scope B C \<Longrightarrow> same_scope A C"
  by (simp add: same_scope_def)

lemma same_scope_refl [simp]: "same_scope L L"
  by (simp add: same_scope_def)

lemma accept_inv:
  assumes inv: "ledger_inv H utc L0 L"
  shows "ledger_inv H utc L0 (fst (accept H HB utc now None session_rank session_node from_global r L))"
proof (cases "judge H utc L None session_rank session_node from_global r")
  case None
  have "same_scope L0 L" using inv by (simp add: ledger_inv_def)
  with judge_credible(1) [OF None] have "credible H utc L0 (rc_requirement_id r) (receipt_snapshot H r)"
    by (simp add: credible_scope)
  with inv None show ?thesis
    by (auto simp: accept_def Let_def ledger_inv_def same_scope_def reject_def evidence_update
        split: option.splits)
next
  case (Some why)
  with inv show ?thesis by (simp add: accept_def reject_def ledger_inv_def same_scope_def)
qed

lemma drop_slot_inv: "ledger_inv H utc L0 L \<Longrightarrow> ledger_inv H utc L0 (drop_slot HB slot L)"
  by (simp add: drop_slot_def ledger_inv_def same_scope_def evidence_delete)

lemma drop_slots_inv: "ledger_inv H utc L0 L \<Longrightarrow> ledger_inv H utc L0 (fold (drop_slot HB) ks L)"
  by (induction ks arbitrary: L) (auto intro: drop_slot_inv)

lemma supersede_inv: "ledger_inv H utc L0 L \<Longrightarrow> ledger_inv H utc L0 (supersede_instance HB slot inst L)"
  using drop_slot_inv [of H utc L0 L HB slot]
  by (auto simp: supersede_instance_def ledger_inv_def same_scope_def split: option.splits)

lemma drop_rank_inv: "ledger_inv H utc L0 L \<Longrightarrow> ledger_inv H utc L0 (drop_rank HB k L)"
  by (simp add: drop_rank_def drop_slots_inv)

lemma accept_all_inv:
  assumes "ledger_inv H utc L0 L" "accept_all H HB utc now k node rs L = Inr C"
  shows "ledger_inv H utc L0 C"
  using assms
proof (induction rs arbitrary: L)
  case (Cons r rs)
  obtain L' ok why where acc: "accept H HB utc now None (Some k) (Some node) False r L = (L', ok, why)"
    using prod_cases3 by blast
  with Cons.prems have "accept_all H HB utc now k node rs L' = Inr C" by (auto split: if_splits)
  moreover have "ledger_inv H utc L0 L'" using accept_inv [OF Cons.prems(1)] acc by (metis fst_conv)
  ultimately show ?case using Cons.IH by blast
qed simp

lemma stage_inv:
  assumes "ledger_inv H utc L0 L" "stage_rank_snapshot H HB utc now k node rs L = Inr C"
  shows "ledger_inv H utc L0 C"
proof -
  have "ledger_inv H utc L0 (L\<lparr>lg_store := None\<rparr>)"
    using assms(1) by (simp add: ledger_inv_def same_scope_def)
  with assms(2) show ?thesis by (auto simp: stage_rank_snapshot_def intro: accept_all_inv drop_rank_inv)
qed

lemma commit_rank_inv:
  assumes "ledger_inv H utc L0 L" "ledger_inv H utc L0 C"
  shows "ledger_inv H utc L0 (commit_rank_snapshot HB now k C L)"
proof -
  have "\<forall>(slot, r) \<in> set (rank_items k (lg_by_slot C)). credible H utc L0 slot r"
    using assms(2) by (auto simp: ledger_inv_def evidence_ok_def rank_items_def)
  with assms(1) show ?thesis
    by (auto simp: commit_rank_snapshot_def Let_def ledger_inv_def same_scope_def
        intro: evidence_updates evidence_deletes)
qed

lemma ledger_reach_inv:
  assumes "ledger_reach H HB utc L0 L" "lg_by_slot L0 = []"
  shows "ledger_inv H utc L0 L"
  using assms
  by (induction rule: ledger_reach.induct)
    (auto simp: accept_inv supersede_inv drop_rank_inv intro: commit_rank_inv stage_inv,
      simp add: ledger_inv_def evidence_ok_def)

section \<open>The ledger and its binding store agree\<close>

text \<open>
  What the ledger needs of a journal of slots: binding a receipt makes its instance the bound one of
  its slot, revoking unbinds the slot, and neither touches other slots.
\<close>

locale slot_journal =
  fixes jok :: "'s \<Rightarrow> bool"
    and rok :: "receipt \<Rightarrow> bool"
    and bound :: "'s \<Rightarrow> string \<Rightarrow> string option"
    and bind :: "receipt \<Rightarrow> 's \<Rightarrow> 's"
    and revoke :: "string \<Rightarrow> 's \<Rightarrow> 's"
  assumes bind_ok: "jok s \<Longrightarrow> rok r \<Longrightarrow> jok (bind r s)"
    and revoke_ok: "jok s \<Longrightarrow> jok (revoke slot s)"
    and bound_bind: "jok s \<Longrightarrow> bound (bind r s) slot =
      (if slot = rc_requirement_id r then Some (rc_instance_id r) else bound s slot)"
    and bound_revoke: "jok s \<Longrightarrow> bound (revoke slot s) x = (if x = slot then None else bound s x)"
begin

definition mirrors :: "'s \<Rightarrow> (string \<times> receipt) list \<Rightarrow> bool" where
  "mirrors s d \<longleftrightarrow> jok s \<and> (\<forall>slot. bound s slot = map_option rc_instance_id (map_of d slot))"

lemma mirrors_bind: "mirrors s d \<Longrightarrow> rok r \<Longrightarrow> mirrors (bind r s) (AList.update (rc_requirement_id r) r d)"
  by (simp add: mirrors_def bind_ok bound_bind update_conv')

lemma mirrors_revoke: "mirrors s d \<Longrightarrow> mirrors (revoke slot s) (AList.delete slot d)"
  by (simp add: mirrors_def revoke_ok bound_revoke map_of_delete)

lemma mirrors_revokes:
  "mirrors s d \<Longrightarrow> mirrors (fold revoke ks s) (fold (\<lambda>k. AList.delete k) ks d)"
  by (induction ks arbitrary: s d) (auto intro: mirrors_revoke)

lemma mirrors_skip:
  "mirrors s d \<Longrightarrow> map_option rc_instance_id (map_of d slot) = Some (rc_instance_id r) \<Longrightarrow>
     mirrors s (AList.update slot r d)"
  by (auto simp: mirrors_def update_conv')

lemma mirrors_rebinds:
  assumes "mirrors s d" "distinct (map fst xs)" "\<forall>(k, r) \<in> set xs. rc_requirement_id r = k \<and> rok r"
    and "\<forall>(k, r) \<in> set xs. skip k r \<longrightarrow> map_option rc_instance_id (map_of d k) = Some (rc_instance_id r)"
  shows "mirrors (fold (\<lambda>(k, r) s. if skip k r then s else bind r s) xs s)
    (fold (\<lambda>(k, r). AList.update k r) xs d)"
  using assms
proof (induction xs arbitrary: s d)
  case (Cons x xs)
  obtain k r where x: "x = (k, r)" by fastforce
  let ?s = "if skip k r then s else bind r s"
  have "mirrors ?s (AList.update k r d)"
    using Cons.prems mirrors_skip [of s d k r] mirrors_bind [of s d r] by (auto simp: x)
  moreover have "\<forall>(k', r') \<in> set xs. skip k' r' \<longrightarrow>
      map_option rc_instance_id (map_of (AList.update k r d) k') = Some (rc_instance_id r')"
    using Cons.prems by (force simp: x update_conv')
  ultimately show ?case using Cons.IH [of ?s "AList.update k r d"] Cons.prems by (simp add: x)
qed simp

lemma mirrors_cong: "mirrors s d \<Longrightarrow> (\<And>slot. map_of d slot = map_of d' slot) \<Longrightarrow> mirrors s d'"
  by (simp add: mirrors_def)

end

text \<open>A store of the plan and allocation that keeps its invariant, under a hash function with digests.\<close>

definition store_of :: "payload_hash \<Rightarrow> deployment_plan \<Rightarrow> allocation_binding \<Rightarrow> binding_store \<Rightarrow> bool" where
  "store_of HB d b s =
     (digest HB \<and> store_inv HB s \<and> 0 < cb_event_batch s \<and>
      store_shape d b (cb_event_batch s) (cb_current_batch s) s)"

lemma store_of_op: "store_op_ok op \<Longrightarrow> store_of HB d b s \<Longrightarrow> store_of HB d b (run_store_op HB op s)"
  using run_store_op_shape [of "cb_event_batch s" d b "cb_current_batch s" s HB op]
  by (auto simp: store_of_def run_store_op_inv store_shape_def)

interpretation journal: slot_journal "store_of HB d b" "\<lambda>r. 0 \<le> now \<and> bindable r" bound_instance
    "bind_receipt HB now" "\<lambda>slot s. fst (revoke_slot HB slot s)" for HB d b now
proof
  fix r s slot x
  assume s: "store_of HB d b s"
  show "store_of HB d b (bind_receipt HB now r s)" if "0 \<le> now \<and> bindable r"
    using store_of_op [OF _ s, of "StoreBind now r"] that by simp
  show "store_of HB d b (fst (revoke_slot HB slot s))"
    using store_of_op [OF _ s, of "StoreRevoke slot"] by simp
  show "bound_instance (bind_receipt HB now r s) slot =
      (if slot = rc_requirement_id r then Some (rc_instance_id r) else bound_instance s slot)"
    "bound_instance (fst (revoke_slot HB slot s)) x = (if x = slot then None else bound_instance s x)"
    using s by (simp_all add: store_of_def bound_instance_bind bound_instance_revoke)
qed

text \<open>\<open>journal.mirrors\<close> does not depend on the clock, so it is named once for all readings.\<close>

definition ledger_mirrored :: "payload_hash \<Rightarrow> deployment_plan \<Rightarrow> allocation_binding \<Rightarrow> ledger \<Rightarrow> bool" where
  "ledger_mirrored HB d b L =
     (case lg_store L of None \<Rightarrow> True
      | Some s \<Rightarrow> store_of HB d b s \<and>
          (\<forall>slot. bound_instance s slot = map_option rc_instance_id (map_of (lg_by_slot L) slot)))"

lemma ledger_mirrored_iff:
  "ledger_mirrored HB d b L \<longleftrightarrow> (\<forall>s. lg_store L = Some s \<longrightarrow> journal.mirrors HB d b s (lg_by_slot L))"
  by (auto simp: ledger_mirrored_def journal.mirrors_def split: option.splits)

lemma credible_bindable:
  assumes "credible H utc L slot r"
  shows "bindable r"
proof -
  from assms obtain x required excluded where "validate_receipt H utc required excluded True x = None"
      "r = receipt_snapshot H x" by (auto simp: credible_def)
  then show ?thesis using validate_bindable [of H utc required excluded True x] by (simp add: bindable_def)
qed

lemma accept_mirrored:
  assumes "ledger_mirrored HB d b L" "0 \<le> now"
  shows "ledger_mirrored HB d b (fst (accept H HB utc now None session_rank session_node g r L))"
proof (cases "judge H utc L None session_rank session_node g r")
  case None
  then have "bindable (receipt_snapshot H r)" using judge_credible(1) credible_bindable by blast
  with assms None show ?thesis
    using journal.mirrors_bind [of HB d b _ _ now "receipt_snapshot H r"]
    by (auto simp: accept_def Let_def reject_def ledger_mirrored_iff split: option.splits)
next
  case (Some why)
  with assms show ?thesis by (simp add: accept_def reject_def ledger_mirrored_iff)
qed

lemma drop_slot_mirrored: "ledger_mirrored HB d b L \<Longrightarrow> ledger_mirrored HB d b (drop_slot HB slot L)"
  using journal.mirrors_revoke [where HB = HB]
  by (auto simp: drop_slot_def revoke_in_def ledger_mirrored_iff)

lemma drop_slots_mirrored: "ledger_mirrored HB d b L \<Longrightarrow> ledger_mirrored HB d b (fold (drop_slot HB) ks L)"
  by (induction ks arbitrary: L) (auto intro: drop_slot_mirrored)

lemma supersede_mirrored: "ledger_mirrored HB d b L \<Longrightarrow> ledger_mirrored HB d b (supersede_instance HB slot inst L)"
  using drop_slot_mirrored [of HB d b L slot]
  by (auto simp: supersede_instance_def ledger_mirrored_def split: option.splits)

lemma map_of_fold_update:
  "distinct (map fst xs) \<Longrightarrow> map_of (fold (\<lambda>(k, r). AList.update k r) xs d) slot =
     (case map_of xs slot of None \<Rightarrow> map_of d slot | Some r \<Rightarrow> Some r)"
proof (induction xs arbitrary: d)
  case (Cons x xs)
  obtain k r where x: "x = (k, r)" by fastforce
  with Cons.prems have "map_of xs k = None" "distinct (map fst xs)" by (auto simp: map_of_eq_None_iff)
  with Cons.IH [of "AList.update k r d"] show ?case
    by (auto simp: x update_conv' split: option.splits)
qed simp

lemma map_of_fold_delete:
  "map_of (fold (\<lambda>k. AList.delete k) ks d) slot = (if slot \<in> set ks then None else map_of d slot)"
  by (induction ks arbitrary: d) (auto simp: map_of_delete)

lemma rank_items_map_of:
  "distinct (map fst d) \<Longrightarrow> map_of (rank_items k d) slot =
     (case map_of d slot of Some r \<Rightarrow> if rc_owner_rank r = Some k then Some r else None | None \<Rightarrow> None)"
  by (induction d) (auto simp: rank_items_def map_of_eq_None_iff split: option.splits if_splits)

lemma rank_items_distinct: "distinct (map fst d) \<Longrightarrow> distinct (map fst (rank_items k d))"
  by (simp add: rank_items_def distinct_map_filter)

lemma rebind_Some:
  "rebind HB now before after (Some s) =
     Some (fold (\<lambda>(slot, r) s. if (case map_of before slot of None \<Rightarrow> False
              | Some prior \<Rightarrow> rc_instance_id prior = rc_instance_id r) then s else bind_receipt HB now r s) after
       (fold (\<lambda>slot s. fst (revoke_slot HB slot s)) (filter (\<lambda>slot. map_of after slot = None) (map fst before)) s))"
proof -
  have rev: "fold (revoke_in HB) ks (Some s) = Some (fold (\<lambda>slot s. fst (revoke_slot HB slot s)) ks s)" for ks s
    by (induction ks arbitrary: s) (auto simp: revoke_in_def)
  have bind: "fold (\<lambda>(slot, r) st. case map_of before slot of
           Some prior \<Rightarrow> if rc_instance_id prior = rc_instance_id r then st
                         else map_option (bind_receipt HB now r) st
         | None \<Rightarrow> map_option (bind_receipt HB now r) st) xs (Some s) =
      Some (fold (\<lambda>(slot, r) s. if (case map_of before slot of None \<Rightarrow> False
              | Some prior \<Rightarrow> rc_instance_id prior = rc_instance_id r) then s else bind_receipt HB now r s) xs s)" for xs s
    by (induction xs arbitrary: s) (auto split: option.splits)
  show ?thesis by (simp add: rebind_def rev bind)
qed

lemma rebind_None [simp]: "rebind HB now before after None = None"
proof -
  have "fold (revoke_in HB) ks None = None" for ks
    by (induction ks) (auto simp: revoke_in_def)
  moreover have "fold (\<lambda>(slot, r) st. case map_of before slot of
           Some prior \<Rightarrow> if rc_instance_id prior = rc_instance_id r then st
                         else map_option (bind_receipt HB now r) st
         | None \<Rightarrow> map_option (bind_receipt HB now r) st) xs None = None" for xs
    by (induction xs) (auto split: option.splits)
  ultimately show ?thesis by (simp add: rebind_def)
qed

lemma commit_rank_mirrored:
  assumes mir: "ledger_mirrored HB d b L" and clock: "0 \<le> now" and inv: "ledger_inv H utc L0 L" and invC: "ledger_inv H utc L0 C"
  shows "ledger_mirrored HB d b (commit_rank_snapshot HB now k C L)"
proof (cases "lg_store L")
  case None
  then have "lg_store (commit_rank_snapshot HB now k C L) = None"
    by (simp add: commit_rank_snapshot_def Let_def)
  then show ?thesis by (simp add: ledger_mirrored_def)
next
  case (Some s)
  let ?d = "lg_by_slot L"
  let ?b = "rank_items k ?d" and ?a = "rank_items k (lg_by_slot C)"
  let ?ks = "filter (\<lambda>slot. map_of ?a slot = None) (map fst ?b)"
  let ?d1 = "fold (\<lambda>slot. AList.delete slot) ?ks ?d"
  have dist: "distinct (map fst ?d)" "distinct (map fst (lg_by_slot C))"
    using inv invC by (auto simp: ledger_inv_def evidence_ok_def)
  then have dist_a: "distinct (map fst ?a)" by (simp add: rank_items_distinct)
  have "journal.mirrors HB d b s ?d" using mir Some by (simp add: ledger_mirrored_iff)
  then have m1: "journal.mirrors HB d b (fold (\<lambda>slot s. fst (revoke_slot HB slot s)) ?ks s) ?d1"
    by (rule journal.mirrors_revokes)
  let ?skip = "\<lambda>slot r. case map_of ?b slot of None \<Rightarrow> False | Some prior \<Rightarrow> rc_instance_id prior = rc_instance_id r"
  have "\<forall>(slot, r) \<in> set ?a. credible H utc L0 slot r"
    using invC by (auto simp: ledger_inv_def evidence_ok_def rank_items_def)
  then have req: "\<forall>(slot, r) \<in> set ?a. rc_requirement_id r = slot \<and> 0 \<le> now \<and> bindable r"
    using clock by (auto simp: credible_bindable) (auto simp: credible_def)
  have skip: "\<forall>(slot, r) \<in> set ?a. ?skip slot r \<longrightarrow>
      map_option rc_instance_id (map_of ?d1 slot) = Some (rc_instance_id r)"
    using dist_a dist(1)
    by (auto simp: map_of_fold_delete rank_items_map_of map_of_is_SomeI split: option.splits if_splits)
  have "journal.mirrors HB d b (fold (\<lambda>(slot, r) s. if ?skip slot r then s else bind_receipt HB now r s) ?a
      (fold (\<lambda>slot s. fst (revoke_slot HB slot s)) ?ks s)) (fold (\<lambda>(slot, r). AList.update slot r) ?a ?d1)"
    by (rule journal.mirrors_rebinds [OF m1 dist_a req skip])
  moreover have "map_of (fold (\<lambda>(slot, r). AList.update slot r) ?a ?d1) slot =
      map_of (fold (\<lambda>(slot, r). AList.update slot r) ?a (fold (\<lambda>slot. AList.delete slot) (map fst ?b) ?d)) slot" for slot
    by (auto simp: map_of_fold_update [OF dist_a] map_of_fold_delete split: option.splits)
  ultimately show ?thesis
    using Some by (auto simp: ledger_mirrored_iff commit_rank_snapshot_def Let_def rebind_Some
        intro: journal.mirrors_cong)
qed

lemma stage_drop_mirrored:
  "ledger_mirrored HB d b L \<Longrightarrow> ledger_mirrored HB d b (drop_rank HB k L)"
  by (simp add: drop_rank_def drop_slots_mirrored)

lemma ledger_reach_mirrored:
  assumes "ledger_reach H HB utc L0 L" "lg_by_slot L0 = []" "ledger_mirrored HB d b L0"
  shows "ledger_mirrored HB d b L"
  using assms
proof (induction rule: ledger_reach.induct)
  case (commit L L1 now k node rs C now')
  then show ?case
    using ledger_reach_inv [of H HB utc L0 L] ledger_reach_inv [of H HB utc L0 L1]
      stage_inv [of H utc L0 L1 HB now k node rs C]
    by (intro commit_rank_mirrored) auto
qed (auto simp: accept_mirrored supersede_mirrored stage_drop_mirrored)

lemma ledger_reach_store:
  "ledger_reach H HB utc L0 L \<Longrightarrow> lg_store L = None \<longleftrightarrow> lg_store L0 = None"
proof (induction rule: ledger_reach.induct)
  case (drop L k)
  have "lg_store (fold (drop_slot HB) ks M) = None \<longleftrightarrow> lg_store M = None" for ks M
    by (induction ks arbitrary: M) (auto simp: drop_slot_def revoke_in_def)
  with drop show ?case by (simp add: drop_rank_def)
next
  case (commit L L1 now k node rs C now')
  then show ?case
    by (cases "lg_store L") (auto simp: commit_rank_snapshot_def Let_def rebind_Some)
qed (auto simp: accept_def reject_def Let_def supersede_instance_def drop_slot_def revoke_in_def
    split: option.splits)

section \<open>What each operation changes\<close>

lemma drop_slots_map_of:
  "map_of (lg_by_slot (fold (drop_slot HB) ks L)) slot =
     (if slot \<in> set ks then None else map_of (lg_by_slot L) slot)"
  by (induction ks arbitrary: L) (auto simp: drop_slot_def map_of_delete)

lemma drop_rank_map_of:
  assumes "distinct (map fst (lg_by_slot L))"
  shows "map_of (lg_by_slot (drop_rank HB k L)) slot =
    (case map_of (lg_by_slot L) slot of
       Some r \<Rightarrow> if rc_owner_rank r = Some k then None else Some r | None \<Rightarrow> None)"
proof -
  have "slot \<in> set (map fst (rank_items k (lg_by_slot L))) \<longleftrightarrow>
      (\<exists>r. map_of (lg_by_slot L) slot = Some r \<and> rc_owner_rank r = Some k)"
    using map_of_eq_None_iff [of "rank_items k (lg_by_slot L)" slot]
    by (auto simp: rank_items_map_of [OF assms] split: option.splits if_splits)
  then show ?thesis by (auto simp: drop_rank_def drop_slots_map_of split: option.splits)
qed

text \<open>
  What a list of receipts installs at a slot: the evidence of its last receipt for the slot, that is, a receipt of the
  list with the same instance and the same content hash.
\<close>

definition last_for :: "string \<Rightarrow> receipt list \<Rightarrow> receipt option" where
  "last_for slot rs = find (\<lambda>x. rc_requirement_id x = slot) (rev rs)"

definition installs :: "(receipt \<Rightarrow> string) \<Rightarrow> int \<Rightarrow> receipt list \<Rightarrow> receipt \<Rightarrow> receipt option \<Rightarrow> bool" where
  "installs H k rs x held =
     (\<exists>y \<in> set rs. held = Some (receipt_snapshot H y) \<and> rc_owner_rank y = Some k \<and>
        rc_requirement_id y = rc_requirement_id x \<and> rc_instance_id y = rc_instance_id x \<and>
        rc_receipt_hash (receipt_snapshot H y) = rc_receipt_hash (receipt_snapshot H x))"

lemma last_for_simps [simp]:
  "last_for slot [] = None"
  "last_for slot (rs @ [r]) = (if rc_requirement_id r = slot then Some r else last_for slot rs)"
  by (simp_all add: last_for_def)

lemma last_for_Some: "last_for slot rs = Some x \<Longrightarrow> x \<in> set rs \<and> rc_requirement_id x = slot"
proof -
  assume "last_for slot rs = Some x"
  then obtain i where "i < length rs" "x = rev rs ! i" "rc_requirement_id x = slot" by (auto simp: last_for_def find_Some_iff)
  then show ?thesis using nth_mem [of i "rev rs"] by simp
qed

lemma accept_all_snoc:
  "accept_all H HB utc now k node (rs @ [r]) L = Inr C \<longleftrightarrow>
     (\<exists>L' why. accept_all H HB utc now k node rs L = Inr L' \<and>
        accept H HB utc now None (Some k) (Some node) False r L' = (C, True, why))"
  by (induction rs arbitrary: L) (auto split: prod.splits)

lemma accepted_step:
  assumes "accept H HB utc now None (Some k) (Some node) False r L = (C, True, why)"
  shows "rc_requirement_id r \<noteq> slot \<Longrightarrow> map_of (lg_by_slot C) slot = map_of (lg_by_slot L) slot"
    and "rc_owner_rank r = Some k"
    and "map_of (lg_by_slot C) (rc_requirement_id r) = Some (receipt_snapshot H r) \<or>
      (\<exists>old. map_of (lg_by_slot L) (rc_requirement_id r) = Some old \<and> map_of (lg_by_slot C) (rc_requirement_id r) = Some old \<and>
         rc_instance_id old = rc_instance_id r \<and> rc_receipt_hash old = rc_receipt_hash (receipt_snapshot H r))"
proof -
  have judged: "judge H utc L None (Some k) (Some node) False r = None"
    using assms by (auto simp: accept_def reject_def split: option.splits)
  then show "rc_owner_rank r = Some k" using judge_credible(2) [OF judged] by (auto split: if_splits)
  show "rc_requirement_id r \<noteq> slot \<Longrightarrow> map_of (lg_by_slot C) slot = map_of (lg_by_slot L) slot"
    using assms judged by (auto simp: accept_def reject_def Let_def update_conv' split: option.splits if_splits)
  show "map_of (lg_by_slot C) (rc_requirement_id r) = Some (receipt_snapshot H r) \<or>
      (\<exists>old. map_of (lg_by_slot L) (rc_requirement_id r) = Some old \<and> map_of (lg_by_slot C) (rc_requirement_id r) = Some old \<and>
         rc_instance_id old = rc_instance_id r \<and> rc_receipt_hash old = rc_receipt_hash (receipt_snapshot H r))"
    using assms judged by (auto simp: accept_def reject_def Let_def update_conv' split: option.splits if_splits)
qed

lemma accept_all_other_slot:
  "accept_all H HB utc now k node rs L = Inr C \<Longrightarrow> last_for slot rs = None \<Longrightarrow> map_of (lg_by_slot C) slot = map_of (lg_by_slot L) slot"
proof (induction rs arbitrary: C rule: rev_induct)
  case (snoc r rs)
  then show ?case using accepted_step(1) by (fastforce simp: accept_all_snoc split: if_splits)
qed simp

lemma accept_all_installs:
  assumes "map_of (lg_by_slot L) slot = None"
  shows "accept_all H HB utc now k node rs L = Inr C \<Longrightarrow> last_for slot rs = Some x \<Longrightarrow> installs H k rs x (map_of (lg_by_slot C) slot)"
proof (induction rs arbitrary: C x rule: rev_induct)
  case (snoc r rs)
  obtain L' why where step: "accept_all H HB utc now k node rs L = Inr L'"
      "accept H HB utc now None (Some k) (Some node) False r L' = (C, True, why)"
    using snoc.prems(1) by (auto simp: accept_all_snoc)
  show ?case
  proof (cases "rc_requirement_id r = slot")
    case False
    then have "installs H k rs x (map_of (lg_by_slot L') slot)" using snoc.IH [OF step(1)] snoc.prems(2) by simp
    then show ?thesis using accepted_step(1) [OF step(2) False] by (auto simp: installs_def)
  next
    case True
    then have x: "x = r" using snoc.prems(2) by simp
    consider "map_of (lg_by_slot C) slot = Some (receipt_snapshot H r)"
      | old where "map_of (lg_by_slot L') slot = Some old" "map_of (lg_by_slot C) slot = Some old"
          "rc_instance_id old = rc_instance_id r" "rc_receipt_hash old = rc_receipt_hash (receipt_snapshot H r)"
      using accepted_step(3) [OF step(2)] True by auto
    then show ?thesis
    proof cases
      case 1
      then show ?thesis using accepted_step(2) [OF step(2)] x by (auto simp: installs_def)
    next
      case old: 2
      then obtain x' where x': "last_for slot rs = Some x'" using accept_all_other_slot [OF step(1), of slot] assms by fastforce
      then have "installs H k rs x' (Some old)" using snoc.IH [OF step(1) x'] old(1) by simp
      then show ?thesis using old(2-4) last_for_Some [OF x'] True x by (auto simp: installs_def)
    qed
  qed
qed simp

lemma commit_rank_map_of:
  assumes "distinct (map fst (lg_by_slot L))" "distinct (map fst (lg_by_slot C))"
  shows "map_of (lg_by_slot (commit_rank_snapshot HB now k C L)) slot =
    (case map_of (rank_items k (lg_by_slot C)) slot of Some r \<Rightarrow> Some r
     | None \<Rightarrow> (case map_of (lg_by_slot L) slot of
         Some r \<Rightarrow> if rc_owner_rank r = Some k then None else Some r | None \<Rightarrow> None))"
proof -
  have "slot \<in> set (map fst (rank_items k (lg_by_slot L))) \<longleftrightarrow>
      (\<exists>r. map_of (lg_by_slot L) slot = Some r \<and> rc_owner_rank r = Some k)"
    using map_of_eq_None_iff [of "rank_items k (lg_by_slot L)" slot]
    by (auto simp: rank_items_map_of [OF assms(1)] split: option.splits if_splits)
  then show ?thesis
    by (auto simp: commit_rank_snapshot_def Let_def map_of_fold_update [OF rank_items_distinct [OF assms(2)]]
        map_of_fold_delete split: option.splits)
qed

lemma find_by_key: "distinct (map f xs) \<Longrightarrow> x \<in> set xs \<Longrightarrow> find (\<lambda>y. f y = f x) xs = Some x"
  by (induction xs) (auto simp: image_iff)

lemma slot_of_distinct:
  "distinct (map rq_id (dp_receipt_requirements d)) \<Longrightarrow> q \<in> set (dp_receipt_requirements d) \<Longrightarrow>
     slot_of d (rq_id q) = Some q"
  by (simp add: slot_of_def find_by_key)

lemma new_ledger_fields:
  assumes "new_ledger d b f m st = Inr L0"
  shows "lg_plan L0 = d" "lg_binding L0 = b" "lg_profile L0 = f" "lg_by_slot L0 = []" "lg_store L0 = st"
  using assms by (auto simp: new_ledger_def checked_def split: option.splits)

section \<open>Properties\<close>

text \<open>What \<open>credible\<close> says, spelled out over the fields of the receipt.\<close>

definition evidence_matches :: "deployment_plan \<Rightarrow> allocation_binding \<Rightarrow> receipt_requirement \<Rightarrow> receipt \<Rightarrow> bool" where
  "evidence_matches d b q r =
     (rc_deployment_plan_hash r = dp_deployment_plan_hash d \<and> rc_deployment_id r = dp_deployment_id d \<and>
      rc_site_profile_hash r = dp_site_profile_hash d \<and>
      rc_compatibility_profile_hash r = dp_compatibility_profile_hash d \<and>
      rc_manifest_hash r = dp_manifest_hash d \<and>
      rc_allocation_binding_hash r = ab_allocation_binding_hash b \<and> rc_generation r = ab_generation b \<and>
      rc_role r = rq_role q \<and> rc_owner_scope r = rq_owner_scope q \<and>
      rc_component_id r = rq_component_slot q \<and> rc_attestation_type r = rq_attestation_type q \<and>
      (rq_owner_scope q \<noteq> ''GLOBAL'' \<longrightarrow> rc_owner_rank r = rq_planned_rank q))"

lemma credible_matches:
  assumes "credible H utc L (rq_id q) r" "slot_of (lg_plan L) (rq_id q) = Some q"
  shows "evidence_matches (lg_plan L) (lg_binding L) q r"
  using assms
  by (auto simp: credible_def evidence_matches_def provenance_checks_def slot_checks_def owner_ok_def
      split: if_splits)

lemma credible_patches:
  assumes "credible H utc L (rq_id q) r" "slot_of (lg_plan L) (rq_id q) = Some q"
    and "distinct (map pt_patch_id (cp_patches (lg_profile L)))"
  shows "\<exists>env. requirement_patch_environment (lg_plan L) (rq_id q) = Inr env \<and>
    (\<forall>p \<in> set (cp_patches (lg_profile L)). pt_required p \<longrightarrow> rq_role q \<in> set (pt_roles p) \<longrightarrow>
       pt_env_gate p = [] \<or> map_of env (pt_env_gate p) = Some ''1'' \<longrightarrow>
       (\<exists>v. (pt_patch_id p, v) \<in> set (rc_patch_results r) \<and> pr_status v = ''APPLIED'' \<and> pr_postcondition_passed v))"
proof -
  from assms(1,2) obtain orig required excluded where
    reqs: "patch_requirements_for_plan (lg_plan L) (rq_id q) (lg_profile L) = Inr (required, excluded)"
    and valid: "validate_receipt H utc required excluded True orig = None" and r: "r = receipt_snapshot H orig"
    by (auto simp: credible_def)
  from reqs assms(2) obtain env where env: "requirement_patch_environment (lg_plan L) (rq_id q) = Inr env"
    and req: "required = required_patch_ids (lg_profile L) (rq_role q) env"
    and exc: "excluded = gated_out (lg_profile L) (rq_role q) env"
    by (auto simp: patch_requirements_for_plan_def and_then_def split: sum.splits)
  have disj: "set required \<inter> set excluded = {}" by (simp add: req exc required_not_gated [OF assms(3)])
  have "\<exists>v. (x, v) \<in> set (rc_patch_results r) \<and> pr_status v = ''APPLIED'' \<and> pr_postcondition_passed v"
    if "x \<in> set required" for x
    using validate_receipt_patches(1,2) [OF valid] that disj unfolding r receipt_snapshot_fields by blast
  then show ?thesis
    using env by (auto simp: req required_patch_ids_def)
qed

lemma rank_slot_owner:
  assumes "ledger_inv H utc L0 L" "distinct (map rq_id (dp_receipt_requirements (lg_plan L0)))"
    and "q \<in> set (requirements_for_rank (lg_plan L0) k)" "map_of (lg_by_slot L) (rq_id q) = Some r"
  shows "rc_owner_rank r = Some k"
proof -
  have "credible H utc L0 (rq_id q) r"
    using assms(1,4) by (auto simp: ledger_inv_def evidence_ok_def dest!: map_of_SomeD)
  moreover have "slot_of (lg_plan L0) (rq_id q) = Some q"
    using assms(2,3) by (auto simp: requirements_for_rank_def slot_of_distinct)
  ultimately show ?thesis
    using credible_matches [of H utc L0 q r] assms(3)
    by (auto simp: evidence_matches_def requirements_for_rank_def)
qed

lemma credible_rank_slot:
  assumes "credible H utc L0 slot r" "rc_owner_rank r = Some k"
  shows "slot \<in> rq_id ` set (requirements_for_rank (lg_plan L0) k)"
proof -
  obtain q orig required excluded where q: "slot_of (lg_plan L0) slot = Some q" "owner_ok L0 q r"
      "first_failure (slot_checks q r) = None" and valid: "validate_receipt H utc required excluded True orig = None"
      "r = receipt_snapshot H orig"
    using assms(1) by (auto simp: credible_def)
  with assms(2) have "rc_owner_scope r = ''RANK''" using validate_owner [OF valid(1)] by auto
  with q assms(2) have "q \<in> set (requirements_for_rank (lg_plan L0) k)" "rq_id q = slot"
    by (auto simp: slot_of_def requirements_for_rank_def find_Some_iff owner_ok_def slot_checks_def
        split: if_splits)
  then show ?thesis by auto
qed

lemma rank_item_slot:
  assumes "ledger_inv H utc L0 C" "map_of (rank_items k (lg_by_slot C)) slot = Some r"
  shows "slot \<in> rq_id ` set (requirements_for_rank (lg_plan L0) k)"
proof (rule credible_rank_slot)
  have r: "map_of (lg_by_slot C) slot = Some r" "rc_owner_rank r = Some k"
    using assms by (auto simp: rank_items_map_of ledger_inv_def evidence_ok_def split: option.splits if_splits)
  then show "credible H utc L0 slot r" "rc_owner_rank r = Some k"
    using assms(1) by (auto simp: ledger_inv_def evidence_ok_def dest!: map_of_SomeD)
qed

lemma drop_rank_unsatisfied:
  assumes "ledger_inv H utc L0 L" "distinct (map rq_id (dp_receipt_requirements (lg_plan L0)))"
    and "requirements_for_rank (lg_plan L0) k \<noteq> []"
  shows "\<not> satisfied (drop_rank HB k L)"
proof -
  from assms(3) obtain q where q: "q \<in> set (requirements_for_rank (lg_plan L0) k)" by (meson list.set_sel(1))
  have "distinct (map fst (lg_by_slot L))" using assms(1) by (simp add: ledger_inv_def evidence_ok_def)
  then have "map_of (lg_by_slot (drop_rank HB k L)) (rq_id q) = None"
    using rank_slot_owner [OF assms(1,2) q] by (auto simp: drop_rank_map_of split: option.splits)
  moreover have "rq_id q \<in> requirement_keys (lg_plan (drop_rank HB k L))"
    using drop_rank_inv [OF assms(1), of HB k] q
    by (auto simp: ledger_inv_def same_scope_def requirement_keys_def requirements_for_rank_def)
  ultimately show ?thesis by (auto simp: satisfied_def Let_def map_of_eq_None_iff)
qed

text \<open>Every planned slot of a satisfied ledger holds a credible receipt.\<close>

lemma satisfied_slots:
  assumes "ledger_inv H utc L0 L" "satisfied L"
  shows "set (map fst (lg_by_slot L)) = rq_id ` set (dp_receipt_requirements (lg_plan L0))"
  using assms by (auto simp: ledger_inv_def satisfied_def Let_def requirement_keys_def same_scope_def)

lemma satisfied_slot_credible:
  assumes "ledger_inv H utc L0 L" "satisfied L" "q \<in> set (dp_receipt_requirements (lg_plan L0))"
  shows "\<exists>r. map_of (lg_by_slot L) (rq_id q) = Some r \<and> credible H utc L0 (rq_id q) r"
proof -
  have "rq_id q \<in> fst ` set (lg_by_slot L)" using satisfied_slots [OF assms(1,2)] assms(3) by auto
  then obtain r where "map_of (lg_by_slot L) (rq_id q) = Some r" by (metis map_of_eq_None_iff not_Some_eq)
  moreover from this have "credible H utc L0 (rq_id q) r"
    using assms(1) by (auto simp: ledger_inv_def evidence_ok_def dest!: map_of_SomeD)
  ultimately show ?thesis by blast
qed

text \<open>
  (C3) A reconciled ledger is exact evidence: when a ledger reached by any calls is satisfied, its
  slots are exactly the planned requirements, and the receipt of every requirement names this plan,
  site, profile, manifest, allocation and generation, has the planned role, component, scope, rank
  and attestation type, reports the profile's versions, and shows every patch the profile requires of
  that role under the planned environment as applied with its postcondition checked.
\<close>

theorem satisfied_ledger_exact:
  assumes "new_ledger d b f m st = Inr L0" and "ledger_reach H HB utc L0 L" and "satisfied L"
    and "distinct (map rq_id (dp_receipt_requirements d))" and "distinct (map pt_patch_id (cp_patches f))"
  shows "set (map fst (lg_by_slot L)) = rq_id ` set (dp_receipt_requirements d) \<and>
    (\<forall>q \<in> set (dp_receipt_requirements d). \<exists>r env. map_of (lg_by_slot L) (rq_id q) = Some r \<and>
       evidence_matches d b q r \<and> agrees_with (rc_observed_versions r) (expected_versions f) \<and>
       requirement_patch_environment d (rq_id q) = Inr env \<and>
       (\<forall>p \<in> set (cp_patches f). pt_required p \<longrightarrow> rq_role q \<in> set (pt_roles p) \<longrightarrow>
          pt_env_gate p = [] \<or> map_of env (pt_env_gate p) = Some ''1'' \<longrightarrow>
          (\<exists>v. (pt_patch_id p, v) \<in> set (rc_patch_results r) \<and> pr_status v = ''APPLIED'' \<and> pr_postcondition_passed v)))"
proof -
  note L0 = new_ledger_fields [OF assms(1)]
  note inv = ledger_reach_inv [OF assms(2) L0(4)]
  have slots: "set (map fst (lg_by_slot L)) = rq_id ` set (dp_receipt_requirements d)"
    using satisfied_slots [OF inv assms(3)] by (simp add: L0)
  have "\<exists>r env. map_of (lg_by_slot L) (rq_id q) = Some r \<and>
       evidence_matches d b q r \<and> agrees_with (rc_observed_versions r) (expected_versions f) \<and>
       requirement_patch_environment d (rq_id q) = Inr env \<and>
       (\<forall>p \<in> set (cp_patches f). pt_required p \<longrightarrow> rq_role q \<in> set (pt_roles p) \<longrightarrow>
          pt_env_gate p = [] \<or> map_of env (pt_env_gate p) = Some ''1'' \<longrightarrow>
          (\<exists>v. (pt_patch_id p, v) \<in> set (rc_patch_results r) \<and> pr_status v = ''APPLIED'' \<and> pr_postcondition_passed v))"
    if "q \<in> set (dp_receipt_requirements d)" for q
  proof -
    obtain r where r: "map_of (lg_by_slot L) (rq_id q) = Some r" and cred: "credible H utc L0 (rq_id q) r"
      using satisfied_slot_credible [OF inv assms(3), of q] \<open>q \<in> set (dp_receipt_requirements d)\<close>
      by (auto simp: L0)
    have q: "slot_of (lg_plan L0) (rq_id q) = Some q" using that assms(4) by (simp add: L0 slot_of_distinct)
    have "agrees_with (rc_observed_versions r) (expected_versions f)"
      using cred by (auto simp: credible_def provenance_checks_def L0 split: if_splits)
    then show ?thesis
      using r credible_matches [OF cred q] credible_patches [OF cred q] assms(5) by (auto simp: L0)
  qed
  then show ?thesis using slots by blast
qed

text \<open>
  (C30) Authority: a submission changes the evidence of at most the slot it names, only when it is
  accepted, and never for an instance that already has evidence there; a global slot changes only for
  the in-process authority, a rank slot only for the session of the rank it is planned on and a
  receipt of the node that the allocation binds to this rank.
\<close>

theorem ledger_authority:
  assumes "accept H HB utc now None session_rank session_node from_global r L = (L', ok, why)"
    and "map_of (lg_by_slot L') slot \<noteq> map_of (lg_by_slot L) slot"
  shows "ok \<and> why = ReceiptAccepted \<and> slot = rc_requirement_id r \<and>
    (\<forall>x. map_of (lg_by_slot L) slot = Some x \<longrightarrow> rc_instance_id x \<noteq> rc_instance_id r) \<and>
    (\<exists>q. slot_of (lg_plan L) slot = Some q \<and> rq_owner_scope q = rc_owner_scope r \<and>
       (if rq_owner_scope q = ''GLOBAL''
        then from_global \<and> (\<exists>h. node_for (lg_binding L) 0 = Some h \<and> same_node h (rc_node_id r))
        else \<exists>k. session_rank = Some k \<and> rq_planned_rank q = Some k \<and> rc_owner_rank r = Some k \<and>
               (\<forall>n. node_for (lg_binding L) k = Some n \<longrightarrow> same_node n (rc_node_id r))))"
proof -
  let ?j = "judge H utc L None session_rank session_node from_global r"
  have "?j = None" using assms by (auto simp: accept_def reject_def split: option.splits)
  with judge_credible [OF this] obtain q where q: "slot_of (lg_plan L) (rc_requirement_id r) = Some q"
    "first_failure (slot_checks q (receipt_snapshot H r)) = None" "owner_ok L q (receipt_snapshot H r)"
    and auth: "if rc_owner_scope r = ''GLOBAL'' then from_global else rc_owner_rank r = session_rank"
    by (auto simp: credible_def)
  have change: "ok \<and> why = ReceiptAccepted \<and> slot = rc_requirement_id r \<and>
      (\<forall>x. map_of (lg_by_slot L) slot = Some x \<longrightarrow> rc_instance_id x \<noteq> rc_instance_id r)"
    using assms \<open>?j = None\<close>
    by (auto simp: accept_def Let_def reject_def update_conv' split: option.splits if_splits)
  have "rq_owner_scope q = rc_owner_scope r" using q(2) by (auto simp: slot_checks_def split: if_splits)
  with q auth change show ?thesis by (auto simp: owner_ok_def split: if_splits)
qed

text \<open>
  Replays are harmless: submitting an accepted receipt once more, from the same authority and at
  any time, is answered as a duplicate and changes nothing, whereas different evidence for the same
  instance is refused and does not replace what is held.
\<close>

lemma ledger_replay:
  assumes "accept H HB utc now None session_rank session_node from_global r L = (L', True, why)"
  shows "accept H HB utc now' None session_rank session_node from_global r L' = (L', True, DuplicateReceipt) \<and>
    (\<forall>r' s n g. rc_requirement_id r' = rc_requirement_id r \<longrightarrow> rc_instance_id r' = rc_instance_id r \<longrightarrow>
      rc_receipt_hash (receipt_snapshot H r') \<noteq> rc_receipt_hash (receipt_snapshot H r) \<longrightarrow>
      (\<exists>L'' why'. accept H HB utc now' None s n g r' L' = (L'', False, why') \<and> lg_by_slot L'' = lg_by_slot L' \<and>
        lg_store L'' = lg_store L'))"
proof -
  have ok: "judge H utc L None session_rank session_node from_global r = None"
    using assms by (auto simp: accept_def reject_def split: option.splits)
  have "lg_plan L' = lg_plan L" "lg_binding L' = lg_binding L" "lg_profile L' = lg_profile L"
    using assms by (auto simp: accept_def reject_def Let_def split: option.splits if_splits)
  then have ok': "judge H utc L' None session_rank session_node from_global r = None"
    using ok judge_scope [of L' L] by (simp add: same_scope_def)
  obtain x where x: "map_of (lg_by_slot L') (rc_requirement_id r) = Some x"
    "rc_instance_id x = rc_instance_id r" "rc_receipt_hash x = rc_receipt_hash (receipt_snapshot H r)"
    using assms ok
    by (auto simp: accept_def reject_def Let_def update_conv' split: option.splits if_splits)
  then have "accept H HB utc now' None session_rank session_node from_global r L' = (L', True, DuplicateReceipt)"
    using ok' by (simp add: accept_def Let_def)
  moreover have "\<exists>L'' why'. accept H HB utc now' None s n g r' L' = (L'', False, why') \<and>
      lg_by_slot L'' = lg_by_slot L' \<and> lg_store L'' = lg_store L'"
    if "rc_requirement_id r' = rc_requirement_id r" "rc_instance_id r' = rc_instance_id r"
      "rc_receipt_hash (receipt_snapshot H r') \<noteq> rc_receipt_hash (receipt_snapshot H r)" for r' s n g
    using that x by (auto simp: accept_def reject_def Let_def split: option.splits)
  ultimately show ?thesis by blast
qed

lemma accept_all_judged:
  assumes "ledger_inv H utc L0 L" "accept_all H HB utc now k node rs L = Inr C" "x \<in> set rs"
  shows "rc_requirement_id x \<in> rq_id ` set (requirements_for_rank (lg_plan L0) k)"
  using assms
proof (induction rs arbitrary: L)
  case (Cons r rs)
  obtain L' why where step: "accept H HB utc now None (Some k) (Some node) False r L = (L', True, why)"
      "accept_all H HB utc now k node rs L' = Inr C"
    using Cons.prems(2) by (auto split: prod.splits if_splits)
  have inv: "ledger_inv H utc L0 L'" using accept_inv [OF Cons.prems(1)] step(1) by (metis fst_conv)
  have "judge H utc L None (Some k) (Some node) False r = None"
    using step(1) by (auto simp: accept_def reject_def split: option.splits)
  then have "credible H utc L0 (rc_requirement_id r) (receipt_snapshot H r)"
    using judge_credible(1) Cons.prems(1) by (metis credible_scope ledger_inv_def)
  then have "rc_requirement_id r \<in> rq_id ` set (requirements_for_rank (lg_plan L0) k)"
    using credible_rank_slot accepted_step(2) [OF step(1)] by simp
  then show ?case using Cons.IH [OF inv step(2)] Cons.prems(3) by auto
qed simp

text \<open>The evidence of the rank in a staged candidate is what its receipts install, slot by slot.\<close>

lemma staged_slot:
  assumes "ledger_inv H utc L0 L" "stage_rank_snapshot H HB utc now k node rs L = Inr C"
    and "distinct (map rq_id (dp_receipt_requirements (lg_plan L0)))"
  shows "last_for slot rs = Some x \<Longrightarrow> installs H k rs x (map_of (lg_by_slot C) slot)"
    and "last_for slot rs = None \<Longrightarrow> map_of (lg_by_slot C) slot = Some r \<Longrightarrow> rc_owner_rank r \<noteq> Some k"
proof -
  let ?D = "drop_rank HB k (L\<lparr>lg_store := None\<rparr>)"
  have inv: "ledger_inv H utc L0 (L\<lparr>lg_store := None\<rparr>)" using assms(1) by (simp add: ledger_inv_def same_scope_def)
  then have dist: "distinct (map fst (lg_by_slot (L\<lparr>lg_store := None\<rparr>)))" by (simp add: ledger_inv_def evidence_ok_def)
  have all: "accept_all H HB utc now k node rs ?D = Inr C" using assms(2) by (simp add: stage_rank_snapshot_def)
  show "last_for slot rs = None \<Longrightarrow> map_of (lg_by_slot C) slot = Some r \<Longrightarrow> rc_owner_rank r \<noteq> Some k"
    using accept_all_other_slot [OF all] drop_rank_map_of [OF dist, of HB k slot] by (auto split: option.splits if_splits)
  assume x: "last_for slot rs = Some x"
  then obtain q where q: "q \<in> set (requirements_for_rank (lg_plan L0) k)" "rq_id q = slot"
    using accept_all_judged [OF drop_rank_inv [OF inv] all, of x] last_for_Some [OF x] by auto
  have "rc_owner_rank r = Some k" if "map_of (lg_by_slot (L\<lparr>lg_store := None\<rparr>)) slot = Some r" for r
    using rank_slot_owner [OF inv assms(3) q(1)] that q(2) by simp
  then have "map_of (lg_by_slot ?D) slot = None" using drop_rank_map_of [OF dist, of HB k slot] by (auto split: option.splits)
  then show "installs H k rs x (map_of (lg_by_slot C) slot)" using all x by (rule accept_all_installs)
qed

text \<open>
  (C31) Loss and return of a rank. Dropping a rank removes the evidence of exactly this rank, and while the plan
  has a slot on the rank the ledger is then not satisfied. Committing a snapshot of the rank, staged on an earlier state, replaces the
  evidence of exactly this rank by the receipts of that snapshot: a slot for which the snapshot has a receipt holds
  afterwards a receipt of the snapshot, of this rank, with the instance and the content hash of the last one for the slot;
  a slot for which it has none holds no evidence of the rank any more; and a slot outside the rank's keeps what it held.
\<close>

theorem rank_evidence_isolated:
  assumes "new_ledger d b f m st = Inr L0" and "ledger_reach H HB utc L0 L" and "ledger_reach H HB utc L0 L1"
    and "stage_rank_snapshot H HB utc now k node rs L1 = Inr C"
    and "distinct (map rq_id (dp_receipt_requirements d))"
  shows "map_of (lg_by_slot (drop_rank HB k L)) slot =
      (case map_of (lg_by_slot L) slot of
         Some r \<Rightarrow> if rc_owner_rank r = Some k then None else Some r | None \<Rightarrow> None) \<and>
    (requirements_for_rank d k \<noteq> [] \<longrightarrow> \<not> satisfied (drop_rank HB k L)) \<and>
    (\<forall>r. rc_owner_rank r \<noteq> Some k \<longrightarrow> map_of (lg_by_slot L) slot = Some r \<longrightarrow>
       slot \<notin> rq_id ` set (requirements_for_rank d k) \<longrightarrow>
       map_of (lg_by_slot (commit_rank_snapshot HB now' k C L)) slot = Some r) \<and>
    (\<forall>r. map_of (lg_by_slot (commit_rank_snapshot HB now' k C L)) slot = Some r \<longrightarrow> rc_owner_rank r = Some k \<longrightarrow>
       (\<exists>x \<in> set rs. r = receipt_snapshot H x)) \<and>
    (case last_for slot rs of
       Some x \<Rightarrow> installs H k rs x (map_of (lg_by_slot (commit_rank_snapshot HB now' k C L)) slot)
     | None \<Rightarrow> map_of (lg_by_slot (commit_rank_snapshot HB now' k C L)) slot =
         (case map_of (lg_by_slot L) slot of
            Some r \<Rightarrow> if rc_owner_rank r = Some k then None else Some r | None \<Rightarrow> None))"
proof -
  note L0 = new_ledger_fields [OF assms(1)]
  let ?M = "commit_rank_snapshot HB now' k C L"
  have inv: "ledger_inv H utc L0 L" "ledger_inv H utc L0 L1"
    using assms(2,3) L0(4) by (auto intro: ledger_reach_inv)
  have invC: "ledger_inv H utc L0 C" by (rule stage_inv [OF inv(2) assms(4)])
  have dist: "distinct (map fst (lg_by_slot L))" "distinct (map fst (lg_by_slot L1))" "distinct (map fst (lg_by_slot C))"
    using inv invC by (auto simp: ledger_inv_def evidence_ok_def)
  note staged = staged_slot [OF inv(2) assms(4), unfolded L0(1), OF assms(5), of slot]
  have from_rs: "\<exists>x \<in> set rs. r = receipt_snapshot H x"
    if "map_of (lg_by_slot C) slot = Some r" "rc_owner_rank r = Some k" for r
    using staged that by (cases "last_for slot rs") (auto simp: installs_def)
  have present: "installs H k rs x (map_of (lg_by_slot ?M) slot)" if "last_for slot rs = Some x" for x
    using staged(1) [OF that] by (auto simp: installs_def commit_rank_map_of [OF dist(1,3)] rank_items_map_of [OF dist(3)])
  have absent: "map_of (lg_by_slot ?M) slot = (case map_of (lg_by_slot L) slot of
      Some r \<Rightarrow> if rc_owner_rank r = Some k then None else Some r | None \<Rightarrow> None)" if "last_for slot rs = None"
    using staged(2) [OF that]
    by (auto simp: commit_rank_map_of [OF dist(1,3)] rank_items_map_of [OF dist(3)] split: option.splits)
  have old: "map_of (lg_by_slot (drop_rank HB k L)) slot =
      (case map_of (lg_by_slot L) slot of
         Some r \<Rightarrow> if rc_owner_rank r = Some k then None else Some r | None \<Rightarrow> None) \<and>
    (requirements_for_rank d k \<noteq> [] \<longrightarrow> \<not> satisfied (drop_rank HB k L)) \<and>
    (\<forall>r. rc_owner_rank r \<noteq> Some k \<longrightarrow> map_of (lg_by_slot L) slot = Some r \<longrightarrow>
       slot \<notin> rq_id ` set (requirements_for_rank d k) \<longrightarrow> map_of (lg_by_slot ?M) slot = Some r) \<and>
    (\<forall>r. map_of (lg_by_slot ?M) slot = Some r \<longrightarrow> rc_owner_rank r = Some k \<longrightarrow> (\<exists>x \<in> set rs. r = receipt_snapshot H x))"
    using drop_rank_unsatisfied [OF inv(1), of k HB] rank_item_slot [OF invC, of k slot] from_rs assms(5)
    by (auto simp: L0 drop_rank_map_of [OF dist(1)] commit_rank_map_of [OF dist(1,3)]
        rank_items_map_of [OF dist(3)] split: option.splits if_splits)
  show ?thesis using old present absent by (simp split: option.split)
qed

text \<open>
  (C32) The ledger survives a restart: in every ledger reached with a binding store, flushing the store
  and opening it on its files gives a store in which every slot is bound to exactly the instance whose
  receipt the ledger holds, and slots without evidence are unbound.
\<close>

theorem ledger_store_restart:
  assumes "new_ledger d b f m (Some (new_store d b n c)) = Inr L0" and "0 < n"
    and "ledger_reach H HB utc L0 L" and "digest HB" and "identity_valid (new_store d b n c)"
  shows "\<exists>s t. lg_store L = Some s \<and> recover HB d b n' c' (cb_batches (flush HB s)) = Inr t \<and>
    (\<forall>slot. bound_instance t slot = map_option rc_instance_id (map_of (lg_by_slot L) slot))"
proof -
  note L0 = new_ledger_fields [OF assms(1)]
  have "store_of HB d b (new_store d b n c)"
    using assms(2,4,5) new_store_inv [OF assms(5), of HB]
    by (simp add: store_of_def store_shape_def) (simp add: new_store_def identity_of_def)
  then have "ledger_mirrored HB d b L0"
    by (simp add: ledger_mirrored_def L0 bound_instance_def) (simp add: new_store_def)
  then have mir: "ledger_mirrored HB d b L" using ledger_reach_mirrored [OF assms(3) L0(4)] by simp
  obtain s where s: "lg_store L = Some s"
    using ledger_reach_store [OF assms(3)] L0(5) by fastforce
  have ok: "store_of HB d b s" "\<forall>slot. bound_instance s slot = map_option rc_instance_id (map_of (lg_by_slot L) slot)"
    using mir s by (auto simp: ledger_mirrored_def)
  have "store_of HB d b (flush HB s)" using store_of_op [OF _ ok(1), of StoreFlush] by simp
  then have "recover HB d b n' c' (cb_batches (flush HB s)) =
    Inr (publish_current ((new_store d b n' c')\<lparr>cb_batches := cb_batches (flush HB s),
      cb_sequence := int (length (store_log s)), cb_current := fold apply_event (store_log s) []\<rparr>))"
    using store_files_valid [of HB "flush HB s" d b] by (auto simp: store_of_def flush_log)
  moreover have "fold apply_event (store_log s) [] = cb_current s"
    using ok(1) by (simp add: store_of_def store_inv_def)
  ultimately show ?thesis
    using s ok(2) by (simp add: bound_instance_def)
qed

section \<open>A deployment that is fully attested\<close>

definition attested_model :: model_plan where
  "attested_model = sample_model\<lparr>mp_tensor_parallel_size := 1, mp_pipeline_parallel_size := 1,
     mp_replicas := [sample_replica\<lparr>rp_planned_ranks := [0], rp_planned_device_ids := [[0]],
       rp_tensor_parallel_size := 1, rp_pipeline_parallel_size := 1, rp_gpu_demand := 1\<rparr>]\<rparr>"

definition attested_plan :: deployment_plan where
  "attested_plan =
     sample_plan\<lparr>dp_num_nodes := 1, dp_models := [attested_model], dp_gateway := None,
       dp_exposure := sample_exposure\<lparr>ex_mode := ''DIRECT_VALIDATION''\<rparr>,
       dp_receipt_requirements := build_receipt_requirements 1 [attested_model] None False,
       dp_deployment_plan_hash := sample_sha\<rparr>"

definition attested_allocation :: allocation_binding where
  "attested_allocation = sample_allocation\<lparr>ab_rank_to_node := [(0, ''n0.site'')]\<rparr>"

definition sample_profile :: compatibility_profile where
  "sample_profile =
     \<lparr>cp_profile_id = sample_sha, cp_python = ''3'', cp_ray = ''2'', cp_vllm = ''1'', cp_mpi4py = [],
      cp_patches = [\<lparr>pt_patch_id = ''p1'', pt_roles = [''replica''], pt_capability = ''c1'', pt_required = True,
        pt_env_gate = [], pt_target_source_hash = sample_sha, pt_patch_artifact_hash = sample_sha,
        pt_delivery_artifact_hash = sample_sha\<rparr>],
      cp_seed_manifest_hash = [], cp_installer_hash = [], cp_support_sources = [], cp_seeds = []\<rparr>"

definition sample_evidence :: "receipt_requirement \<Rightarrow> receipt" where
  "sample_evidence q =
     (sample_receipt (rq_id q) ''i1'')\<lparr>rc_role := rq_role q, rc_component_id := rq_component_slot q,
       rc_owner_scope := rq_owner_scope q,
       rc_owner_rank := (if rq_owner_scope q = ''GLOBAL'' then None else rq_planned_rank q),
       rc_node_id := ''n0'',
       rc_observed_source_hashes := [(''artifact:p1'', sample_sha), (''delivery:p1'', sample_sha), (''target:p1'', sample_sha)],
       rc_capabilities := [''c1''], rc_attestation_type := rq_attestation_type q,
       rc_patch_results := (if rq_role q = ''replica''
         then [(''p1'', \<lparr>pr_status = ''APPLIED'', pr_postcondition_passed = True, pr_evidence_hash = None\<rparr>)] else [])\<rparr>"

text \<open>The ledger in which the head and the rank session have submitted all planned receipts.\<close>

definition submit_evidence :: "receipt_requirement \<Rightarrow> ledger \<Rightarrow> ledger" where
  "submit_evidence q L =
     fst (accept (\<lambda>r. sample_sha) (\<lambda>e. sample_sha) (\<lambda>t. True) 0 None (rq_planned_rank q) None True (sample_evidence q) L)"

definition empty_ledger :: ledger where
  "empty_ledger =
     \<lparr>lg_plan = attested_plan, lg_binding = attested_allocation, lg_profile = sample_profile, lg_by_slot = [],
      lg_superseded = [], lg_rejected = [], lg_store = Some (new_store attested_plan attested_allocation 2 9)\<rparr>"

definition full_ledger :: ledger where
  "full_ledger = fold submit_evidence (dp_receipt_requirements attested_plan) empty_ledger"

lemma empty_ledger_new:
  "new_ledger attested_plan attested_allocation sample_profile sample_sha
     (Some (new_store attested_plan attested_allocation 2 9)) = Inr empty_ledger"
  by (simp add: new_ledger_def empty_ledger_def) code_simp

lemma full_ledger_reach: "ledger_reach (\<lambda>r. sample_sha) (\<lambda>e. sample_sha) (\<lambda>t. True) empty_ledger full_ledger"
proof -
  have "ledger_reach (\<lambda>r. sample_sha) (\<lambda>e. sample_sha) (\<lambda>t. True) L0 (fold submit_evidence qs L)"
    if "ledger_reach (\<lambda>r. sample_sha) (\<lambda>e. sample_sha) (\<lambda>t. True) L0 L" for qs L L0
    using that by (induction qs arbitrary: L) (auto simp: submit_evidence_def intro: ledger_reach.accept)
  then show ?thesis unfolding full_ledger_def by (blast intro: ledger_reach.init)
qed

text \<open>What the witnesses need of the full ledger, evaluated in one pass.\<close>

definition full_ledger_view :: "ledger \<Rightarrow> bool" where
  "full_ledger_view L =
     (satisfied L \<and> map fst (lg_by_slot L) = [''global/supervisor'', ''rank0/ray_head'',
        ''rank0/node_supervisor'', ''model/m/replica/0''] \<and>
      map (rc_instance_id \<circ> snd) (lg_by_slot L) = replicate 4 ''i1'')"

lemma full_ledger_view: "full_ledger_view full_ledger"
  by code_simp

lemma attested_distinct:
  "distinct (map rq_id (dp_receipt_requirements attested_plan))"
  "distinct (map pt_patch_id (cp_patches sample_profile))"
  by code_simp+

lemma full_ledger_satisfied: "satisfied full_ledger"
  using full_ledger_view by (simp add: full_ledger_view_def)

definition replica_slot :: receipt_requirement where
  "replica_slot = rank_requirement ''model/m/replica/0'' ''replica'' ''m/replica-0'' 0 ''rank:0''"

lemma attested_slots:
  "replica_slot \<in> set (dp_receipt_requirements attested_plan)" "requirements_for_rank attested_plan 0 \<noteq> []"
  by code_simp+

theorem satisfied_ledger_exact_witness:
  "\<exists>r v. map_of (lg_by_slot full_ledger) ''model/m/replica/0'' = Some r \<and>
     evidence_matches attested_plan attested_allocation replica_slot r \<and>
     (''p1'', v) \<in> set (rc_patch_results r) \<and> pr_status v = ''APPLIED'' \<and> pr_postcondition_passed v"
proof -
  have q: "rq_id replica_slot = ''model/m/replica/0''" "rq_role replica_slot = ''replica''"
    by (simp_all add: replica_slot_def rank_requirement_def)
  show ?thesis
    using satisfied_ledger_exact [OF empty_ledger_new full_ledger_reach full_ledger_satisfied attested_distinct]
      attested_slots(1) by (fastforce simp: q sample_profile_def)
qed

text \<open>A supervisor receipt from a new instance, submitted to the full ledger by the head itself.\<close>

definition restarted_supervisor :: receipt where
  "restarted_supervisor =
     (sample_evidence (global_requirement ''global/supervisor'' ''supervisor'' ''supervisor'' ''SELF''))
       \<lparr>rc_instance_id := ''i2''\<rparr>"

definition head_accept :: "receipt \<Rightarrow> ledger \<Rightarrow> ledger \<times> bool \<times> ledger_reply" where
  "head_accept r L = accept (\<lambda>r. sample_sha) (\<lambda>e. sample_sha) (\<lambda>t. True) 0 None None None True r L"

definition supervisor_ledger :: ledger where
  "supervisor_ledger = fst (head_accept (restarted_supervisor\<lparr>rc_instance_id := ''i1''\<rparr>) empty_ledger)"

lemma restarted_supervisor_accepted:
  "snd (head_accept restarted_supervisor supervisor_ledger) = (True, ReceiptAccepted)"
  "map_of (lg_by_slot supervisor_ledger) ''global/supervisor'' \<noteq>
     map_of (lg_by_slot (fst (head_accept restarted_supervisor supervisor_ledger))) ''global/supervisor''"
  by code_simp+

theorem ledger_authority_witness:
  "\<exists>q. slot_of (lg_plan supervisor_ledger) ''global/supervisor'' = Some q \<and> rq_owner_scope q = ''GLOBAL'' \<and>
     (\<exists>h. node_for (lg_binding supervisor_ledger) 0 = Some h \<and> same_node h ''n0'')"
proof -
  let ?r = "head_accept restarted_supervisor supervisor_ledger"
  have "head_accept restarted_supervisor supervisor_ledger = (fst ?r, fst (snd ?r), snd (snd ?r))" by simp
  moreover have "rc_owner_scope restarted_supervisor = ''GLOBAL''" "rc_node_id restarted_supervisor = ''n0''"
    by code_simp+
  ultimately show ?thesis
    using ledger_authority [of "\<lambda>r. sample_sha" "\<lambda>e. sample_sha" "\<lambda>t. True" 0 None None True restarted_supervisor
        supervisor_ledger "fst ?r" "fst (snd ?r)" "snd (snd ?r)" "''global/supervisor''"]
      restarted_supervisor_accepted
    by (auto simp: head_accept_def)
qed

text \<open>The rank is lost and reports its node supervisor again.\<close>

definition rank_report :: "receipt list" where
  "rank_report = [sample_evidence (rank_requirement ''rank0/node_supervisor'' ''node_supervisor'' ''node_supervisor'' 0 ''rank:0'')]"

definition staged_report :: "ledger_reply + ledger" where
  "staged_report = stage_rank_snapshot (\<lambda>r. sample_sha) (\<lambda>e. sample_sha) (\<lambda>t. True) 0 0 ''n0'' rank_report empty_ledger"

lemma staged_report_ok: "\<exists>C. staged_report = Inr C \<and> map fst (lg_by_slot C) = [''rank0/node_supervisor'']"
proof -
  have "case staged_report of Inl e \<Rightarrow> False | Inr C \<Rightarrow> map fst (lg_by_slot C) = [''rank0/node_supervisor'']"
    by code_simp
  then show ?thesis by (auto split: sum.splits)
qed

lemma rank_report_last:
  "last_for ''rank0/node_supervisor'' rank_report = Some (hd rank_report)" "last_for ''rank0/ray_head'' rank_report = None"
  by (simp_all add: last_for_def rank_report_def sample_evidence_def rank_requirement_def sample_receipt_def)

theorem rank_evidence_isolated_witness:
  "\<not> satisfied (drop_rank (\<lambda>e. sample_sha) 0 full_ledger) \<and>
   map_of (lg_by_slot (drop_rank (\<lambda>e. sample_sha) 0 full_ledger)) ''rank0/ray_head'' = None \<and>
   (\<exists>C. staged_report = Inr C \<and>
      map_of (lg_by_slot (commit_rank_snapshot (\<lambda>e. sample_sha) 0 0 C full_ledger)) ''rank0/node_supervisor'' =
        Some (receipt_snapshot (\<lambda>r. sample_sha) (hd rank_report)) \<and>
      map_of (lg_by_slot (commit_rank_snapshot (\<lambda>e. sample_sha) 0 0 C full_ledger)) ''rank0/ray_head'' = None)"
proof -
  obtain C where C: "staged_report = Inr C" using staged_report_ok by blast
  note * = rank_evidence_isolated [OF empty_ledger_new full_ledger_reach ledger_reach.init
      C [unfolded staged_report_def] attested_distinct(1)]
  have "rank_requirement ''rank0/ray_head'' ''ray_head'' ''ray'' 0 ''rank:0'' \<in> set (requirements_for_rank attested_plan 0)"
    by code_simp
  then have own: "rc_owner_rank r = Some 0" if "map_of (lg_by_slot full_ledger) ''rank0/ray_head'' = Some r" for r
    using rank_slot_owner [of "\<lambda>r. sample_sha" "\<lambda>t. True" empty_ledger full_ledger
        "rank_requirement ''rank0/ray_head'' ''ray_head'' ''ray'' 0 ''rank:0''" 0 r] that
      ledger_reach_inv [OF full_ledger_reach] attested_distinct(1)
    by (simp add: empty_ledger_def rank_requirement_def)
  have "installs (\<lambda>r. sample_sha) 0 rank_report (hd rank_report)
      (map_of (lg_by_slot (commit_rank_snapshot (\<lambda>e. sample_sha) 0 0 C full_ledger)) ''rank0/node_supervisor'')"
    using * [of "''rank0/node_supervisor''" 0] by (simp add: rank_report_last)
  then have "map_of (lg_by_slot (commit_rank_snapshot (\<lambda>e. sample_sha) 0 0 C full_ledger)) ''rank0/node_supervisor'' =
      Some (receipt_snapshot (\<lambda>r. sample_sha) (hd rank_report))"
    by (auto simp: installs_def rank_report_def)
  then show ?thesis using * [of "''rank0/ray_head''" 0] own attested_slots(2) C
    by (auto simp: rank_report_last split: option.splits)
qed

theorem ledger_store_restart_witness:
  "\<exists>s t. lg_store full_ledger = Some s \<and>
     recover (\<lambda>e. sample_sha) attested_plan attested_allocation 5 5 (cb_batches (flush (\<lambda>e. sample_sha) s)) = Inr t \<and>
     bound_instance t ''model/m/replica/0'' = Some ''i1'' \<and> bound_instance t ''unplanned'' = None"
proof -
  have ident: "identity_valid (new_store attested_plan attested_allocation 2 9)" by code_simp
  obtain s t where st: "lg_store full_ledger = Some s"
      "recover (\<lambda>e. sample_sha) attested_plan attested_allocation 5 5 (cb_batches (flush (\<lambda>e. sample_sha) s)) = Inr t"
      "\<forall>slot. bound_instance t slot = map_option rc_instance_id (map_of (lg_by_slot full_ledger) slot)"
    using ledger_store_restart [OF empty_ledger_new _ full_ledger_reach sample_digest, of 5 5] by (auto simp: ident)
  have slots: "map fst (lg_by_slot full_ledger) = [''global/supervisor'', ''rank0/ray_head'',
        ''rank0/node_supervisor'', ''model/m/replica/0'']"
    and insts: "map (rc_instance_id \<circ> snd) (lg_by_slot full_ledger) = replicate 4 ''i1''"
    using full_ledger_view by (simp_all add: full_ledger_view_def)
  then obtain a b c e where "lg_by_slot full_ledger = [a, b, c, e]"
    by (auto simp: map_eq_Cons_conv)
  with slots insts have "map_option rc_instance_id (map_of (lg_by_slot full_ledger) ''model/m/replica/0'') = Some ''i1''"
    "map_of (lg_by_slot full_ledger) ''unplanned'' = None"
    by (auto simp: map_of_eq_None_iff eval_nat_numeral)
  with st show ?thesis by auto
qed

end
