(* ===== verification/Readiness.thy ===== *)
theory Readiness
  imports Ledger Session
begin

text \<open>
  Readiness of a deployment, \<^verbatim>\<open>src/exaserve/control/plan_readiness.py\<close>.

  \<open>readiness\<close> is the state of \<^verbatim>\<open>ReadinessCoordinator\<close>: the plan and allocation it compares with, the
  ledger and the session coordinator it reads, and the last observations that the setters stored. A
  setter returns the new state or the error it raises. \<open>evaluate\<close> gives the verdict; a blocker is a
  constructor per message of the source with what the message reports (not cut to the first few), and
  the missing and unhealthy identities of a verdict are those of its blockers. Type errors of the
  observations are excluded by their types; status texts are ASCII; the log callback is left out.
\<close>

section \<open>Planned applications\<close>

definition proxy_anchor_prefix :: string where
  "proxy_anchor_prefix = ''_exaserve_proxy_anchor_r''"

definition unplanned_evidence_margin :: nat where
  "unplanned_evidence_margin = 64"

definition planned_proxy_anchor_names :: "deployment_plan \<Rightarrow> string list" where
  "planned_proxy_anchor_names d =
     (if uses_head_only_serve_proxy d then []
      else map (\<lambda>r. proxy_anchor_prefix @ show_int r) (int_range (nat (dp_num_nodes d))))"

definition model_application_names :: "deployment_plan \<Rightarrow> model_plan \<Rightarrow> plan_error + string list" where
  "model_application_names d m =
     (if uses_head_only_serve_proxy d then Inr [mp_route_name m]
      else and_then (null_application_groups d m) (\<lambda>groups.
        if groups \<noteq> [] then Inr (map (\<lambda>i. mp_route_name m @ ''_g'' @ show_nat i) [0..<length groups])
        else if 1 < mp_num_replicas m
          then Inr (map (\<lambda>i. mp_route_name m @ ''_r'' @ show_int i) (int_range (nat (mp_num_replicas m))))
        else Inr [mp_route_name m]))"

fun collect_names :: "deployment_plan \<Rightarrow> model_plan list \<Rightarrow> string list \<Rightarrow> plan_error + string list" where
  "collect_names d [] names = Inr (remdups names)"
| "collect_names d (m # ms) names =
     and_then (model_application_names d m) (\<lambda>new. collect_names d ms (names @ new))"

definition planned_application_names :: "deployment_plan \<Rightarrow> plan_error + string list" where
  "planned_application_names d = collect_names d (dp_models d) (planned_proxy_anchor_names d)"

section \<open>State\<close>

datatype deployment_phase = DEPLOYING_PHASE | VALIDATING_PHASE | READY_PHASE | FAILED_PHASE

datatype readiness_error = ReadinessError string

record ray_node =
  rn_node_id :: string
  rn_node_name :: string
  rn_node_address :: string
  rn_alive :: bool
  rn_cpu :: real
  rn_gpu :: real

record serve_proxy =
  px_node_id :: string
  px_status :: string

record 'i readiness =
  rd_plan :: deployment_plan
  rd_binding :: allocation_binding
  rd_receipts :: ledger
  rd_sessions :: "'i session_coordinator option"
  rd_planned_applications :: "string list"
  rd_phase :: deployment_phase
  rd_endpoint :: string
  rd_gateway_alive :: "bool option"
  rd_gateway_healthy :: "bool option"
  rd_routes_ok :: "(string \<times> bool) list"
  rd_canary_ok :: "(string \<times> bool) list"
  rd_replicas_running :: "(string \<times> int \<times> int) list"
  rd_nodes :: "ray_node list"
  rd_proxies :: "serve_proxy list"
  rd_rank_components :: "(int \<times> bool) list"
  rd_owned_components :: "(string \<times> bool) list"
  rd_application_names :: "string list"
  rd_first_failure :: "string option"

definition new_readiness ::
    "deployment_plan \<Rightarrow> allocation_binding \<Rightarrow> ledger \<Rightarrow> 'i session_coordinator option
      \<Rightarrow> plan_error + 'i readiness" where
  "new_readiness d b receipts sessions =
     and_then (planned_application_names d) (\<lambda>names. Inr
       \<lparr>rd_plan = d, rd_binding = b, rd_receipts = receipts, rd_sessions = sessions,
        rd_planned_applications = names, rd_phase = DEPLOYING_PHASE, rd_endpoint = [],
        rd_gateway_alive = None, rd_gateway_healthy = None, rd_routes_ok = [], rd_canary_ok = [],
        rd_replicas_running = [], rd_nodes = [], rd_proxies = [], rd_rank_components = [],
        rd_owned_components = [], rd_application_names = [], rd_first_failure = None\<rparr>)"

section \<open>Observations\<close>

definition required_text :: "string \<Rightarrow> string \<Rightarrow> (bool \<times> readiness_error) list" where
  "required_text v label = [(v = [], ReadinessError label)]"

definition planned_routes :: "deployment_plan \<Rightarrow> string list" where
  "planned_routes d = map mp_route_name (dp_models d)"

definition planned_model_ids :: "deployment_plan \<Rightarrow> string list" where
  "planned_model_ids d = map mp_model_id (dp_models d)"

definition set_advertised_endpoint :: "string \<Rightarrow> 'i readiness \<Rightarrow> readiness_error + 'i readiness" where
  "set_advertised_endpoint e R = checked (required_text e ''advertised endpoint'') (R\<lparr>rd_endpoint := e\<rparr>)"

definition set_gateway :: "bool option \<Rightarrow> bool option \<Rightarrow> 'i readiness \<Rightarrow> readiness_error + 'i readiness" where
  "set_gateway alive healthy R = Inr (R\<lparr>rd_gateway_alive := alive, rd_gateway_healthy := healthy\<rparr>)"

definition set_route :: "string \<Rightarrow> bool \<Rightarrow> 'i readiness \<Rightarrow> readiness_error + 'i readiness" where
  "set_route route healthy R =
     checked (required_text route ''route'' @
         [(route \<notin> set (planned_routes (rd_plan R)), ReadinessError ''route is not planned'')])
       (R\<lparr>rd_routes_ok := AList.update route healthy (rd_routes_ok R)\<rparr>)"

definition set_canary :: "string \<Rightarrow> bool \<Rightarrow> 'i readiness \<Rightarrow> readiness_error + 'i readiness" where
  "set_canary mid ok R =
     checked (required_text mid ''canary model_id'' @
         [(mid \<notin> set (planned_model_ids (rd_plan R)), ReadinessError ''canary model is not planned'')])
       (R\<lparr>rd_canary_ok := AList.update mid ok (rd_canary_ok R)\<rparr>)"

definition set_replicas :: "string \<Rightarrow> int \<Rightarrow> int \<Rightarrow> 'i readiness \<Rightarrow> readiness_error + 'i readiness" where
  "set_replicas mid running target R =
     checked (required_text mid ''replica model_id'' @
         [(mid \<notin> set (planned_model_ids (rd_plan R)), ReadinessError ''replica model is not planned''),
          (running < 0, ReadinessError ''running replicas''), (target < 0, ReadinessError ''target replicas'')])
       (R\<lparr>rd_replicas_running := AList.update mid (running, target) (rd_replicas_running R)\<rparr>)"

fun node_checks :: "string list \<Rightarrow> ray_node list \<Rightarrow> (bool \<times> readiness_error) list" where
  "node_checks seen [] = []"
| "node_checks seen (n # ns) =
     [(rn_node_id n = [] \<or> rn_node_name n = [] \<or> rn_node_address n = [], ReadinessError ''node text fields''),
      (rn_node_id n \<in> set seen, ReadinessError ''node_id is duplicated''),
      (rn_cpu n < 0, ReadinessError ''node CPU''), (rn_gpu n < 0, ReadinessError ''node GPU'')] @
     node_checks (rn_node_id n # seen) ns"

fun proxy_checks :: "string list \<Rightarrow> serve_proxy list \<Rightarrow> (bool \<times> readiness_error) list" where
  "proxy_checks seen [] = []"
| "proxy_checks seen (p # ps) =
     [(px_node_id p = [], ReadinessError ''proxy node_id''), (px_status p = [], ReadinessError ''proxy status''),
      (px_node_id p \<in> set seen, ReadinessError ''proxy node_id is duplicated'')] @
     proxy_checks (px_node_id p # seen) ps"

definition set_cluster ::
    "ray_node list \<Rightarrow> serve_proxy list \<Rightarrow> 'i readiness \<Rightarrow> readiness_error + 'i readiness" where
  "set_cluster nodes proxies R =
     (let limit = dp_num_nodes (rd_plan R) + int unplanned_evidence_margin in
      checked ([(limit < int (length nodes) \<or> limit < int (length proxies), ReadinessError ''plan-relative bound'')] @
          node_checks [] nodes @ proxy_checks [] proxies)
        (R\<lparr>rd_nodes := nodes, rd_proxies := proxies\<rparr>))"

definition set_rank_component :: "int \<Rightarrow> bool \<Rightarrow> 'i readiness \<Rightarrow> readiness_error + 'i readiness" where
  "set_rank_component rank healthy R =
     checked [(rank < 0, ReadinessError ''rank component owner''),
              (rank \<notin> set (ab_ranks (rd_binding R)), ReadinessError ''rank is not planned'')]
       (R\<lparr>rd_rank_components := AList.update rank healthy (rd_rank_components R)\<rparr>)"

definition global_components :: "string list" where
  "global_components = [''rank_launcher'', ''deployment'']"

definition set_owned_component :: "string \<Rightarrow> bool \<Rightarrow> 'i readiness \<Rightarrow> readiness_error + 'i readiness" where
  "set_owned_component c healthy R =
     checked (required_text c ''owned component_id'' @
         [(c \<notin> set global_components, ReadinessError ''global component is not planned'')])
       (R\<lparr>rd_owned_components := AList.update c healthy (rd_owned_components R)\<rparr>)"

definition set_applications :: "string list \<Rightarrow> 'i readiness \<Rightarrow> readiness_error + 'i readiness" where
  "set_applications names R =
     (let limit = length (rd_planned_applications R) + unplanned_evidence_margin in
      checked [(list_ex (\<lambda>n. n = []) (take limit names), ReadinessError ''application name''),
               (limit < length names, ReadinessError ''plan-relative bound''),
               (\<not> distinct names, ReadinessError ''duplicate names'')]
        (R\<lparr>rd_application_names := names\<rparr>))"

section \<open>The verdict\<close>

datatype blocker =
    RanksBlocked "int list" | GenerationTerminal
  | RayMembership int string nat | RayResources int real real | RayExcess int real real
  | RayUnplanned "string list" | RankComponent int | OwnedComponent string
  | ApplicationsMissing "string list" | ApplicationsUnplanned "string list"
  | ProxyStatus string string | ProxiesUnplanned "string list"
  | ReceiptsMissing "string list" | ReceiptsUnexpected "string list"
  | ReplicaTarget string int int | ReplicaCount string int int
  | NoEndpoint | GatewayNotRunning | GatewayUnknown | GatewayUnhealthy
  | RouteUnhealthy string | CanaryMissing string

datatype fulfilled =
    SessionsEstablished nat | MembershipExact nat | ApplicationsExact nat | ProxiesHealthy nat
  | ReceiptsExact nat nat | ModelRunning string int int | GatewayHealthy "string option" | CanariesAnswered nat

definition session_blockers :: "'i readiness \<Rightarrow> blocker list" where
  "session_blockers R =
     (case rd_sessions R of
        None \<Rightarrow> []
      | Some s \<Rightarrow>
          (if readiness_revoked_ranks s \<noteq> [] then [RanksBlocked (readiness_revoked_ranks s)] else []) @
          (if sc_generation_state s = GEN_TERMINAL then [GenerationTerminal] else []))"

definition alive_nodes :: "'i readiness \<Rightarrow> ray_node list" where
  "alive_nodes R = filter rn_alive (rd_nodes R)"

definition node_matches :: "'i readiness \<Rightarrow> string \<Rightarrow> ray_node list" where
  "node_matches R name =
     filter (\<lambda>n. canonical_node_id (rn_node_name n) = canonical_node_id name) (alive_nodes R)"

definition resource_blockers :: "deployment_plan \<Rightarrow> int \<Rightarrow> ray_node \<Rightarrow> blocker list" where
  "resource_blockers d rank n =
     (let cpu = of_int (dp_node_cpus d); gpu = of_int (dp_num_gpus_per_node d) in
      if rn_cpu n < cpu \<or> rn_gpu n < gpu then [RayResources rank (rn_cpu n) (rn_gpu n)]
      else if \<not> rl_allow_excess_resources (dp_readiness d) \<and> (rn_cpu n \<noteq> cpu \<or> rn_gpu n \<noteq> gpu)
        then [RayExcess rank (rn_cpu n) (rn_gpu n)] else [])"

definition rank_blockers :: "'i readiness \<Rightarrow> int \<times> string \<Rightarrow> blocker list" where
  "rank_blockers R = (\<lambda>(rank, name).
     case node_matches R name of
       [n] \<Rightarrow> resource_blockers (rd_plan R) rank n
     | ns \<Rightarrow> [RayMembership rank name (length ns)])"

text \<open>\<^verbatim>\<open>matched_ids_by_rank\<close>; the values are \<^verbatim>\<open>matched_ids\<close>.\<close>

definition matched_by_rank :: "'i readiness \<Rightarrow> (int \<times> string) list" where
  "matched_by_rank R =
     concat (map (\<lambda>(rank, name). case node_matches R name of [n] \<Rightarrow> [(rank, rn_node_id n)] | _ \<Rightarrow> [])
       (ab_rank_to_node (rd_binding R)))"

definition matched_ids :: "'i readiness \<Rightarrow> string list" where
  "matched_ids R = map snd (matched_by_rank R)"

definition extra_ids :: "'i readiness \<Rightarrow> string list" where
  "extra_ids R = sort (filter (\<lambda>i. i \<notin> set (matched_ids R)) (map rn_node_id (alive_nodes R)))"

definition membership_blockers :: "'i readiness \<Rightarrow> blocker list" where
  "membership_blockers R =
     concat (map (rank_blockers R) (ab_rank_to_node (rd_binding R))) @
     (if extra_ids R \<noteq> [] then [RayUnplanned (extra_ids R)] else [])"

definition observed_true :: "('k \<times> bool) list \<Rightarrow> 'k \<Rightarrow> bool" where
  "observed_true d k = (map_of d k = Some True)"

definition component_blockers :: "'i readiness \<Rightarrow> blocker list" where
  "component_blockers R =
     map RankComponent (filter (\<lambda>r. \<not> observed_true (rd_rank_components R) r) (ab_ranks (rd_binding R))) @
     map OwnedComponent (filter (\<lambda>c. \<not> observed_true (rd_owned_components R) c) global_components)"

definition missing_applications :: "'i readiness \<Rightarrow> string list" where
  "missing_applications R = sort (filter (\<lambda>n. n \<notin> set (rd_application_names R)) (rd_planned_applications R))"

definition unexpected_applications :: "'i readiness \<Rightarrow> string list" where
  "unexpected_applications R =
     sort (remdups (filter (\<lambda>n. n \<notin> set (rd_planned_applications R)) (rd_application_names R)))"

definition application_blockers :: "'i readiness \<Rightarrow> blocker list" where
  "application_blockers R =
     (if missing_applications R \<noteq> [] then [ApplicationsMissing (missing_applications R)] else []) @
     (if unexpected_applications R \<noteq> [] then [ApplicationsUnplanned (unexpected_applications R)] else [])"

definition upper_char :: "char \<Rightarrow> char" where
  "upper_char c = (let n = (of_char c :: nat) in if 97 \<le> n \<and> n \<le> 122 then char_of (n - 32) else c)"

definition proxy_status :: "'i readiness \<Rightarrow> string \<Rightarrow> string option" where
  "proxy_status R i =
     map_of (rev (map (\<lambda>p. (px_node_id p, map upper_char (px_status p))) (rd_proxies R))) i"

definition expected_proxy_ids :: "'i readiness \<Rightarrow> string list" where
  "expected_proxy_ids R =
     sort (remdups
       (case if uses_head_only_serve_proxy (rd_plan R) then map_of (rev (matched_by_rank R)) 0 else None of
          Some i \<Rightarrow> [i] | None \<Rightarrow> matched_ids R))"

definition healthy_status :: "string \<Rightarrow> bool" where
  "healthy_status t = (has_sub t ''HEALTHY'' \<and> \<not> has_sub t ''UNHEALTHY'')"

definition status_or_missing :: "'i readiness \<Rightarrow> string \<Rightarrow> string" where
  "status_or_missing R i = (case proxy_status R i of None \<Rightarrow> ''MISSING'' | Some t \<Rightarrow> t)"

definition unplanned_proxies :: "'i readiness \<Rightarrow> string list" where
  "unplanned_proxies R =
     sort (remdups (filter (\<lambda>i. i \<notin> set (expected_proxy_ids R)) (map px_node_id (rd_proxies R))))"

definition proxy_blockers :: "'i readiness \<Rightarrow> blocker list" where
  "proxy_blockers R =
     map (\<lambda>i. ProxyStatus i (status_or_missing R i))
       (filter (\<lambda>i. \<not> healthy_status (status_or_missing R i)) (expected_proxy_ids R)) @
     (if unplanned_proxies R \<noteq> [] then [ProxiesUnplanned (unplanned_proxies R)] else [])"

definition receipt_blockers :: "'i readiness \<Rightarrow> blocker list" where
  "receipt_blockers R =
     (let L = rd_receipts R in
      if satisfied L then []
      else (if missing_slots L \<noteq> [] then [ReceiptsMissing (missing_slots L)] else []) @
           (if unexpected_slots L \<noteq> [] then [ReceiptsUnexpected (unexpected_slots L)] else []))"

definition running_replicas :: "'i readiness \<Rightarrow> model_plan \<Rightarrow> int \<times> int" where
  "running_replicas R m = (case map_of (rd_replicas_running R) (mp_model_id m) of None \<Rightarrow> (0, 0) | Some p \<Rightarrow> p)"

definition model_blockers :: "'i readiness \<Rightarrow> model_plan \<Rightarrow> blocker list" where
  "model_blockers R m =
     (case running_replicas R m of (running, target) \<Rightarrow>
       (if target \<noteq> mp_num_replicas m then [ReplicaTarget (mp_model_id m) target (mp_num_replicas m)] else []) @
       (if running \<noteq> mp_num_replicas m then [ReplicaCount (mp_model_id m) running (mp_num_replicas m)] else []))"

definition endpoint_blockers :: "'i readiness \<Rightarrow> blocker list" where
  "endpoint_blockers R =
     (if rd_endpoint R = [] then [NoEndpoint]
      else if is_production_exposure (rd_plan R) then
        (if rd_gateway_alive R = Some False then [GatewayNotRunning]
         else if rd_gateway_alive R = None then [GatewayUnknown]
         else if rd_gateway_healthy R \<noteq> Some True then [GatewayUnhealthy] else [])
      else [])"

definition traffic_blockers :: "'i readiness \<Rightarrow> model_plan \<Rightarrow> blocker list" where
  "traffic_blockers R m =
     (if \<not> observed_true (rd_routes_ok R) (mp_route_name m) then [RouteUnhealthy (mp_route_name m)] else []) @
     (if \<not> observed_true (rd_canary_ok R) (mp_model_id m) then [CanaryMissing (mp_model_id m)] else [])"

definition blockers :: "'i readiness \<Rightarrow> blocker list" where
  "blockers R =
     session_blockers R @ membership_blockers R @ component_blockers R @ application_blockers R @
     proxy_blockers R @ receipt_blockers R @ concat (map (model_blockers R) (dp_models (rd_plan R))) @
     endpoint_blockers R @ concat (map (traffic_blockers R) (dp_models (rd_plan R)))"

text \<open>The identities that a blocker adds to the missing and to the unhealthy ones.\<close>

fun missing_of :: "blocker \<Rightarrow> string list" where
  "missing_of (RanksBlocked rs) = map (\<lambda>r. ''session/rank/'' @ show_int r) rs"
| "missing_of (RayMembership r name n) = [''ray-node/rank/'' @ show_int r]"
| "missing_of (ApplicationsMissing ns) = map (\<lambda>n. ''serve-application/'' @ n) ns"
| "missing_of (ProxyStatus i t) = (if t = ''MISSING'' then [''serve-proxy/'' @ i] else [])"
| "missing_of (ReceiptsMissing ks) = map (\<lambda>k. ''receipt/'' @ k) ks"
| "missing_of (ReplicaCount m running planned) =
     (if running < planned then [''model/'' @ m @ ''/replicas''] else [])"
| "missing_of NoEndpoint = [''advertised-endpoint'']"
| "missing_of GatewayUnknown = [''gateway/process-observation'']"
| "missing_of (CanaryMissing m) = [''canary/'' @ m]"
| "missing_of _ = []"

fun unhealthy_of :: "blocker \<Rightarrow> string list" where
  "unhealthy_of GenerationTerminal = [''generation'']"
| "unhealthy_of (RayResources r c g) = [''ray-node/rank/'' @ show_int r @ ''/resources'']"
| "unhealthy_of (RayExcess r c g) = [''ray-node/rank/'' @ show_int r @ ''/resources'']"
| "unhealthy_of (RayUnplanned ids) = map (\<lambda>i. ''ray-node/unplanned/'' @ i) ids"
| "unhealthy_of (RankComponent r) = [''component/rank/'' @ show_int r @ ''/ray'']"
| "unhealthy_of (OwnedComponent c) = [''component/global/'' @ c]"
| "unhealthy_of (ApplicationsUnplanned ns) = map (\<lambda>n. ''serve-application/unplanned/'' @ n) ns"
| "unhealthy_of (ProxyStatus i t) = (if t = ''MISSING'' then [] else [''serve-proxy/'' @ i])"
| "unhealthy_of (ProxiesUnplanned ids) = map (\<lambda>i. ''serve-proxy/unplanned/'' @ i) ids"
| "unhealthy_of (ReceiptsUnexpected ks) = map (\<lambda>k. ''receipt/unplanned/'' @ k) ks"
| "unhealthy_of (ReplicaTarget m t p) = [''model/'' @ m @ ''/replica-target'']"
| "unhealthy_of (ReplicaCount m running planned) =
     (if running < planned then [] else [''model/'' @ m @ ''/replicas''])"
| "unhealthy_of GatewayNotRunning = [''gateway/process'']"
| "unhealthy_of GatewayUnhealthy = [''gateway/health'']"
| "unhealthy_of (RouteUnhealthy r) = [''route/'' @ r]"
| "unhealthy_of _ = []"

text \<open>The conditions a verdict reports as satisfied, each with its count.\<close>

definition fulfilled_conditions :: "'i readiness \<Rightarrow> fulfilled list" where
  "fulfilled_conditions R =
     (case rd_sessions R of None \<Rightarrow> []
      | Some s \<Rightarrow> if readiness_revoked_ranks s = [] then [SessionsEstablished (length (ab_ranks (rd_binding R)))] else []) @
     (if membership_blockers R = [] then [MembershipExact (card (set (matched_ids R)))] else []) @
     (if application_blockers R = [] then [ApplicationsExact (length (rd_planned_applications R))] else []) @
     (if expected_proxy_ids R \<noteq> [] \<and> proxy_blockers R = [] then [ProxiesHealthy (length (expected_proxy_ids R))] else []) @
     (if satisfied (rd_receipts R)
      then [ReceiptsExact (accepted_count (rd_receipts R)) (card (requirement_keys (lg_plan (rd_receipts R))))] else []) @
     concat (map (\<lambda>m. if fst (running_replicas R m) = mp_num_replicas m
       then [ModelRunning (mp_model_id m) (fst (running_replicas R m)) (mp_num_replicas m)] else [])
       (dp_models (rd_plan R))) @
     (if is_production_exposure (rd_plan R) \<and> endpoint_blockers R = [] then [GatewayHealthy (gateway_kind_of (rd_plan R))] else []) @
     (if dp_models (rd_plan R) \<noteq> [] \<and> list_all (\<lambda>m. observed_true (rd_canary_ok R) (mp_model_id m)) (dp_models (rd_plan R))
      then [CanariesAnswered (length (dp_models (rd_plan R)))] else [])"

record verdict =
  vd_ready :: bool
  vd_phase :: deployment_phase
  vd_blockers :: "blocker list"
  vd_satisfied :: "fulfilled list"
  vd_endpoint :: string
  vd_generation :: int
  vd_plan_hash :: string
  vd_binding_hash :: string
  vd_missing :: "string list"
  vd_unhealthy :: "string list"
  vd_receipt_hashes :: "string list"
  vd_model_map :: "(string \<times> string \<times> int \<times> int \<times> int) list"
  vd_capability_map :: "(string \<times> string list) list"
  vd_nodes :: "ray_node list"
  vd_proxies :: "serve_proxy list"

definition model_entry :: "'i readiness \<Rightarrow> model_plan \<Rightarrow> string \<times> int \<times> int \<times> int" where
  "model_entry R m = (mp_route_name m, mp_num_replicas m, fst (running_replicas R m), snd (running_replicas R m))"

definition evaluate :: "'i readiness \<Rightarrow> verdict" where
  "evaluate R =
     (let found = blockers R; receipts = accepted_receipts (rd_receipts R) in
      \<lparr>vd_ready = (found = []), vd_phase = rd_phase R, vd_blockers = found,
       vd_satisfied = fulfilled_conditions R, vd_endpoint = rd_endpoint R,
       vd_generation = ab_generation (rd_binding R), vd_plan_hash = dp_deployment_plan_hash (rd_plan R),
       vd_binding_hash = ab_allocation_binding_hash (rd_binding R),
       vd_missing = sort (remdups (concat (map missing_of found))),
       vd_unhealthy = sort (remdups (concat (map unhealthy_of found))),
       vd_receipt_hashes = sort (map rc_receipt_hash receipts),
       vd_model_map = fold (\<lambda>m. AList.update (mp_model_id m) (model_entry R m)) (dp_models (rd_plan R)) [],
       vd_capability_map = fold (\<lambda>r. AList.update (rc_component_id r) (rc_capabilities r)) receipts [],
       vd_nodes = rd_nodes R, vd_proxies = rd_proxies R\<rparr>)"

section \<open>Transitions\<close>

definition enter_validating :: "'i readiness \<Rightarrow> 'i readiness" where
  "enter_validating R = (if rd_phase R = FAILED_PHASE then R else R\<lparr>rd_phase := VALIDATING_PHASE\<rparr>)"

definition commit_ready :: "'i readiness \<Rightarrow> 'i readiness \<times> verdict" where
  "commit_ready R =
     (let v = evaluate R in
      if \<not> vd_ready v then (R, v)
      else (R\<lparr>rd_phase := READY_PHASE\<rparr>,
            v\<lparr>vd_phase := READY_PHASE, vd_blockers := [], vd_missing := [], vd_unhealthy := []\<rparr>))"

definition first_or :: "string option \<Rightarrow> string \<Rightarrow> string option" where
  "first_or f reason = (case f of Some x \<Rightarrow> if x = [] then Some reason else Some x | None \<Rightarrow> Some reason)"

definition fail_readiness :: "string \<Rightarrow> 'i readiness \<Rightarrow> 'i readiness" where
  "fail_readiness reason R =
     R\<lparr>rd_phase := FAILED_PHASE, rd_first_failure := first_or (rd_first_failure R) reason\<rparr>"

definition revoke :: "string \<Rightarrow> bool \<Rightarrow> 'i readiness \<Rightarrow> 'i readiness \<times> deployment_phase" where
  "revoke reason gateway_dead R =
     (if gateway_dead then (fail_readiness reason R, FAILED_PHASE)
      else if rd_phase R = READY_PHASE then (R\<lparr>rd_phase := VALIDATING_PHASE\<rparr>, VALIDATING_PHASE)
      else (R, rd_phase R))"

section \<open>What READY means\<close>

text \<open>
  The specification names no observation that is not compared with the plan: every planned rank is
  established, has exactly one live node of its name with enough resources, and there are no other
  live nodes; the Serve applications are exactly the planned ones; the healthy proxies are exactly
  those the exposure mode asks for; the receipts are exact; every model runs its planned replicas and
  answers on its route; and the advertised endpoint exists, behind a live healthy gateway in
  production.
\<close>

definition sessions_established :: "'i readiness \<Rightarrow> bool" where
  "sessions_established R =
     (\<forall>s. rd_sessions R = Some s \<longrightarrow> (\<forall>(r, x) \<in> set (sc_sessions s). rs_state x = ESTABLISHED) \<and>
        sc_generation_state s \<noteq> GEN_TERMINAL)"

definition resources_ok :: "deployment_plan \<Rightarrow> ray_node \<Rightarrow> bool" where
  "resources_ok d n =
     (of_int (dp_node_cpus d) \<le> rn_cpu n \<and> of_int (dp_num_gpus_per_node d) \<le> rn_gpu n \<and>
      (rl_allow_excess_resources (dp_readiness d) \<or>
         rn_cpu n = of_int (dp_node_cpus d) \<and> rn_gpu n = of_int (dp_num_gpus_per_node d)))"

definition nodes_exact :: "'i readiness \<Rightarrow> bool" where
  "nodes_exact R =
     ((\<forall>(r, name) \<in> set (ab_rank_to_node (rd_binding R)).
         \<exists>n. node_matches R name = [n] \<and> resources_ok (rd_plan R) n) \<and>
      (\<forall>n \<in> set (alive_nodes R). \<exists>(r, name) \<in> set (ab_rank_to_node (rd_binding R)). \<exists>m.
         node_matches R name = [m] \<and> rn_node_id m = rn_node_id n))"

definition components_running :: "'i readiness \<Rightarrow> bool" where
  "components_running R =
     ((\<forall>r \<in> set (ab_ranks (rd_binding R)). map_of (rd_rank_components R) r = Some True) \<and>
      map_of (rd_owned_components R) ''rank_launcher'' = Some True \<and>
      map_of (rd_owned_components R) ''deployment'' = Some True)"

definition proxies_exact :: "'i readiness \<Rightarrow> bool" where
  "proxies_exact R =
     (set (map px_node_id (rd_proxies R)) = set (expected_proxy_ids R) \<and>
      (\<forall>i \<in> set (expected_proxy_ids R). \<exists>t. proxy_status R i = Some t \<and> healthy_status t))"

definition models_serving :: "'i readiness \<Rightarrow> bool" where
  "models_serving R =
     (\<forall>m \<in> set (dp_models (rd_plan R)).
        running_replicas R m = (mp_num_replicas m, mp_num_replicas m) \<and>
        map_of (rd_routes_ok R) (mp_route_name m) = Some True \<and>
        map_of (rd_canary_ok R) (mp_model_id m) = Some True)"

definition endpoint_up :: "'i readiness \<Rightarrow> bool" where
  "endpoint_up R =
     (rd_endpoint R \<noteq> [] \<and>
      (is_production_exposure (rd_plan R) \<longrightarrow> rd_gateway_alive R = Some True \<and> rd_gateway_healthy R = Some True))"

definition ready_spec :: "'i readiness \<Rightarrow> bool" where
  "ready_spec R =
     (sessions_established R \<and> nodes_exact R \<and> components_running R \<and>
      set (rd_application_names R) = set (rd_planned_applications R) \<and> proxies_exact R \<and>
      satisfied (rd_receipts R) \<and> models_serving R \<and> endpoint_up R)"

subsection \<open>Each group of blockers is empty exactly under its condition\<close>

lemma session_blockers_empty: "session_blockers R = [] \<longleftrightarrow> sessions_established R"
proof -
  have "not_established_ranks s = [] \<longleftrightarrow> (\<forall>(r, x) \<in> set (sc_sessions s). rs_state x = ESTABLISHED)"
    for s :: "'i session_coordinator"
    by (auto simp: not_established_ranks_def filter_empty_conv is_established_def)
  then show ?thesis
    by (auto simp: session_blockers_def sessions_established_def readiness_revoked_ranks_def split: option.splits)
qed

lemma rank_blockers_empty:
  "rank_blockers R (r, name) = [] \<longleftrightarrow> (\<exists>n. node_matches R name = [n] \<and> resources_ok (rd_plan R) n)"
  by (auto simp: rank_blockers_def resource_blockers_def resources_ok_def Let_def not_less split: list.splits)

lemma matched_ids_set:
  "set (matched_ids R) =
     {rn_node_id m |m r name. (r, name) \<in> set (ab_rank_to_node (rd_binding R)) \<and> node_matches R name = [m]}"
proof -
  have mem: "i \<in> snd ` set (case x of (rank, name) \<Rightarrow>
        (case node_matches R name of [n] \<Rightarrow> [(rank, rn_node_id n)] | _ \<Rightarrow> [])) \<longleftrightarrow>
      (\<exists>m. node_matches R (snd x) = [m] \<and> i = rn_node_id m)" for i x
    by (cases x; cases "node_matches R (snd x)"; cases "tl (node_matches R (snd x))") auto
  show ?thesis
    unfolding matched_ids_def matched_by_rank_def set_map set_concat image_UN
    by (auto simp: mem image_image) force+
qed

lemma membership_blockers_empty: "membership_blockers R = [] \<longleftrightarrow> nodes_exact R"
proof -
  have "extra_ids R = [] \<longleftrightarrow> (\<forall>n \<in> set (alive_nodes R). rn_node_id n \<in> set (matched_ids R))"
    by (auto simp: extra_ids_def filter_empty_conv)
  also have "\<dots> \<longleftrightarrow> (\<forall>n \<in> set (alive_nodes R). \<exists>(r, name) \<in> set (ab_rank_to_node (rd_binding R)). \<exists>m.
         node_matches R name = [m] \<and> rn_node_id m = rn_node_id n)"
    unfolding matched_ids_set by (simp add: Bex_def split_paired_Ex) metis
  finally show ?thesis
    by (auto simp: membership_blockers_def nodes_exact_def rank_blockers_empty)
qed

lemma component_blockers_empty: "component_blockers R = [] \<longleftrightarrow> components_running R"
  by (auto simp: component_blockers_def components_running_def observed_true_def global_components_def
      filter_empty_conv)

lemma application_blockers_empty:
  "application_blockers R = [] \<longleftrightarrow> set (rd_application_names R) = set (rd_planned_applications R)"
  by (auto simp: application_blockers_def missing_applications_def unexpected_applications_def filter_empty_conv)

lemma proxy_status_None: "proxy_status R i = None \<longleftrightarrow> i \<notin> set (map px_node_id (rd_proxies R))"
  by (auto simp: proxy_status_def map_of_eq_None_iff image_image)

lemma missing_unhealthy: "\<not> healthy_status ''MISSING''"
  by code_simp

lemma status_healthy_iff:
  "healthy_status (status_or_missing R i) \<longleftrightarrow> (\<exists>t. proxy_status R i = Some t \<and> healthy_status t)"
  using missing_unhealthy by (auto simp: status_or_missing_def split: option.splits)

lemma proxy_blockers_empty: "proxy_blockers R = [] \<longleftrightarrow> proxies_exact R"
proof -
  have "proxy_blockers R = [] \<longleftrightarrow> set (map px_node_id (rd_proxies R)) \<subseteq> set (expected_proxy_ids R) \<and>
      (\<forall>i \<in> set (expected_proxy_ids R). \<exists>t. proxy_status R i = Some t \<and> healthy_status t)"
    by (auto simp: proxy_blockers_def unplanned_proxies_def status_healthy_iff filter_empty_conv)
  then show ?thesis
    using proxy_status_None [of R] unfolding proxies_exact_def by (metis option.distinct(1) subset_antisym subset_iff)
qed

lemma receipt_blockers_empty: "receipt_blockers R = [] \<longleftrightarrow> satisfied (rd_receipts R)"
  by (auto simp: receipt_blockers_def Let_def satisfied_iff)

lemma model_blockers_empty:
  "model_blockers R m = [] \<longleftrightarrow> running_replicas R m = (mp_num_replicas m, mp_num_replicas m)"
  by (auto simp: model_blockers_def split: prod.splits)

lemma traffic_blockers_empty:
  "traffic_blockers R m = [] \<longleftrightarrow> map_of (rd_routes_ok R) (mp_route_name m) = Some True \<and>
     map_of (rd_canary_ok R) (mp_model_id m) = Some True"
  by (auto simp: traffic_blockers_def observed_true_def)

lemma endpoint_blockers_empty: "endpoint_blockers R = [] \<longleftrightarrow> endpoint_up R"
  by (auto simp: endpoint_blockers_def endpoint_up_def)

lemmas blockers_empty =
  session_blockers_empty membership_blockers_empty component_blockers_empty application_blockers_empty
  proxy_blockers_empty receipt_blockers_empty model_blockers_empty traffic_blockers_empty endpoint_blockers_empty

lemma ready_iff: "vd_ready (evaluate R) \<longleftrightarrow> ready_spec R"
  by (auto simp: evaluate_def Let_def blockers_def blockers_empty ready_spec_def models_serving_def)

section \<open>Calls in any order\<close>

text \<open>
  A call that raises leaves the coordinator as it was. \<open>ReadEvidence\<close> is a change of the ledger and of
  the sessions, which the coordinator shares with the listener.
\<close>

datatype 'i ready_op =
    SetEndpoint string | SetGateway "bool option" "bool option" | SetRoute string bool | SetCanary string bool
  | SetReplicas string int int | SetCluster "ray_node list" "serve_proxy list" | SetRankComponent int bool
  | SetOwnedComponent string bool | SetApplications "string list"
  | ReadEvidence ledger "'i session_coordinator option"
  | EnterValidating | CommitReady | Revoke string bool | Fail string

definition attempt :: "('i readiness \<Rightarrow> readiness_error + 'i readiness) \<Rightarrow> 'i readiness \<Rightarrow> 'i readiness" where
  "attempt f R = (case f R of Inl e \<Rightarrow> R | Inr R' \<Rightarrow> R')"

fun run_ready_op :: "'i ready_op \<Rightarrow> 'i readiness \<Rightarrow> 'i readiness" where
  "run_ready_op (SetEndpoint e) R = attempt (set_advertised_endpoint e) R"
| "run_ready_op (SetGateway a h) R = attempt (set_gateway a h) R"
| "run_ready_op (SetRoute r h) R = attempt (set_route r h) R"
| "run_ready_op (SetCanary m k) R = attempt (set_canary m k) R"
| "run_ready_op (SetReplicas m n t) R = attempt (set_replicas m n t) R"
| "run_ready_op (SetCluster ns ps) R = attempt (set_cluster ns ps) R"
| "run_ready_op (SetRankComponent r h) R = attempt (set_rank_component r h) R"
| "run_ready_op (SetOwnedComponent c h) R = attempt (set_owned_component c h) R"
| "run_ready_op (SetApplications ns) R = attempt (set_applications ns) R"
| "run_ready_op (ReadEvidence L s) R = R\<lparr>rd_receipts := L, rd_sessions := s\<rparr>"
| "run_ready_op EnterValidating R = enter_validating R"
| "run_ready_op CommitReady R = fst (commit_ready R)"
| "run_ready_op (Revoke reason dead) R = fst (revoke reason dead R)"
| "run_ready_op (Fail reason) R = fail_readiness reason R"

definition run_ready_ops :: "'i ready_op list \<Rightarrow> 'i readiness \<Rightarrow> 'i readiness" where
  "run_ready_ops ops R = fold run_ready_op ops R"

lemma run_ready_ops_append: "run_ready_ops (ops @ [op]) R = run_ready_op op (run_ready_ops ops R)"
  by (simp add: run_ready_ops_def)

lemmas setter_defs =
  set_advertised_endpoint_def set_gateway_def set_route_def set_canary_def set_replicas_def set_cluster_def
  set_rank_component_def set_owned_component_def set_applications_def

lemmas transition_defs = enter_validating_def commit_ready_def revoke_def fail_readiness_def

lemma attempt_checked: "attempt (\<lambda>R. checked (cs R) (f R)) R = (if first_failure (cs R) = None then f R else R)"
  by (auto simp: attempt_def checked_def split: option.splits)

text \<open>Which calls touch the phase and the recorded failure.\<close>

fun phase_op :: "'i ready_op \<Rightarrow> bool" where
  "phase_op EnterValidating = True"
| "phase_op CommitReady = True"
| "phase_op (Revoke r d) = True"
| "phase_op (Fail r) = True"
| "phase_op _ = False"

lemma setters_keep_phase:
  "\<not> phase_op op \<Longrightarrow> rd_phase (run_ready_op op R) = rd_phase R \<and>
     rd_first_failure (run_ready_op op R) = rd_first_failure R"
  by (cases op) (auto simp: attempt_def checked_def setter_defs Let_def split: option.splits sum.splits)

lemma ops_keep_plan:
  "rd_plan (run_ready_op op R) = rd_plan R \<and> rd_binding (run_ready_op op R) = rd_binding R \<and>
   rd_planned_applications (run_ready_op op R) = rd_planned_applications R"
  by (cases op) (auto simp: attempt_def checked_def setter_defs transition_defs Let_def split: option.splits sum.splits)

interpretation failure_cause: first_cause "\<lambda>R. rd_first_failure R \<noteq> Some []" rd_first_failure
    "\<lambda>(c, cs). fail_readiness (c # cs)" "\<lambda>(c, cs). c # cs"
  by unfold_locales (auto simp: fail_readiness_def first_or_def split: option.splits)

lemma first_failure_kept:
  assumes "rd_first_failure R = Some c" "c \<noteq> []"
  shows "rd_first_failure (run_ready_ops ops R) = Some c"
proof (induction ops rule: rev_induct)
  case (snoc op ops)
  have keep: "rd_first_failure (fail_readiness reason (run_ready_ops ops R)) = Some c" for reason
    using snoc assms(2) by (simp add: fail_readiness_def first_or_def)
  show ?case
    using snoc keep setters_keep_phase [of op "run_ready_ops ops R"]
    by (cases op) (auto simp: run_ready_ops_append enter_validating_def commit_ready_def revoke_def Let_def)
qed (simp add: run_ready_ops_def assms)

subsection \<open>Observations stay within the plan\<close>

definition observations_ok :: "'i readiness \<Rightarrow> bool" where
  "observations_ok R =
     (fst ` set (rd_routes_ok R) \<subseteq> set (planned_routes (rd_plan R)) \<and>
      fst ` set (rd_canary_ok R) \<subseteq> set (planned_model_ids (rd_plan R)) \<and>
      fst ` set (rd_replicas_running R) \<subseteq> set (planned_model_ids (rd_plan R)) \<and>
      (\<forall>(m, n, t) \<in> set (rd_replicas_running R). 0 \<le> n \<and> 0 \<le> t) \<and>
      fst ` set (rd_rank_components R) \<subseteq> set (ab_ranks (rd_binding R)) \<and>
      fst ` set (rd_owned_components R) \<subseteq> set global_components \<and>
      int (length (rd_nodes R)) \<le> max 0 (dp_num_nodes (rd_plan R) + 64) \<and>
      int (length (rd_proxies R)) \<le> max 0 (dp_num_nodes (rd_plan R) + 64) \<and>
      distinct (map rn_node_id (rd_nodes R)) \<and> distinct (map px_node_id (rd_proxies R)) \<and>
      (\<forall>n \<in> set (rd_nodes R). 0 \<le> rn_cpu n \<and> 0 \<le> rn_gpu n) \<and>
      length (rd_application_names R) \<le> length (rd_planned_applications R) + 64 \<and>
      distinct (rd_application_names R))"

lemma node_checks_None:
  "first_failure (node_checks seen ns) = None \<Longrightarrow>
     distinct (map rn_node_id ns) \<and> set (map rn_node_id ns) \<inter> set seen = {} \<and>
     (\<forall>n \<in> set ns. 0 \<le> rn_cpu n \<and> 0 \<le> rn_gpu n)"
  by (induction seen ns rule: node_checks.induct) (fastforce simp: not_less split: if_splits)+

lemma proxy_checks_None:
  "first_failure (proxy_checks seen ps) = None \<Longrightarrow>
     distinct (map px_node_id ps) \<and> set (map px_node_id ps) \<inter> set seen = {}"
  by (induction seen ps rule: proxy_checks.induct) (fastforce split: if_splits)+

lemma keys_update: "fst ` set (AList.update k v d) = insert k (fst ` set d)"
  by (simp add: dom_update)

lemma set_cluster_ok: "observations_ok R \<Longrightarrow> observations_ok (attempt (set_cluster ns ps) R)"
  using node_checks_None [of "[]" ns] proxy_checks_None [of "[]" ps]
  by (auto simp: attempt_def checked_def set_cluster_def observations_ok_def unplanned_evidence_margin_def Let_def
      split: option.splits if_splits)

lemma set_replicas_ok: "observations_ok R \<Longrightarrow> observations_ok (attempt (set_replicas m n t) R)"
  by (auto simp: attempt_def checked_def set_replicas_def observations_ok_def keys_update
      split: option.splits if_splits dest!: in_set_update)

lemma transitions_ok:
  "phase_op op \<Longrightarrow> observations_ok R \<Longrightarrow> observations_ok (run_ready_op op R)"
  by (cases op) (auto simp: transition_defs observations_ok_def Let_def)

lemma run_ready_op_ok: "observations_ok R \<Longrightarrow> observations_ok (run_ready_op op R)"
proof (cases "phase_op op")
  case False
  assume "observations_ok R"
  with False show ?thesis
    by (cases op)
      (simp_all add: set_cluster_ok set_replicas_ok,
       auto simp: attempt_def checked_def setter_defs observations_ok_def keys_update
        unplanned_evidence_margin_def Let_def split: option.splits if_splits)
qed (rule transitions_ok)

section \<open>Properties\<close>

text \<open>
  (C11) Readiness is exact: the coordinator's verdict is ready if and only if the state it has
  observed is the planned one, as \<open>ready_spec\<close> states it; nothing that was observed can enlarge or
  shrink the expectation.
\<close>

theorem readiness_exact: "vd_ready (evaluate R) = ready_spec R \<and> (vd_blockers (evaluate R) = []) = ready_spec R"
proof -
  have "vd_ready (evaluate R) \<longleftrightarrow> vd_blockers (evaluate R) = []" by (simp add: evaluate_def Let_def)
  then show ?thesis by (simp add: ready_iff)
qed

lemma matches_mem:
  assumes "node_matches R name = [n]"
  shows "n \<in> set (alive_nodes R)" "canonical_node_id (rn_node_name n) = canonical_node_id name"
proof -
  have "n \<in> set (node_matches R name)" using assms by simp
  then show "n \<in> set (alive_nodes R)" "canonical_node_id (rn_node_name n) = canonical_node_id name"
    by (auto simp: node_matches_def)
qed

lemma ranks_node_for:
  assumes "allocation_binding_ok b" "r \<in> set (ab_ranks b)"
  shows "\<exists>name. node_for b r = Some name \<and> (r, name) \<in> set (ab_rank_to_node b)"
proof -
  have "distinct (map fst (ab_rank_to_node b))" using allocation_binding_okD(1) [OF assms(1)] by (metis int_range_distinct)
  then show ?thesis using assms(2) by (auto simp: ab_ranks_def node_for_def)
qed

text \<open>
  (C34) In a ready deployment the live Ray nodes are in one-to-one correspondence with the planned
  ranks: each rank has its own live node, with the name the allocation binds to the rank and the
  resources of the plan, and no other node is alive.
\<close>

theorem ready_nodes_bijective:
  assumes "vd_ready (evaluate R)" and "allocation_binding_ok (rd_binding R)"
    and "distinct (map rn_node_id (rd_nodes R))"
  shows "\<exists>f. bij_betw f (set (ab_ranks (rd_binding R))) (set (alive_nodes R)) \<and>
    (\<forall>r \<in> set (ab_ranks (rd_binding R)). \<exists>name. node_for (rd_binding R) r = Some name \<and>
       same_node name (rn_node_name (f r)) \<and> resources_ok (rd_plan R) (f r))"
proof -
  let ?b = "rd_binding R"
  define f where "f r = hd (node_matches R (the (node_for ?b r)))" for r
  have exact: "nodes_exact R" using assms(1) by (simp add: ready_iff ready_spec_def)
  have names: "distinct (map (\<lambda>(r, n). canonical_node_id n) (ab_rank_to_node ?b))"
      "\<forall>(r, n) \<in> set (ab_rank_to_node ?b). canonical_node_id n \<noteq> []"
    using allocation_binding_okD(2,3) [OF assms(2)] by simp_all
  have f: "\<exists>name. node_for ?b r = Some name \<and> (r, name) \<in> set (ab_rank_to_node ?b) \<and>
      node_matches R name = [f r] \<and> resources_ok (rd_plan R) (f r)" if r: "r \<in> set (ab_ranks ?b)" for r
    using ranks_node_for [OF assms(2) r] exact by (fastforce simp: nodes_exact_def f_def)
  have "inj_on f (set (ab_ranks ?b))"
  proof (rule inj_onI)
    fix r r' assume r: "r \<in> set (ab_ranks ?b)" "r' \<in> set (ab_ranks ?b)" "f r = f r'"
    obtain n n' where "(r, n) \<in> set (ab_rank_to_node ?b)" "(r', n') \<in> set (ab_rank_to_node ?b)"
        "canonical_node_id n = canonical_node_id n'"
      using f [OF r(1)] f [OF r(2)] r(3) matches_mem(2) by metis
    moreover from names(1) have "inj_on (\<lambda>(r, n). canonical_node_id n) (set (ab_rank_to_node ?b))"
      by (simp add: distinct_map)
    ultimately have "(r, n) = (r', n')" by (auto dest: inj_onD [where x = "(r, n)" and y = "(r', n')"])
    then show "r = r'" by simp
  qed
  moreover have "f ` set (ab_ranks ?b) = set (alive_nodes R)"
  proof
    show "f ` set (ab_ranks ?b) \<subseteq> set (alive_nodes R)" using f matches_mem(1) by blast
    show "set (alive_nodes R) \<subseteq> f ` set (ab_ranks ?b)"
    proof
      fix n assume n: "n \<in> set (alive_nodes R)"
      then obtain r name m where m: "(r, name) \<in> set (ab_rank_to_node ?b)" "node_matches R name = [m]"
          "rn_node_id m = rn_node_id n"
        using exact unfolding nodes_exact_def by fastforce
      then have "r \<in> set (ab_ranks ?b)" by (force simp: ab_ranks_def)
      moreover have "m \<in> set (alive_nodes R)" by (rule matches_mem(1) [OF m(2)])
      then have "n = m" using n m(3) assms(3) by (auto simp: alive_nodes_def distinct_map dest: inj_onD)
      moreover have "node_for ?b r = Some name"
        using allocation_binding_okD(1) [OF assms(2)] m(1) by (simp add: node_for_def)
      ultimately show "n \<in> f ` set (ab_ranks ?b)" using f [of r] m(2) by force
    qed
  qed
  ultimately have "bij_betw f (set (ab_ranks ?b)) (set (alive_nodes R))" by (simp add: bij_betw_def)
  moreover have "\<exists>name. node_for ?b r = Some name \<and> same_node name (rn_node_name (f r)) \<and> resources_ok (rd_plan R) (f r)"
    if "r \<in> set (ab_ranks ?b)" for r
    using f [OF that] matches_mem(2) names(2) by (fastforce simp: same_node_def)
  ultimately show ?thesis by blast
qed

text \<open>
  (C12) The READY phase is earned: whatever calls were made, a coordinator in the READY phase got there
  by a commit at which the deployment was ready in the sense of the specification, and since then
  nothing revoked, failed or re-entered validation.
\<close>

theorem ready_phase_committed:
  assumes "rd_phase R \<noteq> READY_PHASE" and "rd_phase (run_ready_ops ops R) = READY_PHASE"
  shows "\<exists>pre post. ops = pre @ CommitReady # post \<and> ready_spec (run_ready_ops pre R) \<and>
    (\<forall>op \<in> set post. op \<noteq> EnterValidating \<and> (\<forall>reason. op \<noteq> Fail reason) \<and> (\<forall>reason dead. op \<noteq> Revoke reason dead))"
  using assms(2)
proof (induction ops rule: rev_induct)
  case Nil
  with assms(1) show ?case by (simp add: run_ready_ops_def)
next
  case (snoc op ops)
  let ?S = "run_ready_ops ops R"
  show ?case
  proof (cases "op = CommitReady \<and> ready_spec ?S")
    case True
    then show ?thesis by (intro exI [of _ ops] exI [of _ "[]"]) simp
  next
    case False
    have kept: "rd_phase ?S = READY_PHASE \<and> op \<noteq> EnterValidating \<and> (\<forall>reason. op \<noteq> Fail reason) \<and>
        (\<forall>reason dead. op \<noteq> Revoke reason dead)"
      using snoc.prems False setters_keep_phase [of op ?S]
      by (cases op) (auto simp: run_ready_ops_append transition_defs Let_def ready_iff split: if_splits)
    then obtain pre post where "ops = pre @ CommitReady # post" "ready_spec (run_ready_ops pre R)"
        "\<forall>op \<in> set post. op \<noteq> EnterValidating \<and> (\<forall>reason. op \<noteq> Fail reason) \<and> (\<forall>reason dead. op \<noteq> Revoke reason dead)"
      using snoc.IH by blast
    with kept show ?thesis by (intro exI [of _ pre] exI [of _ "post @ [op]"]) auto
  qed
qed

text \<open>
  A dead gateway fails the deployment: after the coordinator is told of it, the phase is FAILED
  until someone commits readiness again, and the reason stays the recorded first failure for ever.
\<close>

lemma gateway_death_recorded:
  assumes "rd_first_failure R = None" and "reason \<noteq> []"
  shows "rd_first_failure (run_ready_ops ops (fst (revoke reason True R))) = Some reason \<and>
    (CommitReady \<notin> set ops \<longrightarrow> rd_phase (run_ready_ops ops (fst (revoke reason True R))) = FAILED_PHASE)"
proof -
  let ?F = "fst (revoke reason True R)"
  have "rd_first_failure ?F = Some reason" using assms by (simp add: revoke_def fail_readiness_def first_or_def)
  moreover have "CommitReady \<notin> set ops \<Longrightarrow> rd_phase (run_ready_ops ops ?F) = FAILED_PHASE"
  proof (induction ops rule: rev_induct)
    case (snoc op ops)
    then show ?case
      using setters_keep_phase [of op "run_ready_ops ops ?F"]
      by (cases op) (auto simp: run_ready_ops_append transition_defs)
  qed (simp add: run_ready_ops_def revoke_def fail_readiness_def)
  ultimately show ?thesis using first_failure_kept assms(2) by blast
qed

text \<open>
  Evidence is bounded by the plan: whatever is reported, in any order and however often, the
  stored observations name planned routes, models, ranks and components only, no node, proxy or
  application twice, no negative count or resource, and at most 64 nodes, proxies or applications more
  than planned.
\<close>

lemma readiness_observations_bounded:
  assumes "new_readiness d b L s = Inr R"
  shows "observations_ok (run_ready_ops ops R)"
proof -
  have "observations_ok R"
    using assms by (auto simp: new_readiness_def and_then_def observations_ok_def split: sum.splits)
  then show ?thesis
    by (induction ops rule: rev_induct) (simp_all add: run_ready_ops_append run_ready_op_ok, simp add: run_ready_ops_def)
qed

section \<open>A deployment that becomes ready\<close>

text \<open>All blockers but those of the receipts, which are the only ones that read the ledger.\<close>

definition other_blockers :: "'i readiness \<Rightarrow> blocker list" where
  "other_blockers R =
     session_blockers R @ membership_blockers R @ component_blockers R @ application_blockers R @
     proxy_blockers R @ concat (map (model_blockers R) (dp_models (rd_plan R))) @
     endpoint_blockers R @ concat (map (traffic_blockers R) (dp_models (rd_plan R)))"

lemma ready_with_ledger:
  assumes "other_blockers R = []" "satisfied L"
  shows "ready_spec (R\<lparr>rd_receipts := L\<rparr>)"
proof -
  let ?S = "R\<lparr>rd_receipts := L\<rparr>"
  have nodes: "alive_nodes ?S = alive_nodes R" "node_matches ?S = node_matches R"
    by (simp_all add: alive_nodes_def node_matches_def fun_eq_iff)
  have ids: "matched_by_rank ?S = matched_by_rank R" "proxy_status ?S = proxy_status R"
    by (simp_all add: matched_by_rank_def nodes proxy_status_def fun_eq_iff)
  have "matched_ids ?S = matched_ids R" by (simp add: matched_ids_def ids)
  then have "expected_proxy_ids ?S = expected_proxy_ids R" "running_replicas ?S = running_replicas R"
    unfolding expected_proxy_ids_def running_replicas_def ids by (simp_all add: fun_eq_iff cong: option.case_cong)
  with assms nodes ids show ?thesis
    by (auto simp: other_blockers_def blockers_empty ready_spec_def sessions_established_def nodes_exact_def
        components_running_def proxies_exact_def models_serving_def endpoint_up_def)
qed

definition sample_coordinator :: "nat session_coordinator" where
  "sample_coordinator = run_ops sample_hash (BeginRegistration 0 # bring_up 0 ''n0'' @ [Start])
     (init_coordinator default_control_limits attested_allocation)"

definition sample_setters :: "nat ready_op list" where
  "sample_setters =
     [SetEndpoint ''http://n0:8000/v1'',
      SetCluster [\<lparr>rn_node_id = ''a1'', rn_node_name = ''N0'', rn_node_address = ''10.0.0.1'', rn_alive = True,
          rn_cpu = 8, rn_gpu = 2\<rparr>, \<lparr>rn_node_id = ''a0'', rn_node_name = ''old'', rn_node_address = ''10.0.0.9'',
          rn_alive = False, rn_cpu = 8, rn_gpu = 2\<rparr>] [\<lparr>px_node_id = ''a1'', px_status = ''healthy''\<rparr>],
      SetRankComponent 0 True, SetOwnedComponent ''rank_launcher'' True, SetOwnedComponent ''deployment'' True,
      SetApplications [''m'', ''_exaserve_proxy_anchor_r0''], SetReplicas ''m'' 1 1, SetRoute ''m'' True,
      SetCanary ''m'' True, SetRoute ''other'' True]"

definition sample_readiness :: "nat readiness" where
  "sample_readiness =
     (case new_readiness attested_plan attested_allocation empty_ledger (Some sample_coordinator) of
        Inr R \<Rightarrow> R | Inl e \<Rightarrow> undefined)"

definition observed_readiness :: "nat readiness" where
  "observed_readiness = (run_ready_ops sample_setters sample_readiness)\<lparr>rd_receipts := full_ledger\<rparr>"

lemma sample_readiness_new:
  "new_readiness attested_plan attested_allocation empty_ledger (Some sample_coordinator) = Inr sample_readiness"
proof -
  have "case planned_application_names attested_plan of Inl e \<Rightarrow> False | Inr ns \<Rightarrow> True" by code_simp
  then show ?thesis by (auto simp: sample_readiness_def new_readiness_def split: sum.splits)
qed

lemma sample_setters_blockers: "other_blockers (run_ready_ops sample_setters sample_readiness) = []"
  by code_simp

lemma observed_ready: "ready_spec observed_readiness"
  unfolding observed_readiness_def by (rule ready_with_ledger [OF sample_setters_blockers full_ledger_satisfied])

theorem ready_nodes_bijective_witness:
  "\<exists>f. bij_betw f {0 :: int} (set (alive_nodes observed_readiness)) \<and>
     same_node ''n0.site'' (rn_node_name (f 0)) \<and> resources_ok attested_plan (f 0)"
proof -
  have alive: "rd_binding observed_readiness = attested_allocation" "rd_plan observed_readiness = attested_plan"
    "distinct (map rn_node_id (rd_nodes observed_readiness))"
    by (simp add: observed_readiness_def, code_simp)+
  moreover have "allocation_binding_ok attested_allocation" "ab_ranks attested_allocation = [0]"
    "node_for attested_allocation 0 = Some ''n0.site''"
    by code_simp+
  ultimately show ?thesis
    using ready_nodes_bijective [of observed_readiness] observed_ready by (auto simp: ready_iff)
qed

theorem ready_phase_committed_witness:
  "rd_phase (run_ready_ops [CommitReady, SetGateway None None] observed_readiness) = READY_PHASE \<and>
   (\<exists>pre post. [CommitReady, SetGateway None None] = pre @ CommitReady # post \<and>
      ready_spec (run_ready_ops pre observed_readiness))"
proof -
  have start: "rd_phase observed_readiness \<noteq> READY_PHASE" by (simp add: observed_readiness_def, code_simp)
  have ready: "rd_phase (run_ready_ops [CommitReady, SetGateway None None] observed_readiness) = READY_PHASE"
    using observed_ready
    by (simp add: run_ready_ops_def commit_ready_def ready_iff Let_def attempt_def set_gateway_def)
  show ?thesis using ready ready_phase_committed [OF start ready] by auto
qed

lemma blockers_phase: "blockers (fail_readiness reason R) = blockers R"
proof -
  let ?S = "fail_readiness reason R"
  have fields: "rd_plan ?S = rd_plan R" "rd_binding ?S = rd_binding R" "rd_receipts ?S = rd_receipts R"
    by (simp_all add: fail_readiness_def)
  have nodes: "alive_nodes ?S = alive_nodes R" "node_matches ?S = node_matches R"
    by (simp_all add: alive_nodes_def node_matches_def fail_readiness_def fun_eq_iff)
  have ids: "matched_by_rank ?S = matched_by_rank R" "proxy_status ?S = proxy_status R"
    unfolding matched_by_rank_def nodes proxy_status_def by (simp_all add: fail_readiness_def fun_eq_iff)
  have matched: "matched_ids ?S = matched_ids R" by (simp add: matched_ids_def ids)
  have proxies: "expected_proxy_ids ?S = expected_proxy_ids R" "status_or_missing ?S = status_or_missing R"
    unfolding expected_proxy_ids_def status_or_missing_def ids matched fields by (simp_all add: fun_eq_iff)
  have runs: "running_replicas ?S = running_replicas R" "rank_blockers ?S = rank_blockers R"
    unfolding rank_blockers_def nodes fields by (simp_all add: running_replicas_def fail_readiness_def fun_eq_iff)
  have "model_blockers ?S = model_blockers R" "traffic_blockers ?S = traffic_blockers R"
    unfolding model_blockers_def traffic_blockers_def runs by (simp_all add: fail_readiness_def fun_eq_iff)
  moreover have "session_blockers ?S = session_blockers R" "endpoint_blockers ?S = endpoint_blockers R"
    "component_blockers ?S = component_blockers R" "application_blockers ?S = application_blockers R"
    by (simp_all add: session_blockers_def endpoint_blockers_def component_blockers_def application_blockers_def
        missing_applications_def unexpected_applications_def fail_readiness_def)
  moreover have "proxy_blockers ?S = proxy_blockers R" "membership_blockers ?S = membership_blockers R"
    "receipt_blockers ?S = receipt_blockers R"
    unfolding proxy_blockers_def membership_blockers_def receipt_blockers_def proxies runs unplanned_proxies_def
      extra_ids_def matched nodes fields by (simp_all add: fail_readiness_def)
  ultimately show ?thesis unfolding blockers_def fields by simp
qed

text \<open>
  The phase alone does not keep a failure: \<^verbatim>\<open>commit_ready\<close> looks at the observations and not at the
  phase, so a coordinator that was failed becomes READY again when the observations are good.
\<close>

lemma failed_phase_recommits:
  "rd_phase (fail_readiness ''gateway exited'' observed_readiness) = FAILED_PHASE \<and>
   rd_phase (fst (commit_ready (fail_readiness ''gateway exited'' observed_readiness))) = READY_PHASE"
proof -
  have "blockers (fail_readiness ''gateway exited'' observed_readiness) = blockers observed_readiness"
    by (rule blockers_phase)
  then show ?thesis
    using observed_ready
    by (simp add: commit_ready_def Let_def evaluate_def fail_readiness_def flip: ready_iff)
qed

end
