(* ===== verification/Supervisor.thy ===== *)
theory Supervisor
  imports Exa_Prelude "HOL-Library.Sublist"
begin

text \<open>
  The runtime supervisor, \<^verbatim>\<open>src/exaserve/control/supervisor.py\<close>.

  A managed component is a record of the fields of \<^verbatim>\<open>ManagedComponent\<close>. What the operating system and
  the callbacks do is a parameter \<open>child_env\<close> per component: the time and code of the exit of the
  direct child, whether its process group has members at a time, when the drain thread of the output
  ends or fails, and what the callbacks raise or return. The times are arbitrary, so every behaviour
  of a child, whatever it does on a signal, is covered. A method takes the time at which it is called
  and returns the time at which it ends: waiting and sleeping take time, other statements do not. The
  monotonic clock also stands for the wall clock that stamps a cause. An exception is a value with its
  text.
\<close>

section \<open>Captured output\<close>

record output_capture =
  oc_max_bytes :: nat
  oc_tail :: "nat list"
  oc_total_bytes :: nat

definition new_capture :: "int \<Rightarrow> string + output_capture" where
  "new_capture max_bytes =
     (if max_bytes < 1 then Inl ''capture max_bytes must be a positive integer''
      else Inr \<lparr>oc_max_bytes = nat max_bytes, oc_tail = [], oc_total_bytes = 0\<rparr>)"

text \<open>One chunk of the drain loop.\<close>

definition drain_chunk :: "nat list \<Rightarrow> output_capture \<Rightarrow> output_capture" where
  "drain_chunk chunk c =
     (let tail = oc_tail c @ chunk
      in c\<lparr>oc_total_bytes := oc_total_bytes c + length chunk,
           oc_tail := drop (length tail - oc_max_bytes c) tail\<rparr>)"

fun drain :: "nat list list \<Rightarrow> output_capture \<Rightarrow> output_capture" where
  "drain [] c = c"
| "drain (chunk # rest) c = (if chunk = [] then c else drain rest (drain_chunk chunk c))"

record capture_view =
  cv_tail :: "nat list"
  cv_retained :: nat
  cv_total :: nat
  cv_dropped :: nat
  cv_truncated :: bool

definition capture_snapshot :: "output_capture \<Rightarrow> capture_view" where
  "capture_snapshot c =
     \<lparr>cv_tail = oc_tail c, cv_retained = length (oc_tail c), cv_total = oc_total_bytes c,
      cv_dropped = oc_total_bytes c - length (oc_tail c), cv_truncated = (length (oc_tail c) < oc_total_bytes c)\<rparr>"

section \<open>Components\<close>

datatype component_state = NEW | STARTING | RUNNING | READY_STATE | STOPPING | STOPPED | FAILED | UNKNOWN

datatype supervisor_error = SupervisorError string | ValueError string | TimeoutExpired string | Raised string

fun error_text :: "supervisor_error \<Rightarrow> string" where
  "error_text (SupervisorError t) = t"
| "error_text (ValueError t) = t"
| "error_text (TimeoutExpired t) = t"
| "error_text (Raised t) = t"

fun error_type :: "supervisor_error \<Rightarrow> string" where
  "error_type (SupervisorError t) = ''SupervisorError''"
| "error_type (ValueError t) = ''ValueError''"
| "error_type (TimeoutExpired t) = ''TimeoutExpired''"
| "error_type (Raised t) = ''Exception''"

record component =
  mc_id :: string
  mc_argv :: "string list"
  mc_owner_scope :: string
  mc_owner_rank :: "int option"
  mc_long_lived :: bool
  mc_env :: "(string \<times> string) list option"
  mc_cwd :: "string option"
  mc_pass_fds :: "int list"
  mc_has_stdout :: bool
  mc_has_capture :: bool
  mc_has_result_check :: bool
  mc_started :: bool
  mc_state :: component_state
  mc_stopping :: bool

text \<open>What the spawn of a child raises: the exceptions \<^verbatim>\<open>start\<close> marks the component failed for, and the rest.\<close>

datatype spawn_failure = OsOrValueError string | OtherFailure string

record child_env =
  ce_on_starting :: "string option"
  ce_spawn_error :: "spawn_failure option"
  ce_on_started :: "string option"
  ce_exit :: "(real \<times> int) option"
  ce_group :: "real \<Rightarrow> bool"
  ce_drain_end :: "real option"
  ce_drain_error :: "(real \<times> string) option"
  ce_on_stopped :: "string option"
  ce_exit_detail :: "(string + string) option"
  ce_result :: "real \<Rightarrow> bool \<times> string"

definition nul_free :: "string \<Rightarrow> bool" where
  "nul_free t = (CHR 0x00 \<notin> set t)"

definition contract_checks :: "component \<Rightarrow> (bool \<times> supervisor_error) list" where
  "contract_checks c =
     [(mc_id c = [], ValueError ''component_id''),
      (mc_argv c = [] \<or> list_ex (\<lambda>a. a = [] \<or> \<not> nul_free a) (mc_argv c), ValueError ''argv''),
      (mc_owner_scope c \<notin> {''GLOBAL'', ''RANK''}, ValueError ''owner_scope''),
      (if mc_owner_scope c = ''GLOBAL'' then mc_owner_rank c \<noteq> None
       else (case mc_owner_rank c of None \<Rightarrow> True | Some r \<Rightarrow> r < 0), ValueError ''owner_rank''),
      (case mc_env c of None \<Rightarrow> False
       | Some e \<Rightarrow> list_ex (\<lambda>(k, v). k = [] \<or> \<not> nul_free k \<or> \<not> nul_free v) e, ValueError ''env''),
      (case mc_cwd c of None \<Rightarrow> False | Some d \<Rightarrow> d = [] \<or> \<not> nul_free d, ValueError ''cwd''),
      (list_ex (\<lambda>fd. fd < 0) (mc_pass_fds c), ValueError ''pass_fds non-negative''),
      (\<not> distinct (mc_pass_fds c), ValueError ''pass_fds unique'')]"

text \<open>\<^verbatim>\<open>Popen.poll\<close>, and a wait for an event with a timeout: the time it ends and whether it happened.\<close>

definition poll_child :: "child_env \<Rightarrow> real \<Rightarrow> int option" where
  "poll_child E t = (case ce_exit E of Some (x, code) \<Rightarrow> if x \<le> t then Some code else None | None \<Rightarrow> None)"

definition wait_event :: "real option \<Rightarrow> real \<Rightarrow> real \<Rightarrow> real \<times> bool" where
  "wait_event x t timeout =
     (case x of
        Some e \<Rightarrow> if e \<le> t then (t, True) else if e \<le> t + timeout then (e, True) else (t + timeout, False)
      | None \<Rightarrow> (t + timeout, False))"

definition wait_child :: "child_env \<Rightarrow> real \<Rightarrow> real \<Rightarrow> real \<times> bool" where
  "wait_child E t timeout = wait_event (map_option fst (ce_exit E)) t timeout"

definition capture_failure :: "child_env \<Rightarrow> real \<Rightarrow> string option" where
  "capture_failure E t =
     (case ce_drain_error E of Some (x, text) \<Rightarrow> if x \<le> t then Some text else None | None \<Rightarrow> None)"

subsection \<open>Stopping\<close>

text \<open>
  The two loops of \<^verbatim>\<open>stop\<close>: the wait after TERM until half of the remaining time is used or the group
  is empty, and the wait after KILL until the deadline or the group is empty.
\<close>

function term_loop :: "child_env \<Rightarrow> real \<Rightarrow> real \<Rightarrow> real" where
  "term_loop E deadline t =
     (if t < deadline \<and> ce_group E t then term_loop E deadline (t + min (1 / 10) (max 0 (deadline - t))) else t)"
  by pat_completeness auto

function kill_loop :: "child_env \<Rightarrow> real \<Rightarrow> real \<Rightarrow> real" where
  "kill_loop E deadline t =
     (if t < deadline \<and> ce_group E t
      then let t1 = fst (wait_child E t (min (1 / 10) (max 0 (deadline - t))))
           in kill_loop E deadline (if ce_group E t1 then t1 + min (1 / 20) (max 0 (deadline - t1)) else t1)
      else t)"
  by pat_completeness auto

definition ticks :: "real \<Rightarrow> real \<Rightarrow> real \<Rightarrow> nat" where
  "ticks unit deadline t = nat \<lceil>(deadline - t) / unit\<rceil>"

lemma ticks_decrease:
  assumes "0 < unit" "t < deadline" "t \<le> t'"
  shows "ticks unit deadline (t' + min unit (max 0 (deadline - t'))) < ticks unit deadline t"
proof -
  have pos: "0 < (deadline - t) / unit" using assms by simp
  show ?thesis
  proof (cases "deadline - t' \<le> unit")
    case True
    then have "deadline - (t' + min unit (max 0 (deadline - t'))) \<le> 0" by auto
    then have "(deadline - (t' + min unit (max 0 (deadline - t')))) / unit \<le> 0" using assms(1) by (simp add: divide_nonpos_pos)
    then have "ticks unit deadline (t' + min unit (max 0 (deadline - t'))) = 0" by (simp add: ticks_def)
    moreover have "0 < ticks unit deadline t" using pos by (simp add: ticks_def)
    ultimately show ?thesis by simp
  next
    case False
    then have "(deadline - (t' + min unit (max 0 (deadline - t')))) / unit = (deadline - t') / unit - 1"
      using assms(1) by (auto simp: field_simps)
    also have "\<dots> \<le> (deadline - t) / unit - 1" using assms by (simp add: divide_right_mono)
    finally have "\<lceil>(deadline - (t' + min unit (max 0 (deadline - t')))) / unit\<rceil> \<le> \<lceil>(deadline - t) / unit\<rceil> - 1"
      by (metis ceiling_diff_one ceiling_mono)
    then show ?thesis using pos by (simp add: ticks_def)
  qed
qed

lemma ticks_mono: "0 < unit \<Longrightarrow> t \<le> t' \<Longrightarrow> ticks unit deadline t' \<le> ticks unit deadline t"
  unfolding ticks_def by (intro nat_mono ceiling_mono divide_right_mono) simp_all

termination term_loop
proof (relation "measure (\<lambda>(E, deadline, t). ticks (1 / 10) deadline t)", goal_cases)
  case (2 E deadline t)
  then show ?case using ticks_decrease [of "1 / 10" t deadline t] by simp
qed simp

lemma wait_event_later: "0 \<le> timeout \<Longrightarrow> t \<le> fst (wait_event x t timeout)"
  by (auto simp: wait_event_def split: option.splits)

lemma wait_event_bound: "0 \<le> timeout \<Longrightarrow> fst (wait_event x t timeout) \<le> t + timeout"
  by (auto simp: wait_event_def split: option.splits)

termination kill_loop
proof (relation "measure (\<lambda>(E, deadline, t). ticks (1 / 20) deadline t + (if ce_group E t then 1 else 0))", goal_cases)
  case (2 E deadline t t1)
  then have "t \<le> t1" by (simp add: wait_child_def wait_event_later)
  with 2 ticks_decrease [of "1 / 20" t deadline t1] ticks_mono [of "1 / 20" t t1 deadline] show ?case
    by (auto split: if_splits)
qed simp

declare term_loop.simps [simp del] kill_loop.simps [simp del]

datatype sent_signal = TermGroup real | TermChild real | KillGroup real

record stop_run =
  sr_component :: component
  sr_time :: real
  sr_signals :: "sent_signal list"
  sr_error :: "supervisor_error option"

definition stop_deadline :: "real \<Rightarrow> real option \<Rightarrow> real \<Rightarrow> real" where
  "stop_deadline deadline_s deadline t = (case deadline of Some d \<Rightarrow> d | None \<Rightarrow> t + max 0 deadline_s)"

text \<open>The end of \<^verbatim>\<open>stop\<close>, when nothing is left to wait for in the process group.\<close>

definition finish_stop :: "child_env \<Rightarrow> real \<Rightarrow> sent_signal list \<Rightarrow> real \<Rightarrow> component \<Rightarrow> stop_run" where
  "finish_stop E D signals t c =
     (let result = (\<lambda>state time err. \<lparr>sr_component = c\<lparr>mc_state := state\<rparr>, sr_time = time, sr_signals = signals,
                                       sr_error = err\<rparr>);
          stopped = (\<lambda>time. result STOPPED time (map_option Raised (ce_on_stopped E)))
      in if ce_group E t then result FAILED t (Some (SupervisorError ''retained process-group members''))
         else if \<not> mc_has_capture c then stopped t
         else case wait_event (ce_drain_end E) t (max 0 (min 1 (D - t))) of
           (t', joined) \<Rightarrow>
             if \<not> joined then result FAILED t' (Some (SupervisorError ''output drain did not stop''))
             else if capture_failure E t' \<noteq> None
               then result FAILED t' (Some (SupervisorError ''output drain failed''))
             else stopped t')"

definition stop_component :: "child_env \<Rightarrow> real \<Rightarrow> real option \<Rightarrow> real \<Rightarrow> component \<Rightarrow> stop_run" where
  "stop_component E deadline_s deadline t c =
     (let c1 = c\<lparr>mc_stopping := True\<rparr>; D = stop_deadline deadline_s deadline t in
      if \<not> mc_started c
      then \<lparr>sr_component = c1\<lparr>mc_state := STOPPED\<rparr>, sr_time = t, sr_signals = [], sr_error = None\<rparr>
      else
        let alive = (poll_child E t = None);
            c2 = (if alive then c1\<lparr>mc_state := STOPPING\<rparr> else c1);
            term = (if ce_group E t then [TermGroup t] else if alive then [TermChild t] else []);
            t1 = (if alive then fst (wait_child E t (max 0 (min 5 (D - t)))) else t);
            t2 = term_loop E (t1 + max 0 (D - t1) / 2) t1;
            kill = (if ce_group E t2 then [KillGroup t2] else []);
            t3 = kill_loop E D t2;
            t4 = fst (wait_child E t3 (max 0 (D - t3)))
        in finish_stop E D (term @ kill) t4 c2)"

subsection \<open>Starting and observing\<close>

record start_run =
  st_component :: component
  st_time :: real
  st_error :: "supervisor_error option"

definition start_checks :: "real option \<Rightarrow> component \<Rightarrow> (bool \<times> supervisor_error) list" where
  "start_checks rollback c =
     contract_checks c @
     [(mc_started c, SupervisorError ''has already been started''),
      (case rollback of None \<Rightarrow> False | Some d \<Rightarrow> d < 0, ValueError ''rollback deadline'')]"

definition start_component :: "child_env \<Rightarrow> real option \<Rightarrow> real \<Rightarrow> component \<Rightarrow> start_run" where
  "start_component E rollback t c =
     (let failed = (\<lambda>c' time e. \<lparr>st_component = c'\<lparr>mc_state := FAILED\<rparr>, st_time = time, st_error = Some e\<rparr>) in
      case first_failure (start_checks rollback c) of
        Some e \<Rightarrow> \<lparr>st_component = c, st_time = t, st_error = Some e\<rparr>
      | None \<Rightarrow>
          if mc_has_capture c \<and> mc_has_stdout c
            then failed c t (ValueError ''stdout and output_capture are mutually exclusive'')
          else case ce_on_starting E of
            Some text \<Rightarrow> failed c t (Raised text)
          | None \<Rightarrow> (case ce_spawn_error E of
              Some (OsOrValueError text) \<Rightarrow> failed c t (Raised text)
            | Some (OtherFailure text) \<Rightarrow> \<lparr>st_component = c\<lparr>mc_state := STARTING\<rparr>, st_time = t, st_error = Some (Raised text)\<rparr>
            | None \<Rightarrow>
                let c1 = c\<lparr>mc_state := STARTING, mc_started := True\<rparr> in
                (case ce_on_started E of
                   Some text \<Rightarrow>
                     let r = stop_component E 30 (Some (case rollback of Some d \<Rightarrow> d | None \<Rightarrow> t + 30)) t c1
                     in failed (sr_component r) (sr_time r) (Raised text)
                 | None \<Rightarrow> \<lparr>st_component = c1\<lparr>mc_state := RUNNING\<rparr>, st_time = t, st_error = None\<rparr>)))"

definition observe :: "child_env \<Rightarrow> real \<Rightarrow> component \<Rightarrow> component \<times> real \<times> int option" where
  "observe E t c =
     (if \<not> mc_started c then (c, t, None)
      else if mc_has_capture c \<and> capture_failure E t \<noteq> None then (c\<lparr>mc_state := FAILED\<rparr>, t, poll_child E t)
      else case poll_child E t of
        None \<Rightarrow> (c, t, None)
      | Some code \<Rightarrow>
          if \<not> mc_stopping c \<and> ce_group E t then (c\<lparr>mc_state := FAILED\<rparr>, t, Some code)
          else (c\<lparr>mc_state := (if mc_stopping c \<or> (\<not> mc_long_lived c \<and> code = 0) then STOPPED else FAILED)\<rparr>,
                if mc_has_capture c then fst (wait_event (ce_drain_end E) t (1 / 5)) else t, Some code))"

definition wait_component ::
    "child_env \<Rightarrow> real \<Rightarrow> real \<Rightarrow> component \<Rightarrow> supervisor_error + (component \<times> real \<times> int option)" where
  "wait_component E deadline t c =
     (if \<not> mc_started c then Inl (SupervisorError ''has not been started'')
      else if deadline - t \<le> 0 then Inl (TimeoutExpired ''0'')
      else case wait_child E t (deadline - t) of
        (t', exited) \<Rightarrow> if exited then Inr (observe E t' c) else Inl (TimeoutExpired ''remaining''))"

section \<open>The supervisor\<close>

record cause =
  fc_component :: string
  fc_reason :: string
  fc_detail :: string
  fc_exit :: "int option"
  fc_at :: real

record supervisor =
  sv_components :: "component list"
  sv_poll_interval :: real
  sv_first_cause :: "cause option"
  sv_secondary :: "cause list"
  sv_shutdown :: bool

definition new_supervisor :: "real \<Rightarrow> supervisor_error + supervisor" where
  "new_supervisor poll_interval =
     (if poll_interval \<le> 0 then Inl (ValueError ''supervisor poll interval'')
      else Inr \<lparr>sv_components = [], sv_poll_interval = poll_interval, sv_first_cause = None, sv_secondary = [],
                sv_shutdown = False\<rparr>)"

definition register_component :: "component \<Rightarrow> supervisor \<Rightarrow> supervisor_error + supervisor" where
  "register_component c S =
     checked (contract_checks c @
         [(mc_id c \<in> set (map mc_id (sv_components S)), SupervisorError ''duplicate component'')])
       (S\<lparr>sv_components := sv_components S @ [c]\<rparr>)"

definition put_component :: "component \<Rightarrow> supervisor \<Rightarrow> supervisor" where
  "put_component c S = S\<lparr>sv_components := map (\<lambda>x. if mc_id x = mc_id c then c else x) (sv_components S)\<rparr>"

text \<open>\<^verbatim>\<open>FirstCause\<close> checks its fields; \<^verbatim>\<open>record_cause\<close> keeps the first cause and collects the later ones.\<close>

definition cause_checks :: "cause \<Rightarrow> (bool \<times> supervisor_error) list" where
  "cause_checks c =
     [(fc_component c = [] \<or> fc_reason c = [] \<or> fc_detail c = [], ValueError ''failure cause must be non-empty text''),
      (fc_at c < 0, ValueError ''failure cause timestamp'')]"

definition add_cause :: "cause \<Rightarrow> supervisor \<Rightarrow> supervisor" where
  "add_cause c S =
     (case sv_first_cause S of None \<Rightarrow> S\<lparr>sv_first_cause := Some c\<rparr>
      | Some f \<Rightarrow> S\<lparr>sv_secondary := sv_secondary S @ [c]\<rparr>)"

definition record_cause ::
    "string \<Rightarrow> string \<Rightarrow> string \<Rightarrow> int option \<Rightarrow> real \<Rightarrow> supervisor \<Rightarrow> supervisor_error + supervisor" where
  "record_cause cid reason detail code t S =
     (let c = \<lparr>fc_component = cid, fc_reason = reason, fc_detail = detail, fc_exit = code, fc_at = t\<rparr>
      in checked (cause_checks c) (add_cause c S))"

definition request_shutdown :: "string \<Rightarrow> real \<Rightarrow> supervisor \<Rightarrow> supervisor_error option \<times> supervisor" where
  "request_shutdown reason t S =
     (let S1 = S\<lparr>sv_shutdown := True\<rparr> in
      case record_cause ''supervisor'' ''SHUTDOWN_REQUESTED'' reason None t S1 of
        Inl e \<Rightarrow> (Some e, S1) | Inr S2 \<Rightarrow> (None, S2))"

text \<open>
  The cleanup loops of \<^verbatim>\<open>start_all\<close> and \<^verbatim>\<open>shutdown\<close>: stop one component after the other under one
  absolute deadline and record what each raises. The loop itself ends early when the record of a
  cause raises.
\<close>

fun stop_each ::
    "(string \<Rightarrow> child_env) \<Rightarrow> string \<Rightarrow> (supervisor_error \<Rightarrow> string) \<Rightarrow> real \<Rightarrow> component list \<Rightarrow> real \<Rightarrow> supervisor
      \<Rightarrow> bool \<Rightarrow> supervisor_error option \<times> real \<times> supervisor \<times> bool" where
  "stop_each E reason render D [] t S clean = (None, t, S, clean)"
| "stop_each E reason render D (c # cs) t S clean =
     (let r = stop_component (E (mc_id c)) 30 (Some D) t c; S1 = put_component (sr_component r) S in
      case sr_error r of
        None \<Rightarrow> stop_each E reason render D cs (sr_time r) S1 clean
      | Some e \<Rightarrow>
          (case record_cause (mc_id c) reason (render e) None (sr_time r) S1 of
             Inl x \<Rightarrow> (Some x, sr_time r, S1, False)
           | Inr S2 \<Rightarrow> stop_each E reason render D cs (sr_time r) S2 False))"

definition typed_text :: "supervisor_error \<Rightarrow> string" where
  "typed_text e = error_type e @ '': '' @ error_text e"

text \<open>The start loop: what was started, and the error with the deadline of the rollback.\<close>

fun start_loop ::
    "(string \<Rightarrow> child_env) \<Rightarrow> real \<Rightarrow> component list \<Rightarrow> real \<Rightarrow> supervisor \<Rightarrow> component list
      \<Rightarrow> (supervisor_error \<times> real) option \<times> real \<times> supervisor \<times> component list" where
  "start_loop E rollback_s [] t S started = (None, t, S, started)"
| "start_loop E rollback_s (c # cs) t S started =
     (let r = start_component (E (mc_id c)) (Some (t + rollback_s)) t c;
          S1 = put_component (st_component r) S; done = started @ [st_component r]
      in case st_error r of
           None \<Rightarrow> start_loop E rollback_s cs (st_time r) S1 done
         | Some e \<Rightarrow> (Some (e, t + rollback_s), st_time r, S1, done))"

definition failed_component :: "supervisor \<Rightarrow> string" where
  "failed_component S =
     (case find (\<lambda>c. mc_state c = FAILED) (sv_components S) of Some c \<Rightarrow> mc_id c | None \<Rightarrow> ''startup'')"

definition start_all ::
    "(string \<Rightarrow> child_env) \<Rightarrow> real \<Rightarrow> real \<Rightarrow> supervisor \<Rightarrow> supervisor_error option \<times> real \<times> supervisor" where
  "start_all E rollback_s t S =
     (if rollback_s < 0 then (Some (ValueError ''startup rollback budget''), t, S)
      else case start_loop E rollback_s (sv_components S) t S [] of
        (None, t', S', started) \<Rightarrow> (None, t', S')
      | (Some (e, D), t', S', started) \<Rightarrow>
          (case record_cause (failed_component S') ''START_FAILED'' (error_text e) None t' S' of
             Inl x \<Rightarrow> (Some x, t', S')
           | Inr S2 \<Rightarrow>
               (case stop_each E ''START_ROLLBACK_FAILED'' typed_text D (rev started) t' S2 True of
                  (Some x, t3, S3, clean) \<Rightarrow> (Some x, t3, S3)
                | (None, t3, S3, clean) \<Rightarrow>
                    (Some (SupervisorError (''component startup transaction failed: '' @ error_text e)), t3, S3))))"

definition shutdown ::
    "(string \<Rightarrow> child_env) \<Rightarrow> real \<Rightarrow> real option \<Rightarrow> real \<Rightarrow> supervisor
      \<Rightarrow> (supervisor_error + bool) \<times> real \<times> supervisor" where
  "shutdown E drain_s deadline t S =
     (case stop_each E ''CLEANUP_ERROR'' error_text (stop_deadline drain_s deadline t) (rev (sv_components S)) t S True of
        (Some x, t', S', clean) \<Rightarrow> (Inl x, t', S')
      | (None, t', S', clean) \<Rightarrow>
          (Inr (clean \<and> list_all (\<lambda>c. mc_state c = STOPPED) (sv_components S')), t', S'))"

text \<open>Polling.\<close>

definition exit_text :: "child_env \<Rightarrow> component \<Rightarrow> string" where
  "exit_text E c =
     (let base = mc_id c @ '' exited unexpectedly'' in
      case ce_exit_detail E of
        None \<Rightarrow> base
      | Some (Inr captured) \<Rightarrow> if captured \<noteq> [] then captured else base
      | Some (Inl raised) \<Rightarrow> base @ ''; failure-evidence capture failed: '' @ raised)"

definition report_failure ::
    "string \<Rightarrow> string \<Rightarrow> string \<Rightarrow> int option \<Rightarrow> real \<Rightarrow> supervisor
      \<Rightarrow> (supervisor_error + cause option) \<times> real \<times> supervisor" where
  "report_failure cid reason detail code t S =
     (case record_cause cid reason detail code t S of
        Inl e \<Rightarrow> (Inl e, t, S) | Inr S2 \<Rightarrow> (Inr (sv_first_cause S2), t, S2))"

fun poll_list ::
    "(string \<Rightarrow> child_env) \<Rightarrow> component list \<Rightarrow> real \<Rightarrow> supervisor
      \<Rightarrow> (supervisor_error + cause option) \<times> real \<times> supervisor" where
  "poll_list E [] t S = (Inr None, t, S)"
| "poll_list E (c # cs) t S =
     (case observe (E (mc_id c)) t c of
        (c', t', code) \<Rightarrow>
          let S1 = put_component c' S in
          if mc_state c' = FAILED
            then report_failure (mc_id c) ''UNEXPECTED_EXIT'' (exit_text (E (mc_id c)) c) code t' S1
          else if mc_state c' = STOPPED \<and> \<not> mc_long_lived c \<and> mc_has_result_check c \<and>
                  \<not> fst (ce_result (E (mc_id c)) t')
            then report_failure (mc_id c) ''INVALID_RESULT'' (snd (ce_result (E (mc_id c)) t')) code t' S1
          else poll_list E cs t' S1)"

definition poll_once ::
    "(string \<Rightarrow> child_env) \<Rightarrow> real \<Rightarrow> supervisor \<Rightarrow> (supervisor_error + cause option) \<times> real \<times> supervisor" where
  "poll_once E t S = poll_list E (sv_components S) t S"

text \<open>
  The supervision loop. \<open>arrival\<close> is the time at which a termination signal arrives and its number;
  the handler runs at the head of the loop.
\<close>

definition deliver_signal :: "(real \<times> int) option \<Rightarrow> real \<Rightarrow> supervisor \<Rightarrow> supervisor" where
  "deliver_signal arrival t S =
     (case arrival of
        Some (x, signum) \<Rightarrow>
          if x \<le> t \<and> \<not> sv_shutdown S then snd (request_shutdown (''signal '' @ show_int signum) t S) else S
      | None \<Rightarrow> S)"

fun supervise_loop ::
    "nat \<Rightarrow> (string \<Rightarrow> child_env) \<Rightarrow> (real \<times> int) option \<Rightarrow> (real \<Rightarrow> bool) option \<Rightarrow> real option \<Rightarrow> real
      \<Rightarrow> supervisor \<Rightarrow> ((supervisor_error + cause option) \<times> real \<times> supervisor) option" where
  "supervise_loop 0 E arrival until deadline t S = None"
| "supervise_loop (Suc fuel) E arrival until deadline t S0 =
     (let S = deliver_signal arrival t S0 in
      if sv_shutdown S then Some (Inr (sv_first_cause S), t, S)
      else case poll_once E t S of
        (Inl e, t', S') \<Rightarrow> Some (Inl e, t', S')
      | (Inr (Some c), t', S') \<Rightarrow> Some (Inr (Some c), t', S')
      | (Inr None, t', S') \<Rightarrow>
          if (case until of None \<Rightarrow> False | Some u \<Rightarrow> u t') then Some (Inr None, t', S')
          else if (case deadline of None \<Rightarrow> False | Some d \<Rightarrow> d < t')
            then Some (report_failure ''supervisor'' ''DEADLINE'' ''exceeded the timeout'' None t' S')
          else supervise_loop fuel E arrival until deadline (t' + sv_poll_interval S') S')"

definition supervise ::
    "nat \<Rightarrow> (string \<Rightarrow> child_env) \<Rightarrow> (real \<times> int) option \<Rightarrow> (real \<Rightarrow> bool) option \<Rightarrow> real option \<Rightarrow> real
      \<Rightarrow> supervisor \<Rightarrow> ((supervisor_error + cause option) \<times> real \<times> supervisor) option" where
  "supervise fuel E arrival until timeout t S =
     (if (case timeout of None \<Rightarrow> False | Some x \<Rightarrow> x \<le> 0) then Some (Inl (ValueError ''supervision timeout''), t, S)
      else supervise_loop fuel E arrival until (map_option (\<lambda>x. t + x) timeout) t S)"

definition exit_code :: "supervisor \<Rightarrow> int" where
  "exit_code S =
     (case sv_first_cause S of
        None \<Rightarrow> 0
      | Some c \<Rightarrow>
          if fc_reason c = ''SHUTDOWN_REQUESTED'' then 143
          else case fc_exit c of
            None \<Rightarrow> 1
          | Some native \<Rightarrow> if native = 0 then 1 else if native < 0 then 128 + abs native else native)"

section \<open>Captured output is an exact tail\<close>

lemma drop_tail_append:
  "drop (length (drop (length xs - n) xs @ ys) - n) (drop (length xs - n) xs @ ys) =
     drop (length (xs @ ys) - n) (xs @ ys)"
  by (cases "length xs \<le> n") (auto simp: algebra_simps)

lemma drain_tail:
  assumes "oc_tail c = drop (length seen - oc_max_bytes c) seen" "oc_total_bytes c = length seen"
  shows "oc_tail (drain chunks c) =
      drop (length (seen @ concat (takeWhile (\<lambda>x. x \<noteq> []) chunks)) - oc_max_bytes c)
        (seen @ concat (takeWhile (\<lambda>x. x \<noteq> []) chunks)) \<and>
    oc_total_bytes (drain chunks c) = length (seen @ concat (takeWhile (\<lambda>x. x \<noteq> []) chunks)) \<and>
    oc_max_bytes (drain chunks c) = oc_max_bytes c"
  using assms
proof (induction chunks c arbitrary: seen rule: drain.induct)
  case (2 chunk rest c)
  show ?case
  proof (cases "chunk = []")
    case False
    let ?c = "drain_chunk chunk c"
    have "oc_tail ?c = drop (length (seen @ chunk) - oc_max_bytes ?c) (seen @ chunk)"
      "oc_total_bytes ?c = length (seen @ chunk)" "oc_max_bytes ?c = oc_max_bytes c"
      using 2 drop_tail_append [of seen "oc_max_bytes c" chunk] by (simp_all add: drain_chunk_def Let_def)
    with "2.IH" [OF False, of "seen @ chunk"] False show ?thesis by simp
  qed (use 2 in simp)
qed simp

section \<open>Stopping is bounded\<close>

lemma term_loop_step:
  "t < d \<Longrightarrow> ce_group E t \<Longrightarrow> term_loop E d t = term_loop E d (t + min (1 / 10) (max 0 (d - t)))"
  by (subst term_loop.simps) simp

lemma term_loop_end: "\<not> (t < d \<and> ce_group E t) \<Longrightarrow> term_loop E d t = t"
  by (subst term_loop.simps) auto

lemma term_loop_bounds: "t \<le> term_loop E d t \<and> term_loop E d t \<le> max t d"
proof (induction E d t rule: term_loop.induct)
  case (1 E d t)
  show ?case
  proof (cases "t < d \<and> ce_group E t")
    case True
    then show ?thesis using "1.IH" term_loop_step [of t d E] by (auto simp: min_def max_def split: if_splits)
  qed (simp add: term_loop_end)
qed

lemma term_loop_group: "ce_group E (term_loop E d t) \<Longrightarrow> d \<le> term_loop E d t"
proof (induction E d t rule: term_loop.induct)
  case (1 E d t)
  show ?case
  proof (cases "t < d \<and> ce_group E t")
    case True
    then show ?thesis using 1 term_loop_step [of t d E] by simp
  qed (use 1 in \<open>simp add: term_loop_end not_less\<close>)
qed

lemma kill_loop_end: "\<not> (t < d \<and> ce_group E t) \<Longrightarrow> kill_loop E d t = t"
  by (subst kill_loop.simps) auto

lemma kill_loop_step:
  assumes "t < d" "ce_group E t" "t1 = fst (wait_child E t (min (1 / 10) (max 0 (d - t))))"
  shows "kill_loop E d t = kill_loop E d (if ce_group E t1 then t1 + min (1 / 20) (max 0 (d - t1)) else t1)"
  using assms by (subst kill_loop.simps) (simp add: Let_def)

lemma kill_loop_bounds: "t \<le> kill_loop E d t \<and> kill_loop E d t \<le> max t d"
proof (induction E d t rule: kill_loop.induct)
  case (1 E d t)
  show ?case
  proof (cases "t < d \<and> ce_group E t")
    case True
    define t1 where "t1 = fst (wait_child E t (min (1 / 10) (max 0 (d - t))))"
    have t1: "t \<le> t1" "t1 \<le> d"
      using wait_event_later [of "min (1 / 10) (max 0 (d - t))" t "map_option fst (ce_exit E)"]
        wait_event_bound [of "min (1 / 10) (max 0 (d - t))" "map_option fst (ce_exit E)" t] True
      by (auto simp: wait_child_def t1_def)
    define t2 where "t2 = (if ce_group E t1 then t1 + min (1 / 20) (max 0 (d - t1)) else t1)"
    have t2: "t1 \<le> t2" "t2 \<le> d" using t1 by (auto simp: t2_def)
    have "kill_loop E d t = kill_loop E d t2"
      using kill_loop_step [of t d E t1] True t1_def by (simp add: t2_def)
    moreover have "t2 \<le> kill_loop E d t2 \<and> kill_loop E d t2 \<le> max t2 d"
      using "1.IH" [OF True t1_def] by (simp add: t2_def)
    ultimately show ?thesis using t1 t2 by auto
  qed (simp add: kill_loop_end)
qed

lemma wait_child_bounds:
  "t \<le> fst (wait_child E t (max 0 (D - t))) \<and> fst (wait_child E t (max 0 (D - t))) \<le> max t D"
  using wait_event_later [of "max 0 (D - t)" t "map_option fst (ce_exit E)"]
    wait_event_bound [of "max 0 (D - t)" "map_option fst (ce_exit E)" t]
  by (auto simp: wait_child_def)

lemma wait_child_short:
  "t \<le> fst (wait_child E t (max 0 (min 5 (D - t)))) \<and> fst (wait_child E t (max 0 (min 5 (D - t)))) \<le> max t D"
  using wait_event_later [of "max 0 (min 5 (D - t))" t "map_option fst (ce_exit E)"]
    wait_event_bound [of "max 0 (min 5 (D - t))" "map_option fst (ce_exit E)" t]
  by (auto simp: wait_child_def)

text \<open>What the end of \<^verbatim>\<open>stop\<close> guarantees.\<close>

lemma finish_stop_facts:
  fixes c :: component
  assumes "r = finish_stop E D signals t c"
  shows "mc_id (sr_component r) = mc_id c" "t \<le> sr_time r" "sr_time r \<le> max t D" "sr_signals r = signals"
    and "sr_error r = None \<Longrightarrow> mc_state (sr_component r) = STOPPED \<and> \<not> ce_group E t"
    and "mc_state (sr_component r) \<in> {STOPPED, FAILED}"
    and "mc_state (sr_component r) = FAILED \<Longrightarrow> sr_error r \<noteq> None"
    and "sr_error r = Some e \<Longrightarrow> error_text e = [] \<Longrightarrow> ce_on_stopped E = Some []"
proof -
  have w: "t \<le> fst (wait_event (ce_drain_end E) t (max 0 (min 1 (D - t))))"
    "fst (wait_event (ce_drain_end E) t (max 0 (min 1 (D - t)))) \<le> max t D"
    using wait_event_later [of "max 0 (min 1 (D - t))" t "ce_drain_end E"]
      wait_event_bound [of "max 0 (min 1 (D - t))" "ce_drain_end E" t] by auto
  obtain t' joined where wt: "wait_event (ce_drain_end E) t (max 0 (min 1 (D - t))) = (t', joined)" by fastforce
  have "\<exists>state err time. r = \<lparr>sr_component = c\<lparr>mc_state := state\<rparr>, sr_time = time, sr_signals = signals, sr_error = err\<rparr> \<and>
      t \<le> time \<and> time \<le> max t D \<and>
      (state = FAILED \<and> (\<exists>x. err = Some (SupervisorError x) \<and> x \<noteq> []) \<or>
       state = STOPPED \<and> err = map_option Raised (ce_on_stopped E) \<and> \<not> ce_group E t)"
  proof (cases "ce_group E t \<or> \<not> mc_has_capture c")
    case True
    then show ?thesis using assms by (auto simp: finish_stop_def Let_def)
  next
    case False
    then show ?thesis using assms w by (auto simp: finish_stop_def Let_def wt)
  qed
  then obtain state err time where r: "r = \<lparr>sr_component = c\<lparr>mc_state := state\<rparr>, sr_time = time, sr_signals = signals, sr_error = err\<rparr>"
      and time: "t \<le> time" "time \<le> max t D"
      and outcome: "state = FAILED \<and> (\<exists>x. err = Some (SupervisorError x) \<and> x \<noteq> []) \<or>
        state = STOPPED \<and> err = map_option Raised (ce_on_stopped E) \<and> \<not> ce_group E t" by blast
  show "mc_id (sr_component r) = mc_id c" "t \<le> sr_time r" "sr_time r \<le> max t D" "sr_signals r = signals"
    "sr_error r = None \<Longrightarrow> mc_state (sr_component r) = STOPPED \<and> \<not> ce_group E t"
    "mc_state (sr_component r) \<in> {STOPPED, FAILED}"
    "mc_state (sr_component r) = FAILED \<Longrightarrow> sr_error r \<noteq> None"
    "sr_error r = Some e \<Longrightarrow> error_text e = [] \<Longrightarrow> ce_on_stopped E = Some []"
    using time outcome by (auto simp: r eq_commute [of "Some e"])
qed

lemma stop_started_facts:
  fixes c :: component
  assumes "r = stop_component E deadline_s deadline t c" "D = stop_deadline deadline_s deadline t" "mc_started c"
  shows "mc_id (sr_component r) = mc_id c" "t \<le> sr_time r" "sr_time r \<le> max t D"
    and "mc_state (sr_component r) \<in> {STOPPED, FAILED}"
    and "sr_error r = None \<Longrightarrow> mc_state (sr_component r) = STOPPED \<and>
      (mc_started c \<longrightarrow> (\<exists>x. t \<le> x \<and> x \<le> sr_time r \<and> \<not> ce_group E x))"
    and "mc_state (sr_component r) = FAILED \<Longrightarrow> sr_error r \<noteq> None"
    and "sr_error r = Some e \<Longrightarrow> error_text e = [] \<Longrightarrow> ce_on_stopped E = Some []"
    and "KillGroup x \<in> set (sr_signals r) \<Longrightarrow> (t + D) / 2 \<le> x"
proof -
  define alive where "alive = (poll_child E t = None)"
  define t1 where "t1 = (if alive then fst (wait_child E t (max 0 (min 5 (D - t)))) else t)"
  define t2 where "t2 = term_loop E (t1 + max 0 (D - t1) / 2) t1"
  define t4 where "t4 = fst (wait_child E (kill_loop E D t2) (max 0 (D - kill_loop E D t2)))"
  define kill where "kill = (if ce_group E t2 then [KillGroup t2] else [])"
  define trm where "trm = (if ce_group E t then [TermGroup t] else if alive then [TermChild t] else [])"
  define c2 where "c2 = (if alive then c\<lparr>mc_stopping := True, mc_state := STOPPING\<rparr> else c\<lparr>mc_stopping := True\<rparr>)"
  have r: "r = finish_stop E D (trm @ kill) t4 c2"
    unfolding assms(1) stop_component_def Let_def assms(2) [symmetric] c2_def trm_def kill_def t4_def t2_def
      t1_def alive_def
    by (simp only: assms(3) not_True_eq_False if_False)
  have t1: "t \<le> t1" "t1 \<le> max t D" using wait_child_short [of t E D] by (auto simp: t1_def)
  have t2: "t1 \<le> t2" "t2 \<le> max t D"
    using term_loop_bounds [of t1 E "t1 + max 0 (D - t1) / 2"] t1
    by (auto simp: t2_def max_def field_simps split: if_splits)
  have t4: "t2 \<le> t4" "t4 \<le> max t D"
    using kill_loop_bounds [of t2 E D] wait_child_bounds [of "kill_loop E D t2" E D] t2 by (auto simp: t4_def)
  note F = finish_stop_facts [OF r]
  have "mc_id c2 = mc_id c" by (simp add: c2_def)
  with F(1) show "mc_id (sr_component r) = mc_id c" by simp
  show "t \<le> sr_time r" "sr_time r \<le> max t D" using F(2,3) t1 t2 t4 by linarith+
  show "mc_state (sr_component r) \<in> {STOPPED, FAILED}" by (rule F(6))
  show "mc_state (sr_component r) = STOPPED \<and> (mc_started c \<longrightarrow> (\<exists>x. t \<le> x \<and> x \<le> sr_time r \<and> \<not> ce_group E x))"
    if "sr_error r = None" using F(5) [OF that] F(2) t1 t2 t4 by (auto intro!: exI [of _ t4])
  show "sr_error r \<noteq> None" if "mc_state (sr_component r) = FAILED" using F(7) [OF that] .
  show "ce_on_stopped E = Some []" if "sr_error r = Some e" "error_text e = []" using F(8) that by blast
  show "(t + D) / 2 \<le> x" if "KillGroup x \<in> set (sr_signals r)"
  proof -
    have "x = t2" "ce_group E t2" using that F(4) by (auto simp: kill_def trm_def split: if_splits)
    then have "t1 + max 0 (D - t1) / 2 \<le> x" using term_loop_group [of E] by (simp add: t2_def)
    then show ?thesis using t1 by (auto simp: max_def field_simps split: if_splits)
  qed
qed

lemma stop_facts:
  fixes c :: component
  assumes "r = stop_component E deadline_s deadline t c" "D = stop_deadline deadline_s deadline t"
  shows "mc_id (sr_component r) = mc_id c" "t \<le> sr_time r" "sr_time r \<le> max t D"
    and "mc_state (sr_component r) \<in> {STOPPED, FAILED}"
    and "sr_error r = None \<Longrightarrow> mc_state (sr_component r) = STOPPED \<and>
      (mc_started c \<longrightarrow> (\<exists>x. t \<le> x \<and> x \<le> sr_time r \<and> \<not> ce_group E x))"
    and "mc_state (sr_component r) = FAILED \<Longrightarrow> sr_error r \<noteq> None"
    and "sr_error r = Some e \<Longrightarrow> error_text e = [] \<Longrightarrow> ce_on_stopped E = Some []"
    and "KillGroup x \<in> set (sr_signals r) \<Longrightarrow> (t + D) / 2 \<le> x"
proof -
  note S = stop_started_facts [OF assms]
  have un: "r = \<lparr>sr_component = c\<lparr>mc_stopping := True, mc_state := STOPPED\<rparr>, sr_time = t, sr_signals = [], sr_error = None\<rparr>"
    if "\<not> mc_started c" using that assms(1) by (simp add: stop_component_def Let_def)
  show "mc_id (sr_component r) = mc_id c" by (cases "mc_started c") (simp_all add: S(1) un)
  show "t \<le> sr_time r" by (cases "mc_started c") (simp_all add: S(2) un)
  show "sr_time r \<le> max t D" using S(3) un by (cases "mc_started c") auto
  show "mc_state (sr_component r) \<in> {STOPPED, FAILED}" using S(4) un by (cases "mc_started c") auto
  show "mc_state (sr_component r) = STOPPED \<and> (mc_started c \<longrightarrow> (\<exists>x. t \<le> x \<and> x \<le> sr_time r \<and> \<not> ce_group E x))"
    if "sr_error r = None" using S(5) [OF _ that] un by (cases "mc_started c") auto
  show "sr_error r \<noteq> None" if "mc_state (sr_component r) = FAILED"
    using S(6) [OF _ that] un that by (cases "mc_started c") auto
  show "ce_on_stopped E = Some []" if "sr_error r = Some e" "error_text e = []"
    using S(7) [OF _ that] un that by (cases "mc_started c") auto
  show "(t + D) / 2 \<le> x" if "KillGroup x \<in> set (sr_signals r)"
    using S(8) [OF _ that] un that by (cases "mc_started c") auto
qed

section \<open>Causes\<close>

definition causes :: "supervisor \<Rightarrow> cause list" where
  "causes S = (case sv_first_cause S of None \<Rightarrow> [] | Some c \<Rightarrow> c # sv_secondary S)"

interpretation cause_log: first_cause "\<lambda>S. True" sv_first_cause add_cause "\<lambda>c. c"
  by unfold_locales (simp_all add: add_cause_def)

lemma causes_add: "prefix (causes S) (causes (add_cause c S))" "c \<in> set (causes (add_cause c S))"
  by (auto simp: causes_def add_cause_def split: option.splits)

lemma causes_put [simp]: "causes (put_component c S) = causes S"
  by (auto simp: causes_def put_component_def split: option.splits)

lemma causes_first:
  "prefix (causes S) (causes S') \<Longrightarrow> sv_first_cause S = Some c \<Longrightarrow> sv_first_cause S' = Some c"
  by (auto simp: causes_def split: option.splits)

lemma record_cause_Inr:
  assumes "record_cause cid reason detail code t S = Inr S'"
  shows "sv_components S' = sv_components S" "prefix (causes S) (causes S')"
    and "\<exists>q \<in> set (causes S'). fc_component q = cid \<and> fc_reason q = reason" "sv_first_cause S' \<noteq> None"
proof -
  let ?c = "\<lparr>fc_component = cid, fc_reason = reason, fc_detail = detail, fc_exit = code, fc_at = t\<rparr>"
  have S': "S' = add_cause ?c S"
    using assms by (auto simp: record_cause_def Let_def checked_def split: option.splits)
  then show "prefix (causes S) (causes S')" by (simp add: causes_add)
  show "sv_components S' = sv_components S" "sv_first_cause S' \<noteq> None"
    by (auto simp: S' add_cause_def split: option.splits)
  show "\<exists>q \<in> set (causes S'). fc_component q = cid \<and> fc_reason q = reason"
    using causes_add(2) [of ?c S] by (intro bexI [of _ ?c]) (simp_all add: S')
qed

lemma record_cause_accepted:
  "cid \<noteq> [] \<Longrightarrow> reason \<noteq> [] \<Longrightarrow> detail \<noteq> [] \<Longrightarrow> 0 \<le> t \<Longrightarrow> \<exists>S'. record_cause cid reason detail code t S = Inr S'"
  by (simp add: record_cause_def Let_def checked_def cause_checks_def)

section \<open>Cleanup visits every component\<close>

lemma put_ids [simp]: "map mc_id (sv_components (put_component c S)) = map mc_id (sv_components S)"
  by (auto simp: put_component_def)

lemma put_members:
  assumes "x \<in> set (sv_components (put_component c S))"
  shows "if mc_id x = mc_id c then x = c else x \<in> set (sv_components S)"
  using assms by (auto simp: put_component_def)

definition cleaned :: "string \<Rightarrow> supervisor \<Rightarrow> component \<Rightarrow> bool" where
  "cleaned reason S x =
     (mc_state x \<in> {STOPPED, FAILED} \<and>
      (mc_state x = FAILED \<longrightarrow> (\<exists>q \<in> set (causes S). fc_component q = mc_id x \<and> fc_reason q = reason)))"

lemma cleaned_mono: "cleaned reason S x \<Longrightarrow> prefix (causes S) (causes S') \<Longrightarrow> cleaned reason S' x"
  by (auto simp: cleaned_def dest: set_mono_prefix)

lemma stop_each_facts:
  assumes "stop_each E reason render D cs t S clean = (err, t', S', clean')"
    and "0 \<le> t" "reason \<noteq> []" "\<forall>c \<in> set cs. mc_id c \<noteq> []" "distinct (map mc_id cs)"
    and "\<And>c u e. c \<in> set cs \<Longrightarrow> sr_error (stop_component (E (mc_id c)) 30 (Some D) u c) = Some e \<Longrightarrow> render e \<noteq> []"
  shows "err = None \<and> t \<le> t' \<and> t' \<le> max t D \<and> map mc_id (sv_components S') = map mc_id (sv_components S) \<and>
    prefix (causes S) (causes S') \<and>
    (\<forall>x \<in> set (sv_components S'). if mc_id x \<in> set (map mc_id cs) then cleaned reason S' x
       else x \<in> set (sv_components S)) \<and>
    (clean' \<longrightarrow> clean) \<and> (\<not> clean' \<longrightarrow> clean \<longrightarrow> causes S' \<noteq> [])"
  using assms
proof (induction cs arbitrary: t S clean)
  case (Cons c cs)
  define r where "r = stop_component (E (mc_id c)) 30 (Some D) t c"
  define S1 where "S1 = put_component (sr_component r) S"
  note F = stop_facts [OF r_def refl]
  have time: "0 \<le> sr_time r" "t \<le> sr_time r" "sr_time r \<le> max t D"
    using F(2,3) Cons.prems(2) by (simp_all add: stop_deadline_def)
  obtain S2 clean2 where rest: "stop_each E reason render D cs (sr_time r) S2 clean2 = (err, t', S', clean')"
    and S2: "sv_components S2 = sv_components S1" "prefix (causes S) (causes S2)" "cleaned reason S2 (sr_component r)"
    and clean2: "clean2 \<longrightarrow> clean" "\<not> clean2 \<longrightarrow> clean \<longrightarrow> causes S2 \<noteq> []"
  proof (cases "sr_error r")
    case None
    then have "mc_state (sr_component r) = STOPPED" using F(5) by simp
    with that [of S1 clean] Cons.prems(1) None show ?thesis
      by (simp add: r_def S1_def cleaned_def Let_def)
  next
    case (Some e)
    then obtain S2 where rec: "record_cause (mc_id c) reason (render e) None (sr_time r) S1 = Inr S2"
      using record_cause_accepted [of "mc_id c" reason "render e" "sr_time r" None S1] Cons.prems(3,4) time(1)
        Cons.prems(6) [of c t e] by (auto simp: r_def)
    note R = record_cause_Inr [OF rec]
    have "cleaned reason S2 (sr_component r)" using F(1,4) R(3) by (simp add: cleaned_def)
    moreover have "causes S2 \<noteq> []" using R(3) by auto
    ultimately show ?thesis
      using that [of S2 False] Cons.prems(1) Some rec R(1,2) by (simp add: r_def S1_def Let_def)
  qed
  have IH: "err = None \<and> sr_time r \<le> t' \<and> t' \<le> max (sr_time r) D \<and>
    map mc_id (sv_components S') = map mc_id (sv_components S2) \<and> prefix (causes S2) (causes S') \<and>
    (\<forall>x \<in> set (sv_components S'). if mc_id x \<in> set (map mc_id cs) then cleaned reason S' x
       else x \<in> set (sv_components S2)) \<and>
    (clean' \<longrightarrow> clean2) \<and> (\<not> clean' \<longrightarrow> clean2 \<longrightarrow> causes S' \<noteq> [])"
    using Cons.prems by (intro Cons.IH [OF rest time(1)]) auto
  have "if mc_id x \<in> set (map mc_id (c # cs)) then cleaned reason S' x else x \<in> set (sv_components S)"
    if x: "x \<in> set (sv_components S')" for x
  proof (cases "mc_id x \<in> set (map mc_id cs)")
    case False
    then have "x \<in> set (sv_components (put_component (sr_component r) S))" using IH x S2(1) by (auto simp: S1_def)
    from put_members [OF this] show ?thesis
      using False F(1) cleaned_mono [OF S2(3)] IH by (auto split: if_splits)
  qed (use IH x in auto)
  moreover have "map mc_id (sv_components S') = map mc_id (sv_components S)"
    using IH S2(1) by (simp add: S1_def)
  moreover have "prefix (causes S) (causes S')" using IH S2(2) prefix_order.trans by blast
  moreover have "\<not> clean' \<longrightarrow> clean \<longrightarrow> causes S' \<noteq> []" using IH clean2(2) by (cases clean2) auto
  ultimately show ?case using IH time clean2(1) by auto
qed simp

section \<open>Starting\<close>

text \<open>The texts of what callbacks and the spawn of a child raise are not empty.\<close>

definition texts_ok :: "child_env \<Rightarrow> bool" where
  "texts_ok E =
     (ce_on_starting E \<noteq> Some [] \<and> ce_spawn_error E \<notin> {Some (OsOrValueError []), Some (OtherFailure [])} \<and> ce_on_started E \<noteq> Some [])"

lemma contract_texts: "first_failure (contract_checks c) = Some e \<Longrightarrow> error_text e \<noteq> []"
  by (auto simp: contract_checks_def split: if_splits option.splits)

lemma start_facts:
  fixes c :: component
  assumes "r = start_component E rollback t c"
  shows "mc_id (st_component r) = mc_id c" "t \<le> st_time r"
    and "st_error r = None \<Longrightarrow> mc_state (st_component r) = RUNNING"
    and "texts_ok E \<Longrightarrow> st_error r = Some e \<Longrightarrow> error_text e \<noteq> []"
proof -
  define s where "s = stop_component E 30 (Some (case rollback of Some d \<Rightarrow> d | None \<Rightarrow> t + 30)) t
      (c\<lparr>mc_state := STARTING, mc_started := True\<rparr>)"
  have s: "mc_id (sr_component s) = mc_id c" "t \<le> sr_time s" using stop_facts(1,2) [OF s_def refl] by simp_all
  have nonempty: "first_failure (start_checks rollback c) = Some x \<Longrightarrow> error_text x \<noteq> []" for x
    by (auto simp: start_checks_def first_failure_append dest: contract_texts split: option.splits if_splits)
  note r = assms [unfolded start_component_def Let_def, folded s_def]
  show "mc_id (st_component r) = mc_id c" "t \<le> st_time r"
    "st_error r = None \<Longrightarrow> mc_state (st_component r) = RUNNING"
    "texts_ok E \<Longrightarrow> st_error r = Some e \<Longrightarrow> error_text e \<noteq> []"
    using s nonempty by (auto simp: r texts_ok_def split: option.splits if_splits spawn_failure.splits)
qed

lemma start_loop_facts:
  assumes "start_loop E rb cs t S started = (res, t', S', done)"
    and "distinct (map mc_id cs)" "\<forall>c \<in> set cs. texts_ok (E (mc_id c))"
  shows "t \<le> t' \<and> map mc_id (sv_components S') = map mc_id (sv_components S) \<and> causes S' = causes S \<and>
    (\<exists>new rest. done = started @ new \<and> map mc_id cs = map mc_id new @ rest \<and>
       (\<forall>x \<in> set (sv_components S'). if mc_id x \<in> set (map mc_id new) then x \<in> set new else x \<in> set (sv_components S)) \<and>
       (res = None \<longrightarrow> rest = [] \<and> (\<forall>x \<in> set new. mc_state x = RUNNING))) \<and>
    (\<forall>e D. res = Some (e, D) \<longrightarrow> error_text e \<noteq> [])"
  using assms
proof (induction cs arbitrary: t S started)
  case (Cons c cs)
  define r where "r = start_component (E (mc_id c)) (Some (t + rb)) t c"
  define S1 where "S1 = put_component (st_component r) S"
  note F = start_facts [OF r_def]
  have S1: "map mc_id (sv_components S1) = map mc_id (sv_components S)" "causes S1 = causes S"
    by (simp_all add: S1_def)
  show ?case
  proof (cases "st_error r")
    case None
    then have rest: "start_loop E rb cs (st_time r) S1 (started @ [st_component r]) = (res, t', S', done)"
      using Cons.prems(1) by (simp add: r_def S1_def Let_def)
    then obtain new rest where IH: "st_time r \<le> t'" "map mc_id (sv_components S') = map mc_id (sv_components S1)"
        "causes S' = causes S1" "done = (started @ [st_component r]) @ new" "map mc_id cs = map mc_id new @ rest"
        "\<forall>x \<in> set (sv_components S'). if mc_id x \<in> set (map mc_id new) then x \<in> set new else x \<in> set (sv_components S1)"
        "res = None \<longrightarrow> rest = [] \<and> (\<forall>x \<in> set new. mc_state x = RUNNING)"
        "\<forall>e D. res = Some (e, D) \<longrightarrow> error_text e \<noteq> []"
      using Cons.IH [OF rest] Cons.prems by auto
    have "mc_id c \<notin> set (map mc_id cs)" using Cons.prems(2) by simp
    then have fresh: "mc_id c \<notin> set (map mc_id new)" unfolding IH(5) by simp
    have mem: "\<forall>x \<in> set (sv_components S'). if mc_id x \<in> set (map mc_id (st_component r # new))
        then x \<in> set (st_component r # new) else x \<in> set (sv_components S)"
      using IH(6) put_members [of _ "st_component r" S] F(1) fresh by (fastforce simp: S1_def split: if_splits)
    show ?thesis
      by (intro conjI exI [of _ "st_component r # new"] exI [of _ rest] mem)
        (use IH F(1) F(2) F(3) [OF None] S1 in auto)
  next
    case (Some e)
    then have out: "res = Some (e, t + rb)" "t' = st_time r" "S' = S1" "done = started @ [st_component r]"
      using Cons.prems(1) by (simp_all add: r_def S1_def Let_def)
    have mem: "\<forall>x \<in> set (sv_components S'). if mc_id x \<in> set (map mc_id [st_component r])
        then x \<in> set [st_component r] else x \<in> set (sv_components S)"
      using put_members [of _ "st_component r" S] by (fastforce simp: out S1_def split: if_splits)
    show ?thesis
      by (intro conjI exI [of _ "[st_component r]"] exI [of _ "map mc_id cs"] mem)
        (use out S1 F(1) F(2) F(4) [OF _ Some] Cons.prems(3) in auto)
  qed
qed simp

section \<open>Polling and supervision\<close>

lemma observe_facts:
  assumes "observe E t c = (c', t', code)"
  shows "mc_id c' = mc_id c" "t \<le> t'" "mc_long_lived c' = mc_long_lived c"
    and "mc_started c \<Longrightarrow> mc_long_lived c \<Longrightarrow> \<not> mc_stopping c \<Longrightarrow> poll_child E t \<noteq> None \<Longrightarrow> mc_state c' = FAILED"
  using assms wait_event_later [of "1 / 5" t "ce_drain_end E"]
  by (auto simp: observe_def split: if_splits option.splits)

lemma exit_text_nonempty: "mc_id c \<noteq> [] \<Longrightarrow> exit_text E c \<noteq> []"
  by (auto simp: exit_text_def Let_def split: option.splits sum.splits)

lemma report_facts:
  assumes "report_failure cid reason detail code t S = (res, t', S')"
  shows "t' = t" "sv_components S' = sv_components S" "prefix (causes S) (causes S')"
    "sv_poll_interval S' = sv_poll_interval S" "sv_shutdown S' = sv_shutdown S" "res \<noteq> Inr None"
    "res = Inr (Some c) \<Longrightarrow> sv_first_cause S' = Some c"
proof -
  have "t' = t \<and> ((\<exists>e. res = Inl e \<and> S' = S) \<or>
      record_cause cid reason detail code t S = Inr S' \<and> res = Inr (sv_first_cause S'))"
    using assms by (auto simp: report_failure_def split: sum.splits)
  moreover have "sv_poll_interval S' = sv_poll_interval S \<and> sv_shutdown S' = sv_shutdown S"
    if "record_cause cid reason detail code t S = Inr S'"
    using that by (auto simp: record_cause_def checked_def add_cause_def Let_def split: option.splits)
  ultimately show "t' = t" "sv_components S' = sv_components S" "prefix (causes S) (causes S')"
    "sv_poll_interval S' = sv_poll_interval S" "sv_shutdown S' = sv_shutdown S" "res \<noteq> Inr None"
    "res = Inr (Some c) \<Longrightarrow> sv_first_cause S' = Some c"
    using record_cause_Inr [of cid reason detail code t S S'] by auto
qed

lemma poll_list_facts:
  assumes "poll_list E cs t S = (res, t', S')"
  shows "t \<le> t' \<and> map mc_id (sv_components S') = map mc_id (sv_components S) \<and>
    prefix (causes S) (causes S') \<and> sv_poll_interval S' = sv_poll_interval S \<and> sv_shutdown S' = sv_shutdown S \<and>
    (\<forall>c. res = Inr (Some c) \<longrightarrow> sv_first_cause S' = Some c)"
  using assms
proof (induction cs arbitrary: t S)
  case (Cons c cs)
  obtain c' t1 code where obs: "observe (E (mc_id c)) t c = (c', t1, code)" by (metis prod_cases3)
  note O = observe_facts [OF obs]
  have put: "sv_poll_interval (put_component c' S) = sv_poll_interval S" "sv_shutdown (put_component c' S) = sv_shutdown S"
    by (simp_all add: put_component_def)
  consider (report) reason detail where "report_failure (mc_id c) reason detail code t1 (put_component c' S) = (res, t', S')"
    | (go) "poll_list E cs t1 (put_component c' S) = (res, t', S')"
    using Cons.prems by (auto simp: obs Let_def split: if_splits)
  then show ?case
  proof cases
    case report
    then show ?thesis using report_facts [OF report] O(2) put by simp
  next
    case go
    from Cons.IH [OF go] O(2) put show ?thesis by auto
  qed
qed auto

lemma poll_list_detects:
  assumes "poll_list E cs t S = (Inr None, t', S')" "c \<in> set cs" "mc_started c" "mc_long_lived c" "\<not> mc_stopping c"
  shows "poll_child (E (mc_id c)) t = None"
  using assms
proof (induction cs arbitrary: t S)
  case (Cons d cs)
  obtain d' t1 code where obs: "observe (E (mc_id d)) t d = (d', t1, code)" by (metis prod_cases3)
  note O = observe_facts [OF obs]
  have go: "poll_list E cs t1 (put_component d' S) = (Inr None, t', S') \<and> mc_state d' \<noteq> FAILED"
    using Cons.prems(1) report_facts(6) by (fastforce simp: obs Let_def split: if_splits)
  show ?case
  proof (cases "c = d")
    case True
    then show ?thesis using O(4) go Cons.prems(3-5) by blast
  next
    case False
    then have "poll_child (E (mc_id c)) t1 = None" using Cons.IH go Cons.prems(2-5) by auto
    with O(2) show ?thesis by (auto simp: poll_child_def split: option.splits if_splits)
  qed
qed simp

lemma deliver_facts:
  "prefix (causes S) (causes (deliver_signal arrival t S)) \<and>
   sv_poll_interval (deliver_signal arrival t S) = sv_poll_interval S \<and>
   map mc_id (sv_components (deliver_signal arrival t S)) = map mc_id (sv_components S)"
proof -
  have "prefix (causes Q) (causes (snd (request_shutdown reason u Q))) \<and>
      sv_poll_interval (snd (request_shutdown reason u Q)) = sv_poll_interval Q \<and>
      sv_components (snd (request_shutdown reason u Q)) = sv_components Q" for reason u Q
    using causes_add(1) [of "Q\<lparr>sv_shutdown := True\<rparr>"]
    by (auto simp: request_shutdown_def record_cause_def checked_def add_cause_def Let_def causes_def split: option.splits)
  then show ?thesis by (auto simp: deliver_signal_def split: option.splits)
qed

lemma supervise_loop_causes:
  "supervise_loop n E arrival until deadline t S = Some (res, t', S') \<Longrightarrow> prefix (causes S) (causes S')"
proof (induction n arbitrary: t S)
  case (Suc n)
  let ?S = "deliver_signal arrival t S"
  have d: "prefix (causes S) (causes ?S)" using deliver_facts by blast
  obtain r1 t1 S1 where poll: "poll_once E t ?S = (r1, t1, S1)" by (metis prod_cases3)
  have p: "prefix (causes ?S) (causes S1)" using poll_list_facts poll unfolding poll_once_def by blast
  have "prefix (causes S1) (causes S') \<or> prefix (causes ?S) (causes S') "
    using Suc.prems Suc.IH poll report_facts(3)
    by (fastforce simp: Let_def split: if_splits sum.splits option.splits)
  then show ?case using d p prefix_order.trans by blast
qed simp

lemma supervise_loop_step:
  assumes "poll_once E t (deliver_signal arrival t S) = (r1, t1, S1)"
    and "\<not> d < t1 \<Longrightarrow> \<exists>r. supervise_loop n E arrival until (Some d) (t1 + sv_poll_interval S1) S1 = Some r"
  shows "\<exists>r. supervise_loop (Suc n) E arrival until (Some d) t S = Some r"
  using assms by (auto simp: Let_def split: sum.splits option.splits) (metis prod_cases3)+

lemma supervise_loop_terminates:
  assumes "0 < sv_poll_interval S" "nat (\<lceil>(d - t) / sv_poll_interval S\<rceil> + 1) \<le> n"
  shows "\<exists>r. supervise_loop (Suc n) E arrival until (Some d) t S = Some r"
  using assms
proof (induction n arbitrary: t S)
  case (0 t S)
  obtain r1 t1 S1 where poll: "poll_once E t (deliver_signal arrival t S) = (r1, t1, S1)" by (metis prod_cases3)
  have "t \<le> t1" using poll_list_facts poll unfolding poll_once_def by blast
  moreover have "d < t"
  proof (rule ccontr)
    assume "\<not> d < t"
    then have "0 \<le> \<lceil>(d - t) / sv_poll_interval S\<rceil>" using 0(1) by (simp add: zero_le_ceiling field_simps)
    with 0(2) show False by simp
  qed
  ultimately show ?case by (intro supervise_loop_step [OF poll]) simp
next
  case (Suc n t S)
  let ?S = "deliver_signal arrival t S" and ?p = "sv_poll_interval S"
  obtain r1 t1 S1 where poll: "poll_once E t ?S = (r1, t1, S1)" by (metis prod_cases3)
  have P: "t \<le> t1" "sv_poll_interval S1 = ?p"
    using poll_list_facts [of E _ t ?S r1 t1 S1] poll deliver_facts [of S arrival t] by (auto simp: poll_once_def)
  show ?case
  proof (rule supervise_loop_step [OF poll])
    assume "\<not> d < t1"
    have "(d - (t1 + ?p)) / ?p \<le> (d - t) / ?p - 1"
      using P(1) Suc.prems(1) by (simp add: field_simps)
    then have "\<lceil>(d - (t1 + ?p)) / ?p\<rceil> \<le> \<lceil>(d - t) / ?p\<rceil> - 1" by (metis ceiling_diff_one ceiling_mono)
    moreover have "0 \<le> \<lceil>(d - t) / ?p\<rceil>" using \<open>\<not> d < t1\<close> P(1) Suc.prems(1) by (simp add: zero_le_ceiling field_simps)
    ultimately have "nat (\<lceil>(d - (t1 + ?p)) / sv_poll_interval S1\<rceil> + 1) \<le> n" using Suc.prems(2) P(2) by simp
    then show "\<exists>r. supervise_loop (Suc n) E arrival until (Some d) (t1 + sv_poll_interval S1) S1 = Some r"
      using Suc.IH [of S1 "t1 + ?p"] Suc.prems(1) P(2) by simp
  qed
qed

section \<open>Steps of a supervisor\<close>

inductive supervisor_step :: "(string \<Rightarrow> child_env) \<Rightarrow> supervisor \<Rightarrow> supervisor \<Rightarrow> bool" for E where
  register: "register_component c S = Inr S' \<Longrightarrow> supervisor_step E S S'"
| request: "request_shutdown reason t S = (err, S') \<Longrightarrow> supervisor_step E S S'"
| start: "start_all E rollback_s t S = (err, t', S') \<Longrightarrow> supervisor_step E S S'"
| poll: "poll_once E t S = (res, t', S') \<Longrightarrow> supervisor_step E S S'"
| supervise: "supervise fuel E arrival until timeout t S = Some (res, t', S') \<Longrightarrow> supervisor_step E S S'"
| shutdown: "shutdown E drain_s deadline t S = (res, t', S') \<Longrightarrow> supervisor_step E S S'"

lemma stop_each_causes:
  "stop_each E reason render D cs t S clean = (err, t', S', clean') \<Longrightarrow> prefix (causes S) (causes S')"
proof (induction cs arbitrary: t S clean)
  case (Cons c cs)
  define r where "r = stop_component (E (mc_id c)) 30 (Some D) t c"
  define S1 where "S1 = put_component (sr_component r) S"
  have S1: "causes S1 = causes S" by (simp add: S1_def)
  show ?case
  proof (cases "sr_error r")
    case None
    then have "prefix (causes S1) (causes S')"
      using Cons.prems Cons.IH by (simp add: Let_def r_def [symmetric] S1_def [symmetric])
    then show ?thesis by (simp add: S1)
  next
    case (Some e)
    show ?thesis
    proof (cases "record_cause (mc_id c) reason (render e) None (sr_time r) S1")
      case (Inl x)
      then show ?thesis using Cons.prems Some S1 by (simp add: Let_def r_def [symmetric] S1_def [symmetric])
    next
      case (Inr S2)
      then have "prefix (causes S2) (causes S')"
        using Cons.prems Cons.IH Some by (simp add: Let_def r_def [symmetric] S1_def [symmetric])
      then show ?thesis using record_cause_Inr(2) [OF Inr] S1 prefix_order.trans by metis
    qed
  qed
qed simp

lemma start_loop_causes:
  "start_loop E rb cs t S started = (res, t', S', done) \<Longrightarrow> causes S' = causes S"
  by (induction cs arbitrary: t S started) (auto simp: Let_def split: option.splits)

lemma start_all_causes:
  assumes "start_all E rb t S = (err, t', S')"
  shows "prefix (causes S) (causes S')"
proof -
  obtain res t1 S1 started where loop: "start_loop E rb (sv_components S) t S [] = (res, t1, S1, started)"
    by (metis prod_cases4)
  note c1 = start_loop_causes [OF loop]
  show ?thesis
  proof (cases "rb < 0 \<or> res = None")
    case False
    then obtain e D where res: "res = Some (e, D)" by auto
    let ?rec = "record_cause (failed_component S1) ''START_FAILED'' (error_text e) None t1 S1"
    show ?thesis
    proof (cases ?rec)
      case (Inr S2)
      obtain x t3 S3 clean where se: "stop_each E ''START_ROLLBACK_FAILED'' typed_text D (rev started) t1 S2 True = (x, t3, S3, clean)"
        by (metis prod_cases4)
      then have "S' = S3" using assms False loop res Inr by (cases x) (auto simp: start_all_def)
      then show ?thesis
        using record_cause_Inr(2) [OF Inr] stop_each_causes [OF se] c1 prefix_order.trans by metis
    qed (use assms False loop res c1 in \<open>simp add: start_all_def\<close>)
  qed (use assms loop c1 in \<open>auto simp: start_all_def split: if_splits\<close>)
qed

lemma causes_shutdown_flag [simp]: "causes (S\<lparr>sv_shutdown := b\<rparr>) = causes S"
  by (auto simp: causes_def split: option.splits)

lemma request_shutdown_causes: "request_shutdown reason t S = (err, S') \<Longrightarrow> prefix (causes S) (causes S')"
  using record_cause_Inr(2) [of "''supervisor''" "''SHUTDOWN_REQUESTED''" reason None t "S\<lparr>sv_shutdown := True\<rparr>"]
  by (auto simp: request_shutdown_def Let_def split: sum.splits)

lemma shutdown_causes: "shutdown E drain_s deadline t S = (res, t', S') \<Longrightarrow> prefix (causes S) (causes S')"
  by (auto simp: shutdown_def split: prod.splits option.splits dest: stop_each_causes)

lemma step_causes: "supervisor_step E S S' \<Longrightarrow> prefix (causes S) (causes S')"
proof (induction rule: supervisor_step.induct)
  case (register c S S')
  then show ?case by (auto simp: register_component_def checked_def causes_def split: option.splits)
next
  case (poll t S res t' S')
  then show ?case using poll_list_facts unfolding poll_once_def by blast
next
  case (supervise fuel arrival until timeout t S res t' S')
  then show ?case by (auto simp: supervise_def split: if_splits option.splits dest: supervise_loop_causes)
qed (auto intro: request_shutdown_causes start_all_causes shutdown_causes)

section \<open>Properties\<close>

text \<open>
  (C36) The first cause wins: the log of causes of a supervisor only grows at its end, whatever is
  registered, started, polled, supervised and shut down, so the first cause that was recorded is the
  one that decides the exit code for ever.
\<close>

theorem first_cause_survives:
  assumes "(supervisor_step E)\<^sup>*\<^sup>* S S'" and "sv_first_cause S = Some c"
  shows "sv_first_cause S' = Some c \<and> prefix (causes S) (causes S') \<and> exit_code S' = exit_code S"
proof -
  have "prefix (causes S) (causes S')"
    using assms(1) by (induction rule: rtranclp_induct) (auto dest: step_causes intro: prefix_order.trans)
  then show ?thesis using causes_first assms(2) by (auto simp: exit_code_def)
qed

text \<open>
  (C13) Startup is a transaction, on the condition that whatever the spawn or a callback raises carries a non-empty text (an
  exception with an empty text makes \<^verbatim>\<open>record_cause\<close> itself raise, and the rollback is skipped). For components with
  distinct names that were never started, a startup without error leaves every component running; a
  startup with an error leaves none running or starting: each is as it was, stopped, or failed with a
  rollback failure on record, and the failure of the startup is on record too.
\<close>

theorem start_all_transaction:
  assumes "start_all E rollback_s t S = (err, t', S')" and "0 \<le> t" and "0 \<le> rollback_s"
    and "distinct (map mc_id (sv_components S))"
    and "\<forall>c \<in> set (sv_components S). mc_id c \<noteq> [] \<and> mc_state c = NEW \<and> texts_ok (E (mc_id c))"
  shows "map mc_id (sv_components S') = map mc_id (sv_components S) \<and>
    (err = None \<longrightarrow> (\<forall>c \<in> set (sv_components S'). mc_state c = RUNNING)) \<and>
    (err \<noteq> None \<longrightarrow> (\<exists>q \<in> set (causes S'). fc_reason q = ''START_FAILED'') \<and>
       (\<forall>c \<in> set (sv_components S'). mc_state c = NEW \<or> cleaned ''START_ROLLBACK_FAILED'' S' c))"
proof -
  obtain res t1 S1 started where loop: "start_loop E rollback_s (sv_components S) t S [] = (res, t1, S1, started)"
    by (metis prod_cases4)
  obtain rest where L: "t \<le> t1" "map mc_id (sv_components S1) = map mc_id (sv_components S)"
      "map mc_id (sv_components S) = map mc_id started @ rest"
      "\<forall>x \<in> set (sv_components S1). if mc_id x \<in> set (map mc_id started) then x \<in> set started else x \<in> set (sv_components S)"
      "res = None \<longrightarrow> rest = [] \<and> (\<forall>x \<in> set started. mc_state x = RUNNING)"
      "\<forall>e D. res = Some (e, D) \<longrightarrow> error_text e \<noteq> []"
    using start_loop_facts [OF loop assms(4)] assms(5) by auto
  have ids: "x \<in> set (sv_components S1) \<Longrightarrow> mc_id x \<in> set (map mc_id (sv_components S))" for x
    unfolding L(2) [symmetric] by simp
  show ?thesis
  proof (cases res)
    case None
    then have "err = None" "S' = S1" using assms(1,3) loop by (auto simp: start_all_def)
    moreover have "mc_state x = RUNNING" if "x \<in> set (sv_components S1)" for x
      using ids [OF that] L(3,4,5) None that by auto
    ultimately show ?thesis using L(2) by simp
  next
    case (Some p)
    then obtain e D where res: "res = Some (e, D)" by (cases p) simp
    have "\<forall>x \<in> set (sv_components S1). mc_id x \<noteq> []" using ids assms(5) by fastforce
    then have "failed_component S1 \<noteq> []"
      by (auto simp: failed_component_def find_Some_iff split: option.splits)
    then obtain S2 where rec: "record_cause (failed_component S1) ''START_FAILED'' (error_text e) None t1 S1 = Inr S2"
      using record_cause_accepted [of "failed_component S1" "''START_FAILED''" "error_text e" t1 None S1] L(1,6) res assms(2)
      by auto
    note R = record_cause_Inr [OF rec]
    obtain x t3 S3 clean where se: "stop_each E ''START_ROLLBACK_FAILED'' typed_text D (rev started) t1 S2 True = (x, t3, S3, clean)"
      by (metis prod_cases4)
    have "set (map mc_id started) \<subseteq> set (map mc_id (sv_components S))" unfolding L(3) by simp
    then have "\<forall>c \<in> set started. mc_id c \<noteq> []" using assms(5) by fastforce
    moreover have "distinct (map mc_id started)" using assms(4) unfolding L(3) by simp
    ultimately have names: "\<forall>c \<in> set started. mc_id c \<noteq> []" "distinct (map mc_id started)" .
    have F: "x = None \<and> t1 \<le> t3 \<and> t3 \<le> max t1 D \<and> map mc_id (sv_components S3) = map mc_id (sv_components S2) \<and>
      prefix (causes S2) (causes S3) \<and>
      (\<forall>y \<in> set (sv_components S3). if mc_id y \<in> set (map mc_id (rev started))
         then cleaned ''START_ROLLBACK_FAILED'' S3 y else y \<in> set (sv_components S2)) \<and>
      (clean \<longrightarrow> True) \<and> (\<not> clean \<longrightarrow> True \<longrightarrow> causes S3 \<noteq> [])"
      by (rule stop_each_facts [OF se]) (use names L(1) assms(2) in \<open>auto simp: typed_text_def rev_map [symmetric]\<close>)
    have out: "err \<noteq> None" "S' = S3" using assms(1,3) loop res rec se F by (auto simp: start_all_def)
    have "mc_state c = NEW \<or> cleaned ''START_ROLLBACK_FAILED'' S' c" if "c \<in> set (sv_components S')" for c
      using F that R(1) L(4) assms(5) by (auto simp: out split: if_splits)
    moreover have "\<exists>q \<in> set (causes S'). fc_reason q = ''START_FAILED''"
      using R(3) F by (auto simp: out dest: set_mono_prefix)
    ultimately show ?thesis using F R(1) L(2) out by auto
  qed
qed

text \<open>
  (C35) Stopping one component is bounded and honest: it returns by the deadline; if it reports no
  error the component is stopped and its process group was seen empty; if it reports an error of the
  cleanup the component is marked failed; and the group is not killed before half of the time that was
  left has been given to the termination signal.
\<close>

theorem stop_bounded_and_honest:
  "t \<le> sr_time (stop_component E deadline_s deadline t c) \<and>
   sr_time (stop_component E deadline_s deadline t c) \<le> max t (stop_deadline deadline_s deadline t) \<and>
   (sr_error (stop_component E deadline_s deadline t c) = None \<longrightarrow>
      mc_state (sr_component (stop_component E deadline_s deadline t c)) = STOPPED \<and>
      (mc_started c \<longrightarrow> (\<exists>x. t \<le> x \<and> x \<le> sr_time (stop_component E deadline_s deadline t c) \<and> \<not> ce_group E x))) \<and>
   mc_state (sr_component (stop_component E deadline_s deadline t c)) \<in> {STOPPED, FAILED} \<and>
   (\<forall>x. KillGroup x \<in> set (sr_signals (stop_component E deadline_s deadline t c)) \<longrightarrow>
      (t + stop_deadline deadline_s deadline t) / 2 \<le> x)"
  using stop_facts [OF refl refl, where E = E and deadline_s = deadline_s and deadline = deadline and t = t and c = c]
  by auto

text \<open>
  (C14) Shutdown visits everything under one deadline, on the condition that no stop callback raises an exception with an empty
  text (then \<^verbatim>\<open>record_cause\<close> itself raises and the components still to be stopped are not visited). For components
  with distinct names shutdown returns by the one absolute deadline however many components
  there are; afterwards every component is stopped, or failed with a cleanup error on record; and if
  it does not report success a cause is on record.
\<close>

theorem shutdown_complete:
  assumes "shutdown E drain_s deadline t S = (res, t', S')" and "0 \<le> t"
    and "distinct (map mc_id (sv_components S))"
    and "\<forall>c \<in> set (sv_components S). mc_id c \<noteq> [] \<and> ce_on_stopped (E (mc_id c)) \<noteq> Some []"
  shows "\<exists>ok. res = Inr ok \<and> t \<le> t' \<and> t' \<le> max t (stop_deadline drain_s deadline t) \<and>
    map mc_id (sv_components S') = map mc_id (sv_components S) \<and>
    (\<forall>c \<in> set (sv_components S'). cleaned ''CLEANUP_ERROR'' S' c) \<and>
    (ok \<longrightarrow> (\<forall>c \<in> set (sv_components S'). mc_state c = STOPPED)) \<and> (\<not> ok \<longrightarrow> sv_first_cause S' \<noteq> None)"
proof -
  let ?D = "stop_deadline drain_s deadline t"
  obtain x t1 S1 clean where se: "stop_each E ''CLEANUP_ERROR'' error_text ?D (rev (sv_components S)) t S True = (x, t1, S1, clean)"
    by (metis prod_cases4)
  have texts: "error_text e \<noteq> []"
    if "c \<in> set (rev (sv_components S))" "sr_error (stop_component (E (mc_id c)) 30 (Some ?D) u c) = Some e" for c u e
    using stop_facts(7) [OF refl refl that(2)] that(1) assms(4) by auto
  have F: "x = None \<and> t \<le> t1 \<and> t1 \<le> max t ?D \<and> map mc_id (sv_components S1) = map mc_id (sv_components S) \<and>
      prefix (causes S) (causes S1) \<and>
      (\<forall>y \<in> set (sv_components S1). if mc_id y \<in> set (map mc_id (rev (sv_components S)))
         then cleaned ''CLEANUP_ERROR'' S1 y else y \<in> set (sv_components S)) \<and>
      (clean \<longrightarrow> True) \<and> (\<not> clean \<longrightarrow> True \<longrightarrow> causes S1 \<noteq> [])"
    by (rule stop_each_facts [OF se]) (use texts assms(2-4) in \<open>auto simp: rev_map [symmetric]\<close>)
  have out: "res = Inr (clean \<and> list_all (\<lambda>c. mc_state c = STOPPED) (sv_components S1))" "t' = t1" "S' = S1"
    using assms(1) se F by (auto simp: shutdown_def)
  have all: "cleaned ''CLEANUP_ERROR'' S1 y" if y: "y \<in> set (sv_components S1)" for y
  proof -
    have "mc_id y \<in> set (map mc_id (sv_components S1))" using y by simp
    also have "\<dots> = set (map mc_id (rev (sv_components S)))" using F by (metis rev_map set_rev)
    finally show ?thesis using F y by (metis (no_types, lifting))
  qed
  have cause: "causes S1 \<noteq> []" if "\<not> (clean \<and> list_all (\<lambda>c. mc_state c = STOPPED) (sv_components S1))"
  proof (cases clean)
    case True
    with that obtain y where "y \<in> set (sv_components S1)" "mc_state y \<noteq> STOPPED" by (auto simp: list_all_iff)
    then show ?thesis using all [of y] by (auto simp: cleaned_def)
  qed (use F in simp)
  have "causes S1 \<noteq> [] \<Longrightarrow> sv_first_cause S1 \<noteq> None" by (auto simp: causes_def split: option.splits)
  with out F all cause show ?thesis by (auto simp: list_all_iff)
qed

text \<open>
  An unexpected exit is fatal whatever the exit code: when the child of a started, long-lived
  component that nobody is stopping has exited by the time of a poll, the poll reports a cause (or
  raises), and that cause is the supervisor's first one.
\<close>

lemma unexpected_exit_fatal:
  assumes "poll_once E t S = (res, t', S')" and "c \<in> set (sv_components S)"
    and "mc_started c" and "mc_long_lived c" and "\<not> mc_stopping c" and "poll_child (E (mc_id c)) t = Some code"
  shows "(\<exists>e. res = Inl e) \<or> (\<exists>q. res = Inr (Some q) \<and> sv_first_cause S' = Some q \<and> exit_code S' \<noteq> 0)"
proof -
  have "res \<noteq> Inr None"
    using poll_list_detects [of E "sv_components S" t S t' S' c] assms by (auto simp: poll_once_def)
  then consider e where "res = Inl e" | q where "res = Inr (Some q)" by (metis not_None_eq sum.exhaust)
  then show ?thesis
  proof cases
    case 2
    then have "sv_first_cause S' = Some q"
      using poll_list_facts [of E _ t S res t' S'] assms(1) by (auto simp: poll_once_def)
    with 2 show ?thesis by (auto simp: exit_code_def split: option.splits)
  qed simp
qed

text \<open>
  (C37) Supervision with a timeout ends: with a positive timeout and poll interval the loop returns
  after at most the number of polls that fit into the timeout and two more, whatever the children do.
\<close>

theorem supervision_terminates:
  assumes "0 < sv_poll_interval S" and "0 < timeout"
  shows "\<exists>r. supervise (nat \<lceil>timeout / sv_poll_interval S\<rceil> + 2) E arrival until (Some timeout) t S = Some r"
proof -
  have "nat (\<lceil>(t + timeout - t) / sv_poll_interval S\<rceil> + 1) \<le> nat \<lceil>timeout / sv_poll_interval S\<rceil> + 1" by simp
  from supervise_loop_terminates [OF assms(1) this, of E arrival until] assms(2) show ?thesis
    by (simp add: supervise_def)
qed

text \<open>The exit code is zero exactly if nothing was recorded.\<close>

lemma exit_code_zero:
  "exit_code S = 0 \<longleftrightarrow> sv_first_cause S = None"
  by (auto simp: exit_code_def split: option.splits)

text \<open>
  The captured output is the exact tail: after any chunks, up to the end of the stream, the
  retained bytes are the last \<open>m\<close> bytes of the stream or all of it, and the counts of a snapshot are
  those of the stream.
\<close>

lemma capture_tail_exact:
  assumes "new_capture m = Inr c" and "bytes = concat (takeWhile (\<lambda>x. x \<noteq> []) chunks)"
  shows "capture_snapshot (drain chunks c) =
    \<lparr>cv_tail = drop (length bytes - nat m) bytes, cv_retained = min (length bytes) (nat m),
     cv_total = length bytes, cv_dropped = length bytes - nat m, cv_truncated = (nat m < length bytes)\<rparr>"
proof -
  have c: "oc_tail c = []" "oc_total_bytes c = 0" "oc_max_bytes c = nat m" "0 < nat m"
    using assms(1) by (auto simp: new_capture_def split: if_splits)
  then show ?thesis
    using drain_tail [of c "[]" chunks] assms(2) by (auto simp: capture_snapshot_def)
qed

section \<open>A supervisor with two children\<close>

definition sample_child :: "string \<Rightarrow> component" where
  "sample_child name =
     \<lparr>mc_id = name, mc_argv = [''run''], mc_owner_scope = ''GLOBAL'', mc_owner_rank = None, mc_long_lived = True,
      mc_env = None, mc_cwd = None, mc_pass_fds = [], mc_has_stdout = False, mc_has_capture = False,
      mc_has_result_check = False, mc_started = False, mc_state = NEW, mc_stopping = False\<rparr>"

text \<open>A child that lives until \<open>x\<close>, with an empty process group from then on.\<close>

definition sample_env :: "real \<Rightarrow> string option \<Rightarrow> child_env" where
  "sample_env x started =
     \<lparr>ce_on_starting = None, ce_spawn_error = None, ce_on_started = started, ce_exit = Some (x, 0),
      ce_group = (\<lambda>t. t < x), ce_drain_end = None, ce_drain_error = None, ce_on_stopped = None,
      ce_exit_detail = None, ce_result = (\<lambda>t. (True, []))\<rparr>"

definition two_children :: supervisor where
  "two_children =
     \<lparr>sv_components = [sample_child ''a'', sample_child ''b''], sv_poll_interval = 2, sv_first_cause = None,
      sv_secondary = [], sv_shutdown = False\<rparr>"

text \<open>Child \<open>b\<close> fails to initialise after it was spawned; both obey the termination signal.\<close>

definition failing_start :: "string option \<Rightarrow> supervisor_error option \<times> real \<times> supervisor" where
  "failing_start text =
     start_all (\<lambda>i. if i = ''b'' then sample_env 1 text else sample_env (1 / 2) None) 10 0 two_children"

lemma failing_start_facts:
  "fst (failing_start (Some ''boom'')) \<noteq> None"
  "map mc_state (sv_components (snd (snd (failing_start (Some ''boom''))))) = [STOPPED, STOPPED]"
  by code_simp+

theorem start_all_transaction_witness:
  "(\<exists>q \<in> set (causes (snd (snd (failing_start (Some ''boom''))))). fc_reason q = ''START_FAILED'') \<and>
   list_all (\<lambda>c. mc_state c = NEW \<or> cleaned ''START_ROLLBACK_FAILED'' (snd (snd (failing_start (Some ''boom'')))) c)
     (sv_components (snd (snd (failing_start (Some ''boom'')))))"
proof -
  let ?E = "\<lambda>i. if i = ''b'' then sample_env 1 (Some ''boom'') else sample_env (1 / 2) None"
  obtain err t' S' where run: "failing_start (Some ''boom'') = (err, t', S')" by (metis prod_cases3)
  have names: "distinct (map mc_id (sv_components two_children))" by code_simp
  have fresh: "\<forall>c \<in> set (sv_components two_children). mc_id c \<noteq> [] \<and> mc_state c = NEW \<and> texts_ok (?E (mc_id c))"
    by (simp add: two_children_def sample_child_def sample_env_def texts_ok_def)
  have "0 \<le> (10 :: real)" by simp
  note T = start_all_transaction [OF run [unfolded failing_start_def] order_refl this names fresh]
  have "err \<noteq> None" using failing_start_facts(1) unfolding run by simp
  with T show ?thesis unfolding run fst_conv snd_conv list_all_iff by blast
qed

theorem first_cause_survives_witness:
  "sv_first_cause (snd (request_shutdown ''late'' 5
      (two_children\<lparr>sv_first_cause := Some \<lparr>fc_component = ''a'', fc_reason = ''UNEXPECTED_EXIT'', fc_detail = ''x'', fc_exit = Some (- 9), fc_at = 1\<rparr>\<rparr>))) =
     Some \<lparr>fc_component = ''a'', fc_reason = ''UNEXPECTED_EXIT'', fc_detail = ''x'', fc_exit = Some (- 9), fc_at = 1\<rparr> \<and>
   exit_code (snd (request_shutdown ''late'' 5
      (two_children\<lparr>sv_first_cause := Some \<lparr>fc_component = ''a'', fc_reason = ''UNEXPECTED_EXIT'', fc_detail = ''x'', fc_exit = Some (- 9), fc_at = 1\<rparr>\<rparr>))) = 137"
proof -
  let ?c = "\<lparr>fc_component = ''a'', fc_reason = ''UNEXPECTED_EXIT'', fc_detail = ''x'', fc_exit = Some (- 9), fc_at = 1\<rparr>"
  let ?S = "two_children\<lparr>sv_first_cause := Some ?c\<rparr>"
  obtain err S' where req: "request_shutdown ''late'' 5 ?S = (err, S')" by fastforce
  have "(supervisor_step (\<lambda>i. sample_env 1 None))\<^sup>*\<^sup>* ?S S'" using req by (blast intro: supervisor_step.request)
  from first_cause_survives [OF this, of ?c] req show ?thesis by (simp add: exit_code_def)
qed

theorem shutdown_complete_witness:
  "\<exists>ok. fst (shutdown (\<lambda>i. sample_env 3 None) 20 None 0 two_children) = Inr ok \<and>
     fst (snd (shutdown (\<lambda>i. sample_env 3 None) 20 None 0 two_children)) \<le> 20"
proof -
  obtain res t' S' where run: "shutdown (\<lambda>i. sample_env 3 None) 20 None 0 two_children = (res, t', S')"
    by (metis prod_cases3)
  have "distinct (map mc_id (sv_components two_children))" by code_simp
  moreover have "\<forall>c \<in> set (sv_components two_children). mc_id c \<noteq> [] \<and> ce_on_stopped (sample_env 3 None) \<noteq> Some []"
    by (simp add: two_children_def sample_child_def sample_env_def)
  ultimately show ?thesis
    using shutdown_complete [OF run] run by (auto simp: stop_deadline_def)
qed

definition running_child :: component where
  "running_child = (sample_child ''a'')\<lparr>mc_started := True, mc_state := RUNNING\<rparr>"

theorem stop_bounded_and_honest_witness:
  "sr_error (stop_component (sample_env 3 None) 30 (Some 10) 0 running_child) = None \<and>
   sr_time (stop_component (sample_env 3 None) 30 (Some 10) 0 running_child) \<le> 10 \<and>
   (\<exists>x. x \<le> 10 \<and> \<not> ce_group (sample_env 3 None) x)"
proof -
  have "sr_error (stop_component (sample_env 3 None) 30 (Some 10) 0 running_child) = None" "mc_started running_child"
    by code_simp+
  then show ?thesis
    using stop_bounded_and_honest [of 0 "sample_env 3 None" 30 "Some 10" running_child]
    by (auto simp: stop_deadline_def intro: order_trans)
qed

theorem supervision_terminates_witness:
  "\<exists>r. supervise 7 (\<lambda>i. sample_env 100 None) None None (Some 10) 0 (two_children\<lparr>sv_components := [running_child]\<rparr>) = Some r"
proof -
  have "nat \<lceil>(10 :: real) / sv_poll_interval (two_children\<lparr>sv_components := [running_child]\<rparr>)\<rceil> + 2 = 7"
    by (simp add: two_children_def)
  moreover have "0 < sv_poll_interval (two_children\<lparr>sv_components := [running_child]\<rparr>)" by (simp add: two_children_def)
  from supervision_terminates [OF this, of 10 "\<lambda>i. sample_env 100 None" None None 0]
  have "\<exists>r. supervise (nat \<lceil>(10 :: real) / sv_poll_interval (two_children\<lparr>sv_components := [running_child]\<rparr>)\<rceil> + 2)
      (\<lambda>i. sample_env 100 None) None None (Some 10) 0 (two_children\<lparr>sv_components := [running_child]\<rparr>) = Some r" by simp
  ultimately show ?thesis by simp
qed

text \<open>A component that starts without an error takes no time and is running afterwards.\<close>

lemma started_component:
  assumes "st_error (start_component E rollback t c) = None"
  shows "st_time (start_component E rollback t c) = t"
    and "st_component (start_component E rollback t c) = c\<lparr>mc_state := RUNNING, mc_started := True\<rparr>"
proof -
  have "first_failure (start_checks rollback c) = None" "\<not> (mc_has_capture c \<and> mc_has_stdout c)" "ce_on_starting E = None"
    "ce_spawn_error E = None" "ce_on_started E = None"
    using assms unfolding start_component_def Let_def by (simp_all split: option.splits if_splits spawn_failure.splits)
  then have "start_component E rollback t c =
      \<lparr>st_component = c\<lparr>mc_state := STARTING, mc_started := True\<rparr>\<lparr>mc_state := RUNNING\<rparr>, st_time = t, st_error = None\<rparr>"
    by (simp add: start_component_def)
  then show "st_time (start_component E rollback t c) = t"
    "st_component (start_component E rollback t c) = c\<lparr>mc_state := RUNNING, mc_started := True\<rparr>" by simp_all
qed

lemma put_component_at:
  assumes "sv_components S = pre @ c # post" "distinct (map mc_id (sv_components S))" "mc_id c' = mc_id c"
  shows "put_component c' S = S\<lparr>sv_components := pre @ c' # post\<rparr>"
proof -
  have "map (\<lambda>x. if mc_id x = mc_id c then c' else x) xs = xs" if "mc_id c \<notin> set (map mc_id xs)" for xs
    using that by (induction xs) auto
  then show ?thesis using assms by (simp add: put_component_def)
qed

lemma start_loop_prefix:
  assumes "sv_components S = pre @ bs @ cs" "distinct (map mc_id (sv_components S))"
    and "\<forall>b \<in> set bs. st_error (start_component (E (mc_id b)) (Some (t + rb)) t b) = None"
  shows "start_loop E rb (bs @ cs) t S started =
    start_loop E rb cs t (S\<lparr>sv_components := pre @ map (\<lambda>b. b\<lparr>mc_state := RUNNING, mc_started := True\<rparr>) bs @ cs\<rparr>)
      (started @ map (\<lambda>b. b\<lparr>mc_state := RUNNING, mc_started := True\<rparr>) bs)"
  using assms
proof (induction bs arbitrary: pre S started)
  case (Cons b bs)
  let ?b = "b\<lparr>mc_state := RUNNING, mc_started := True\<rparr>"
  let ?S = "S\<lparr>sv_components := (pre @ [?b]) @ bs @ cs\<rparr>"
  have b: "st_error (start_component (E (mc_id b)) (Some (t + rb)) t b) = None" using Cons.prems(3) by simp
  have "put_component ?b S = ?S" using put_component_at [of S pre b "bs @ cs" ?b] Cons.prems(1,2) by simp
  then have "start_loop E rb ((b # bs) @ cs) t S started = start_loop E rb (bs @ cs) t ?S (started @ [?b])"
    using b by (simp add: started_component [OF b] Let_def)
  also have "\<dots> = start_loop E rb cs t (?S\<lparr>sv_components := (pre @ [?b]) @ map (\<lambda>b. b\<lparr>mc_state := RUNNING, mc_started := True\<rparr>) bs @ cs\<rparr>)
      ((started @ [?b]) @ map (\<lambda>b. b\<lparr>mc_state := RUNNING, mc_started := True\<rparr>) bs)"
    by (rule Cons.IH) (use Cons.prems in auto)
  finally show ?case by simp
next
  case Nil
  have "S\<lparr>sv_components := pre @ cs\<rparr> = S" using Nil(1) by (cases S) simp
  then show ?case by simp
qed

text \<open>
  (C38) An exception without a text defeats the rollback. Whenever the components before \<open>c\<close> start and the start of \<open>c\<close>
  raises an exception whose text is empty, \<^verbatim>\<open>start_all\<close> fails with the \<^verbatim>\<open>ValueError\<close> of \<^verbatim>\<open>record_cause\<close> and
  without any rollback: the components before \<open>c\<close> are all left running, \<open>c\<close> as its own start left it, those after it untouched, and no
  cause is recorded.
\<close>

theorem empty_message_skips_rollback:
  assumes "sv_components S = before @ c # after" "distinct (map mc_id (sv_components S))" "0 \<le> rollback_s"
    and "\<forall>b \<in> set before. st_error (start_component (E (mc_id b)) (Some (t + rollback_s)) t b) = None"
    and "st_error (start_component (E (mc_id c)) (Some (t + rollback_s)) t c) = Some e" "error_text e = []"
  shows "start_all E rollback_s t S =
    (Some (ValueError ''failure cause must be non-empty text''),
     st_time (start_component (E (mc_id c)) (Some (t + rollback_s)) t c),
     S\<lparr>sv_components := map (\<lambda>b. b\<lparr>mc_state := RUNNING, mc_started := True\<rparr>) before @
         st_component (start_component (E (mc_id c)) (Some (t + rollback_s)) t c) # after\<rparr>)"
proof -
  let ?run = "start_component (E (mc_id c)) (Some (t + rollback_s)) t c"
  let ?up = "map (\<lambda>b. b\<lparr>mc_state := RUNNING, mc_started := True\<rparr>) before"
  let ?S1 = "S\<lparr>sv_components := ?up @ c # after\<rparr>"
  have names: "map mc_id ?up = map mc_id before" by simp
  have "put_component (st_component ?run) ?S1 = S\<lparr>sv_components := ?up @ st_component ?run # after\<rparr>"
    using put_component_at [of ?S1 ?up c after] start_facts(1) [OF refl] assms(1,2) names by (simp add: comp_def)
  then have "start_loop E rollback_s (sv_components S) t S [] =
      (Some (e, t + rollback_s), st_time ?run, S\<lparr>sv_components := ?up @ st_component ?run # after\<rparr>, ?up @ [st_component ?run])"
    using start_loop_prefix [of S "[]" before "c # after" E t rollback_s "[]"] assms by (simp add: Let_def)
  then show ?thesis using assms(3,6) by (simp add: start_all_def record_cause_def checked_def cause_checks_def)
qed

theorem empty_message_skips_rollback_witness:
  "fst (failing_start (Some [])) = Some (ValueError ''failure cause must be non-empty text'') \<and>
   map mc_state (sv_components (snd (snd (failing_start (Some []))))) = [RUNNING, FAILED]"
proof -
  let ?E = "\<lambda>i. if i = ''b'' then sample_env 1 (Some []) else sample_env (1 / 2) None"
  have a: "st_error (start_component (?E (mc_id (sample_child ''a''))) (Some (0 + 10)) 0 (sample_child ''a'')) = None"
    by code_simp
  have b: "st_error (start_component (?E (mc_id (sample_child ''b''))) (Some (0 + 10)) 0 (sample_child ''b'')) = Some (Raised [])"
    "mc_state (st_component (start_component (?E (mc_id (sample_child ''b''))) (Some (0 + 10)) 0 (sample_child ''b''))) = FAILED"
    by code_simp+
  have two: "sv_components two_children = [sample_child ''a''] @ sample_child ''b'' # []" "distinct (map mc_id (sv_components two_children))"
    by (simp_all add: two_children_def sample_child_def)
  show ?thesis
    using empty_message_skips_rollback [OF two, of 10 ?E 0 "Raised []"] a b unfolding failing_start_def by simp
qed

end
