(* ===== verification/Shards.thy ===== *)
theory Shards
  imports Plan_Binding "HOL-Library.Char_ord" "HOL-Library.List_Lexorder"
begin

text \<open>
  Pipeline-parallel staging: which weights and shard files a pipeline stage loads
  (\<^verbatim>\<open>src/exaserve/shard_prune.py\<close>) and which ranks receive them (\<^verbatim>\<open>src/exaserve/pp_stage.py\<close>).

  The pure parts are modelled as they are written: the layer partition, the stage of a layer, the
  weights of a stage, the validated stage inputs, the shards planned for a stage, the files that go
  into the bundle of a stage, the assignment of nodes to replicas and stages, and the plan that
  \<^verbatim>\<open>stage_pp_sharded\<close> returns for a dry run. Files reach the model as decoded values: the
  configuration and the index are \<open>pyval\<close> arguments, and the verdict of \<^verbatim>\<open>_resolve_model_input\<close> on a
  relative path and the size of a file are functions. Characters are those of \<open>char\<close>, for which
  the decimal digits that \<^verbatim>\<open>\d\<close> and \<^verbatim>\<open>int\<close> accept are the ASCII ones.
\<close>

section \<open>Reading integers\<close>

datatype shard_error =
    NumLayersInvalid
  | PpSizeInvalid
  | PartitionNotIntegers
  | PartitionInconsistent
  | LayerNumberTooLong
  | StageOutOfRange
  | LoadFailed
  | ConfigInvalid
  | NumHiddenLayersInvalid
  | TieInvalid
  | NoIndex
  | ManyIndexes
  | IndexInvalid
  | WeightMapInvalid
  | UnsafeShardPath
  | UnresolvedShard
  | UnresolvedMetadata
  | NodeCount
  | BindingRanks
  | BindingNodes
  | PlannedNodeAbsent
  | PlannedRanksRepeat
  | LocalRootInvalid
  | NoRankZero
  | RecipientsInvalid

text \<open>
  \<^verbatim>\<open>int(s)\<close> of a string: surrounding white space, an optional sign, and digits that may be separated by
  single underscores; more digits than the interpreter's limit of 4300 are refused.
\<close>

definition int_space :: "char \<Rightarrow> bool" where
  "int_space c = ((of_char c :: nat) \<in> {9, 10, 11, 12, 13, 32, 133, 160})"

definition int_strip :: "string \<Rightarrow> string" where
  "int_strip s = rev (dropWhile int_space (rev (dropWhile int_space s)))"

fun read_digits :: "string \<Rightarrow> string option" where
  "read_digits [] = None"
| "read_digits [c] = (if is_digit_char c then Some [c] else None)"
| "read_digits (c # u # us) =
     (if \<not> is_digit_char c then None
      else map_option ((#) c) (read_digits (if u = CHR ''_'' then us else u # us)))"

definition py_int :: "string \<Rightarrow> int option" where
  "py_int s =
     (case int_strip s of
        [] \<Rightarrow> None
      | c # cs \<Rightarrow>
          Option.bind (read_digits (if c = CHR ''+'' \<or> c = CHR ''-'' then cs else c # cs))
            (\<lambda>ds. map_option (if c = CHR ''-'' then uminus else id) (int_of_digits ds)))"

fun read_ints :: "string list \<Rightarrow> int list option" where
  "read_ints [] = Some []"
| "read_ints (x # xs) =
     (case py_int x of None \<Rightarrow> None | Some i \<Rightarrow> map_option ((#) i) (read_ints xs))"

section \<open>The layer partition\<close>

text \<open>
  \<^verbatim>\<open>parts[-i] += 1\<close>. The loop runs for \<^verbatim>\<open>2 <= i <= num_layers % pp_size + 1 <= pp_size\<close>, so the index
  from the end is within the list.
\<close>

definition bump_from_end :: "nat \<Rightarrow> int list \<Rightarrow> int list" where
  "bump_from_end i ps = ps[length ps - i := ps ! (length ps - i) + 1]"

definition even_partition :: "int \<Rightarrow> int \<Rightarrow> int list" where
  "even_partition num_layers pp_size =
     fold bump_from_end [2..<nat (num_layers mod pp_size) + 2]
       (replicate (nat pp_size) (num_layers div pp_size))"

definition pp_partitions :: "int \<Rightarrow> int \<Rightarrow> string option \<Rightarrow> string option \<Rightarrow> shard_error + int list" where
  "pp_partitions num_layers pp_size partition_env environ =
     (if num_layers < 1 then Inl NumLayersInvalid
      else if \<not> (1 \<le> pp_size \<and> pp_size \<le> num_layers) then Inl PpSizeInvalid
      else
        case (case partition_env of None \<Rightarrow> environ | Some s \<Rightarrow> Some s) of
          Some (c # cs) \<Rightarrow>
            (case read_ints (split_on (CHR '','') (c # cs)) of
               None \<Rightarrow> Inl PartitionNotIntegers
             | Some parts \<Rightarrow>
                 if int (length parts) \<noteq> pp_size \<or> sum_list parts \<noteq> num_layers
                      \<or> list_ex (\<lambda>p. p < 1) parts
                 then Inl PartitionInconsistent else Inr parts)
        | _ \<Rightarrow> Inr (even_partition num_layers pp_size))"

text \<open>\<^verbatim>\<open>stage_of_layer\<close>, with the enumeration index and the accumulator of its loop.\<close>

fun stage_loop :: "int \<Rightarrow> nat \<Rightarrow> int \<Rightarrow> int list \<Rightarrow> int" where
  "stage_loop layer s acc [] = int s - 1"
| "stage_loop layer s acc (p # ps) =
     (if layer < acc + p then int s else stage_loop layer (Suc s) (acc + p) ps)"

definition stage_of_layer :: "int \<Rightarrow> int list \<Rightarrow> int" where
  "stage_of_layer layer parts = stage_loop layer 0 0 parts"

section \<open>The weights of a stage\<close>

text \<open>
  \<^verbatim>\<open>_LAYER_RE.search(name)\<close> and its group: the digits after the leftmost \<^verbatim>\<open>.layers.\<close> that is followed by
  at least one digit and a dot. The greedy run of digits is the only one that a dot can follow.
\<close>

definition layer_at :: "string \<Rightarrow> string option" where
  "layer_at s =
     (if \<not> starts_with s ''.layers.'' then None
      else
        let rest = drop (length ''.layers.'') s; ds = takeWhile is_digit_char rest
        in if ds \<noteq> [] \<and> starts_with (dropWhile is_digit_char rest) ''.'' then Some ds else None)"

fun layer_search :: "string \<Rightarrow> string option" where
  "layer_search [] = None"
| "layer_search (c # cs) =
     (case layer_at (c # cs) of Some ds \<Rightarrow> Some ds | None \<Rightarrow> layer_search cs)"

text \<open>
  The loop of \<^verbatim>\<open>weights_for_stage\<close> over the names of the weight map: the kept names and the unknown
  ones, in the order of the map. \<^verbatim>\<open>int(m.group(1))\<close> fails on a layer number over the digit limit.
\<close>

fun weights_loop ::
    "int list \<Rightarrow> int \<Rightarrow> int \<Rightarrow> bool \<Rightarrow> string list \<Rightarrow> shard_error + (string list \<times> string list)" where
  "weights_loop parts final stage tie [] = Inr ([], [])"
| "weights_loop parts final stage tie (name # names) =
     (let keep_if = (\<lambda>b. and_then (weights_loop parts final stage tie names)
                          (\<lambda>(keep, unknown). Inr (if b then name # keep else keep, unknown)))
      in case layer_search name of
           Some ds \<Rightarrow>
             (case int_of_digits ds of
                None \<Rightarrow> Inl LayerNumberTooLong
              | Some layer \<Rightarrow> keep_if (stage_of_layer layer parts = stage))
         | None \<Rightarrow>
             if has_sub name ''embed_tokens'' then keep_if (stage = 0 \<or> tie \<and> stage = final)
             else if has_sub name ''lm_head'' \<or> starts_with name ''model.norm'' \<or> starts_with name ''norm.''
             then keep_if (stage = final)
             else and_then (weights_loop parts final stage tie names)
                    (\<lambda>(keep, unknown). Inr (if stage = 0 then name # keep else keep, name # unknown)))"

definition weights_for_stage ::
    "(string \<times> string) list \<Rightarrow> int \<Rightarrow> int \<Rightarrow> int \<Rightarrow> bool \<Rightarrow> string option \<Rightarrow> string option
       \<Rightarrow> shard_error + (string list \<times> string list)" where
  "weights_for_stage weight_map num_layers pp_size stage tie partition_env environ =
     and_then (pp_partitions num_layers pp_size partition_env environ)
       (\<lambda>parts. weights_loop parts (pp_size - 1) stage tie (map fst weight_map))"

section \<open>The shard files of a stage\<close>

text \<open>
  A model repository as the code sees it: the decoded \<^verbatim>\<open>config.json\<close> and the decoded candidates of
  \<^verbatim>\<open>*.safetensors.index.json\<close> by name (\<open>None\<close>: the file cannot be resolved or decoded), whether
  \<^verbatim>\<open>_resolve_model_input\<close> accepts a relative path, the size of a file, and the regular files below the
  directory as \<^verbatim>\<open>rglob\<close> lists them, sorted.
\<close>

record model_source =
  ms_config :: "pyval option"
  ms_indexes :: "(string \<times> pyval option) list"
  ms_resolves :: "string \<Rightarrow> bool"
  ms_size :: "string \<Rightarrow> int"
  ms_files :: "string list"

definition object_get :: "(pyval \<times> pyval) list \<Rightarrow> string \<Rightarrow> pyval option" where
  "object_get d k = map_of d (PStr k)"

definition path_parts :: "string \<Rightarrow> string list" where
  "path_parts s = split_on (CHR ''/'') s"

definition unsafe_shard_path :: "string \<Rightarrow> bool" where
  "unsafe_shard_path s = (starts_with s ''/'' \<or> ''..'' \<in> set (path_parts s) \<or> CHR 0x00 \<in> set s)"

text \<open>The entries of \<^verbatim>\<open>weight_map\<close> when all of them map a nonempty string to a nonempty string.\<close>

fun string_pairs :: "(pyval \<times> pyval) list \<Rightarrow> (string \<times> string) list option" where
  "string_pairs [] = Some []"
| "string_pairs ((PStr k, PStr v) # kvs) =
     (if k = [] \<or> v = [] then None else map_option ((#) (k, v)) (string_pairs kvs))"
| "string_pairs _ = None"

text \<open>The loop over \<^verbatim>\<open>set(weight_map.values())\<close>; which bad shard is reported depends on the set's order.\<close>

fun check_shards :: "(string \<Rightarrow> bool) \<Rightarrow> string list \<Rightarrow> shard_error option" where
  "check_shards resolves [] = None"
| "check_shards resolves (s # ss) =
     (if unsafe_shard_path s then Some UnsafeShardPath
      else if \<not> resolves s then Some UnresolvedShard else check_shards resolves ss)"

definition index_path :: "model_source \<Rightarrow> shard_error + (string \<times> pyval option)" where
  "index_path M =
     (case ms_indexes M of [] \<Rightarrow> Inl NoIndex | [c] \<Rightarrow> Inr c | _ \<Rightarrow> Inl ManyIndexes)"

definition read_config :: "model_source \<Rightarrow> shard_error + (int \<times> bool)" where
  "read_config M =
     (case ms_config M of
        None \<Rightarrow> Inl LoadFailed
      | Some (PDict cfg) \<Rightarrow>
          (case Option.bind (object_get cfg ''num_hidden_layers'') as_int of
             None \<Rightarrow> Inl NumHiddenLayersInvalid
           | Some num_layers \<Rightarrow>
               if num_layers < 1 then Inl NumHiddenLayersInvalid
               else case object_get cfg ''tie_word_embeddings'' of
                      None \<Rightarrow> Inr (num_layers, False)
                    | Some (PBool tied) \<Rightarrow> Inr (num_layers, tied)
                    | Some _ \<Rightarrow> Inl TieInvalid)
      | Some _ \<Rightarrow> Inl ConfigInvalid)"

definition read_index :: "model_source \<Rightarrow> shard_error + (string \<times> string) list" where
  "read_index M =
     and_then (index_path M) (\<lambda>(name, payload).
       case payload of
         None \<Rightarrow> Inl LoadFailed
       | Some (PDict index) \<Rightarrow>
           (if \<not> set (map fst index) \<subseteq> {PStr ''metadata'', PStr ''weight_map''} then Inl IndexInvalid
            else case object_get index ''weight_map'' of
                   Some (PDict entries) \<Rightarrow>
                     (case (if entries = [] then None else string_pairs entries) of
                        None \<Rightarrow> Inl WeightMapInvalid
                      | Some weight_map \<Rightarrow>
                          (case check_shards (ms_resolves M) (remdups (map snd weight_map)) of
                             Some e \<Rightarrow> Inl e
                           | None \<Rightarrow> Inr weight_map))
                 | _ \<Rightarrow> Inl IndexInvalid)
       | Some _ \<Rightarrow> Inl IndexInvalid)"

definition stage_inputs ::
    "model_source \<Rightarrow> int \<Rightarrow> int \<Rightarrow> string option \<Rightarrow> string option
       \<Rightarrow> shard_error + ((string \<times> string) list \<times> int \<times> bool)" where
  "stage_inputs M pp_size stage partition_env environ =
     (if pp_size < 1 then Inl PpSizeInvalid
      else if \<not> (0 \<le> stage \<and> stage < pp_size) then Inl StageOutOfRange
      else
        and_then (read_config M) (\<lambda>(num_layers, tied).
        and_then (read_index M) (\<lambda>weight_map.
        and_then (pp_partitions num_layers pp_size partition_env environ) (\<lambda>parts.
          Inr (weight_map, num_layers, tied)))))"

text \<open>\<^verbatim>\<open>sorted({wm[w] for w in keep})\<close>\<close>

definition shards_of :: "(string \<times> string) list \<Rightarrow> string list \<Rightarrow> string list" where
  "shards_of weight_map keep = sort (remdups (map (\<lambda>w. the (map_of weight_map w)) keep))"

definition plan_stage_shards ::
    "model_source \<Rightarrow> int \<Rightarrow> int \<Rightarrow> string option \<Rightarrow> string option
       \<Rightarrow> shard_error + (string list \<times> string list \<times> int)" where
  "plan_stage_shards M pp_size stage partition_env environ =
     and_then (stage_inputs M pp_size stage partition_env environ) (\<lambda>(wm, num_layers, tied).
     and_then (weights_for_stage wm num_layers pp_size stage tied partition_env environ) (\<lambda>(keep, unknown).
       let shards = shards_of wm keep
       in Inr (shards, keep, sum_list (map (ms_size M) shards))))"

section \<open>The bundle of a stage\<close>

definition completion_marker :: string where
  "completion_marker = ''.exaserve_complete.json''"

definition model_weight_suffixes :: "string list" where
  "model_weight_suffixes = [''.safetensors'', ''.bin'', ''.pt'', ''.pth'', ''.gguf'']"

definition ignored_metadata_dirs :: "string list" where
  "ignored_metadata_dirs = [''.cache'', ''.git'', ''__pycache__'']"

definition is_stage_metadata :: "string list \<Rightarrow> string \<Rightarrow> bool" where
  "is_stage_metadata shards file =
     (let name = last (path_parts file)
      in list_all (\<lambda>p. p \<notin> set ignored_metadata_dirs) (path_parts file)
         \<and> \<not> (file \<in> set shards \<or> name = completion_marker
              \<or> list_ex (\<lambda>x. ends_with name x) model_weight_suffixes \<or> ends_with name ''.index.json''))"

record stage_bundle =
  sb_shards :: "string list"
  sb_weight_map :: "(string \<times> string) list"
  sb_metadata :: "string list"
  sb_n_weights :: nat
  sb_bytes :: int

text \<open>
  What \<^verbatim>\<open>build_stage_dir\<close> links and writes once its output directory has been admitted: the shard links,
  the pruned index and the metadata links.
\<close>

definition build_stage_dir ::
    "model_source \<Rightarrow> int \<Rightarrow> int \<Rightarrow> string option \<Rightarrow> string option \<Rightarrow> shard_error + stage_bundle" where
  "build_stage_dir M pp_size stage partition_env environ =
     and_then (stage_inputs M pp_size stage partition_env environ) (\<lambda>(wm, num_layers, tied).
     and_then (weights_for_stage wm num_layers pp_size stage tied partition_env environ) (\<lambda>(keep, unknown).
       let shards = shards_of wm keep; metadata = filter (is_stage_metadata shards) (ms_files M)
       in if list_ex (\<lambda>f. \<not> ms_resolves M f) metadata then Inl UnresolvedMetadata
          else Inr \<lparr>sb_shards = shards, sb_weight_map = map (\<lambda>w. (w, the (map_of wm w))) keep,
                    sb_metadata = metadata, sb_n_weights = length keep,
                    sb_bytes = sum_list (map (ms_size M) shards)\<rparr>))"

section \<open>The ranks of a stage\<close>

definition assign_pp_nodes :: "'a list \<Rightarrow> int \<Rightarrow> int \<Rightarrow> shard_error + (int \<times> int \<times> 'a) list" where
  "assign_pp_nodes ordered_nodes pp_size num_replicas =
     (if int (length ordered_nodes) \<noteq> num_replicas * pp_size then Inl NodeCount
      else Inr (concat (map (\<lambda>replica. map (\<lambda>stage.
             (replica, stage, ordered_nodes ! nat (replica * pp_size + stage))) [0..pp_size - 1])
             [0..num_replicas - 1])))"

definition stage_node_groups :: "'a list \<Rightarrow> int \<Rightarrow> int \<Rightarrow> shard_error + (int \<times> 'a list) list" where
  "stage_node_groups ordered_nodes pp_size num_replicas =
     and_then (assign_pp_nodes ordered_nodes pp_size num_replicas) (\<lambda>assigned.
       Inr (fold (\<lambda>(replica, stage, node). adjust stage (\<lambda>ns. ns @ [node])) assigned
              (map (\<lambda>stage. (stage, [])) [0..pp_size - 1])))"

text \<open>The ranks of the planned nodes, in order; \<^verbatim>\<open>None\<close> for a node the allocation does not have.\<close>

fun planned_ranks_of :: "(int \<times> string) list \<Rightarrow> string list \<Rightarrow> int list option" where
  "planned_ranks_of rank_to_node [] = Some []"
| "planned_ranks_of rank_to_node (n # ns) =
     (case map_of (map (\<lambda>(r, m). (m, r)) rank_to_node) n of
        None \<Rightarrow> None
      | Some r \<Rightarrow> map_option ((#) r) (planned_ranks_of rank_to_node ns))"

definition stage_rank_groups ::
    "(int \<times> string) list \<Rightarrow> string list \<Rightarrow> int \<Rightarrow> int \<Rightarrow> shard_error + (int \<times> int list) list" where
  "stage_rank_groups rank_to_node ordered_nodes pp_size num_replicas =
     (if map fst rank_to_node \<noteq> int_range (length rank_to_node) then Inl BindingRanks
      else if \<not> distinct (map snd rank_to_node) then Inl BindingNodes
      else case planned_ranks_of rank_to_node ordered_nodes of
             None \<Rightarrow> Inl PlannedNodeAbsent
           | Some ranks \<Rightarrow>
               if \<not> distinct ranks then Inl PlannedRanksRepeat
               else and_then (stage_node_groups ranks pp_size num_replicas)
                      (\<lambda>groups. Inr (map (\<lambda>(stage, rs). (stage, sort rs)) groups)))"

text \<open>The guard of \<^verbatim>\<open>bcast_cmd\<close> on the recipient mask.\<close>

definition bcast_recipients_ok :: "nat \<Rightarrow> int list \<Rightarrow> bool" where
  "bcast_recipients_ok num_nodes ranks =
     (ranks \<noteq> [] \<and> ranks = sort (remdups ranks) \<and> 0 \<le> hd ranks \<and> last ranks < int num_nodes)"

record stage_plan =
  sp_stage :: int
  sp_recipients :: "int list"
  sp_shards :: "string list"
  sp_weights :: "string list"
  sp_bytes :: int

fun plan_stages ::
    "model_source \<Rightarrow> int \<Rightarrow> string option \<Rightarrow> string option \<Rightarrow> (int \<times> int list) list \<Rightarrow> int list
       \<Rightarrow> shard_error + stage_plan list" where
  "plan_stages M pp_size partition_env environ groups [] = Inr []"
| "plan_stages M pp_size partition_env environ groups (stage # stages) =
     and_then (plan_stage_shards M pp_size stage partition_env environ) (\<lambda>(shards, keep, bytes).
     and_then (plan_stages M pp_size partition_env environ groups stages) (\<lambda>rest.
       Inr (\<lparr>sp_stage = stage, sp_recipients = the (map_of groups stage), sp_shards = shards,
             sp_weights = keep, sp_bytes = bytes\<rparr> # rest)))"

text \<open>
  \<^verbatim>\<open>stage_pp_sharded\<close> as a dry run: the plan of every stage, each checked by \<^verbatim>\<open>bcast_cmd\<close>. Whether the local
  root is proven local to its node is an argument. The argument vector that \<^verbatim>\<open>bcast_cmd\<close> builds, with the
  checks of its scheduler and environment, is left out: it only adds ways to fail. An entry keeps the
  shards and weights whose numbers the code reports.
\<close>

definition stage_pp_sharded ::
    "model_source \<Rightarrow> bool \<Rightarrow> (int \<times> string) list \<Rightarrow> string list \<Rightarrow> int \<Rightarrow> int
       \<Rightarrow> string option \<Rightarrow> string option \<Rightarrow> shard_error + stage_plan list" where
  "stage_pp_sharded M local_ok rank_to_node ordered_nodes pp_size num_replicas partition_env environ =
     and_then (stage_rank_groups rank_to_node ordered_nodes pp_size num_replicas) (\<lambda>groups.
       if \<not> local_ok then Inl LocalRootInvalid
       else if map_of rank_to_node 0 = None then Inl NoRankZero
       else and_then (plan_stages M pp_size partition_env environ groups [0..pp_size - 1]) (\<lambda>plan.
              if list_all (\<lambda>p. bcast_recipients_ok (length rank_to_node) (sp_recipients p)) plan
              then Inr plan else Inl RecipientsInvalid))"

section \<open>The partition is the even one or the configured one\<close>

lemma bump_from_end_length [simp]: "length (bump_from_end i ps) = length ps"
  by (simp add: bump_from_end_def)

text \<open>The remainder goes to the stages just before the last one.\<close>

lemma fold_bump_shape:
  "r < n \<Longrightarrow> fold bump_from_end [2..<r + 2] (replicate n q)
     = replicate (n - 1 - r) q @ replicate r (q + 1) @ [q]"
proof (induction r)
  case 0
  then show ?case by (cases n) (simp_all add: replicate_append_same)
next
  case (Suc r)
  define k where "k = n - 2 - r"
  have k: "n - 1 - r = Suc k" "n - 1 - Suc r = k" "n = k + r + 2"
    using Suc.prems by (auto simp: k_def)
  let ?ps = "replicate k q @ q # replicate r (q + 1) @ [q]"
  have IH: "fold bump_from_end [2..<r + 2] (replicate n q) = replicate (Suc k) q @ replicate r (q + 1) @ [q]"
    using Suc by (simp only: k(1) Suc_lessD)
  have "[2..<Suc r + 2] = [2..<r + 2] @ [r + 2]" by simp
  then have "fold bump_from_end [2..<Suc r + 2] (replicate n q)
      = bump_from_end (r + 2) (fold bump_from_end [2..<r + 2] (replicate n q))"
    by (simp only: fold_append fold_simps comp_apply id_apply)
  also have "\<dots> = bump_from_end (r + 2) ?ps"
    unfolding IH by (simp add: replicate_app_Cons_same)
  also have "\<dots> = replicate k q @ (q + 1) # replicate r (q + 1) @ [q]"
    by (simp add: bump_from_end_def nth_append list_update_append)
  finally show ?case unfolding k(2) by (simp only: replicate_Suc append_Cons)
qed

lemma even_partition_shape:
  assumes "1 \<le> pp" "pp \<le> L"
  shows "even_partition L pp =
    replicate (nat pp - 1 - nat (L mod pp)) (L div pp) @ replicate (nat (L mod pp)) (L div pp + 1) @ [L div pp]"
proof -
  have "nat (L mod pp) < nat pp" using assms by simp
  then show ?thesis unfolding even_partition_def by (rule fold_bump_shape)
qed

lemma sum_list_replicate_int: "sum_list (replicate n (q :: int)) = int n * q"
  by (simp add: sum_list_replicate)

lemma even_partition_facts:
  assumes "1 \<le> pp" "pp \<le> L"
  shows "int (length (even_partition L pp)) = pp" "sum_list (even_partition L pp) = L"
    "\<forall>p \<in> set (even_partition L pp). 1 \<le> p"
proof -
  have r: "0 \<le> L mod pp" "L mod pp < pp" using assms by simp_all
  show "int (length (even_partition L pp)) = pp"
    using assms r by (simp add: even_partition_shape of_nat_diff)
  have "sum_list (even_partition L pp)
      = (pp - 1 - L mod pp) * (L div pp) + L mod pp * (L div pp + 1) + L div pp"
    using assms r by (simp add: even_partition_shape sum_list_replicate_int of_nat_diff algebra_simps nat_diff_distrib)
  also have "\<dots> = pp * (L div pp) + L mod pp" by (simp add: algebra_simps)
  finally show "sum_list (even_partition L pp) = L" by simp
  have "1 \<le> L div pp" using assms by (metis div_self le_numeral_extra(4) linorder_not_less not_one_le_zero zdiv_mono1 zero_less_one order_less_le_trans)
  then show "\<forall>p \<in> set (even_partition L pp). 1 \<le> p"
    using assms by (auto simp: even_partition_shape)
qed

lemma pp_partitions_facts:
  assumes "pp_partitions L pp penv env = Inr parts"
  shows "1 \<le> pp" "pp \<le> L" "int (length parts) = pp" "sum_list parts = L" "\<forall>p \<in> set parts. 1 \<le> p"
proof -
  show pp: "1 \<le> pp" "pp \<le> L"
    using assms by (auto simp: pp_partitions_def split: if_splits)
  have "parts = even_partition L pp \<or>
      int (length parts) = pp \<and> sum_list parts = L \<and> \<not> list_ex (\<lambda>p. p < 1) parts"
    using assms pp by (auto simp: pp_partitions_def split: option.splits list.splits if_splits)
  then show "int (length parts) = pp" "sum_list parts = L" "\<forall>p \<in> set parts. 1 \<le> p"
    using even_partition_facts [OF pp] by (auto simp: list_ex_iff)
qed

section \<open>The stage of a layer\<close>

lemma stage_loop_found:
  assumes "layer < acc + sum_list ps" "acc \<le> layer"
  shows "\<exists>k < length ps. stage_loop layer s acc ps = int (s + k) \<and>
     acc + sum_list (take k ps) \<le> layer \<and> layer < acc + sum_list (take (Suc k) ps)"
  using assms
proof (induction ps arbitrary: s acc)
  case Nil
  then show ?case by simp
next
  case (Cons p ps)
  show ?case
  proof (cases "layer < acc + p")
    case True
    then show ?thesis using Cons.prems by (intro exI [of _ 0]) simp
  next
    case False
    then obtain k where k: "k < length ps" "stage_loop layer (Suc s) (acc + p) ps = int (Suc s + k)"
      "acc + p + sum_list (take k ps) \<le> layer" "layer < acc + p + sum_list (take (Suc k) ps)"
      using Cons.IH [of "acc + p" "Suc s"] Cons.prems by (auto simp: algebra_simps)
    then show ?thesis using False by (intro exI [of _ "Suc k"]) (simp add: algebra_simps)
  qed
qed

lemma stage_loop_beyond:
  "acc + sum_list ps \<le> layer \<Longrightarrow> \<forall>p \<in> set ps. 1 \<le> p \<Longrightarrow> stage_loop layer s acc ps = int (s + length ps) - 1"
proof (induction ps arbitrary: s acc)
  case (Cons p ps)
  have "0 \<le> sum_list ps" using Cons.prems(2) by (intro sum_list_nonneg) force
  then have "\<not> layer < acc + p" using Cons.prems(1) by simp
  then show ?case using Cons.IH [of "acc + p" "Suc s"] Cons.prems by (simp add: algebra_simps)
qed simp

text \<open>A layer of the model lies in the interval of its stage; a number beyond the model goes to the last stage.\<close>

lemma stage_of_layer_interval:
  assumes "pp_partitions L pp penv env = Inr parts" "0 \<le> layer" "layer < L"
  shows "0 \<le> stage_of_layer layer parts" "stage_of_layer layer parts < pp"
    "sum_list (take (nat (stage_of_layer layer parts)) parts) \<le> layer"
    "layer < sum_list (take (Suc (nat (stage_of_layer layer parts))) parts)"
proof -
  note facts = pp_partitions_facts [OF assms(1)]
  obtain k where "k < length parts" "stage_loop layer 0 0 parts = int k"
    "sum_list (take k parts) \<le> layer" "layer < sum_list (take (Suc k) parts)"
    using stage_loop_found [of layer 0 parts 0] assms facts(4) by auto
  then show "0 \<le> stage_of_layer layer parts" "stage_of_layer layer parts < pp"
    "sum_list (take (nat (stage_of_layer layer parts)) parts) \<le> layer"
    "layer < sum_list (take (Suc (nat (stage_of_layer layer parts))) parts)"
    using facts(3) by (simp_all add: stage_of_layer_def)
qed

lemma stage_of_layer_range:
  assumes "pp_partitions L pp penv env = Inr parts" "0 \<le> layer"
  shows "0 \<le> stage_of_layer layer parts \<and> stage_of_layer layer parts < pp"
proof (cases "layer < L")
  case True
  then show ?thesis using stage_of_layer_interval [OF assms(1)] assms(2) by blast
next
  case False
  note facts = pp_partitions_facts [OF assms(1)]
  show ?thesis
    using stage_loop_beyond [of 0 parts layer 0] False facts by (simp add: stage_of_layer_def)
qed

section \<open>The stages that load a weight\<close>

text \<open>The specification of \<^verbatim>\<open>weights_for_stage\<close>: the set of stages a weight belongs to.\<close>

definition home_stages :: "int list \<Rightarrow> int \<Rightarrow> bool \<Rightarrow> string \<Rightarrow> int set" where
  "home_stages parts final tie name =
     (case layer_search name of
        Some ds \<Rightarrow> {stage_of_layer (int (read_nat ds)) parts}
      | None \<Rightarrow>
          if has_sub name ''embed_tokens'' then (if tie then {0, final} else {0})
          else if has_sub name ''lm_head'' \<or> starts_with name ''model.norm'' \<or> starts_with name ''norm.''
          then {final} else {0})"

definition readable_weight :: "string \<Rightarrow> bool" where
  "readable_weight name =
     (case layer_search name of None \<Rightarrow> True | Some ds \<Rightarrow> length ds \<le> max_str_digits)"

definition unruled_weight :: "string \<Rightarrow> bool" where
  "unruled_weight name =
     (layer_search name = None \<and> \<not> has_sub name ''embed_tokens'' \<and>
      \<not> (has_sub name ''lm_head'' \<or> starts_with name ''model.norm'' \<or> starts_with name ''norm.''))"

text \<open>One iteration of the loop, over the specification.\<close>

lemma weights_loop_step:
  "weights_loop parts final stage tie (name # names) =
     (if readable_weight name
      then and_then (weights_loop parts final stage tie names) (\<lambda>(keep, unknown).
             Inr (if stage \<in> home_stages parts final tie name then name # keep else keep,
                  if unruled_weight name then name # unknown else unknown))
      else Inl LayerNumberTooLong)"
  by (cases "layer_search name")
    (simp_all add: home_stages_def readable_weight_def unruled_weight_def int_of_digits_def Let_def
                   eq_commute [of "stage_of_layer i parts" stage for i]
              del: has_sub.simps)

lemma weights_loop_spec:
  "weights_loop parts final stage tie names =
     (if list_all readable_weight names
      then Inr (filter (\<lambda>n. stage \<in> home_stages parts final tie n) names, filter unruled_weight names)
      else Inl LayerNumberTooLong)"
proof (induction names)
  case (Cons name names)
  show ?case unfolding weights_loop_step Cons.IH by simp
qed simp

lemma weights_for_stage_iff:
  assumes "pp_partitions L pp penv env = Inr parts"
  shows "weights_for_stage wm L pp stage tie penv env = Inr (keep, unknown) \<longleftrightarrow>
    list_all readable_weight (map fst wm) \<and> unknown = filter unruled_weight (map fst wm) \<and>
    keep = filter (\<lambda>n. stage \<in> home_stages parts (pp - 1) tie n) (map fst wm)"
  by (auto simp: weights_for_stage_def assms weights_loop_spec)

lemma home_stages_within:
  assumes "pp_partitions L pp penv env = Inr parts"
  shows "home_stages parts (pp - 1) tie name \<noteq> {}" "home_stages parts (pp - 1) tie name \<subseteq> {0..<pp}"
  using stage_of_layer_range [OF assms] pp_partitions_facts(1) [OF assms]
  by (auto simp: home_stages_def split: option.splits)

section \<open>The shards planned for a stage\<close>

lemma shards_of_set [simp]: "set (shards_of wm keep) = (\<lambda>w. the (map_of wm w)) ` set keep"
  by (simp add: shards_of_def)

lemma stage_inputs_Inr:
  "stage_inputs M pp stage penv env = Inr (wm, L, tied) \<longleftrightarrow>
     1 \<le> pp \<and> 0 \<le> stage \<and> stage < pp \<and> read_config M = Inr (L, tied) \<and> read_index M = Inr wm \<and>
     (\<exists>parts. pp_partitions L pp penv env = Inr parts)"
  by (auto simp: stage_inputs_def check_simps)

text \<open>A planned stage holds the weights that belong to it and exactly the shards that store them.\<close>

lemma plan_stage_shards_Inr:
  assumes "plan_stage_shards M pp stage penv env = Inr (shards, keep, bytes)"
  obtains wm L tied parts where
    "read_config M = Inr (L, tied)" "read_index M = Inr wm" "pp_partitions L pp penv env = Inr parts"
    "0 \<le> stage" "stage < pp" "keep = filter (\<lambda>n. stage \<in> home_stages parts (pp - 1) tied n) (map fst wm)"
    "shards = shards_of wm keep" "bytes = sum_list (map (ms_size M) shards)"
proof -
  obtain wm L tied unknown where inputs: "stage_inputs M pp stage penv env = Inr (wm, L, tied)"
    and keep: "weights_for_stage wm L pp stage tied penv env = Inr (keep, unknown)"
    and rest: "shards = shards_of wm keep" "bytes = sum_list (map (ms_size M) shards)"
    using assms by (auto simp: plan_stage_shards_def check_simps Let_def)
  obtain parts where parts: "pp_partitions L pp penv env = Inr parts"
    using inputs by (auto simp: stage_inputs_Inr)
  show thesis
    by (rule that [OF _ _ parts _ _ _ rest])
      (use inputs keep in \<open>simp_all add: stage_inputs_Inr weights_for_stage_iff [OF parts]\<close>)
qed

section \<open>The ranks of a stage\<close>

lemma map_of_fold_append:
  "map_of (fold (\<lambda>(r, s, n). adjust s (\<lambda>ns. ns @ [n])) assigned d) s =
     map_option (\<lambda>ns. ns @ map (snd \<circ> snd) (filter (\<lambda>a. fst (snd a) = s) assigned)) (map_of d s)"
proof (induction assigned arbitrary: d)
  case Nil
  then show ?case by (simp add: option.map_ident)
next
  case (Cons a assigned)
  obtain r s' n where a: "a = (r, s', n)" by (cases a)
  show ?case
    using Cons.IH [of "adjust s' (\<lambda>ns. ns @ [n]) d"]
    by (cases "map_of d s") (auto simp: a map_of_adjust)
qed

lemma filter_stage_upto:
  assumes "0 \<le> s" "s < pp"
  shows "map (snd \<circ> snd) (filter (\<lambda>a. fst (snd a) = s)
     (concat (map (\<lambda>r. map (\<lambda>t. (r, t, f r t)) [0..pp - 1]) rs))) = map (\<lambda>r. f r s) (rs :: int list)"
proof (induction rs)
  case (Cons r rs)
  have split: "[0..pp - 1] = [0..s - 1] @ s # [s + 1..pp - 1]"
    using assms by (intro upto_split3) simp_all
  have one: "map (snd \<circ> snd) (filter (\<lambda>a. fst (snd a) = s) (map (\<lambda>t. (r, t, f r t)) [0..pp - 1])) = [f r s]"
    unfolding split by (simp add: filter_map comp_def)
  show ?case using Cons.IH one by (simp add: comp_def)
qed simp

lemma stage_node_groups_Inr:
  assumes "stage_node_groups nodes pp reps = Inr groups" "0 \<le> s" "s < pp"
  shows "map_of groups s = Some (map (\<lambda>r. nodes ! nat (r * pp + s)) [0..reps - 1])"
proof -
  have "map_of (map (\<lambda>stage. (stage, [] :: 'a list)) [0..pp - 1]) s = Some []"
    using assms(2,3) by (simp add: map_of_map_restrict)
  then show ?thesis
    using assms by (auto simp: stage_node_groups_def assign_pp_nodes_def map_of_fold_append
      filter_stage_upto check_simps split: if_splits)
qed

lemma planned_ranks_of_Some:
  "planned_ranks_of rtn nodes = Some ranks \<Longrightarrow> list_all2 (\<lambda>k n. (k, n) \<in> set rtn) ranks nodes"
proof (induction nodes arbitrary: ranks)
  case (Cons n nodes)
  then obtain k ks where "map_of (map (\<lambda>(r, m). (m, r)) rtn) n = Some k" "ranks = k # ks"
    "planned_ranks_of rtn nodes = Some ks"
    by (auto split: option.splits)
  moreover from this(1) have "(k, n) \<in> set rtn" by (auto dest!: map_of_SomeD)
  ultimately show ?case using Cons.IH by simp
qed simp

lemma plan_stages_nth:
  "plan_stages M pp penv env groups stages = Inr plan \<Longrightarrow>
     length plan = length stages \<and>
     (\<forall>i < length stages.
        sp_recipients (plan ! i) = the (map_of groups (stages ! i)) \<and>
        plan_stage_shards M pp (stages ! i) penv env =
          Inr (sp_shards (plan ! i), sp_weights (plan ! i), sp_bytes (plan ! i)))"
  by (induction stages arbitrary: plan) (auto simp: check_simps nth_Cons split: nat.splits)

lemma stage_pp_sharded_Inr:
  assumes "stage_pp_sharded M ok rtn nodes pp reps penv env = Inr plan"
  obtains ranks where
    "list_all2 (\<lambda>k n. (k, n) \<in> set rtn) ranks nodes" "distinct ranks" "int (length ranks) = reps * pp"
    "length plan = nat pp"
    "\<And>s. 0 \<le> s \<Longrightarrow> s < pp \<Longrightarrow>
       sp_recipients (plan ! nat s) = sort (map (\<lambda>r. ranks ! nat (r * pp + s)) [0..reps - 1])"
    "\<And>s. 0 \<le> s \<Longrightarrow> s < pp \<Longrightarrow> plan_stage_shards M pp s penv env =
       Inr (sp_shards (plan ! nat s), sp_weights (plan ! nat s), sp_bytes (plan ! nat s))"
proof -
  obtain ranks groups where ranks: "planned_ranks_of rtn nodes = Some ranks" "distinct ranks"
    and groups: "stage_node_groups ranks pp reps = Inr groups"
    and stages: "plan_stages M pp penv env (map (\<lambda>(s, rs). (s, sort rs)) groups) [0..pp - 1] = Inr plan"
    using assms
    by (auto simp: stage_pp_sharded_def stage_rank_groups_def check_simps split: if_splits option.splits)
  note nth = plan_stages_nth [OF stages]
  have at: "nat s < length [0..pp - 1]" "[0..pp - 1] ! nat s = s" if "0 \<le> s" "s < pp" for s
    using that by (simp_all add: nth_upto)
  show thesis
  proof (rule that)
    show "list_all2 (\<lambda>k n. (k, n) \<in> set rtn) ranks nodes" using planned_ranks_of_Some ranks(1) .
    show "int (length ranks) = reps * pp"
      using groups by (auto simp: stage_node_groups_def assign_pp_nodes_def split: if_splits)
    show "length plan = nat pp" using nth by simp
  next
    fix s assume s: "0 \<le> s" "s < pp"
    show "sp_recipients (plan ! nat s) = sort (map (\<lambda>r. ranks ! nat (r * pp + s)) [0..reps - 1])"
      using nth at [OF s] stage_node_groups_Inr [OF groups s] by (auto simp: map_of_map_snd)
    show "plan_stage_shards M pp s penv env =
       Inr (sp_shards (plan ! nat s), sp_weights (plan ! nat s), sp_bytes (plan ! nat s))"
      using nth at [OF s] by metis
  qed (use ranks in simp)
qed

lemma replica_slot_bound:
  "0 \<le> r \<Longrightarrow> r < reps \<Longrightarrow> 0 \<le> s \<Longrightarrow> s < pp \<Longrightarrow> 0 \<le> r * pp + s \<and> r * pp + s < reps * (pp :: int)"
proof -
  assume r: "0 \<le> r" "r < reps" and s: "0 \<le> s" "s < pp"
  have "(r + 1) * pp \<le> reps * pp" using r s by (intro mult_right_mono) simp_all
  moreover have "0 \<le> r * pp" using r s by simp
  ultimately show ?thesis using s by (simp add: algebra_simps)
qed

lemma replica_slot_stage:
  "0 \<le> s \<Longrightarrow> s < pp \<Longrightarrow> 0 \<le> t \<Longrightarrow> t < pp \<Longrightarrow> r * pp + s = q * pp + (t :: int) \<Longrightarrow> s = t"
  by (metis mod_mult_self3 mod_pos_pos_trivial)

text \<open>The stages of a replica have different ranks, so no rank is in the mask of two stages.\<close>

lemma stage_recipients_disjoint:
  assumes "distinct ranks" "int (length ranks) = reps * pp"
    and "0 \<le> s" "s < pp" "0 \<le> t" "t < pp" "s \<noteq> t"
  shows "set (map (\<lambda>r. ranks ! nat (r * pp + s)) [0..reps - 1]) \<inter>
         set (map (\<lambda>r. ranks ! nat (r * pp + t)) [0..reps - 1]) = {}"
proof -
  have "ranks ! nat (r * pp + s) \<noteq> ranks ! nat (q * pp + t)"
    if "0 \<le> r" "r < reps" "0 \<le> q" "q < reps" for r q
  proof -
    note rb = replica_slot_bound [OF that(1,2) assms(3,4)] and qb = replica_slot_bound [OF that(3,4) assms(5,6)]
    have "r * pp + s \<noteq> q * pp + t" using replica_slot_stage assms(3-7) by blast
    then have "nat (r * pp + s) \<noteq> nat (q * pp + t)" using rb qb by (simp add: nat_eq_iff)
    moreover have "nat (r * pp + s) < length ranks" "nat (q * pp + t) < length ranks"
      using rb qb assms(2) by linarith+
    ultimately show ?thesis using assms(1) by (simp add: nth_eq_iff_index_eq)
  qed
  then show ?thesis by auto
qed

lemma read_config_layers: "read_config M = Inr (L, tied) \<Longrightarrow> 1 \<le> L"
  by (auto simp: read_config_def split: option.splits pyval.splits if_splits)

text \<open>In a plan, the weights of a stage are those that belong to it, and its shards are theirs.\<close>

lemma planned_stage_contents:
  assumes "stage_pp_sharded M ok rtn nodes pp reps penv env = Inr plan" "read_index M = Inr wm" "1 \<le> pp"
  obtains L tied parts where "pp_partitions L pp penv env = Inr parts"
    "\<And>s. 0 \<le> s \<Longrightarrow> s < pp \<Longrightarrow> set (sp_weights (plan ! nat s))
        = {w \<in> fst ` set wm. s \<in> home_stages parts (pp - 1) tied w}"
    "\<And>s. 0 \<le> s \<Longrightarrow> s < pp \<Longrightarrow> set (sp_shards (plan ! nat s))
        = (\<lambda>w. the (map_of wm w)) ` set (sp_weights (plan ! nat s))"
proof -
  have planned: "plan_stage_shards M pp s penv env =
       Inr (sp_shards (plan ! nat s), sp_weights (plan ! nat s), sp_bytes (plan ! nat s))"
    if "0 \<le> s" "s < pp" for s
    using stage_pp_sharded_Inr [OF assms(1)] that by metis
  obtain L tied parts where first: "read_config M = Inr (L, tied)" "pp_partitions L pp penv env = Inr parts"
    by (rule plan_stage_shards_Inr [OF planned [of 0]]) (use assms(3) in auto)
  have "set (sp_weights (plan ! nat s)) = {w \<in> fst ` set wm. s \<in> home_stages parts (pp - 1) tied w} \<and>
      set (sp_shards (plan ! nat s)) = (\<lambda>w. the (map_of wm w)) ` set (sp_weights (plan ! nat s))"
    if s: "0 \<le> s" "s < pp" for s
  proof (rule plan_stage_shards_Inr [OF planned [OF s]])
    fix wm' L' tied' parts'
    assume same: "read_config M = Inr (L', tied')" "read_index M = Inr wm'" "pp_partitions L' pp penv env = Inr parts'"
      and keep: "sp_weights (plan ! nat s) = filter (\<lambda>n. s \<in> home_stages parts' (pp - 1) tied' n) (map fst wm')"
      and shards: "sp_shards (plan ! nat s) = shards_of wm' (sp_weights (plan ! nat s))"
    have eq: "wm' = wm" "tied' = tied" "parts' = parts" using same first assms(2) by simp_all
    have "set (sp_weights (plan ! nat s)) = {w \<in> fst ` set wm. s \<in> home_stages parts (pp - 1) tied w}"
      unfolding keep eq by auto
    then show ?thesis unfolding shards shards_of_set eq(1) by blast
  qed
  then show thesis by (intro that [OF first(2)]) simp_all
qed

section \<open>Every replica receives every weight\<close>

lemma replica_rank_served:
  assumes "list_all2 (\<lambda>k n. (k, n) \<in> set rtn) ranks nodes" "int (length ranks) = reps * pp"
    and "0 \<le> r" "r < reps" "0 \<le> s" "s < pp"
  shows "\<exists>k. (k, nodes ! nat (r * pp + s)) \<in> set rtn \<and>
    k \<in> set (map (\<lambda>r. ranks ! nat (r * pp + s)) [0..reps - 1])"
proof -
  have "nat (r * pp + s) < length ranks" using replica_slot_bound [OF assms(3-6)] assms(2) by linarith
  then have "(ranks ! nat (r * pp + s), nodes ! nat (r * pp + s)) \<in> set rtn"
    by (rule list_all2_nthD [OF assms(1)])
  then show ?thesis using assms(3,4) by auto
qed

lemma layer_weight_home:
  "layer_search w \<noteq> None \<Longrightarrow> \<exists>s. home_stages parts final tied w = {s}"
  by (auto simp: home_stages_def)

text \<open>
  (C39) When the staging of a model for pipeline parallelism is planned without error, every replica gets
  the whole model: for every weight of the index there is a stage whose plan holds the weight and
  the shard file that stores it and has the rank of the replica's node for that stage among its
  recipients. A weight of a numbered layer is planned for exactly one stage, no rank receives the
  bundles of two stages, and the shard files of a stage are exactly those that store its weights.
\<close>

theorem pp_distribution_complete:
  assumes plan: "stage_pp_sharded M ok rtn nodes pp reps penv env = Inr plan"
    and index: "read_index M = Inr wm" and pp: "1 \<le> pp"
  shows "length plan = nat pp \<and>
    (\<forall>r \<in> {0..<reps}. \<forall>w \<in> fst ` set wm. \<exists>s \<in> {0..<pp}.
       w \<in> set (sp_weights (plan ! nat s)) \<and> the (map_of wm w) \<in> set (sp_shards (plan ! nat s)) \<and>
       (\<exists>k. (k, nodes ! nat (r * pp + s)) \<in> set rtn \<and> k \<in> set (sp_recipients (plan ! nat s)))) \<and>
    (\<forall>w \<in> fst ` set wm. layer_search w \<noteq> None \<longrightarrow>
       (\<exists>!s. s \<in> {0..<pp} \<and> w \<in> set (sp_weights (plan ! nat s)))) \<and>
    (\<forall>s \<in> {0..<pp}. \<forall>t \<in> {0..<pp}. s \<noteq> t \<longrightarrow>
       set (sp_recipients (plan ! nat s)) \<inter> set (sp_recipients (plan ! nat t)) = {}) \<and>
    (\<forall>s \<in> {0..<pp}. set (sp_shards (plan ! nat s))
       = (\<lambda>w. the (map_of wm w)) ` set (sp_weights (plan ! nat s)))"
proof -
  obtain ranks where ranks: "list_all2 (\<lambda>k n. (k, n) \<in> set rtn) ranks nodes" "distinct ranks"
      "int (length ranks) = reps * pp" and len: "length plan = nat pp"
    and recipients: "\<And>s. 0 \<le> s \<Longrightarrow> s < pp \<Longrightarrow>
       sp_recipients (plan ! nat s) = sort (map (\<lambda>r. ranks ! nat (r * pp + s)) [0..reps - 1])"
    by (rule stage_pp_sharded_Inr [OF plan]) blast
  obtain L tied parts where parts: "pp_partitions L pp penv env = Inr parts"
    and weights: "\<And>s. 0 \<le> s \<Longrightarrow> s < pp \<Longrightarrow> set (sp_weights (plan ! nat s))
        = {w \<in> fst ` set wm. s \<in> home_stages parts (pp - 1) tied w}"
    and shards: "\<And>s. 0 \<le> s \<Longrightarrow> s < pp \<Longrightarrow> set (sp_shards (plan ! nat s))
        = (\<lambda>w. the (map_of wm w)) ` set (sp_weights (plan ! nat s))"
    by (rule planned_stage_contents [OF plan index pp]) blast
  note home = home_stages_within [OF parts, of tied]
  note served = replica_rank_served [OF ranks(1,3)]
  have homed: "\<exists>s \<in> {0..<pp}. w \<in> set (sp_weights (plan ! nat s)) \<and> the (map_of wm w) \<in> set (sp_shards (plan ! nat s))"
    if "w \<in> fst ` set wm" for w
  proof -
    obtain s where "s \<in> home_stages parts (pp - 1) tied w" "0 \<le> s" "s < pp" using home [of w] by force
    then show ?thesis using that by (intro bexI [of _ s]) (auto simp: weights shards)
  qed
  have unique: "\<exists>!s. s \<in> {0..<pp} \<and> w \<in> set (sp_weights (plan ! nat s))"
    if w: "w \<in> fst ` set wm" "layer_search w \<noteq> None" for w
  proof -
    obtain s where s: "home_stages parts (pp - 1) tied w = {s}" using layer_weight_home [OF w(2)] by blast
    then have "w \<in> set (sp_weights (plan ! nat t)) \<longleftrightarrow> t = s" if "0 \<le> t" "t < pp" for t
      using weights [OF that] w(1) by simp
    moreover have "0 \<le> s" "s < pp" using home(2) [of w] s by simp_all
    ultimately show ?thesis by (metis atLeastLessThan_iff)
  qed
  have disjoint: "set (sp_recipients (plan ! nat s)) \<inter> set (sp_recipients (plan ! nat t)) = {}"
    if "s \<in> {0..<pp}" "t \<in> {0..<pp}" "s \<noteq> t" for s t
    using stage_recipients_disjoint [OF ranks(2,3), of s t] that by (simp add: recipients)
  have "\<forall>r \<in> {0..<reps}. \<forall>w \<in> fst ` set wm. \<exists>s \<in> {0..<pp}.
       w \<in> set (sp_weights (plan ! nat s)) \<and> the (map_of wm w) \<in> set (sp_shards (plan ! nat s)) \<and>
       (\<exists>k. (k, nodes ! nat (r * pp + s)) \<in> set rtn \<and> k \<in> set (sp_recipients (plan ! nat s)))"
    using homed served recipients by (metis atLeastLessThan_iff set_sort)
  moreover have "\<forall>s \<in> {0..<pp}. set (sp_shards (plan ! nat s))
       = (\<lambda>w. the (map_of wm w)) ` set (sp_weights (plan ! nat s))"
    using shards by simp
  moreover have "\<forall>w \<in> fst ` set wm. layer_search w \<noteq> None \<longrightarrow>
       (\<exists>!s. s \<in> {0..<pp} \<and> w \<in> set (sp_weights (plan ! nat s)))"
    using unique by (intro ballI impI)
  moreover have "\<forall>s \<in> {0..<pp}. \<forall>t \<in> {0..<pp}. s \<noteq> t \<longrightarrow>
       set (sp_recipients (plan ! nat s)) \<inter> set (sp_recipients (plan ! nat t)) = {}"
    using disjoint by (intro ballI impI)
  ultimately show ?thesis using len by (intro conjI)
qed

definition sample_repository :: model_source where
  "sample_repository =
     \<lparr>ms_config = Some (PDict [(PStr ''num_hidden_layers'', PInt 3), (PStr ''tie_word_embeddings'', PBool True)]),
      ms_indexes = [(''model.safetensors.index.json'', Some (PDict [(PStr ''weight_map'', PDict
        [(PStr ''model.embed_tokens.weight'', PStr ''s1''), (PStr ''model.layers.0.a'', PStr ''s1''),
         (PStr ''model.layers.1.a'', PStr ''s2''), (PStr ''model.layers.2.a'', PStr ''s2''),
         (PStr ''model.norm.weight'', PStr ''s3'')])]))],
      ms_resolves = (\<lambda>f. True), ms_size = (\<lambda>f. 7), ms_files = []\<rparr>"

definition sample_rank_nodes :: "(int \<times> string) list" where
  "sample_rank_nodes = [(0, ''a''), (1, ''b''), (2, ''c''), (3, ''d'')]"

theorem pp_distribution_complete_witness:
  "\<exists>plan wm. stage_pp_sharded sample_repository True sample_rank_nodes [''d'', ''a'', ''c'', ''b''] 2 2 None None = Inr plan \<and>
     read_index sample_repository = Inr wm \<and> length wm = 5 \<and> length plan = 2 \<and>
     map sp_recipients plan = [[2, 3], [0, 1]] \<and> map sp_shards plan = [[''s1'', ''s2''], [''s1'', ''s2'', ''s3'']] \<and>
     set (sp_shards (plan ! 0)) = (\<lambda>w. the (map_of wm w)) ` set (sp_weights (plan ! 0))"
proof -
  let ?run = "stage_pp_sharded sample_repository True sample_rank_nodes [''d'', ''a'', ''c'', ''b''] 2 2 None None"
  have facts: "\<not> isl ?run" "\<not> isl (read_index sample_repository)" "length (projr (read_index sample_repository)) = 5"
    "map sp_recipients (projr ?run) = [[2, 3], [0, 1]]" "map sp_shards (projr ?run) = [[''s1'', ''s2''], [''s1'', ''s2'', ''s3'']]"
    by code_simp+
  then obtain plan wm where run: "?run = Inr plan" "read_index sample_repository = Inr wm"
    by (metis isl_def obj_sumE)
  have zero: "0 \<in> {0..<2 :: int}" and "1 \<le> (2 :: int)" by simp_all
  then have "length plan = 2" "\<forall>s \<in> {0..<2}. set (sp_shards (plan ! nat s))
      = (\<lambda>w. the (map_of wm w)) ` set (sp_weights (plan ! nat s))"
    using pp_distribution_complete [OF run] by simp_all
  with bspec [OF this(2) zero] facts show ?thesis by (simp add: run)
qed

section \<open>The bundle of a stage is its exact inventory\<close>

text \<open>
  No weight file and no index of the source gets into a bundle beside the selected shards, and the
  pruned index refers to exactly the linked shards.
\<close>

lemma bundle_inventory:
  assumes "build_stage_dir M pp stage penv env = Inr b"
  shows "set (sb_shards b) = set (map snd (sb_weight_map b))"
    and "\<forall>f \<in> set (sb_metadata b). f \<notin> set (sb_shards b) \<and> ms_resolves M f \<and>
      (\<forall>x \<in> set model_weight_suffixes. \<not> ends_with (last (path_parts f)) x)"
    and "\<exists>shards keep. plan_stage_shards M pp stage penv env = Inr (shards, keep, sb_bytes b) \<and>
      sb_shards b = shards \<and> map fst (sb_weight_map b) = keep"
proof -
  obtain wm L tied keep unknown where inputs: "stage_inputs M pp stage penv env = Inr (wm, L, tied)"
    "weights_for_stage wm L pp stage tied penv env = Inr (keep, unknown)"
    and resolved: "\<not> list_ex (\<lambda>f. \<not> ms_resolves M f) (sb_metadata b)"
    and b: "sb_shards b = shards_of wm keep" "sb_weight_map b = map (\<lambda>w. (w, the (map_of wm w))) keep"
      "sb_metadata b = filter (is_stage_metadata (sb_shards b)) (ms_files M)"
      "sb_bytes b = sum_list (map (ms_size M) (shards_of wm keep))"
    using assms by (auto simp: build_stage_dir_def check_simps Let_def split: if_splits)
  show "set (sb_shards b) = set (map snd (sb_weight_map b))" by (simp add: b image_image)
  have "is_stage_metadata (sb_shards b) f" if "f \<in> set (sb_metadata b)" for f
    using that unfolding b(3) by simp
  then show "\<forall>f \<in> set (sb_metadata b). f \<notin> set (sb_shards b) \<and> ms_resolves M f \<and>
      (\<forall>x \<in> set model_weight_suffixes. \<not> ends_with (last (path_parts f)) x)"
    using resolved by (simp add: is_stage_metadata_def list_ex_iff Let_def)
  show "\<exists>shards keep. plan_stage_shards M pp stage penv env = Inr (shards, keep, sb_bytes b) \<and>
      sb_shards b = shards \<and> map fst (sb_weight_map b) = keep"
    by (simp add: plan_stage_shards_def inputs b comp_def Let_def)
qed

end
