(* ===== verification/Lease.thy ===== *)
theory Lease
  imports Exa_Prelude
begin

text \<open>
  The cross-host exclusive lease of \<^verbatim>\<open>src/exaserve/state/atomic.py\<close>: \<^verbatim>\<open>ExclusiveLease\<close> with \<^verbatim>\<open>acquire\<close>,
  \<^verbatim>\<open>renew\<close>, \<^verbatim>\<open>release\<close>, \<^verbatim>\<open>holds_lease\<close> and the arbitration lock.

  Many processes share one lease path on a file system. A process is a program counter: every system
  call of the source that reads or changes the lease file or the arbitration file is a step of its
  own, and the steps of all processes, the passing of time and the deaths of processes interleave in
  any order. An entry of the directory is an inode number, so that a process which writes to a file that
  was replaced under it writes to nothing, and the lock is dropped only by its inode. The identity of an
  owner is kept with the fields that decide anything (\<^verbatim>\<open>note\<close> and \<^verbatim>\<open>stole_from\<close> are left out); the random
  fencing tokens of \<^verbatim>\<open>secrets.token_hex\<close> are numbers that are never reused, and so are process ids.
\<close>

section \<open>Files and processes\<close>

record lease_owner =
  ow_host :: string
  ow_pid :: int
  ow_acquired_at :: real
  ow_ttl_s :: real
  ow_token :: "nat option"

text \<open>A created file is blank until its owner is written.\<close>

record lease_file =
  lf_inode :: nat
  lf_mtime :: real
  lf_owner :: "lease_owner option"

record lock_file =
  lk_inode :: nat
  lk_mtime :: real

datatype lease_goal = Steal | Renew | Release

datatype lease_reply = Acquired | LeaseHeld | Renewed | LeaseLost | Released | NotReleased

text \<open>
  Where a process is: before the exclusive create, before writing the identity into the created inode,
  before reading the owner of an existing lease, in \<^verbatim>\<open>_try_arbitration\<close> (before an exclusive create of the
  lock, before looking at the lock of another, before removing a stale one), holding the lock, about to
  publish what was decided under the lock (with the lease file that was read then), and in
  \<^verbatim>\<open>_release_arbitration\<close>.
\<close>

datatype lease_pc =
    Idle
  | Create
  | Fill nat
  | Inspect
  | Lock lease_goal bool
  | LookAtLock lease_goal
  | UnlinkStale lease_goal
  | Locked lease_goal nat
  | Publish lease_goal nat "lease_file option"
  | Unlock lease_goal nat lease_reply
  | DropLock lease_goal nat lease_reply

record lease_process =
  lp_host :: string
  lp_pid :: int
  lp_ttl_s :: real
  lp_held :: bool
  lp_token :: "nat option"
  lp_pc :: lease_pc
  lp_reply :: "lease_reply option"

record lease_world =
  lw_now :: real
  lw_dead :: "(string \<times> int) set"
  lw_lease :: "lease_file option"
  lw_lock :: "lock_file option"
  lw_next_inode :: nat
  lw_next_token :: nat

definition new_lease :: "string \<Rightarrow> int \<Rightarrow> real \<Rightarrow> lease_process" where
  "new_lease host pid ttl =
     \<lparr>lp_host = host, lp_pid = pid, lp_ttl_s = ttl, lp_held = False, lp_token = None, lp_pc = Idle, lp_reply = None\<rparr>"

section \<open>Reading the lease\<close>

definition identity :: "lease_world \<Rightarrow> lease_process \<Rightarrow> lease_owner" where
  "identity W p =
     \<lparr>ow_host = lp_host p, ow_pid = lp_pid p, ow_acquired_at = lw_now W, ow_ttl_s = lp_ttl_s p, ow_token = lp_token p\<rparr>"

text \<open>\<^verbatim>\<open>unreadable_owner\<close>: a file without a readable owner is as old as its modification time says.\<close>

definition unreadable_owner :: "lease_world \<Rightarrow> lease_process \<Rightarrow> lease_file \<Rightarrow> lease_owner" where
  "unreadable_owner W p f =
     \<lparr>ow_host = ''?'', ow_pid = - 1, ow_acquired_at = lw_now W - max 0 (lw_now W - lf_mtime f),
      ow_ttl_s = lp_ttl_s p, ow_token = None\<rparr>"

definition owner_of :: "lease_world \<Rightarrow> lease_process \<Rightarrow> lease_file \<Rightarrow> lease_owner" where
  "owner_of W p f = (case lf_owner f of Some ow \<Rightarrow> ow | None \<Rightarrow> unreadable_owner W p f)"

definition read_owner :: "lease_world \<Rightarrow> lease_process \<Rightarrow> lease_owner option" where
  "read_owner W p = map_option (owner_of W p) (lw_lease W)"

definition current_token :: "lease_world \<Rightarrow> lease_process \<Rightarrow> nat option" where
  "current_token W p = (case read_owner W p of None \<Rightarrow> None | Some ow \<Rightarrow> ow_token ow)"

definition holds_lease :: "lease_world \<Rightarrow> lease_process \<Rightarrow> bool" where
  "holds_lease W p = (lp_held p \<and> lp_token p \<noteq> None \<and> current_token W p = lp_token p)"

definition expired :: "lease_world \<Rightarrow> lease_process \<Rightarrow> lease_owner \<Rightarrow> bool" where
  "expired W p ow =
     (if ow_ttl_s ow \<le> 0 then False
      else if ow_ttl_s ow < lw_now W - ow_acquired_at ow then True
      else ow_host ow = lp_host p \<and> 0 < ow_pid ow \<and> (ow_host ow, ow_pid ow) \<in> lw_dead W)"

section \<open>Calls\<close>

definition give :: "lease_reply \<Rightarrow> lease_process \<Rightarrow> lease_process" where
  "give r p = p\<lparr>lp_pc := Idle, lp_reply := Some r\<rparr>"

definition acquire :: "lease_world \<Rightarrow> lease_process \<Rightarrow> lease_process" where
  "acquire W p =
     (if lp_held p
      then if holds_lease W p then give Acquired p else p\<lparr>lp_held := False, lp_token := None, lp_pc := Create\<rparr>
      else p\<lparr>lp_pc := Create\<rparr>)"

definition renew :: "lease_process \<Rightarrow> lease_process" where
  "renew p = p\<lparr>lp_pc := Lock Renew False\<rparr>"

definition release :: "lease_process \<Rightarrow> lease_process" where
  "release p = (if \<not> lp_held p then give Released p else p\<lparr>lp_pc := Lock Release False\<rparr>)"

text \<open>\<^verbatim>\<open>_try_arbitration\<close> returned \<^verbatim>\<open>None\<close>: a taker sleeps and tries again, the others give up.\<close>

definition no_lock :: "lease_goal \<Rightarrow> lease_process \<Rightarrow> lease_process" where
  "no_lock g p =
     (case g of Steal \<Rightarrow> p\<lparr>lp_pc := Create\<rparr> | Renew \<Rightarrow> give LeaseLost p | Release \<Rightarrow> give NotReleased p)"

text \<open>After the lock: a released lease is forgotten.\<close>

definition finish :: "lease_goal \<Rightarrow> lease_reply \<Rightarrow> lease_process \<Rightarrow> lease_process" where
  "finish g r p = give r (if g = Release then p\<lparr>lp_held := False, lp_token := None\<rparr> else p)"

definition new_file :: "lease_world \<Rightarrow> lease_owner option \<Rightarrow> lease_file" where
  "new_file W ow = \<lparr>lf_inode = lw_next_inode W, lf_mtime = lw_now W, lf_owner = ow\<rparr>"

section \<open>Steps\<close>

definition step_create :: "lease_world \<Rightarrow> lease_process \<Rightarrow> lease_world \<times> lease_process" where
  "step_create W p =
     (let p' = p\<lparr>lp_token := Some (lw_next_token W)\<rparr>; W' = W\<lparr>lw_next_token := lw_next_token W + 1\<rparr>
      in case lw_lease W of
           None \<Rightarrow> (W'\<lparr>lw_lease := Some (new_file W None), lw_next_inode := lw_next_inode W + 1\<rparr>,
                    p'\<lparr>lp_pc := Fill (lw_next_inode W)\<rparr>)
         | Some f \<Rightarrow> (W', p'\<lparr>lp_pc := Inspect\<rparr>))"

definition step_fill :: "nat \<Rightarrow> lease_world \<Rightarrow> lease_process \<Rightarrow> lease_world \<times> lease_process" where
  "step_fill i W p =
     ((case lw_lease W of
         None \<Rightarrow> W
       | Some f \<Rightarrow> if lf_inode f = i
                  then W\<lparr>lw_lease := Some (f\<lparr>lf_mtime := lw_now W, lf_owner := Some (identity W p)\<rparr>)\<rparr> else W),
      give Acquired (p\<lparr>lp_held := True\<rparr>))"

definition step_inspect :: "lease_world \<Rightarrow> lease_process \<Rightarrow> lease_process" where
  "step_inspect W p =
     (case read_owner W p of
        None \<Rightarrow> p\<lparr>lp_pc := Create\<rparr>
      | Some ow \<Rightarrow> if \<not> expired W p ow then give LeaseHeld p else p\<lparr>lp_pc := Lock Steal False\<rparr>)"

definition step_lock :: "lease_goal \<Rightarrow> bool \<Rightarrow> lease_world \<Rightarrow> lease_process \<Rightarrow> lease_world \<times> lease_process" where
  "step_lock g again W p =
     (case lw_lock W of
        None \<Rightarrow> (W\<lparr>lw_lock := Some \<lparr>lk_inode = lw_next_inode W, lk_mtime = lw_now W\<rparr>,
                   lw_next_inode := lw_next_inode W + 1\<rparr>, p\<lparr>lp_pc := Locked g (lw_next_inode W)\<rparr>)
      | Some lk \<Rightarrow> (W, if again then no_lock g p else p\<lparr>lp_pc := LookAtLock g\<rparr>))"

definition step_look :: "lease_goal \<Rightarrow> lease_world \<Rightarrow> lease_process \<Rightarrow> lease_process" where
  "step_look g W p =
     (case lw_lock W of
        None \<Rightarrow> p\<lparr>lp_pc := Lock g True\<rparr>
      | Some lk \<Rightarrow> if 60 < lw_now W - lk_mtime lk then p\<lparr>lp_pc := UnlinkStale g\<rparr> else no_lock g p)"

text \<open>What is decided while holding the lock.\<close>

definition step_decide :: "lease_goal \<Rightarrow> nat \<Rightarrow> lease_world \<Rightarrow> lease_process \<Rightarrow> lease_process" where
  "step_decide g i W p =
     p\<lparr>lp_pc :=
        (case g of
           Steal \<Rightarrow> (case read_owner W p of
                       Some ow \<Rightarrow> if \<not> expired W p ow then Unlock Steal i LeaseHeld else Publish Steal i (lw_lease W)
                     | None \<Rightarrow> Publish Steal i (lw_lease W))
         | Renew \<Rightarrow> if holds_lease W p then Publish Renew i (lw_lease W) else Unlock Renew i LeaseLost
         | Release \<Rightarrow> if holds_lease W p then Publish Release i (lw_lease W) else Unlock Release i Released)\<rparr>"

definition step_publish :: "lease_goal \<Rightarrow> nat \<Rightarrow> lease_world \<Rightarrow> lease_process \<Rightarrow> lease_world \<times> lease_process" where
  "step_publish g i W p =
     (let written = W\<lparr>lw_lease := Some (new_file W (Some (identity W p))), lw_next_inode := lw_next_inode W + 1\<rparr>
      in case g of
           Steal \<Rightarrow> (written, p\<lparr>lp_held := True, lp_pc := Unlock Steal i Acquired\<rparr>)
         | Renew \<Rightarrow> (written, p\<lparr>lp_pc := Unlock Renew i Renewed\<rparr>)
         | Release \<Rightarrow> (W\<lparr>lw_lease := None\<rparr>, p\<lparr>lp_pc := Unlock Release i Released\<rparr>))"

definition step_unlock ::
    "lease_goal \<Rightarrow> nat \<Rightarrow> lease_reply \<Rightarrow> lease_world \<Rightarrow> lease_process \<Rightarrow> lease_process" where
  "step_unlock g i r W p =
     (case lw_lock W of
        None \<Rightarrow> finish g r p
      | Some lk \<Rightarrow> if lk_inode lk = i then p\<lparr>lp_pc := DropLock g i r\<rparr> else finish g r p)"

fun lease_step :: "lease_pc \<Rightarrow> lease_world \<Rightarrow> lease_process \<Rightarrow> lease_world \<times> lease_process" where
  "lease_step Idle W p = (W, p)"
| "lease_step Create W p = step_create W p"
| "lease_step (Fill i) W p = step_fill i W p"
| "lease_step Inspect W p = (W, step_inspect W p)"
| "lease_step (Lock g again) W p = step_lock g again W p"
| "lease_step (LookAtLock g) W p = (W, step_look g W p)"
| "lease_step (UnlinkStale g) W p = (W\<lparr>lw_lock := None\<rparr>, p\<lparr>lp_pc := Lock g True\<rparr>)"
| "lease_step (Locked g i) W p = (W, step_decide g i W p)"
| "lease_step (Publish g i seen) W p = step_publish g i W p"
| "lease_step (Unlock g i r) W p = (W, step_unlock g i r W p)"
| "lease_step (DropLock g i r) W p = (W\<lparr>lw_lock := None\<rparr>, finish g r p)"

section \<open>Processes that share a lease\<close>

type_synonym lease_system = "lease_world \<times> (nat \<Rightarrow> lease_process)"

definition advance_process :: "nat \<Rightarrow> lease_system \<Rightarrow> lease_system" where
  "advance_process k S =
     (case S of (W, ps) \<Rightarrow> case lease_step (lp_pc (ps k)) W (ps k) of (W', p') \<Rightarrow> (W', ps(k := p')))"

text \<open>
  Runs whose steps are all taken from worlds in which \<open>ok\<close> holds; time does not go backwards.
\<close>

inductive lease_run :: "(lease_world \<Rightarrow> bool) \<Rightarrow> lease_system \<Rightarrow> lease_system \<Rightarrow> bool" for ok S0 where
  start: "lease_run ok S0 S0"
| clock: "lease_run ok S0 (W, ps) \<Longrightarrow> ok W \<Longrightarrow> 0 \<le> d \<Longrightarrow> lease_run ok S0 (W\<lparr>lw_now := lw_now W + d\<rparr>, ps)"
| death: "lease_run ok S0 (W, ps) \<Longrightarrow> ok W \<Longrightarrow> lease_run ok S0 (W\<lparr>lw_dead := insert x (lw_dead W)\<rparr>, ps)"
| acquire: "lease_run ok S0 (W, ps) \<Longrightarrow> ok W \<Longrightarrow> lp_pc (ps k) = Idle \<Longrightarrow>
    lease_run ok S0 (W, ps(k := acquire W (ps k)))"
| renew: "lease_run ok S0 (W, ps) \<Longrightarrow> ok W \<Longrightarrow> lp_pc (ps k) = Idle \<Longrightarrow>
    lease_run ok S0 (W, ps(k := renew (ps k)))"
| release: "lease_run ok S0 (W, ps) \<Longrightarrow> ok W \<Longrightarrow> lp_pc (ps k) = Idle \<Longrightarrow>
    lease_run ok S0 (W, ps(k := release (ps k)))"
| advance: "lease_run ok S0 (W, ps) \<Longrightarrow> ok W \<Longrightarrow> lease_run ok S0 (advance_process k (W, ps))"

text \<open>A path nobody in the system has touched: any lease of somebody else may be there.\<close>

definition lease_start :: "lease_system \<Rightarrow> bool" where
  "lease_start S =
     (case S of (W, ps) \<Rightarrow>
        lw_lock W = None \<and> (\<forall>f. lw_lease W = Some f \<longrightarrow> lf_inode f < lw_next_inode W) \<and>
        (\<forall>k. lp_pc (ps k) = Idle \<and> \<not> lp_held (ps k) \<and> lp_token (ps k) = None))"

text \<open>No arbitration lock is older than the minute after which others remove it as stale.\<close>

definition timely :: "lease_world \<Rightarrow> bool" where
  "timely W = (case lw_lock W of None \<Rightarrow> True | Some lk \<Rightarrow> lw_now W - lk_mtime lk \<le> 60)"

section \<open>Fencing tokens\<close>

lemmas lease_steps =
  step_create_def step_fill_def step_inspect_def step_lock_def step_look_def step_decide_def
  step_publish_def step_unlock_def no_lock_def finish_def give_def

lemmas lease_calls = acquire_def renew_def release_def give_def

definition tokens_ok :: "lease_system \<Rightarrow> bool" where
  "tokens_ok S =
     (case S of (W, ps) \<Rightarrow>
        (\<forall>k t. lp_token (ps k) = Some t \<longrightarrow> t < lw_next_token W) \<and>
        (\<forall>j k t. lp_token (ps j) = Some t \<longrightarrow> lp_token (ps k) = Some t \<longrightarrow> j = k))"

text \<open>A step keeps the token of its process, forgets it, or takes a fresh one.\<close>

lemma lease_step_token:
  assumes "lease_step pc W p = (W', p')"
  shows "lw_next_token W \<le> lw_next_token W' \<and>
    (lp_token p' = lp_token p \<or> lp_token p' = None \<or>
     lp_token p' = Some (lw_next_token W) \<and> lw_next_token W' = lw_next_token W + 1)"
  using assms by (cases pc) (auto simp: lease_steps Let_def split: option.splits lease_goal.splits if_splits)

lemma tokens_ok_update:
  assumes "tokens_ok (W, ps)" "lw_next_token W \<le> lw_next_token W'"
    and "lp_token p' = lp_token (ps k) \<or> lp_token p' = None \<or>
      lp_token p' = Some (lw_next_token W) \<and> lw_next_token W' = lw_next_token W + 1"
  shows "tokens_ok (W', ps(k := p'))"
proof -
  have bound: "t < lw_next_token W" if "lp_token (ps j) = Some t" for j t
    using assms(1) that by (auto simp: tokens_ok_def)
  have uniq: "i = j" if "lp_token (ps i) = Some t" "lp_token (ps j) = Some t" for i j t
    using assms(1) that by (auto simp: tokens_ok_def)
  have new: "t < lw_next_token W' \<and> (lp_token (ps k) = Some t \<or> t = lw_next_token W)" if "lp_token p' = Some t" for t
    using assms(2,3) that bound [of k t] by auto
  have "t < lw_next_token W'" if "lp_token ((ps(k := p')) j) = Some t" for j t
    using that new bound [of j t] assms(2) by (cases "j = k") auto
  moreover have "i = j" if "lp_token ((ps(k := p')) i) = Some t" "lp_token ((ps(k := p')) j) = Some t" for i j t
    using that new [of t] uniq [of _ t] bound [of _ t] by (cases "i = k"; cases "j = k") auto
  ultimately show ?thesis unfolding tokens_ok_def prod.case by blast
qed

lemma lease_run_tokens:
  assumes "lease_run ok S0 S" "lease_start S0"
  shows "tokens_ok S"
  using assms
proof (induction rule: lease_run.induct)
  case start
  then show ?case by (auto simp: lease_start_def tokens_ok_def)
next
  case (advance W ps k)
  then show ?case
    using lease_step_token [of "lp_pc (ps k)" W "ps k"]
    by (auto simp: advance_process_def intro: tokens_ok_update split: prod.splits)
qed (auto simp: lease_calls tokens_ok_def split: if_splits)

lemma one_holder:
  assumes "tokens_ok (W, ps)" "holds_lease W (ps j)" "holds_lease W (ps k)"
  shows "j = k"
  using assms by (auto simp: tokens_ok_def holds_lease_def current_token_def read_owner_def owner_of_def
      unreadable_owner_def split: option.splits)

section \<open>Who may write the lease file\<close>

text \<open>Only the creator of a blank file fills it; a file with an owner is in nobody's hands.\<close>

definition fills_ok :: "lease_system \<Rightarrow> bool" where
  "fills_ok S =
     (case S of (W, ps) \<Rightarrow>
        (\<forall>f. lw_lease W = Some f \<longrightarrow> lf_inode f < lw_next_inode W) \<and>
        (\<forall>k i. lp_pc (ps k) = Fill i \<longrightarrow> i < lw_next_inode W) \<and>
        (\<forall>j k i. lp_pc (ps j) = Fill i \<longrightarrow> lp_pc (ps k) = Fill i \<longrightarrow> j = k) \<and>
        (\<forall>f k. lw_lease W = Some f \<longrightarrow> lf_owner f \<noteq> None \<longrightarrow> lp_pc (ps k) \<noteq> Fill (lf_inode f)))"

text \<open>What a step does to the lease: nothing, except at three program counters.\<close>

lemma lease_step_lease:
  assumes "lease_step pc W p = (W', p')"
  shows "lw_next_inode W \<le> lw_next_inode W' \<and>
    (if \<exists>g i seen. pc = Publish g i seen
     then (lw_lease W' = None \<or>
           (\<exists>ow. lw_lease W' = Some (new_file W (Some ow)) \<and> lw_next_inode W' = lw_next_inode W + 1)) \<and>
          (\<forall>j. lp_pc p' \<noteq> Fill j)
     else if pc = Create \<and> lw_lease W = None
     then lw_lease W' = Some (new_file W None) \<and> lp_pc p' = Fill (lw_next_inode W) \<and>
          lw_next_inode W' = lw_next_inode W + 1
     else if \<exists>i. pc = Fill i \<and> map_option lf_inode (lw_lease W) = Some i
     then map_option lf_inode (lw_lease W') = map_option lf_inode (lw_lease W) \<and> lp_pc p' = Idle
     else lw_lease W' = lw_lease W \<and> (pc = Idle \<and> p' = p \<or> (\<forall>i. lp_pc p' \<noteq> Fill i)))"
  using assms
  by (cases pc) (auto simp: lease_steps Let_def split: option.splits lease_goal.splits if_splits)

lemma fills_ok_step:
  assumes "fills_ok (W, ps)" "lease_step (lp_pc (ps k)) W (ps k) = (W', p')"
  shows "fills_ok (W', ps(k := p'))"
proof -
  have old: "\<And>f. lw_lease W = Some f \<Longrightarrow> lf_inode f < lw_next_inode W"
      "\<And>j i. lp_pc (ps j) = Fill i \<Longrightarrow> i < lw_next_inode W"
      "\<And>j l i. lp_pc (ps j) = Fill i \<Longrightarrow> lp_pc (ps l) = Fill i \<Longrightarrow> j = l"
      "\<And>f j. lw_lease W = Some f \<Longrightarrow> lf_owner f \<noteq> None \<Longrightarrow> lp_pc (ps j) \<noteq> Fill (lf_inode f)"
    using assms(1) by (auto simp: fills_ok_def)
  note step = lease_step_lease [OF assms(2)]
  consider (publish) g i seen where "lp_pc (ps k) = Publish g i seen"
    | (create) "lp_pc (ps k) = Create" "lw_lease W = None"
    | (fill) i where "lp_pc (ps k) = Fill i" "map_option lf_inode (lw_lease W) = Some i"
    | (other) "\<nexists>g i seen. lp_pc (ps k) = Publish g i seen" "\<not> (lp_pc (ps k) = Create \<and> lw_lease W = None)"
        "\<nexists>i. lp_pc (ps k) = Fill i \<and> map_option lf_inode (lw_lease W) = Some i"
    by metis
  then show ?thesis
  proof cases
    case publish
    then show ?thesis using step old by (fastforce simp: fills_ok_def new_file_def)
  next
    case create
    then show ?thesis using step old by (fastforce simp: fills_ok_def new_file_def)
  next
    case fill
    have alone: "lp_pc (ps j) \<noteq> Fill i" if "j \<noteq> k" for j using old(3) [of j i k] fill(1) that by blast
    obtain f f' where f: "lw_lease W = Some f" "lw_lease W' = Some f'" "lf_inode f = i" "lf_inode f' = i"
      and idle: "lp_pc p' = Idle"
      using fill step by auto
    have bound: "j < lw_next_inode W'" if "j < lw_next_inode W" for j using step that by linarith
    show ?thesis
      unfolding fills_ok_def prod.case fun_upd_apply
      using f idle alone bound [OF old(1) [OF f(1)]] old(2,3) bound by (auto split: if_splits)
  next
    case other
    then have "lw_lease W' = lw_lease W" "lp_pc (ps k) = Idle \<and> p' = ps k \<or> (\<forall>i. lp_pc p' \<noteq> Fill i)"
        "lw_next_inode W \<le> lw_next_inode W'"
      using step by simp_all
    then show ?thesis using old by (fastforce simp: fills_ok_def)
  qed
qed

lemma lease_run_fills:
  assumes "lease_run ok S0 S" "lease_start S0"
  shows "fills_ok S"
  using assms
proof (induction rule: lease_run.induct)
  case start
  then show ?case by (auto simp: lease_start_def fills_ok_def)
next
  case (advance W ps k)
  then show ?case by (auto simp: advance_process_def intro: fills_ok_step split: prod.splits)
qed (auto simp: lease_calls fills_ok_def split: if_splits)

section \<open>The arbitration lock\<close>

text \<open>The inode of the lock a process believes to hold.\<close>

fun lock_of :: "lease_pc \<Rightarrow> nat option" where
  "lock_of (Locked g i) = Some i"
| "lock_of (Publish g i seen) = Some i"
| "lock_of (Unlock g i r) = Some i"
| "lock_of (DropLock g i r) = Some i"
| "lock_of _ = None"

definition locks_ok :: "lease_system \<Rightarrow> bool" where
  "locks_ok S =
     (case S of (W, ps) \<Rightarrow>
        (\<forall>k i. lock_of (lp_pc (ps k)) = Some i \<longrightarrow> map_option lk_inode (lw_lock W) = Some i) \<and>
        (\<forall>j k. lock_of (lp_pc (ps j)) \<noteq> None \<longrightarrow> lock_of (lp_pc (ps k)) \<noteq> None \<longrightarrow> j = k) \<and>
        (\<forall>k g. lp_pc (ps k) \<noteq> UnlinkStale g))"

lemma lease_step_lock:
  assumes "lease_step pc W p = (W', p')" "timely W" "\<forall>g. pc \<noteq> UnlinkStale g" "lp_pc p = pc"
  shows "(\<forall>g. lp_pc p' \<noteq> UnlinkStale g) \<and>
    (if \<exists>g i r. pc = DropLock g i r then lock_of (lp_pc p') = None
     else if \<exists>g a. pc = Lock g a \<and> lw_lock W = None
     then lock_of (lp_pc p') = map_option lk_inode (lw_lock W')
     else lw_lock W' = lw_lock W \<and> (lock_of (lp_pc p') = lock_of pc \<or> lock_of (lp_pc p') = None))"
  using assms
  by (cases pc) (auto simp: lease_steps Let_def timely_def split: option.splits lease_goal.splits if_splits)

lemma locks_ok_step:
  assumes "locks_ok (W, ps)" "lease_step (lp_pc (ps k)) W (ps k) = (W', p')" "timely W"
  shows "locks_ok (W', ps(k := p'))"
proof -
  have old: "\<And>j i. lock_of (lp_pc (ps j)) = Some i \<Longrightarrow> map_option lk_inode (lw_lock W) = Some i"
      "\<And>j l. lock_of (lp_pc (ps j)) \<noteq> None \<Longrightarrow> lock_of (lp_pc (ps l)) \<noteq> None \<Longrightarrow> j = l"
      "\<And>j g. lp_pc (ps j) \<noteq> UnlinkStale g"
    using assms(1) by (auto simp: locks_ok_def)
  note step = lease_step_lock [OF assms(2,3) _ refl]
  consider (drop) g i r where "lp_pc (ps k) = DropLock g i r"
    | (lock) g a where "lp_pc (ps k) = Lock g a" "lw_lock W = None"
    | (other) "\<nexists>g i r. lp_pc (ps k) = DropLock g i r" "\<nexists>g a. lp_pc (ps k) = Lock g a \<and> lw_lock W = None"
    by metis
  then show ?thesis
  proof cases
    case drop
    then have "lock_of (lp_pc (ps j)) = None" if "j \<noteq> k" for j using old(2) [of j k] that by force
    then show ?thesis using drop step old(3) by (auto simp: locks_ok_def)
  next
    case lock
    then have "lock_of (lp_pc (ps j)) = None" for j using old(1) [of j] by (cases "lock_of (lp_pc (ps j))") auto
    then show ?thesis using lock step old(3) by (auto simp: locks_ok_def)
  next
    case other
    then have "lw_lock W' = lw_lock W" "lock_of (lp_pc p') = lock_of (lp_pc (ps k)) \<or> lock_of (lp_pc p') = None"
        "\<forall>g. lp_pc p' \<noteq> UnlinkStale g"
      using step old(3) by simp_all
    moreover have "lock_of (lp_pc (ps j)) = None" if "j \<noteq> k" "lock_of (lp_pc (ps k)) \<noteq> None" for j
      using old(2) [of j k] that by blast
    ultimately show ?thesis
      using old by (cases "lock_of (lp_pc p') = None") (auto simp: locks_ok_def)
  qed
qed

lemma lease_run_locks:
  assumes "lease_run timely S0 S" "lease_start S0"
  shows "locks_ok S"
  using assms
proof (induction rule: lease_run.induct)
  case start
  then show ?case by (auto simp: lease_start_def locks_ok_def)
next
  case (advance W ps k)
  then show ?case by (auto simp: advance_process_def intro: locks_ok_step split: prod.splits)
qed (auto simp: lease_calls locks_ok_def split: if_splits)

section \<open>What was decided under the lock still holds when it is published\<close>

lemma expired_later:
  assumes "expired W p (owner_of W p f)" "lw_now W \<le> lw_now W'" "lw_dead W \<subseteq> lw_dead W'"
    and "lp_host p' = lp_host p" "lp_ttl_s p' = lp_ttl_s p"
  shows "expired W' p' (owner_of W' p' f)"
  using assms by (auto simp: expired_def owner_of_def unreadable_owner_def split: option.splits if_splits)

text \<open>The lease read under the lock, if it had an owner, is still the lease.\<close>

fun decision_ok :: "lease_world \<Rightarrow> lease_process \<Rightarrow> lease_pc \<Rightarrow> bool" where
  "decision_ok W p (Publish g i seen) =
     ((\<forall>f. seen = Some f \<longrightarrow> lf_owner f \<noteq> None \<longrightarrow> lw_lease W = Some f) \<and>
      (if g = Steal then (\<forall>f. seen = Some f \<longrightarrow> expired W p (owner_of W p f))
       else holds_lease W p \<and> (\<exists>f. seen = Some f \<and> lf_owner f \<noteq> None)))"
| "decision_ok W p pc = True"

definition decisions_ok :: "lease_system \<Rightarrow> bool" where
  "decisions_ok S = (case S of (W, ps) \<Rightarrow> \<forall>k. decision_ok W (ps k) (lp_pc (ps k)))"

lemma holds_lease_iff:
  "holds_lease W p \<longleftrightarrow> lp_held p \<and>
     (\<exists>f ow t. lw_lease W = Some f \<and> lf_owner f = Some ow \<and> ow_token ow = Some t \<and> lp_token p = Some t)"
  by (auto simp: holds_lease_def current_token_def read_owner_def owner_of_def unreadable_owner_def split: option.splits)

definition written_kept :: "lease_world \<Rightarrow> lease_world \<Rightarrow> bool" where
  "written_kept W W' = (\<forall>f. lw_lease W = Some f \<longrightarrow> lf_owner f \<noteq> None \<longrightarrow> lw_lease W' = Some f)"

lemma decision_ok_later:
  assumes "decision_ok W p pc" "lw_now W \<le> lw_now W'" "lw_dead W \<subseteq> lw_dead W'" "written_kept W W'"
  shows "decision_ok W' p pc"
proof (cases pc)
  case (Publish g i seen)
  have held: "holds_lease W' p" if "holds_lease W p"
    using that assms(4) by (auto simp: holds_lease_iff written_kept_def)
  show ?thesis
    using assms(1,4) held expired_later [OF _ assms(2,3) refl refl, of p]
    by (auto simp: Publish written_kept_def split: if_splits)
qed simp_all

lemma lease_step_clock:
  "lease_step pc W p = (W', p') \<Longrightarrow> lw_now W' = lw_now W \<and> lw_dead W' = lw_dead W"
  by (cases pc) (auto simp: lease_steps Let_def split: option.splits lease_goal.splits if_splits)

lemma lease_step_decides:
  assumes "lease_step pc W p = (W', p')" "lp_pc p = pc"
  shows "decision_ok W' p' (lp_pc p')"
proof (cases pc)
  case (Locked g i)
  then have "W' = W" "p' = step_decide g i W p" using assms by auto
  then show ?thesis
    by (cases g) (auto simp: step_decide_def read_owner_def holds_lease_iff expired_def owner_of_def
        unreadable_owner_def split: option.splits)
qed (use assms in \<open>auto simp: lease_steps Let_def split: option.splits lease_goal.splits if_splits\<close>)

lemma lease_step_written:
  assumes "lease_step (lp_pc (ps k)) W (ps k) = (W', p')" "fills_ok (W, ps)" "\<nexists>g i seen. lp_pc (ps k) = Publish g i seen"
  shows "written_kept W W'"
proof -
  have "lp_pc (ps k) \<noteq> Fill (lf_inode f)" if "lw_lease W = Some f" "lf_owner f \<noteq> None" for f
    using assms(2) that by (auto simp: fills_ok_def)
  then show ?thesis
    using lease_step_lease [OF assms(1)] assms(3) by (auto simp: written_kept_def split: if_splits)
qed

lemma decisions_ok_step:
  assumes "decisions_ok (W, ps)" "locks_ok (W, ps)" "fills_ok (W, ps)"
    and step: "lease_step (lp_pc (ps k)) W (ps k) = (W', p')"
  shows "decisions_ok (W', ps(k := p'))"
proof -
  have "decision_ok W' (ps j) (lp_pc (ps j))" if "j \<noteq> k" for j
  proof (cases "\<exists>g i seen. lp_pc (ps k) = Publish g i seen")
    case True
    then have "lock_of (lp_pc (ps k)) \<noteq> None" by auto
    moreover have "lock_of (lp_pc (ps j)) \<noteq> None \<Longrightarrow> lock_of (lp_pc (ps k)) \<noteq> None \<Longrightarrow> j = k"
      using assms(2) unfolding locks_ok_def prod.case by blast
    ultimately have "lock_of (lp_pc (ps j)) = None" using that by blast
    then show ?thesis by (cases "lp_pc (ps j)") simp_all
  next
    case False
    have "decision_ok W (ps j) (lp_pc (ps j))" using assms(1) by (simp add: decisions_ok_def)
    then show ?thesis
      by (rule decision_ok_later) (use lease_step_written [OF step assms(3) False] lease_step_clock [OF step] in simp_all)
  qed
  moreover have "decision_ok W' p' (lp_pc p')" using lease_step_decides [OF step refl] .
  ultimately show ?thesis by (simp add: decisions_ok_def)
qed

lemma lease_run_decisions:
  assumes "lease_run timely S0 S" "lease_start S0"
  shows "decisions_ok S"
  using assms
proof (induction rule: lease_run.induct)
  case start
  then show ?case by (auto simp: lease_start_def decisions_ok_def)
next
  case (clock W ps d)
  have "decision_ok (W\<lparr>lw_now := lw_now W + d\<rparr>) (ps j) (lp_pc (ps j))" for j
    by (rule decision_ok_later [of W]) (use clock in \<open>simp_all add: decisions_ok_def written_kept_def\<close>)
  then show ?case by (simp add: decisions_ok_def)
next
  case (death W ps x)
  have "decision_ok (W\<lparr>lw_dead := insert x (lw_dead W)\<rparr>) (ps j) (lp_pc (ps j))" for j
    by (rule decision_ok_later [of W]) (use death in \<open>auto simp: decisions_ok_def written_kept_def\<close>)
  then show ?case by (simp add: decisions_ok_def)
next
  case (advance W ps k)
  then show ?case
    using lease_run_locks [OF advance.hyps(1)] lease_run_fills [OF advance.hyps(1)]
    by (auto simp: advance_process_def intro: decisions_ok_step split: prod.splits)
qed (auto simp: lease_calls decisions_ok_def split: if_splits)

section \<open>Properties\<close>

text \<open>
  (C17) The lease is fenced. In every interleaving of acquisitions, renewals, releases and takeovers, over
  any passage of time and any deaths, at most one process holds the lease by its own check. And as long
  as no arbitration lock gets older than a minute, the step of another process takes the lease
  from its holder only as the publication of a takeover: either of the very lease file that was read
  under the lock, which has expired by then, or of a path that had no readable owner when it was read
  under the lock. No renewal and no release ever touches the lease of another process.
\<close>

theorem lease_fenced:
  assumes "lease_run ok S0 (W, ps)" and "lease_start S0"
  shows "(\<forall>j k. holds_lease W (ps j) \<and> holds_lease W (ps k) \<longrightarrow> j = k) \<and>
    (ok = timely \<longrightarrow> (\<forall>j k W' ps'. holds_lease W (ps j) \<and> j \<noteq> k \<and> advance_process k (W, ps) = (W', ps') \<and>
        \<not> holds_lease W' (ps' j) \<longrightarrow>
        (\<exists>i seen. lp_pc (ps k) = Publish Steal i seen \<and>
           (case seen of None \<Rightarrow> True
            | Some f \<Rightarrow> lf_owner f = None \<or> lw_lease W = Some f \<and> expired W (ps k) (owner_of W (ps k) f)))))"
proof (intro conjI allI impI)
  note tokens = lease_run_tokens [OF assms] and fills = lease_run_fills [OF assms]
  show "j = k" if "holds_lease W (ps j) \<and> holds_lease W (ps k)" for j k
    using one_holder [OF tokens] that by blast
  fix j k W' ps'
  assume "ok = timely"
    and lost: "holds_lease W (ps j) \<and> j \<noteq> k \<and> advance_process k (W, ps) = (W', ps') \<and> \<not> holds_lease W' (ps' j)"
  then have decision: "decision_ok W (ps k) (lp_pc (ps k))"
    using lease_run_decisions [of S0 "(W, ps)"] assms by (simp add: decisions_ok_def)
  obtain p' where step: "lease_step (lp_pc (ps k)) W (ps k) = (W', p')" and ps': "ps' j = ps j"
    using lost by (auto simp: advance_process_def split: prod.splits)
  have "\<not> written_kept W W'"
    using lost ps' by (auto simp: holds_lease_iff written_kept_def)
  then obtain g i seen where pc: "lp_pc (ps k) = Publish g i seen"
    using lease_step_written [OF step fills] by blast
  have "\<not> holds_lease W (ps k)" using one_holder [OF tokens] lost by blast
  with decision pc have "g = Steal" by (auto split: if_splits)
  with decision pc show "\<exists>i seen. lp_pc (ps k) = Publish Steal i seen \<and>
           (case seen of None \<Rightarrow> True
            | Some f \<Rightarrow> lf_owner f = None \<or> lw_lease W = Some f \<and> expired W (ps k) (owner_of W (ps k) f))"
    by (auto split: option.splits)
qed

section \<open>Schedules\<close>

datatype lease_event = Wait real | CallAcquire nat | CallRenew nat | CallRelease nat | Step nat

fun play :: "lease_event \<Rightarrow> lease_system \<Rightarrow> lease_system" where
  "play (Wait d) (W, ps) = (W\<lparr>lw_now := lw_now W + max 0 d\<rparr>, ps)"
| "play (CallAcquire k) (W, ps) = (if lp_pc (ps k) = Idle then (W, ps(k := acquire W (ps k))) else (W, ps))"
| "play (CallRenew k) (W, ps) = (if lp_pc (ps k) = Idle then (W, ps(k := renew (ps k))) else (W, ps))"
| "play (CallRelease k) (W, ps) = (if lp_pc (ps k) = Idle then (W, ps(k := release (ps k))) else (W, ps))"
| "play (Step k) S = advance_process k S"

fun play_all :: "lease_event list \<Rightarrow> lease_system \<Rightarrow> lease_system" where
  "play_all [] S = S"
| "play_all (e # es) S = play_all es (play e S)"

fun always_timely :: "lease_event list \<Rightarrow> lease_system \<Rightarrow> bool" where
  "always_timely [] S = True"
| "always_timely (e # es) S = (timely (fst S) \<and> always_timely es (play e S))"

lemma lease_run_play: "lease_run timely S0 S \<Longrightarrow> timely (fst S) \<Longrightarrow> lease_run timely S0 (play e S)"
  by (cases S; cases e) (auto intro: lease_run.intros)

lemma lease_run_play_all: "lease_run timely S0 S \<Longrightarrow> always_timely es S \<Longrightarrow> lease_run timely S0 (play_all es S)"
proof (induction es arbitrary: S)
  case (Cons e es)
  then show ?case using lease_run_play [of S0 S e] by simp
qed simp

definition fresh_path :: lease_system where
  "fresh_path =
     (\<lparr>lw_now = 0, lw_dead = {}, lw_lease = None, lw_lock = None, lw_next_inode = 0, lw_next_token = 0\<rparr>,
      \<lambda>k. new_lease ''host'' (int k + 1) 10)"

lemma fresh_path_start: "lease_start fresh_path"
  by (simp add: lease_start_def fresh_path_def new_lease_def)

text \<open>
  Process 0 holds the lease until after it has expired, process 2 finds it expired and goes for the lock,
  process 0 releases, process 2 gets the lock and finds no lease, and process 1 acquires the free path.
\<close>

definition race :: "lease_event list" where
  "race =
     [CallAcquire 0, Step 0, Step 0, Wait 11, CallAcquire 2, Step 2, Step 2,
      CallRelease 0, Step 0, Step 0, Step 0, Step 0, Step 0, Step 2, Step 2, CallAcquire 1, Step 1, Step 1]"

definition race_view :: "lease_system \<Rightarrow> bool" where
  "race_view S =
     (case S of (W, ps) \<Rightarrow>
        holds_lease W (ps 1) \<and> lp_reply (ps 1) = Some Acquired \<and> lp_pc (ps 1) = Idle \<and>
        (case read_owner W (ps 2) of None \<Rightarrow> False | Some ow \<Rightarrow> \<not> expired W (ps 2) ow) \<and>
        (case advance_process 2 S of (W', ps') \<Rightarrow>
           \<not> holds_lease W' (ps' 1) \<and> lp_held (ps' 1) \<and> holds_lease W' (ps' 2) \<and> lp_pc (ps 2) = Publish Steal 2 None))"

lemma race_result: "race_view (play_all race fresh_path)" "always_timely race fresh_path"
  by code_simp+

text \<open>
  (C40) Acquisition can lose to a takeover. There is a run in which no arbitration lock is older than a
  minute, a process has acquired the free path by exclusive creation and holds it with its time to
  live ahead of it, and one step of a process that found the path empty under the arbitration lock
  replaces that live lease: both acquisitions have succeeded, and the first holder no longer holds.
\<close>

theorem lease_takeover_race:
  "\<exists>W ps W' ps'. lease_run timely fresh_path (W, ps) \<and> holds_lease W (ps 1) \<and> lp_reply (ps 1) = Some Acquired \<and>
     (case read_owner W (ps 2) of None \<Rightarrow> False | Some ow \<Rightarrow> \<not> expired W (ps 2) ow) \<and>
     advance_process 2 (W, ps) = (W', ps') \<and> lp_held (ps' 1) \<and> \<not> holds_lease W' (ps' 1) \<and> holds_lease W' (ps' 2)"
proof -
  obtain W ps where S: "play_all race fresh_path = (W, ps)" by (meson surj_pair)
  obtain W' ps' where S': "advance_process 2 (W, ps) = (W', ps')" by (meson surj_pair)
  have "lease_run timely fresh_path (W, ps)"
    using lease_run_play_all [OF lease_run.start race_result(2)] by (simp only: S)
  moreover have "race_view (W, ps)" using race_result(1) by (simp only: S)
  ultimately show ?thesis using S' unfolding race_view_def prod.case by blast
qed

theorem lease_fenced_witness:
  "\<exists>W ps. lease_run timely fresh_path (W, ps) \<and> holds_lease W (ps 1) \<and> \<not> holds_lease W (ps 2) \<and>
     (\<exists>i seen. lp_pc (ps 2) = Publish Steal i seen)"
proof -
  obtain W ps where S: "play_all race fresh_path = (W, ps)" by (meson surj_pair)
  obtain W' ps' where S': "advance_process 2 (W, ps) = (W', ps')" by (meson surj_pair)
  have run: "lease_run timely fresh_path (W, ps)"
    using lease_run_play_all [OF lease_run.start race_result(2)] by (simp only: S)
  have view: "race_view (W, ps)" using race_result(1) by (simp only: S)
  then have "holds_lease W (ps 1)" "\<not> holds_lease W' (ps' 1)"
    using S' unfolding race_view_def prod.case by auto
  moreover have "(1 :: nat) \<noteq> 2" by simp
  ultimately show ?thesis using lease_fenced [OF run fresh_path_start] run S' by meson
qed

end
