(* ===== verification/Spec2Isabelle.thy ===== *)
theory Spec2Isabelle
  imports Handshake Session Status Plan_Contracts Placement Ledger Readiness Supervisor Shards Lease
begin

text \<open>
  A verification development for ExaServe, a system that deploys replicas of language models over the nodes of a
  batch allocation, with Ray inside and an authenticated control plane of its own around it. Paths below are relative
  to \<^verbatim>\<open>src/exaserve/\<close> of the repository.

  \<^bold>\<open>The program and its parts.\<close> A configuration is compiled to an immutable plan: models, replicas with their ranks and devices,
  and a set of receipt slots, the evidence the deployment owes (\<^verbatim>\<open>plan/compiler.py\<close>, \<^verbatim>\<open>plan/contracts.py\<close>). At run time a head process
  and one node supervisor per rank run. Each rank dials the head, registers, sends a snapshot of its
  observations and receipts in chunks, and acknowledges the head's acceptance (\<^verbatim>\<open>control/transport.py\<close>, over the frames of
  \<^verbatim>\<open>control/contracts.py\<close>). On the head, the session coordinator decides when every rank is present and the start
  command may be given (\<^verbatim>\<open>control/session.py\<close>); the receipt ledger accepts evidence slot by slot, under the authority of the
  session that submits it (\<^verbatim>\<open>compat/receipt_v2.py\<close>), and writes the live instances through to a durable store
  (\<^verbatim>\<open>state/bindings.py\<close>); the readiness coordinator compares what is observed with the plan and commits and revokes READY
  (\<^verbatim>\<open>control/plan_readiness.py\<close>). Processes are started, observed and stopped by the supervisor (\<^verbatim>\<open>control/supervisor.py\<close>). The state of a
  deployment is published in a status record with a compare-and-set discipline under an exclusive lease
  (\<^verbatim>\<open>state/status.py\<close>, \<^verbatim>\<open>state/atomic.py\<close>). Weights of pipeline-parallel models are planned to the
  nodes that need them (\<^verbatim>\<open>shard_prune.py\<close>, \<^verbatim>\<open>pp_stage.py\<close>).

  \<^bold>\<open>Theories.\<close>

  \<^item> \<open>Exa_Prelude\<close>: Python values, readings of them, validation chains, text and association-list lemmas, the decimal
    texts of integers, the collections \<open>py_simps\<close> and \<open>check_simps\<close>.
  \<^item> \<open>Session\<close> (\<^verbatim>\<open>control/session.py\<close>): rank sessions, snapshot assemblies and every method of
    \<^verbatim>\<open>SessionCoordinator\<close>. Invariant of every reachable state; the START gate; absorption of the terminal generation.
  \<^item> \<open>Plan_Binding\<close>, \<open>Plan_Contracts\<close> (\<^verbatim>\<open>plan/contracts.py\<close>): node identity, allocation, limits, the plan records with the checks of
    their constructors and the receipt slots. A valid plan fits the hardware, and its slots are
    partitioned between head and ranks.
  \<^item> \<open>Placement\<close> (\<^verbatim>\<open>plan/compiler.py\<close>): model intents from raw values and the placement of replicas. The placement
    terminates, keeps the promised number of replicas, and passes the validators of the plan.
  \<^item> \<open>Receipts\<close>, \<open>Bindings\<close>, \<open>Ledger\<close> (\<^verbatim>\<open>compat/receipt_v2.py\<close>, \<^verbatim>\<open>compat/profile.py\<close>, \<^verbatim>\<open>compat/producers.py\<close>,
    \<^verbatim>\<open>state/bindings.py\<close>): receipts and their validation, the binding store with its batch files, the ledger. Exactness of a satisfied ledger,
    authority of submissions, isolation of ranks and the installation of snapshots, recovery of the store.
  \<^item> \<open>Readiness\<close> (\<^verbatim>\<open>control/plan_readiness.py\<close>): observations, verdict and phases. The verdict is an explicit
    specification; READY goes back to a commit that nothing revoked; live nodes and ranks correspond one to one.
  \<^item> \<open>Json\<close>, \<open>Wire\<close> (\<^verbatim>\<open>control/contracts.py\<close>, frames of \<^verbatim>\<open>control/transport.py\<close>): canonical JSON, observations, envelopes, frames. Round trip of
    frames, authenticity of what is read, exactness of the validation of observations.
  \<^item> \<open>Transport\<close>, \<open>Channel\<close>, \<open>Network\<close> (\<^verbatim>\<open>ControlListener\<close> of \<^verbatim>\<open>control/transport.py\<close>): the handlers of every frame kind; the atomic effects
    a turn is made of; the listener with any number of connections, on any input. Bound and ordered
    deliveries, the barrier, exclusive sessions, authoritative command results, bounded memory.
  \<^item> \<open>Node_Channel\<close> (\<^verbatim>\<open>NodeChannel\<close> of \<^verbatim>\<open>control/transport.py\<close>): the rank's side, with failing writes and reconnections. Two results for one
    command never differ.
  \<^item> \<open>Handshake\<close>: both sides together. A snapshot sent in chunks is assembled to the same items, and its acceptance
    establishes the rank.
  \<^item> \<open>Supervisor\<close> (\<^verbatim>\<open>control/supervisor.py\<close>): output capture, managed components, startup as a transaction, polling, supervision,
    shutdown.
  \<^item> \<open>Status\<close>, \<open>Lease\<close> (\<^verbatim>\<open>state/status.py\<close>, \<^verbatim>\<open>state/atomic.py\<close>): the status record with its strict loader, one winner per
    revision, the bounded history; the lease as interleaved system calls, fenced except for one race, which is exhibited.
  \<^item> \<open>Shards\<close> (\<^verbatim>\<open>shard_prune.py\<close>, \<^verbatim>\<open>pp_stage.py\<close>): partition of layers, shards of a stage, recipients. Every replica gets the whole model.
  \<^item> This theory: readiness, sessions and ledger interleaved. A READY deployment is attested rank by rank.

  \<^bold>\<open>How the code is rendered.\<close> A class is a record, its methods are functions on the record that return the reply next to the
  new state; dictionaries are association lists in insertion order; a method under a lock is one step, except in \<open>Lease\<close>, whose
  steps are system calls. Raised exceptions are values: a reason in place of a message. Values that the code
  inspects with \<^verbatim>\<open>isinstance\<close> are untyped (\<open>pyval\<close>) where they come from outside, and have the checked type where the
  code only enforces types. Python integers are unbounded; \<^verbatim>\<open>float()\<close> of an integer beyond the largest double is an error of its own, which escapes
  the handlers as in the code. Clocks are real numbers. A turn of the listener is atomic, with the callbacks of the head and the outcomes of its writes as
  parts of the turn. Interfaces that several operations share are locales, each interpreted on
  the definitions of the model: the record of a first cause (\<open>first_cause\<close>, for the session coordinator, the readiness coordinator and the
  supervisor), the journal of live instances a ledger relies on (\<open>slot_journal\<close>, for the binding store), and a status store over
  any lifecycle (\<open>lifecycle_store\<close>, for deployments and runs).

  \<^bold>\<open>Parameters.\<close> SHA-256 and HMAC are arbitrary functions; where a digest must look like one this is a hypothesis. The texts
  of floats are a pair of functions that are inverse on the floats in question. Children and process
  groups are arbitrary functions of time, and so are exit codes, drain threads and the exceptions of callbacks.
  Whether a time text is UTC, and the hashes of files, are parameters of the receipts.

  \<^bold>\<open>Bounds and fuel.\<close> The JSON reader takes fuel, and twice the length of its input and two more are proved to suffice (\<open>parse_fuel\<close>),
  so that its callers have no fuel. The loops that stop a child terminate by a measure, the number of their ticks
  before the deadline. Supervision takes fuel; with a timeout, the number of polls that fit in it
  is proved to be enough for every child. The placement loop is a partial function, and that it returns is a theorem. The caps of the code (256 status
  events, 4096 command identities, 1000 audit records and the like) are the numbers of the code.

  \<^bold>\<open>Not modelled.\<close> The channel runtime (\<^verbatim>\<open>control/channel_runtime.py\<close>) that wires listener, coordinator, ledger and a worker thread
  together, node supervisors, guardians and launchers of processes, the probes of Ray and Serve, the composition and the HTTP servers, engines,
  proxies, schedulers, sites and command lines: threads, sockets, processes and calls of third-party software, whose reports are arguments of the
  operations modelled here. Staging and broadcasting of files, import-time patches, telemetry, the C, Go and Rust programs, and the evaluation
  harness, which is not part of the deployed system. Within the modelled files: scheduling inside a turn of the listener and calls that only wait;
  clock skew between hosts; failures of the file system other than those the code handles; the heartbeat thread of the lease; conversions of
  plans to and from dictionaries.
\<close>

section \<open>The control plane of a deployment\<close>

text \<open>
  The coordinator of readiness shares the session coordinator and the ledger with the listener that
  serves the ranks. Calls of all three interleave: an observation or a phase transition of the
  readiness coordinator, a call of the session coordinator, and calls of the ledger, which may commit a
  snapshot staged on any earlier ledger. \<open>L0\<close> is the ledger the generation began with.
\<close>

inductive control_plane ::
    "('i list \<Rightarrow> string) \<Rightarrow> (receipt \<Rightarrow> string) \<Rightarrow> payload_hash \<Rightarrow> (string \<Rightarrow> bool) \<Rightarrow> ledger
      \<Rightarrow> 'i readiness \<Rightarrow> 'i readiness \<Rightarrow> bool"
  for HS H HB utc L0 R0 where
  start: "control_plane HS H HB utc L0 R0 R0"
| observe: "control_plane HS H HB utc L0 R0 R \<Longrightarrow> \<forall>L s. op \<noteq> ReadEvidence L s \<Longrightarrow>
    control_plane HS H HB utc L0 R0 (run_ready_op op R)"
| session: "control_plane HS H HB utc L0 R0 R \<Longrightarrow> rd_sessions R = Some s \<Longrightarrow>
    control_plane HS H HB utc L0 R0 (R\<lparr>rd_sessions := Some (run_op HS op s)\<rparr>)"
| receipts: "control_plane HS H HB utc L0 R0 R \<Longrightarrow> ledger_reach H HB utc L0 L \<Longrightarrow>
    control_plane HS H HB utc L0 R0 (R\<lparr>rd_receipts := L\<rparr>)"

lemma observe_keeps_evidence:
  "\<forall>L s. op \<noteq> ReadEvidence L s \<Longrightarrow>
     rd_receipts (run_ready_op op R) = rd_receipts R \<and> rd_sessions (run_ready_op op R) = rd_sessions R"
  by (cases op) (auto simp: attempt_def checked_def setter_defs transition_defs Let_def split: option.splits sum.splits)

lemma control_plane_trans:
  "control_plane HS H HB utc L0 R1 R2 \<Longrightarrow> control_plane HS H HB utc L0 R0 R1 \<Longrightarrow> control_plane HS H HB utc L0 R0 R2"
  by (induction rule: control_plane.induct) (auto intro: control_plane.intros)

text \<open>What the parts of a control plane keep of their own runs.\<close>

lemma control_plane_parts:
  assumes "control_plane HS H HB utc L0 R0 R" "new_readiness d b L0 (Some (init_coordinator limits b)) = Inr R0"
  shows "rd_plan R = d \<and> rd_binding R = b \<and> ledger_reach H HB utc L0 (rd_receipts R) \<and>
    (\<exists>s. rd_sessions R = Some s \<and> session_reach HS limits b s)"
  using assms
proof (induction rule: control_plane.induct)
  case start
  then show ?case
    by (auto simp: new_readiness_def check_simps intro: ledger_reach.init session_reach.init)
next
  case (observe R op)
  then show ?case using observe_keeps_evidence [of op R] ops_keep_plan [of op R] by simp
next
  case (session R s op)
  then show ?case by (auto intro: session_reach.step)
next
  case (receipts R L)
  then show ?case by simp
qed

text \<open>
  A rank is attested: its session is established, one live node with the planned resources bears its
  name, and every receipt slot planned on it holds evidence of this deployment from that node.
\<close>

definition rank_attested :: "deployment_plan \<Rightarrow> allocation_binding \<Rightarrow> 'i readiness \<Rightarrow> int \<Rightarrow> bool" where
  "rank_attested d b R r =
     (\<exists>s x name n. rd_sessions R = Some s \<and> session_of s r = Some x \<and> rs_state x = ESTABLISHED \<and>
        sc_generation_state s \<noteq> GEN_TERMINAL \<and>
        node_for b r = Some name \<and> n \<in> set (alive_nodes R) \<and> same_node name (rn_node_name n) \<and> resources_ok d n \<and>
        (\<forall>q \<in> set (requirements_for_rank d r). \<exists>e. map_of (lg_by_slot (rd_receipts R)) (rq_id q) = Some e \<and>
           evidence_matches d b q e \<and> same_node (rc_node_id e) (rn_node_name n)))"

lemma rank_slot_evidence:
  assumes "ledger_inv H utc L0 L" "satisfied L" "distinct (map rq_id (dp_receipt_requirements (lg_plan L0)))"
    and "q \<in> set (requirements_for_rank (lg_plan L0) r)" "node_for (lg_binding L0) r = Some name"
  shows "\<exists>e. map_of (lg_by_slot L) (rq_id q) = Some e \<and> evidence_matches (lg_plan L0) (lg_binding L0) q e \<and>
    same_node name (rc_node_id e)"
proof -
  have q: "q \<in> set (dp_receipt_requirements (lg_plan L0))" using assms(4) by (simp add: requirements_for_rank_def)
  obtain e where e: "map_of (lg_by_slot L) (rq_id q) = Some e" and cred: "credible H utc L0 (rq_id q) e"
    using satisfied_slot_credible [OF assms(1,2) q] by blast
  have slot: "slot_of (lg_plan L0) (rq_id q) = Some q" using assms(3) q by (rule slot_of_distinct)
  have m: "evidence_matches (lg_plan L0) (lg_binding L0) q e" using credible_matches [OF cred slot] .
  moreover have "same_node name (rc_node_id e)"
    using cred m slot assms(4,5)
    by (auto simp: credible_def owner_ok_def evidence_matches_def requirements_for_rank_def)
  ultimately show ?thesis using e by blast
qed

lemma session_established:
  assumes "sessions_established R" "rd_sessions R = Some s" "session_reach HS limits b s" "r \<in> set (ab_ranks b)"
  shows "\<exists>x. session_of s r = Some x \<and> rs_state x = ESTABLISHED"
proof -
  obtain x where x: "session_of s r = Some x"
    using session_inv_session_of [OF session_reach_inv [OF assms(3)], of r] session_reach_frame [OF assms(3)] assms(4)
    by auto
  then have "(r, x) \<in> set (sc_sessions s)" by (simp add: session_of_def map_of_SomeD)
  with x show ?thesis using assms(1,2) by (auto simp: sessions_established_def)
qed

lemma rank_node:
  assumes "nodes_exact R" "allocation_binding_ok (rd_binding R)" "r \<in> set (ab_ranks (rd_binding R))"
  shows "\<exists>name n. node_for (rd_binding R) r = Some name \<and> n \<in> set (alive_nodes R) \<and>
    same_node name (rn_node_name n) \<and> resources_ok (rd_plan R) n"
proof -
  obtain name where name: "node_for (rd_binding R) r = Some name" "(r, name) \<in> set (ab_rank_to_node (rd_binding R))"
    using ranks_node_for [OF assms(2,3)] by blast
  then obtain n where n: "node_matches R name = [n]" "resources_ok (rd_plan R) n"
    using assms(1) by (auto simp: nodes_exact_def)
  have "canonical_node_id name \<noteq> []" using allocation_binding_okD(2,3) [OF assms(2)] name(2) by auto
  then show ?thesis using name(1) n matches_mem [OF n(1)] by (auto simp: same_node_def)
qed

lemma ready_attested:
  assumes "new_ledger d b f m st = Inr L0" "new_readiness d b L0 (Some (init_coordinator limits b)) = Inr R0"
    and "control_plane HS H HB utc L0 R0 R" "ready_spec R"
    and "allocation_binding_ok b" "distinct (map rq_id (dp_receipt_requirements d))" "r \<in> set (ab_ranks b)"
  shows "rank_attested d b R r"
proof -
  note L0 = new_ledger_fields [OF assms(1)]
  obtain s where parts: "rd_plan R = d" "rd_binding R = b" "ledger_reach H HB utc L0 (rd_receipts R)"
      "rd_sessions R = Some s" "session_reach HS limits b s"
    using control_plane_parts [OF assms(3,2)] by blast
  have ready: "sessions_established R" "nodes_exact R" "satisfied (rd_receipts R)"
    using assms(4) by (simp_all add: ready_spec_def)
  obtain x where x: "session_of s r = Some x" "rs_state x = ESTABLISHED"
    using session_established [OF ready(1) parts(4,5) assms(7)] by blast
  obtain name n where n: "node_for b r = Some name" "n \<in> set (alive_nodes R)" "same_node name (rn_node_name n)"
      "resources_ok d n"
    using rank_node [OF ready(2), of r] assms(5,7) by (auto simp: parts(1,2))
  have "\<exists>e. map_of (lg_by_slot (rd_receipts R)) (rq_id q) = Some e \<and> evidence_matches d b q e \<and>
      same_node (rc_node_id e) (rn_node_name n)" if "q \<in> set (requirements_for_rank d r)" for q
    using rank_slot_evidence [OF ledger_reach_inv [OF parts(3) L0(4)] ready(3), of q r name] assms(6) that n
    by (auto simp: L0 intro: same_node_trans [OF same_node_sym])
  moreover have "sc_generation_state s \<noteq> GEN_TERMINAL" using ready(1) parts(4) by (simp add: sessions_established_def)
  ultimately show ?thesis unfolding rank_attested_def using parts(4) x n by blast
qed

lemma ready_phase_from_commit:
  assumes "control_plane HS H HB utc L0 R0 R" "rd_phase R = READY_PHASE" "rd_phase R0 \<noteq> READY_PHASE"
  shows "\<exists>C. control_plane HS H HB utc L0 R0 C \<and> ready_spec C \<and>
    control_plane HS H HB utc L0 (fst (commit_ready C)) R"
  using assms
proof (induction rule: control_plane.induct)
  case start
  then show ?case by simp
next
  case (observe R op)
  show ?case
  proof (cases "op = CommitReady \<and> ready_spec R")
    case True
    then show ?thesis using observe.hyps(1) by (auto intro: control_plane.start)
  next
    case False
    then have "rd_phase R = READY_PHASE"
      using observe.prems setters_keep_phase [of op R]
      by (cases op) (auto simp: transition_defs Let_def ready_iff split: if_splits)
    then show ?thesis using observe by (blast intro: control_plane.observe)
  qed
qed (auto intro: control_plane.intros)

section \<open>Cross-component properties\<close>

text \<open>
  (C1) READY means attested. However the calls of the readiness coordinator, the session coordinator and
  the receipt ledger interleave, a deployment in the READY phase was committed at a moment when, for
  every rank of the allocation, the control session was established in a generation that was not
  terminal, a live Ray node bore the rank's name and had the planned resources, and every receipt slot
  planned on the rank held evidence that names this plan, allocation and generation and comes from
  that very node; every model ran all its planned replicas and answered on its route.
\<close>

theorem ready_means_attested:
  assumes "new_ledger d b f m st = Inr L0" and "new_readiness d b L0 (Some (init_coordinator limits b)) = Inr R0"
    and "control_plane HS H HB utc L0 R0 R" and "rd_phase R = READY_PHASE"
    and "allocation_binding_ok b" and "distinct (map rq_id (dp_receipt_requirements d))"
  shows "\<exists>C. control_plane HS H HB utc L0 R0 C \<and> control_plane HS H HB utc L0 (fst (commit_ready C)) R \<and>
    (\<forall>r \<in> set (ab_ranks b). rank_attested d b C r) \<and> models_serving C"
proof -
  have "rd_phase R0 \<noteq> READY_PHASE" using assms(2) by (auto simp: new_readiness_def check_simps)
  then obtain C where C: "control_plane HS H HB utc L0 R0 C" "ready_spec C"
      "control_plane HS H HB utc L0 (fst (commit_ready C)) R"
    using ready_phase_from_commit [OF assms(3,4)] by blast
  then show ?thesis using ready_attested [OF assms(1,2)] assms(5,6) by (auto simp: ready_spec_def)
qed

section \<open>A deployment that becomes ready\<close>

lemma control_plane_session_ops:
  assumes "control_plane HS H HB utc L0 R0 R" "rd_sessions R = Some s"
  shows "control_plane HS H HB utc L0 R0 (R\<lparr>rd_sessions := Some (run_ops HS ops s)\<rparr>)"
  using assms
proof (induction ops arbitrary: R s)
  case Nil
  then have "R\<lparr>rd_sessions := Some s\<rparr> = R" by simp
  then show ?case using Nil.prems(1) by simp
next
  case (Cons op ops)
  then show ?case
    using Cons.IH [OF control_plane.session [OF Cons.prems, of op]] by simp
qed

lemma control_plane_ready_ops:
  assumes "control_plane HS H HB utc L0 R0 R" "\<forall>op \<in> set ops. \<forall>L s. op \<noteq> ReadEvidence L s"
  shows "control_plane HS H HB utc L0 R0 (run_ready_ops ops R)"
  using assms(2)
proof (induction ops rule: rev_induct)
  case Nil
  then show ?case using assms(1) by (simp add: run_ready_ops_def)
next
  case (snoc op ops)
  then show ?case by (auto simp: run_ready_ops_append intro: control_plane.observe)
qed

lemma new_readiness_sessions:
  "new_readiness d b L s = Inr R \<Longrightarrow> new_readiness d b L s' = Inr (R\<lparr>rd_sessions := s'\<rparr>) \<and> rd_sessions R = s"
  by (auto simp: new_readiness_def check_simps)

definition fresh_readiness :: "nat readiness" where
  "fresh_readiness =
     sample_readiness\<lparr>rd_sessions := Some (init_coordinator default_control_limits attested_allocation)\<rparr>"

lemma fresh_readiness_new:
  "new_readiness attested_plan attested_allocation empty_ledger
     (Some (init_coordinator default_control_limits attested_allocation)) = Inr fresh_readiness"
  unfolding fresh_readiness_def using new_readiness_sessions [OF sample_readiness_new] by blast

definition committed_readiness :: "nat readiness" where
  "committed_readiness = fst (commit_ready observed_readiness)"

lemma committed_readiness_reached:
  "control_plane sample_hash (\<lambda>r. sample_sha) (\<lambda>e. sample_sha) (\<lambda>t. True) empty_ledger fresh_readiness committed_readiness"
proof -
  let ?run = "control_plane sample_hash (\<lambda>r. sample_sha) (\<lambda>e. sample_sha) (\<lambda>t. True) empty_ledger fresh_readiness"
  have "rd_sessions sample_readiness = Some sample_coordinator"
    using new_readiness_sessions [OF sample_readiness_new] by blast
  then have sample: "sample_readiness = fresh_readiness\<lparr>rd_sessions := Some sample_coordinator\<rparr>"
    by (simp add: fresh_readiness_def)
  have "?run sample_readiness"
    unfolding sample sample_coordinator_def
    by (rule control_plane_session_ops [OF control_plane.start]) (simp add: fresh_readiness_def)
  then have "?run (run_ready_ops sample_setters sample_readiness)"
    by (rule control_plane_ready_ops) (simp add: sample_setters_def)
  then have "?run observed_readiness"
    unfolding observed_readiness_def by (rule control_plane.receipts [OF _ full_ledger_reach])
  then show ?thesis
    unfolding committed_readiness_def using control_plane.observe [where op = CommitReady] by fastforce
qed

theorem ready_means_attested_witness:
  "rd_phase committed_readiness = READY_PHASE \<and>
   (\<exists>C. rank_attested attested_plan attested_allocation (C :: nat readiness) 0 \<and> models_serving C)"
proof -
  have ready: "rd_phase committed_readiness = READY_PHASE"
    using observed_ready by (simp add: committed_readiness_def commit_ready_def ready_iff Let_def)
  have "allocation_binding_ok attested_allocation" "0 \<in> set (ab_ranks attested_allocation)" by code_simp+
  then show ?thesis
    using ready ready_means_attested [OF empty_ledger_new fresh_readiness_new committed_readiness_reached ready]
      attested_distinct(1) by blast
qed

end
